(* ===== verification/Prelude.thy ===== *)
theory Prelude
  imports Main "HOL-Library.Word"
begin

unbundle bit_operations_syntax

text \<open>
  Types, the error values and the generic lemmas that every component of the model shares.

  Rust's machine integers are words of their width: \<open>u64\<close> is both Rust's \<open>u64\<close> and its
  \<open>i64\<close> (read with \<open>sint\<close>); a count or an index of type \<open>usize\<close> that only ever
  counts objects in memory is a \<open>nat\<close>, and where the code subtracts on \<open>usize\<close> or casts a
  negative number to it the wrap-around is written out.
  A \<open>Result\<close> of the code is \<open>fault + 'a\<close>: \<open>Raise\<close> carries the Ruby error of
  src/error.rs, \<open>Panic\<close> is a Rust panic (a failed assertion, an out-of-range index or
  slice, \<open>unwrap\<close> of nothing, \<open>unreachable!\<close>), which no Ruby program can rescue, and
  \<open>Undef\<close> is an access outside the memory the model knows (undefined behaviour of the code).
\<close>

type_synonym u8 = "8 word"
type_synonym u16 = "16 word"
type_synonym u32 = "32 word"
type_synonym u64 = "64 word"
type_synonym i32 = "32 word"
type_synonym i64 = "64 word"

section \<open>Errors\<close>

text \<open>The kinds of src/error.rs; the message texts are not modelled.\<close>

datatype parse_err_kind = UnexpectedEOF | UnexpectedToken | SyntaxError | NameErr

datatype runtime_err_kind =
    Name | NoMethod | Argument | Index | Type | Regexp | FiberErr | LocalJump
  | StopIteration | Runtime | LoadError | Range | ZeroDivision

datatype ruby_error =
    ParseErr parse_err_kind
  | RuntimeErr runtime_err_kind
  | ValueErr u64
  | MethodReturn
  | BlockReturn
  | Internal
  | NoneErr

datatype fault = Raise ruby_error | Panic | Undef

type_synonym 'a res = "fault + 'a"

definition rbind :: "'a res \<Rightarrow> ('a \<Rightarrow> 'b res) \<Rightarrow> 'b res" where
  "rbind m f = (case m of Inl e \<Rightarrow> Inl e | Inr x \<Rightarrow> f x)"

definition is_ok :: "'a res \<Rightarrow> bool" where
  "is_ok r = (case r of Inl _ \<Rightarrow> False | Inr _ \<Rightarrow> True)"

definition or_panic :: "'a option \<Rightarrow> 'a res" where
  "or_panic x = (case x of None \<Rightarrow> Inl Panic | Some y \<Rightarrow> Inr y)"

definition unwrap_or :: "'a res \<Rightarrow> 'a \<Rightarrow> 'a" where
  "unwrap_or r d = (case r of Inl _ \<Rightarrow> d | Inr x \<Rightarrow> x)"

lemma rbind_simps [simp]:
  "rbind (Inl e) f = Inl e"
  "rbind (Inr x) f = f x"
  by (simp_all add: rbind_def)

lemma rbind_Inr_iff: "rbind m f = Inr y \<longleftrightarrow> (\<exists>x. m = Inr x \<and> f x = Inr y)"
  by (cases m) simp_all

lemma rbind_Inl_iff:
  "rbind m f = Inl e \<longleftrightarrow> m = Inl e \<or> (\<exists>x. m = Inr x \<and> f x = Inl e)"
  by (cases m) simp_all

lemma is_ok_simps [simp]: "is_ok (Inr x)" "\<not> is_ok (Inl e)"
  by (simp_all add: is_ok_def)

lemma or_panic_simps [simp]: "or_panic None = Inl Panic" "or_panic (Some x) = Inr x"
  by (simp_all add: or_panic_def)

lemma unwrap_or_simps [simp]: "unwrap_or (Inr x) d = x" "unwrap_or (Inl e) d = d"
  by (simp_all add: unwrap_or_def)

section \<open>Operations on a state\<close>

text \<open>
  An operation that reads and writes the state \<open>'s\<close>, and may fail, keeps the state it had reached
  when it failed: a Ruby error can be rescued, and what was done before it stays done.
\<close>

type_synonym ('s, 'a) eff = "'s \<Rightarrow> 's \<times> 'a res"

definition ret :: "'a \<Rightarrow> ('s, 'a) eff" where
  "ret x s = (s, Inr x)"

definition raise :: "fault \<Rightarrow> ('s, 'a) eff" where
  "raise e s = (s, Inl e)"

definition bind :: "('s, 'a) eff \<Rightarrow> ('a \<Rightarrow> ('s, 'b) eff) \<Rightarrow> ('s, 'b) eff" where
  "bind m f s = (case m s of (s', r) \<Rightarrow> (case r of Inl e \<Rightarrow> (s', Inl e) | Inr x \<Rightarrow> f x s'))"

definition asks :: "('s \<Rightarrow> 'a res) \<Rightarrow> ('s, 'a) eff" where
  "asks f s = (s, f s)"

definition modify :: "('s \<Rightarrow> 's) \<Rightarrow> ('s, unit) eff" where
  "modify f s = (f s, Inr ())"

text \<open>A step that either fails with the state as it was, or gives a new one.\<close>

definition steps :: "('s \<Rightarrow> ('s \<times> 'a) res) \<Rightarrow> ('s, 'a) eff" where
  "steps f s = (case f s of Inl e \<Rightarrow> (s, Inl e) | Inr (s', x) \<Rightarrow> (s', Inr x))"

lemma eff_simps [simp]:
  "ret x s = (s, Inr x)" "raise e s = (s, Inl e)" "asks f s = (s, f s)" "modify g s = (g s, Inr ())"
  by (simp_all add: ret_def raise_def asks_def modify_def)

lemma bind_simps [simp]:
  "m s = (s', Inr x) \<Longrightarrow> bind m f s = f x s'"
  "m s = (s', Inl e) \<Longrightarrow> bind m f s = (s', Inl e)"
  by (simp_all add: bind_def)

lemma bind_ret [simp]: "bind (ret x) f = f x" "bind m ret = m"
  by (auto simp: bind_def fun_eq_iff ret_def split: prod.splits sum.splits)

lemma bind_assoc: "bind (bind m f) g = bind m (\<lambda>x. bind (f x) g)"
  by (auto simp: bind_def fun_eq_iff split: prod.splits sum.splits)

lemma bind_ok_iff:
  "bind m f s = (s', Inr y) \<longleftrightarrow> (\<exists>s1 x. m s = (s1, Inr x) \<and> f x s1 = (s', Inr y))"
  by (auto simp: bind_def split: prod.splits sum.splits)

lemma bind_fail_iff:
  "bind m f s = (s', Inl e) \<longleftrightarrow>
     m s = (s', Inl e) \<or> (\<exists>s1 x. m s = (s1, Inr x) \<and> f x s1 = (s', Inl e))"
  by (auto simp: bind_def split: prod.splits sum.splits)

lemma steps_simps [simp]:
  "f s = Inr (s', x) \<Longrightarrow> steps f s = (s', Inr x)" "f s = Inl e \<Longrightarrow> steps f s = (s, Inl e)"
  by (simp_all add: steps_def)

lemma steps_ok_iff: "steps f s = (s', Inr x) \<longleftrightarrow> f s = Inr (s', x)"
  by (auto simp: steps_def split: sum.splits prod.splits)

text \<open>An operation that leaves a part of the state, seen through \<open>t\<close>, as it was.\<close>

definition keeps :: "('s \<Rightarrow> 'x) \<Rightarrow> ('s, 'a) eff \<Rightarrow> bool" where
  "keeps t f \<longleftrightarrow> (\<forall>s. t (fst (f s)) = t s)"

lemma keepsD: "keeps t f \<Longrightarrow> f s = (s', r) \<Longrightarrow> t s' = t s"
  by (metis fst_conv keeps_def)

lemma keeps_basic:
  "keeps t (ret x)" "keeps t (raise e)" "keeps t (asks f)"
  "(\<And>s. t (g s) = t s) \<Longrightarrow> keeps t (modify g)"
  by (simp_all add: keeps_def)

lemma keeps_bind: "keeps t f \<Longrightarrow> (\<And>x. keeps t (g x)) \<Longrightarrow> keeps t (bind f g)"
  by (auto simp: keeps_def bind_def split: prod.split sum.split) (metis fst_conv)+

lemma keeps_steps: "(\<And>s s' x. f s = Inr (s', x) \<Longrightarrow> t s' = t s) \<Longrightarrow> keeps t (steps f)"
  by (auto simp: keeps_def steps_def split: sum.split prod.split)

lemma keeps_option:
  "keeps t f \<Longrightarrow> (\<And>x. keeps t (g x)) \<Longrightarrow> keeps t (case u of None \<Rightarrow> f | Some x \<Rightarrow> g x)"
  by (cases u) simp_all

lemma keeps_if: "keeps t f \<Longrightarrow> keeps t g \<Longrightarrow> keeps t (if b then f else g)"
  by simp

lemmas keeps_intros = keeps_basic keeps_bind keeps_steps keeps_option keeps_if

section \<open>Orders\<close>

text \<open>\<open>std::cmp::Ordering\<close> and its cast to an integer.\<close>

datatype ordering = Less | Equal | Greater

definition ordering_int :: "ordering \<Rightarrow> int" where
  "ordering_int c = (case c of Less \<Rightarrow> -1 | Equal \<Rightarrow> 0 | Greater \<Rightarrow> 1)"

definition int_cmp :: "int \<Rightarrow> int \<Rightarrow> ordering" where
  "int_cmp a b = (if a < b then Less else if a = b then Equal else Greater)"

text \<open>Collections the component proofs draw on.\<close>

named_theorems model_defs \<open>definitions a component's proofs unfold\<close>
named_theorems word_facts \<open>facts about masks, shifts and tags\<close>

section \<open>Slices\<close>

text \<open>
  \<open>v[a..b]\<close> panics when \<open>a > b\<close> or \<open>b > v.len()\<close>; an index panics out of range.
\<close>

definition vslice :: "'a list \<Rightarrow> nat \<Rightarrow> nat \<Rightarrow> 'a list res" where
  "vslice xs a b = (if a \<le> b \<and> b \<le> length xs then Inr (take (b - a) (drop a xs)) else Inl Panic)"

definition index_at :: "'a list \<Rightarrow> nat \<Rightarrow> 'a res" where
  "index_at xs i = (if i < length xs then Inr (xs ! i) else Inl Panic)"

lemma slice_ok: "a \<le> b \<Longrightarrow> b \<le> length xs \<Longrightarrow> vslice xs a b = Inr (take (b - a) (drop a xs))"
  by (simp add: vslice_def)

lemma slice_panic_iff: "vslice xs a b = Inl e \<longleftrightarrow> (b < a \<or> length xs < b) \<and> e = Panic"
  by (auto simp: vslice_def)

lemma slice_length: "vslice xs a b = Inr ys \<Longrightarrow> length ys = b - a"
  by (auto simp: vslice_def split: if_splits)

lemma slice_nth: "vslice xs a b = Inr ys \<Longrightarrow> i < b - a \<Longrightarrow> ys ! i = xs ! (a + i)"
  by (auto simp: vslice_def split: if_splits)

lemma index_at_ok [simp]: "i < length xs \<Longrightarrow> index_at xs i = Inr (xs ! i)"
  by (simp add: index_at_def)

section \<open>Words\<close>

lemma unat_of_nat_64: "n < 2 ^ 64 \<Longrightarrow> unat (of_nat n :: u64) = n"
  by (simp add: unat_of_nat take_bit_nat_eq_self)

lemma unat_of_nat_32: "n < 2 ^ 32 \<Longrightarrow> unat (of_nat n :: u32) = n"
  by (simp add: unat_of_nat take_bit_nat_eq_self)

lemma word_less_succ:
  fixes x :: "'a::len word"
  assumes "x \<noteq> - 1"
  shows "x < 1 + x"
proof -
  have "1 + x \<noteq> 0" using assms max_word_wrap [of x] by (auto simp: add.commute)
  then show ?thesis by (simp add: word_less_nat_alt unatSuc)
qed

lemma word_and_bit_cases:
  fixes w :: "'a::len word"
  shows "w AND push_bit n 1 = (if bit w n then push_bit n 1 else 0)"
  by (rule bit_eqI) (auto simp: bit_simps)

end
