(* ===== verification/F64.thy ===== *)
theory F64
  imports Prelude
begin

text \<open>
  IEEE-754 binary64 as its bit pattern, for the operations of Rust's \<open>f64\<close> that the modelled
  code uses: comparisons, the conversions from and to \<open>i64\<close>, and the arithmetic operators
  with round to nearest, ties to even. A finite number is an integer times a power of two, so
  every operation computes exactly on integers and rounds once. A NaN result is the canonical
  quiet NaN; the hardware may choose another payload.
\<close>

type_synonym f64 = "64 word"

definition f64_sign :: "f64 \<Rightarrow> bool" where
  "f64_sign b = bit b 63"

definition f64_exp :: "f64 \<Rightarrow> int" where
  "f64_exp b = uint (drop_bit 52 b AND 0x7ff)"

definition f64_frac :: "f64 \<Rightarrow> int" where
  "f64_frac b = uint (b AND 0xfffffffffffff)"

definition f64_is_nan :: "f64 \<Rightarrow> bool" where
  "f64_is_nan b \<longleftrightarrow> f64_exp b = 2047 \<and> f64_frac b \<noteq> 0"

definition f64_is_inf :: "f64 \<Rightarrow> bool" where
  "f64_is_inf b \<longleftrightarrow> f64_exp b = 2047 \<and> f64_frac b = 0"

definition f64_is_zero :: "f64 \<Rightarrow> bool" where
  "f64_is_zero b \<longleftrightarrow> b = 0 \<or> b = 0x8000000000000000"

definition f64_nan :: f64 where "f64_nan = 0x7ff8000000000000"
definition f64_inf :: "bool \<Rightarrow> f64" where
  "f64_inf neg = (if neg then 0xfff0000000000000 else 0x7ff0000000000000)"
definition f64_zero :: "bool \<Rightarrow> f64" where
  "f64_zero neg = (if neg then 0x8000000000000000 else 0)"

text \<open>The number line position of a non-NaN: sign and magnitude read as one integer.\<close>

definition f64_key :: "f64 \<Rightarrow> int" where
  "f64_key b = (let m = uint (b AND 0x7fffffffffffffff) in if f64_sign b then - m else m)"

definition f64_eq :: "f64 \<Rightarrow> f64 \<Rightarrow> bool" where
  "f64_eq a b \<longleftrightarrow> \<not> f64_is_nan a \<and> \<not> f64_is_nan b \<and> f64_key a = f64_key b"

definition f64_lt :: "f64 \<Rightarrow> f64 \<Rightarrow> bool" where
  "f64_lt a b \<longleftrightarrow> \<not> f64_is_nan a \<and> \<not> f64_is_nan b \<and> f64_key a < f64_key b"

definition f64_le :: "f64 \<Rightarrow> f64 \<Rightarrow> bool" where
  "f64_le a b \<longleftrightarrow> \<not> f64_is_nan a \<and> \<not> f64_is_nan b \<and> f64_key a \<le> f64_key b"

definition f64_cmp :: "f64 \<Rightarrow> f64 \<Rightarrow> ordering option" where
  "f64_cmp a b =
     (if f64_is_nan a \<or> f64_is_nan b then None else Some (int_cmp (f64_key a) (f64_key b)))"

definition f64_neg :: "f64 \<Rightarrow> f64" where
  "f64_neg b = b XOR 0x8000000000000000"

text \<open>A finite value is \<open>(- 1) ^ sign * mant * 2 ^ pow\<close>.\<close>

definition f64_mant :: "f64 \<Rightarrow> int" where
  "f64_mant b = (if f64_exp b = 0 then f64_frac b else f64_frac b + 2 ^ 52)"

definition f64_pow :: "f64 \<Rightarrow> int" where
  "f64_pow b = (if f64_exp b = 0 then - 1074 else f64_exp b - 1075)"

definition f64_int :: "f64 \<Rightarrow> int" where
  "f64_int b = (if f64_sign b then - f64_mant b else f64_mant b)"

function bit_length :: "int \<Rightarrow> nat" where
  "bit_length n = (if n \<le> 0 then 0 else Suc (bit_length (n div 2)))"
  by pat_completeness auto
termination
  by (relation "measure nat") auto

declare bit_length.simps [simp del]

definition div_half_even :: "int \<Rightarrow> int \<Rightarrow> int" where
  "div_half_even n d =
     (let q = n div d; r = n mod d
      in if 2 * r < d \<or> (2 * r = d \<and> even q) then q else q + 1)"

text \<open>Rounding the positive rational \<open>n / d\<close> to binary64 (with the given sign).\<close>

definition f64_round :: "bool \<Rightarrow> int \<Rightarrow> int \<Rightarrow> f64" where
  "f64_round neg n d =
     (if n = 0 then f64_zero neg
      else
        let l = int (bit_length n) - int (bit_length d);
            q = (if n * 2 ^ nat (- l) < d * 2 ^ nat l then l - 1 else l);
            e = max (q - 52) (- 1074);
            m = div_half_even (n * 2 ^ nat (- e)) (d * 2 ^ nat e);
            bits = (if m < 2 ^ 52 then m else (e + 1075) * 2 ^ 52 + m - 2 ^ 52)
        in if 2047 * 2 ^ 52 \<le> bits then f64_inf neg
           else word_of_int bits OR f64_zero neg)"

definition f64_of_int :: "int \<Rightarrow> f64" where
  "f64_of_int i = f64_round (i < 0) \<bar>i\<bar> 1"

definition f64_of_i64 :: "i64 \<Rightarrow> f64" where
  "f64_of_i64 i = f64_of_int (sint i)"

definition f64_add :: "f64 \<Rightarrow> f64 \<Rightarrow> f64" where
  "f64_add a b =
     (if f64_is_nan a \<or> f64_is_nan b then f64_nan
      else if f64_is_inf a then (if f64_is_inf b \<and> f64_sign a \<noteq> f64_sign b then f64_nan else a)
      else if f64_is_inf b then b
      else
        let e = min (f64_pow a) (f64_pow b);
            s = f64_int a * 2 ^ nat (f64_pow a - e) + f64_int b * 2 ^ nat (f64_pow b - e)
        in if s = 0 then f64_zero (f64_sign a \<and> f64_sign b)
           else f64_round (s < 0) (\<bar>s\<bar> * 2 ^ nat e) (2 ^ nat (- e)))"

definition f64_sub :: "f64 \<Rightarrow> f64 \<Rightarrow> f64" where
  "f64_sub a b = (if f64_is_nan b then f64_nan else f64_add a (f64_neg b))"

definition f64_mul :: "f64 \<Rightarrow> f64 \<Rightarrow> f64" where
  "f64_mul a b =
     (let neg = (f64_sign a \<noteq> f64_sign b) in
      if f64_is_nan a \<or> f64_is_nan b then f64_nan
      else if f64_is_inf a \<or> f64_is_inf b
        then (if f64_is_zero a \<or> f64_is_zero b then f64_nan else f64_inf neg)
      else
        let e = f64_pow a + f64_pow b
        in f64_round neg (f64_mant a * f64_mant b * 2 ^ nat e) (2 ^ nat (- e)))"

definition f64_div :: "f64 \<Rightarrow> f64 \<Rightarrow> f64" where
  "f64_div a b =
     (let neg = (f64_sign a \<noteq> f64_sign b) in
      if f64_is_nan a \<or> f64_is_nan b then f64_nan
      else if f64_is_inf a then (if f64_is_inf b then f64_nan else f64_inf neg)
      else if f64_is_inf b then f64_zero neg
      else if f64_is_zero b then (if f64_is_zero a then f64_nan else f64_inf neg)
      else
        let e = f64_pow a - f64_pow b
        in f64_round neg (f64_mant a * 2 ^ nat e) (f64_mant b * 2 ^ nat (- e)))"

text \<open>The integral part towards zero and towards minus infinity, of a finite number.\<close>

definition f64_trunc_int :: "f64 \<Rightarrow> int" where
  "f64_trunc_int b =
     (let m = f64_mant b * 2 ^ nat (f64_pow b) div 2 ^ nat (- f64_pow b)
      in if f64_sign b then - m else m)"

definition f64_floor_int :: "f64 \<Rightarrow> int" where
  "f64_floor_int b = f64_int b * 2 ^ nat (f64_pow b) div 2 ^ nat (- f64_pow b)"

text \<open>\<open>as i64\<close> of a float saturates and maps NaN to zero.\<close>

definition i64_min :: int where "i64_min = - (2 ^ 63)"
definition i64_max :: int where "i64_max = 2 ^ 63 - 1"

definition i64_saturate :: "int \<Rightarrow> i64" where
  "i64_saturate i = word_of_int (max i64_min (min i64_max i))"

definition f64_to_i64 :: "f64 \<Rightarrow> i64" where
  "f64_to_i64 b =
     (if f64_is_nan b then 0
      else if f64_is_inf b then word_of_int (if f64_sign b then i64_min else i64_max)
      else i64_saturate (f64_trunc_int b))"

definition f64_floor_to_i64 :: "f64 \<Rightarrow> i64" where
  "f64_floor_to_i64 b =
     (if f64_is_nan b then 0
      else if f64_is_inf b then word_of_int (if f64_sign b then i64_min else i64_max)
      else i64_saturate (f64_floor_int b))"

text \<open>The remainder, exact and with the sign of the dividend (\<open>%\<close> of Rust).\<close>

definition f64_rem :: "f64 \<Rightarrow> f64 \<Rightarrow> f64" where
  "f64_rem a b =
     (if f64_is_nan a \<or> f64_is_nan b \<or> f64_is_inf a \<or> f64_is_zero b then f64_nan
      else if f64_is_inf b then a
      else
        let e = min (f64_pow a) (f64_pow b);
            r = (f64_mant a * 2 ^ nat (f64_pow a - e)) mod (f64_mant b * 2 ^ nat (f64_pow b - e))
        in if r = 0 then f64_zero (f64_sign a)
           else f64_round (f64_sign a) (r * 2 ^ nat e) (2 ^ nat (- e)))"

section \<open>Facts\<close>

lemma f64_eq_sym: "f64_eq a b = f64_eq b a"
  by (auto simp: f64_eq_def)

lemma f64_eq_trans: "f64_eq a b \<Longrightarrow> f64_eq b c \<Longrightarrow> f64_eq a c"
  by (auto simp: f64_eq_def)

lemma f64_eq_refl: "f64_eq a a \<longleftrightarrow> \<not> f64_is_nan a"
  by (auto simp: f64_eq_def)

lemma f64_lt_irrefl: "\<not> f64_lt a a"
  by (simp add: f64_lt_def)

lemma f64_lt_trans: "f64_lt a b \<Longrightarrow> f64_lt b c \<Longrightarrow> f64_lt a c"
  by (auto simp: f64_lt_def)

lemma f64_trichotomy:
  "\<not> f64_is_nan a \<Longrightarrow> \<not> f64_is_nan b \<Longrightarrow> f64_lt a b \<or> f64_eq a b \<or> f64_lt b a"
  by (auto simp: f64_lt_def f64_eq_def)

lemma f64_le_iff: "f64_le a b \<longleftrightarrow> f64_lt a b \<or> f64_eq a b"
  by (auto simp: f64_le_def f64_lt_def f64_eq_def)

lemma f64_is_zero_not_nan: "f64_is_zero b \<Longrightarrow> \<not> f64_is_nan b"
  by (auto simp: f64_is_zero_def f64_is_nan_def f64_exp_def)

end
