(* ===== verification/RValue.thy ===== *)
theory RValue
  imports F64 "HOL-Library.AList"
begin

text \<open>
  The data of src/value/rvalue.rs and the structures its objects hold (src/value/class.rs,
  src/vm/context.rs, src/vm/args.rs, src/coroutine.rs, src/builtin/range.rs), with the
  enumeration of the values an object refers to, in the order in which the code's
  \<open>GC::mark\<close> visits them.

  A \<open>Value\<close> is its 64 bits. Objects live in the collector's heap (theory Alloc); contexts
  and class extensions are boxed outside it, in the stores of \<open>boxes\<close>, and are named by their
  address. A hash table is an association list in iteration order.
\<close>

type_synonym val = u64

datatype block = BBlock u32 u64 | BProc val | BNone

record args =
  a_block :: block
  kw_arg :: val
  elems :: "val list"

datatype iseq_kind = OtherK | MethodK "u32 option" | ClassK u32 | BlockK

record iseq_params =
  req :: nat
  opt :: nat
  rest :: "bool option"
  post :: nat
  has_block :: bool
  keyword :: "(u32 \<times> nat) list"
  kwrest :: bool

record exception_entry =
  ex_start :: nat
  ex_end :: nat
  ex_dest :: nat

record iseq_info =
  imethod :: u32
  icode :: "u8 list"
  exception_table :: "exception_entry list"
  forvars :: "(u32 \<times> u32) list"
  params :: iseq_params
  lvars :: nat
  ikind :: iseq_kind
  opt_flag :: bool
  kwrest_param :: "nat option"
  block_param :: "nat option"

record ruby_context =
  self_value :: val
  c_block :: block
  lvar_ary :: "val list"
  lvar_vec :: "val list"
  iseq_ref :: "iseq_info option"
  outer :: "u64 option"
  moved_to_heap :: "u64 option"
  on_stack :: bool
  ckind :: iseq_kind

record vm_state =
  cur_context :: "u64 option"
  exec_context :: "u64 list"
  class_context :: "(val \<times> bool) list"
  exec_stack :: "val list"
  temp_stack :: "val list"
  vm_pc :: nat

datatype fiber_state = Created | Running | Dead

record enum_info =
  receiver :: val
  emethod :: u32
  eargs :: args

datatype fiber_kind = FiberK u64 | EnumK enum_info

record fiber_context =
  fstate :: fiber_state
  fvm :: vm_state
  fkind :: fiber_kind

record class_info =
  upper_field :: "val option"
  flags :: u8
  ext :: u64

record class_ext =
  cname :: "string option"
  method_table :: "(u32 \<times> u32) list"
  const_table :: "(u32 \<times> val) list"
  singleton_for :: "val option"
  origin :: "val option"

datatype rstring = Str string | SmallStr string | Bytes "u8 list"

record range_info =
  rstart :: val
  rend :: val
  exclude :: bool

record method_obj =
  mname :: u32
  mreceiver :: val
  mmethod :: u32

datatype hash_info = HMap "(val \<times> val) list" | HIdentMap "(val \<times> val) list"

text \<open>
  Payloads no modelled operation looks into (a compiled regexp, a time) are left as numbers.
\<close>

datatype objkind =
    Invalid
  | Ordinary
  | Integer i64
  | Float f64
  | Complex val val
  | Module class_info
  | StringK rstring
  | Array "val list"
  | RangeK range_info
  | Splat val
  | Hash hash_info
  | Proc u64
  | RegexpK nat
  | MethodObj method_obj
  | Fiber fiber_context
  | Enumerator fiber_context
  | Time nat
  | Exception ruby_error

record rvalue =
  rclass :: val
  var_table :: "(u32 \<times> val) list option"
  kind :: objkind

definition nil_value :: val where "nil_value = 0x24"

definition rvalue_new_invalid :: rvalue where
  "rvalue_new_invalid = \<lparr>rclass = nil_value, var_table = None, kind = Invalid\<rparr>"

definition rvalue_new :: "val \<Rightarrow> objkind \<Rightarrow> rvalue" where
  "rvalue_new c k = \<lparr>rclass = c, var_table = None, kind = k\<rparr>"

text \<open>\<open>RValue::free\<close>: the class reference stays.\<close>

definition rvalue_free :: "rvalue \<Rightarrow> rvalue" where
  "rvalue_free r =
     (if kind r = Invalid then r else r\<lparr>kind := Invalid, var_table := None\<rparr>)"

definition rvalue_free_done :: "rvalue \<Rightarrow> bool" where
  "rvalue_free_done r = (kind r \<noteq> Invalid)"

section \<open>Instance variables\<close>

definition get_var :: "rvalue \<Rightarrow> u32 \<Rightarrow> val option" where
  "get_var r i = (case var_table r of Some t \<Rightarrow> map_of t i | None \<Rightarrow> None)"

definition set_var :: "rvalue \<Rightarrow> u32 \<Rightarrow> val \<Rightarrow> rvalue \<times> val option" where
  "set_var r i v =
     (case var_table r of
        Some t \<Rightarrow> (r\<lparr>var_table := Some (AList.update i v t)\<rparr>, map_of t i)
      | None \<Rightarrow> (r\<lparr>var_table := Some [(i, v)]\<rparr>, None))"

definition set_var_if_exists :: "rvalue \<Rightarrow> u32 \<Rightarrow> val \<Rightarrow> rvalue \<times> bool" where
  "set_var_if_exists r i v =
     (case get_var r i of
        Some _ \<Rightarrow> (fst (set_var r i v), True)
      | None \<Rightarrow> (r, False))"

lemma get_set_var: "get_var (fst (set_var r i v)) j = (if j = i then Some v else get_var r j)"
  by (auto simp: get_var_def set_var_def update_conv split: option.splits)

lemma set_var_old: "snd (set_var r i v) = get_var r i"
  by (auto simp: get_var_def set_var_def split: option.splits)

lemma get_set_var_if_exists:
  "get_var (fst (set_var_if_exists r i v)) j =
     (if j = i \<and> get_var r i \<noteq> None then Some v else get_var r j)"
  by (auto simp: set_var_if_exists_def get_set_var split: option.splits)

section \<open>The values an object refers to\<close>

record boxes =
  contexts :: "u64 \<Rightarrow> ruby_context option"
  exts :: "u64 \<Rightarrow> class_ext option"

definition load :: "('a \<Rightarrow> 'b option) \<Rightarrow> 'a \<Rightarrow> 'b res" where
  "load m a = (case m a of None \<Rightarrow> Inl Undef | Some x \<Rightarrow> Inr x)"

definition get_current :: "u64 \<Rightarrow> ruby_context \<Rightarrow> u64" where
  "get_current a c = (case moved_to_heap c of None \<Rightarrow> a | Some h \<Rightarrow> h)"

definition LVAR_ARRAY_SIZE :: nat where "LVAR_ARRAY_SIZE = 4"

text \<open>\<open>context[i]\<close>: the first four local variables are inline, the others in a vector.\<close>

definition ctx_get :: "ruby_context \<Rightarrow> nat \<Rightarrow> val res" where
  "ctx_get c i =
     (if i < LVAR_ARRAY_SIZE then index_at (lvar_ary c) i
      else index_at (lvar_vec c) (i - LVAR_ARRAY_SIZE))"

fun ctx_locals :: "ruby_context \<Rightarrow> nat list \<Rightarrow> val list res" where
  "ctx_locals c [] = Inr []"
| "ctx_locals c (i # js) =
     rbind (ctx_get c i) (\<lambda>v. rbind (ctx_locals c js) (\<lambda>vs. Inr (v # vs)))"

text \<open>
  \<open>Context::mark\<close>. Contexts have no mark bit: the code follows \<open>outer\<close> and the block's
  context recursively (\<open>visit\<close> is that recursive call). The fuel bounds the length of the
  chain; running out is \<open>Undef\<close>.
\<close>

definition ctx_block_values ::
    "boxes \<Rightarrow> (u64 \<Rightarrow> val list res) \<Rightarrow> ruby_context \<Rightarrow> val list res" where
  "ctx_block_values bx visit c =
     (case c_block c of
        BProc p \<Rightarrow> Inr [p]
      | BBlock _ octx \<Rightarrow> rbind (load (contexts bx) octx) (\<lambda>oc. visit (get_current octx oc))
      | BNone \<Rightarrow> Inr [])"

definition ctx_own_values ::
    "boxes \<Rightarrow> (u64 \<Rightarrow> val list res) \<Rightarrow> ruby_context \<Rightarrow> val list res" where
  "ctx_own_values bx visit c =
     (if on_stack c \<and> moved_to_heap c \<noteq> None then Inl Panic
      else
        rbind (case iseq_ref c of Some s \<Rightarrow> ctx_locals c [0..<lvars s] | None \<Rightarrow> Inr []) (\<lambda>ls.
        rbind (ctx_block_values bx visit c) (\<lambda>bs.
        rbind (case outer c of Some u \<Rightarrow> visit u | None \<Rightarrow> Inr []) (\<lambda>os.
        Inr (self_value c # ls @ bs @ os)))))"

fun ctx_values :: "boxes \<Rightarrow> nat \<Rightarrow> u64 \<Rightarrow> val list res" where
  "ctx_values bx 0 a = Inl Undef"
| "ctx_values bx (Suc fuel) a =
     rbind (load (contexts bx) a) (ctx_own_values bx (ctx_values bx fuel))"

fun concat_res :: "'a list res list \<Rightarrow> 'a list res" where
  "concat_res [] = Inr []"
| "concat_res (r # rs) = rbind r (\<lambda>x. rbind (concat_res rs) (\<lambda>y. Inr (x @ y)))"

definition block_values :: "boxes \<Rightarrow> nat \<Rightarrow> block \<Rightarrow> val list res" where
  "block_values bx fuel b =
     (case b of
        BBlock _ c \<Rightarrow> ctx_values bx fuel c
      | BProc v \<Rightarrow> Inr [v]
      | BNone \<Rightarrow> Inr [])"

definition args_values :: "boxes \<Rightarrow> nat \<Rightarrow> args \<Rightarrow> val list res" where
  "args_values bx fuel a =
     rbind (block_values bx fuel (a_block a)) (\<lambda>bs. Inr (elems a @ kw_arg a # bs))"

definition vm_values :: "boxes \<Rightarrow> nat \<Rightarrow> vm_state \<Rightarrow> val list res" where
  "vm_values bx fuel vm =
     rbind (concat_res (map (ctx_values bx fuel)
              (case cur_context vm of Some c \<Rightarrow> [c] | None \<Rightarrow> []))) (\<lambda>cur.
     rbind (concat_res (map (ctx_values bx fuel) (exec_context vm))) (\<lambda>ex.
     Inr (cur @ ex @ map fst (class_context vm) @ exec_stack vm @ temp_stack vm)))"

definition fiber_values :: "boxes \<Rightarrow> nat \<Rightarrow> fiber_context \<Rightarrow> val list res" where
  "fiber_values bx fuel f =
     (if fstate f = Dead then Inr []
      else
        rbind (vm_values bx fuel (fvm f)) (\<lambda>vs.
        rbind (case fkind f of
                 FiberK c \<Rightarrow> ctx_values bx fuel c
               | EnumK e \<Rightarrow> rbind (args_values bx fuel (eargs e)) (\<lambda>xs. Inr (receiver e # xs)))
          (\<lambda>ks. Inr (vs @ ks))))"

definition class_values :: "boxes \<Rightarrow> class_info \<Rightarrow> val list res" where
  "class_values bx ci =
     rbind (load (exts bx) (ext ci)) (\<lambda>e.
     Inr (case_option [] (\<lambda>u. [u]) (upper_field ci) @ map snd (const_table e) @
          case_option [] (\<lambda>m. [m]) (origin e)))"

definition hash_pairs :: "hash_info \<Rightarrow> (val \<times> val) list" where
  "hash_pairs h = (case h of HMap m \<Rightarrow> m | HIdentMap m \<Rightarrow> m)"

definition kind_values :: "boxes \<Rightarrow> nat \<Rightarrow> objkind \<Rightarrow> val list res" where
  "kind_values bx fuel k =
     (case k of
        Invalid \<Rightarrow> Inl Panic
      | Complex r i \<Rightarrow> Inr [r, i]
      | Module ci \<Rightarrow> class_values bx ci
      | Array vs \<Rightarrow> Inr vs
      | Hash h \<Rightarrow> Inr (concat (map (\<lambda>(k, v). [k, v]) (hash_pairs h)))
      | RangeK r \<Rightarrow> Inr [rstart r, rend r]
      | Splat v \<Rightarrow> Inr [v]
      | Proc c \<Rightarrow> ctx_values bx fuel c
      | MethodObj m \<Rightarrow> Inr [mreceiver m]
      | Enumerator f \<Rightarrow> fiber_values bx fuel f
      | Fiber f \<Rightarrow> fiber_values bx fuel f
      | Exception (ValueErr v) \<Rightarrow> Inr [v]
      | _ \<Rightarrow> Inr [])"

definition rvalue_values :: "boxes \<Rightarrow> nat \<Rightarrow> rvalue \<Rightarrow> val list res" where
  "rvalue_values bx fuel r =
     rbind (kind_values bx fuel (kind r)) (\<lambda>ks.
     Inr (rclass r # case_option [] (map snd) (var_table r) @ ks))"

section \<open>Enough fuel for the context chain\<close>

text \<open>More fuel does not change what a context refers to.\<close>

lemma ctx_block_values_mono:
  assumes "\<And>a vs. f a = Inr vs \<Longrightarrow> g a = Inr vs" "ctx_block_values bx f c = Inr vs"
  shows "ctx_block_values bx g c = Inr vs"
  using assms by (auto simp: ctx_block_values_def rbind_Inr_iff split: block.splits)

lemma ctx_own_values_mono:
  assumes "\<And>a vs. f a = Inr vs \<Longrightarrow> g a = Inr vs" "ctx_own_values bx f c = Inr vs"
  shows "ctx_own_values bx g c = Inr vs"
  using assms(2) ctx_block_values_mono [of f g, OF assms(1)] assms(1)
  unfolding ctx_own_values_def
  by (cases "outer c") (auto simp: rbind_Inr_iff split: if_splits)

lemma ctx_values_mono: "ctx_values bx n a = Inr vs \<Longrightarrow> ctx_values bx (Suc n) a = Inr vs"
proof (induction n arbitrary: a vs)
  case 0
  then show ?case by simp
next
  case (Suc n)
  from Suc.prems obtain c
    where c: "load (contexts bx) a = Inr c" "ctx_own_values bx (ctx_values bx n) c = Inr vs"
    by (auto simp: rbind_Inr_iff)
  from ctx_own_values_mono [of "ctx_values bx n" "ctx_values bx (Suc n)", OF Suc.IH c(2)] c(1)
  show ?case by (simp add: rbind_Inr_iff)
qed

lemma ctx_values_mono_le:
  assumes "ctx_values bx n a = Inr vs" "n \<le> m"
  shows "ctx_values bx m a = Inr vs"
  using assms(2,1) by (induction rule: dec_induct) (auto intro: ctx_values_mono simp del: ctx_values.simps)

text \<open>
  \<open>ctx_chain bx rank\<close>: every context a context leads to is present and of lower rank, no
  context is both on the stack and moved, and the locals are all there. Then the rank is fuel
  enough.
\<close>

definition ctx_succs :: "boxes \<Rightarrow> ruby_context \<Rightarrow> u64 list" where
  "ctx_succs bx c =
     (case c_block c of
        BBlock _ b \<Rightarrow> (case contexts bx b of Some bc \<Rightarrow> [b, get_current b bc] | None \<Rightarrow> [b])
      | _ \<Rightarrow> []) @ case_option [] (\<lambda>u. [u]) (outer c)"

definition ctx_chain :: "boxes \<Rightarrow> (u64 \<Rightarrow> nat) \<Rightarrow> bool" where
  "ctx_chain bx rank \<longleftrightarrow>
     (\<forall>a c. contexts bx a = Some c \<longrightarrow>
        \<not> (on_stack c \<and> moved_to_heap c \<noteq> None) \<and>
        (\<forall>s. iseq_ref c = Some s \<longrightarrow> is_ok (ctx_locals c [0..<lvars s])) \<and>
        (\<forall>b \<in> set (ctx_succs bx c). contexts bx b \<noteq> None \<and> rank b < rank a))"

lemma is_ok_iff: "is_ok r \<longleftrightarrow> (\<exists>x. r = Inr x)"
  by (cases r) simp_all

lemma ctx_values_enough:
  assumes "ctx_chain bx rank" "contexts bx a \<noteq> None" "rank a < n"
  shows "is_ok (ctx_values bx n a)"
  using assms(2,3)
proof (induction n arbitrary: a)
  case 0
  then show ?case by simp
next
  case (Suc n)
  obtain c where c: "contexts bx a = Some c" using Suc.prems by auto
  note chain = assms(1)[unfolded ctx_chain_def, rule_format, OF c]
  have ok: "is_ok (ctx_values bx n b)" if "b \<in> set (ctx_succs bx c)" for b
    using that chain Suc.prems by (intro Suc.IH) (auto intro: less_le_trans less_SucI)
  have "is_ok (case outer c of Some u \<Rightarrow> ctx_values bx n u | None \<Rightarrow> Inr [])"
    using ok by (auto simp: ctx_succs_def split: option.splits)
  moreover have "is_ok (ctx_block_values bx (ctx_values bx n) c)"
  proof (cases "c_block c")
    case (BBlock m b)
    then have "b \<in> set (ctx_succs bx c)" by (auto simp: ctx_succs_def split: option.splits)
    with chain obtain bc where bc: "contexts bx b = Some bc" by blast
    with BBlock have "get_current b bc \<in> set (ctx_succs bx c)" by (simp add: ctx_succs_def)
    with ok BBlock bc show ?thesis by (simp add: ctx_block_values_def load_def)
  qed (simp_all add: ctx_block_values_def)
  moreover have "is_ok (case iseq_ref c of Some s \<Rightarrow> ctx_locals c [0..<lvars s] | None \<Rightarrow> Inr [])"
    using chain by (auto split: option.splits)
  ultimately show ?case
    using c chain by (auto simp: is_ok_iff load_def ctx_own_values_def)
qed

section \<open>Properties\<close>

text \<open>Writing an instance variable is seen by exactly the reads of that variable, and the write
  returns the value it replaced.\<close>

theorem set_var_lookup:
  "get_var (fst (set_var r i v)) j = (if j = i then Some v else get_var r j) \<and>
   snd (set_var r i v) = get_var r i"
  by (simp add: get_set_var set_var_old)

text \<open>The recursion of \<open>Context::mark\<close>, which has no mark bit to stop it, ends on every store of
  contexts whose \<open>outer\<close> and block references descend in some rank: a fuel above the rank of a
  context gives its references, and more fuel gives the same ones.\<close>

theorem context_mark_ends:
  assumes "ctx_chain bx rank" "contexts bx a \<noteq> None" "rank a < n"
  shows "\<exists>vs. ctx_values bx n a = Inr vs \<and> (\<forall>m \<ge> n. ctx_values bx m a = Inr vs)"
proof -
  obtain vs where "ctx_values bx n a = Inr vs"
    using ctx_values_enough [OF assms] by (auto simp: is_ok_iff)
  with ctx_values_mono_le show ?thesis by blast
qed

definition leaf_context :: "val \<Rightarrow> u64 option \<Rightarrow> ruby_context" where
  "leaf_context v o1 =
     \<lparr>self_value = v, c_block = BNone, lvar_ary = replicate 4 nil_value, lvar_vec = [],
      iseq_ref = None, outer = o1, moved_to_heap = None, on_stack = False, ckind = OtherK\<rparr>"

theorem context_mark_ends_witness:
  "\<exists>vs. ctx_values \<lparr>contexts = [8 \<mapsto> leaf_context 3 None, 16 \<mapsto> leaf_context 5 (Some 8)],
                     exts = \<lambda>_. None\<rparr> 2 16 = Inr vs \<and> vs = [5, 3]"
proof -
  let ?bx = "\<lparr>contexts = [8 \<mapsto> leaf_context 3 None, 16 \<mapsto> leaf_context 5 (Some 8)],
              exts = \<lambda>_. None\<rparr>"
  have "ctx_chain ?bx (\<lambda>a. if a = 8 then 0 else 1)"
    by (auto simp: ctx_chain_def ctx_succs_def leaf_context_def)
  from context_mark_ends [OF this, of 16 2] obtain vs where "ctx_values ?bx 2 16 = Inr vs" by auto
  moreover have "ctx_values ?bx 2 16 = Inr [5, 3]" by code_simp
  ultimately show ?thesis by simp
qed

end
