(* ===== verification/Values.thy ===== *)
theory Values
  imports RValue
begin

text \<open>
  src/value/value.rs: the 64-bit \<open>Value\<close>, its tags, packing and unpacking, the accessors and
  the conversions.

  An accessor reads the object memory \<open>m\<close> (what \<open>Value::rvalue\<close> dereferences). A constructor
  that may need an object takes the allocator \<open>new\<close>, which the code reaches through the
  thread-local \<open>ALLOC\<close>, and the heap; \<open>bc\<close> is the table of built-in classes
  (\<open>BuiltinClass\<close>). The locale \<open>object_heap\<close> states what the packing relies on; theory
  Collector shows it of the allocator. Error messages are not modelled: a wrong type is
  \<open>Raise (RuntimeErr Type)\<close>.
\<close>

section \<open>Tags\<close>

definition UNINITIALIZED :: u64 where "UNINITIALIZED = 0x04"
definition TAG_SYMBOL :: u64 where "TAG_SYMBOL = 0x0c"
definition TRUE_VALUE :: u64 where "TRUE_VALUE = 0x14"
definition FALSE_VALUE :: u64 where "FALSE_VALUE = 0x1c"
definition NIL_VALUE :: u64 where "NIL_VALUE = 0x24"
definition MASK1 :: u64 where "MASK1 = NOT (push_bit 60 0b0110)"
definition MASK2 :: u64 where "MASK2 = push_bit 60 0b0100"
definition ZERO :: u64 where "ZERO = push_bit 60 0b1000 OR 0b10"

lemmas tag_defs = UNINITIALIZED_def TAG_SYMBOL_def TRUE_VALUE_def FALSE_VALUE_def NIL_VALUE_def

datatype rv =
    UninitializedV | NilV | TrueV | FalseV
  | IntegerV i64 | FloatV f64 | SymbolV u32 | ObjectV u64

record builtin_class =
  bc_integer :: val
  bc_float :: val
  bc_complex :: val
  bc_array :: val
  bc_symbol :: val
  bc_procobj :: val
  bc_method :: val
  bc_range :: val
  bc_hash :: val
  bc_regexp :: val
  bc_string :: val
  bc_fiber :: val
  bc_enumerator :: val
  bc_exception :: val
  bc_standard :: val
  bc_nilclass :: val
  bc_trueclass :: val
  bc_falseclass :: val
  bc_kernel :: val
  bc_comparable :: val
  bc_numeric :: val

type_synonym memory = "u64 \<Rightarrow> rvalue"
type_synonym 'h allocator = "'h \<Rightarrow> rvalue \<Rightarrow> ('h \<times> u64) res"

section \<open>Packed values\<close>

definition is_packed_fixnum :: "val \<Rightarrow> bool" where
  "is_packed_fixnum v \<longleftrightarrow> v AND 1 = 1"

definition is_packed_flonum :: "val \<Rightarrow> bool" where
  "is_packed_flonum v \<longleftrightarrow> v AND 3 = 2"

definition is_packed_num :: "val \<Rightarrow> bool" where
  "is_packed_num v \<longleftrightarrow> v AND 3 \<noteq> 0"

definition is_packed_symbol :: "val \<Rightarrow> bool" where
  "is_packed_symbol v \<longleftrightarrow> v AND 0xff = TAG_SYMBOL"

definition is_uninitialized :: "val \<Rightarrow> bool" where
  "is_uninitialized v \<longleftrightarrow> v = UNINITIALIZED"

definition is_nil :: "val \<Rightarrow> bool" where
  "is_nil v \<longleftrightarrow> v = NIL_VALUE"

definition is_true_val :: "val \<Rightarrow> bool" where
  "is_true_val v \<longleftrightarrow> v = TRUE_VALUE"

definition is_false_val :: "val \<Rightarrow> bool" where
  "is_false_val v \<longleftrightarrow> v = FALSE_VALUE"

definition is_packed_value :: "val \<Rightarrow> bool" where
  "is_packed_value v \<longleftrightarrow> v AND 7 \<noteq> 0"

definition as_packed_fixnum :: "val \<Rightarrow> i64" where
  "as_packed_fixnum v = signed_drop_bit 1 v"

definition as_packed_flonum :: "val \<Rightarrow> f64" where
  "as_packed_flonum v =
     (if v = ZERO then 0
      else
        let b = 0b10 - (drop_bit 63 v AND 0b1)
        in word_rotr 3 ((v AND NOT 0b0011) OR b))"

definition as_packed_symbol :: "val \<Rightarrow> u32" where
  "as_packed_symbol v = ucast (drop_bit 32 v)"

definition to_bool :: "val \<Rightarrow> bool" where
  "to_bool v \<longleftrightarrow> \<not> is_nil v \<and> \<not> is_false_val v \<and> \<not> is_uninitialized v"

definition equal_i :: "val \<Rightarrow> i32 \<Rightarrow> bool" where
  "equal_i v i =
     (if is_packed_fixnum v then as_packed_fixnum v = scast i
      else if is_packed_num v then f64_eq (as_packed_flonum v) (f64_of_int (sint i))
      else False)"

text \<open>\<open>Value::from\<close> unwraps a \<open>NonZeroU64\<close>.\<close>

definition value_from :: "u64 \<Rightarrow> val res" where
  "value_from i = (if i = 0 then Inl Panic else Inr i)"

definition bool_value :: "bool \<Rightarrow> val" where
  "bool_value b = (if b then TRUE_VALUE else FALSE_VALUE)"

definition symbol :: "u32 \<Rightarrow> val" where
  "symbol i = push_bit 32 (ucast i) OR TAG_SYMBOL"

section \<open>Unpacking and accessors\<close>

definition unpack :: "memory \<Rightarrow> val \<Rightarrow> rv res" where
  "unpack m v =
     (if \<not> is_packed_value v then
        (case kind (m v) of
           Invalid \<Rightarrow> Inl Panic
         | Integer i \<Rightarrow> Inr (IntegerV i)
         | Float f \<Rightarrow> Inr (FloatV f)
         | _ \<Rightarrow> Inr (ObjectV v))
      else if is_packed_fixnum v then Inr (IntegerV (as_packed_fixnum v))
      else if is_packed_num v then Inr (FloatV (as_packed_flonum v))
      else if is_packed_symbol v then Inr (SymbolV (as_packed_symbol v))
      else if v = NIL_VALUE then Inr NilV
      else if v = TRUE_VALUE then Inr TrueV
      else if v = FALSE_VALUE then Inr FalseV
      else if v = UNINITIALIZED then Inr UninitializedV
      else Inl Panic)"

definition as_rvalue :: "memory \<Rightarrow> val \<Rightarrow> rvalue option" where
  "as_rvalue m v = (if is_packed_value v then None else Some (m v))"

definition as_gcbox :: "val \<Rightarrow> u64 option" where
  "as_gcbox v = (if is_packed_value v then None else Some v)"

definition is_real :: "memory \<Rightarrow> val \<Rightarrow> bool res" where
  "is_real m v =
     rbind (unpack m v) (\<lambda>r. Inr (case r of FloatV _ \<Rightarrow> True | IntegerV _ \<Rightarrow> True | _ \<Rightarrow> False))"

definition is_zero :: "memory \<Rightarrow> val \<Rightarrow> bool res" where
  "is_zero m v =
     rbind (unpack m v) (\<lambda>r. Inr (case r of FloatV f \<Rightarrow> f64_eq f 0 | IntegerV i \<Rightarrow> i = 0 | _ \<Rightarrow> False))"

definition as_integer :: "memory \<Rightarrow> val \<Rightarrow> i64 option" where
  "as_integer m v =
     (if is_packed_fixnum v then Some (as_packed_fixnum v)
      else case as_rvalue m v of
             Some r \<Rightarrow> (case kind r of Integer i \<Rightarrow> Some i | _ \<Rightarrow> None)
           | None \<Rightarrow> None)"

definition as_float :: "memory \<Rightarrow> val \<Rightarrow> f64 option" where
  "as_float m v =
     (if is_packed_flonum v then Some (as_packed_flonum v)
      else case as_rvalue m v of
             Some r \<Rightarrow> (case kind r of Float f \<Rightarrow> Some f | _ \<Rightarrow> None)
           | None \<Rightarrow> None)"

text \<open>The message of a type error names the class of the value, which it unpacks.\<close>

definition wrong_type :: "memory \<Rightarrow> val \<Rightarrow> 'a res" where
  "wrong_type m v = rbind (unpack m v) (\<lambda>_. Inl (Raise (RuntimeErr Type)))"

definition argument_error :: "'a res" where
  "argument_error = Inl (Raise (RuntimeErr Argument))"

definition expect_integer :: "memory \<Rightarrow> val \<Rightarrow> i64 res" where
  "expect_integer m v =
     rbind (unpack m v) (\<lambda>r.
       case r of IntegerV i \<Rightarrow> Inr i | FloatV f \<Rightarrow> Inr (f64_to_i64 f) | _ \<Rightarrow> wrong_type m v)"

definition expect_flonum :: "memory \<Rightarrow> val \<Rightarrow> f64 res" where
  "expect_flonum m v = (case as_float m v of Some f \<Rightarrow> Inr f | None \<Rightarrow> wrong_type m v)"

text \<open>The accessors that look at the kind of an object share one shape.\<close>

definition as_kind :: "(objkind \<Rightarrow> 'a option) \<Rightarrow> memory \<Rightarrow> val \<Rightarrow> 'a option" where
  "as_kind f m v = (case as_rvalue m v of Some r \<Rightarrow> f (kind r) | None \<Rightarrow> None)"

definition as_complex :: "memory \<Rightarrow> val \<Rightarrow> (val \<times> val) option" where
  "as_complex = as_kind (\<lambda>k. case k of Complex r i \<Rightarrow> Some (r, i) | _ \<Rightarrow> None)"

definition as_rstring :: "memory \<Rightarrow> val \<Rightarrow> rstring option" where
  "as_rstring = as_kind (\<lambda>k. case k of StringK s \<Rightarrow> Some s | _ \<Rightarrow> None)"

text \<open>A Rust string is the list of its UTF-8 bytes.\<close>

definition rstring_bytes :: "rstring \<Rightarrow> u8 list" where
  "rstring_bytes s =
     (case s of
        Str cs \<Rightarrow> map (\<lambda>c. of_nat (of_char c)) cs
      | SmallStr cs \<Rightarrow> map (\<lambda>c. of_nat (of_char c)) cs
      | Bytes bs \<Rightarrow> bs)"

definition as_bytes :: "memory \<Rightarrow> val \<Rightarrow> u8 list option" where
  "as_bytes = as_kind (\<lambda>k. case k of StringK s \<Rightarrow> Some (rstring_bytes s) | _ \<Rightarrow> None)"

definition expect_bytes :: "memory \<Rightarrow> val \<Rightarrow> u8 list res" where
  "expect_bytes m v =
     (case as_rstring m v of Some s \<Rightarrow> Inr (rstring_bytes s) | None \<Rightarrow> wrong_type m v)"

text \<open>\<open>ClassInfo::is_module\<close>: the flag bit of src/value/class.rs.\<close>

definition is_module_info :: "class_info \<Rightarrow> bool" where
  "is_module_info ci \<longleftrightarrow> flags ci AND 1 \<noteq> 0"

definition as_class :: "memory \<Rightarrow> val \<Rightarrow> class_info res" where
  "as_class m v =
     or_panic (as_kind (\<lambda>k. case k of Module ci \<Rightarrow> Some ci | _ \<Rightarrow> None) m v)"

definition is_class :: "memory \<Rightarrow> val \<Rightarrow> bool" where
  "is_class m v =
     (case as_rvalue m v of
        Some r \<Rightarrow> (case kind r of Module ci \<Rightarrow> \<not> is_module_info ci | _ \<Rightarrow> False)
      | None \<Rightarrow> False)"

definition is_module :: "memory \<Rightarrow> val \<Rightarrow> bool" where
  "is_module m v =
     (case as_rvalue m v of
        Some r \<Rightarrow> (case kind r of Module ci \<Rightarrow> is_module_info ci | _ \<Rightarrow> False)
      | None \<Rightarrow> False)"

definition if_mod_class :: "memory \<Rightarrow> val \<Rightarrow> val option" where
  "if_mod_class m v = as_kind (\<lambda>k. case k of Module _ \<Rightarrow> Some v | _ \<Rightarrow> None) m v"

definition expect_class :: "memory \<Rightarrow> val \<Rightarrow> val res" where
  "expect_class m v = (if is_class m v then Inr v else wrong_type m v)"

definition expect_module :: "memory \<Rightarrow> val \<Rightarrow> val res" where
  "expect_module m v = (if is_module m v then Inr v else wrong_type m v)"

definition expect_mod_class :: "memory \<Rightarrow> val \<Rightarrow> val res" where
  "expect_mod_class m v = (if if_mod_class m v \<noteq> None then Inr v else wrong_type m v)"

definition as_array :: "memory \<Rightarrow> val \<Rightarrow> val option" where
  "as_array m v = as_kind (\<lambda>k. case k of Array _ \<Rightarrow> Some v | _ \<Rightarrow> None) m v"

definition expect_array :: "memory \<Rightarrow> val \<Rightarrow> val res" where
  "expect_array m v = (case as_array m v of Some _ \<Rightarrow> Inr v | None \<Rightarrow> wrong_type m v)"

definition as_range :: "memory \<Rightarrow> val \<Rightarrow> range_info option" where
  "as_range = as_kind (\<lambda>k. case k of RangeK r \<Rightarrow> Some r | _ \<Rightarrow> None)"

definition as_splat :: "memory \<Rightarrow> val \<Rightarrow> val option" where
  "as_splat = as_kind (\<lambda>k. case k of Splat v \<Rightarrow> Some v | _ \<Rightarrow> None)"

definition as_hash :: "memory \<Rightarrow> val \<Rightarrow> hash_info option" where
  "as_hash = as_kind (\<lambda>k. case k of Hash h \<Rightarrow> Some h | _ \<Rightarrow> None)"

definition expect_hash :: "memory \<Rightarrow> val \<Rightarrow> hash_info res" where
  "expect_hash m v = (case as_hash m v of Some h \<Rightarrow> Inr h | None \<Rightarrow> wrong_type m v)"

definition as_proc :: "memory \<Rightarrow> val \<Rightarrow> u64 option" where
  "as_proc = as_kind (\<lambda>k. case k of Proc c \<Rightarrow> Some c | _ \<Rightarrow> None)"

definition expect_proc :: "memory \<Rightarrow> val \<Rightarrow> u64 res" where
  "expect_proc m v = (case as_proc m v of Some c \<Rightarrow> Inr c | None \<Rightarrow> argument_error)"

definition as_method :: "memory \<Rightarrow> val \<Rightarrow> method_obj option" where
  "as_method = as_kind (\<lambda>k. case k of MethodObj mo \<Rightarrow> Some mo | _ \<Rightarrow> None)"

definition as_enumerator :: "memory \<Rightarrow> val \<Rightarrow> fiber_context option" where
  "as_enumerator = as_kind (\<lambda>k. case k of Enumerator f \<Rightarrow> Some f | _ \<Rightarrow> None)"

definition expect_enumerator :: "memory \<Rightarrow> val \<Rightarrow> fiber_context res" where
  "expect_enumerator m v = (case as_enumerator m v of Some f \<Rightarrow> Inr f | None \<Rightarrow> argument_error)"

definition expect_fiber :: "memory \<Rightarrow> val \<Rightarrow> fiber_context res" where
  "expect_fiber m v =
     (case as_rvalue m v of
        Some r \<Rightarrow> (case kind r of Fiber f \<Rightarrow> Inr f | _ \<Rightarrow> argument_error)
      | None \<Rightarrow> argument_error)"

definition if_exception :: "memory \<Rightarrow> val \<Rightarrow> ruby_error option" where
  "if_exception = as_kind (\<lambda>k. case k of Exception e \<Rightarrow> Some e | _ \<Rightarrow> None)"

definition as_symbol :: "val \<Rightarrow> u32 option" where
  "as_symbol v = (if is_packed_symbol v then Some (as_packed_symbol v) else None)"

definition get_class_for_method :: "builtin_class \<Rightarrow> memory \<Rightarrow> val \<Rightarrow> val res" where
  "get_class_for_method bc m v =
     (if \<not> is_packed_value v then Inr (rclass (m v))
      else if is_packed_fixnum v then Inr (bc_integer bc)
      else if is_packed_num v then Inr (bc_float bc)
      else if is_packed_symbol v then Inr (bc_symbol bc)
      else if v = NIL_VALUE then Inr (bc_nilclass bc)
      else if v = TRUE_VALUE then Inr (bc_trueclass bc)
      else if v = FALSE_VALUE then Inr (bc_falseclass bc)
      else Inl Panic)"

definition to_ordering :: "memory \<Rightarrow> val \<Rightarrow> ordering res" where
  "to_ordering m v =
     (case as_integer m v of
        Some i \<Rightarrow>
          if i = 1 then Inr Greater else if i = 0 then Inr Equal else if i = -1 then Inr Less
          else Inl Panic
      | None \<Rightarrow> Inl Panic)"

section \<open>Constructors\<close>

definition rvalue_pack :: "'h allocator \<Rightarrow> 'h \<Rightarrow> rvalue \<Rightarrow> ('h \<times> val) res" where
  "rvalue_pack new h r =
     rbind (new h r) (\<lambda>(h', a). rbind (value_from a) (\<lambda>v. Inr (h', v)))"

definition integer :: "builtin_class \<Rightarrow> 'h allocator \<Rightarrow> 'h \<Rightarrow> i64 \<Rightarrow> ('h \<times> val) res" where
  "integer bc new h num =
     (let top = drop_bit 62 num XOR drop_bit 63 num
      in if top AND 1 = 0 then rbind (value_from (push_bit 1 num OR 1)) (\<lambda>v. Inr (h, v))
         else rvalue_pack new h (rvalue_new (bc_integer bc) (Integer num)))"

definition float :: "builtin_class \<Rightarrow> 'h allocator \<Rightarrow> 'h \<Rightarrow> f64 \<Rightarrow> ('h \<times> val) res" where
  "float bc new h num =
     (if f64_eq num 0 then rbind (value_from ZERO) (\<lambda>v. Inr (h, v))
      else
        let e = (drop_bit 60 num AND 0b111) + 1
        in if e AND 0b0110 = 0b0100
           then rbind (value_from (word_rotl 3 (num AND MASK1 OR MASK2))) (\<lambda>v. Inr (h, v))
           else rvalue_pack new h (rvalue_new (bc_float bc) (Float num)))"

text \<open>\<open>RV::pack\<close>.\<close>

definition rv_pack :: "builtin_class \<Rightarrow> 'h allocator \<Rightarrow> 'h \<Rightarrow> rv \<Rightarrow> ('h \<times> val) res" where
  "rv_pack bc new h r =
     (case r of
        UninitializedV \<Rightarrow> Inr (h, UNINITIALIZED)
      | NilV \<Rightarrow> Inr (h, NIL_VALUE)
      | TrueV \<Rightarrow> Inr (h, TRUE_VALUE)
      | FalseV \<Rightarrow> Inr (h, FALSE_VALUE)
      | IntegerV i \<Rightarrow> integer bc new h i
      | FloatV f \<Rightarrow> float bc new h f
      | SymbolV s \<Rightarrow> Inr (h, symbol s)
      | ObjectV a \<Rightarrow> rbind (value_from a) (\<lambda>v. Inr (h, v)))"

definition complex_value ::
    "builtin_class \<Rightarrow> 'h allocator \<Rightarrow> 'h \<Rightarrow> val \<Rightarrow> val \<Rightarrow> ('h \<times> val) res" where
  "complex_value bc new h r i = rvalue_pack new h (rvalue_new (bc_complex bc) (Complex r i))"

definition range_value ::
    "builtin_class \<Rightarrow> 'h allocator \<Rightarrow> 'h \<Rightarrow> val \<Rightarrow> val \<Rightarrow> bool \<Rightarrow> ('h \<times> val) res" where
  "range_value bc new h s e ex =
     rvalue_pack new h
       (rvalue_new (bc_range bc) (RangeK \<lparr>rstart = s, rend = e, exclude = ex\<rparr>))"

definition ordinary_object :: "'h allocator \<Rightarrow> 'h \<Rightarrow> val \<Rightarrow> ('h \<times> val) res" where
  "ordinary_object new h c = rvalue_pack new h (rvalue_new c Ordinary)"

definition array_from ::
    "builtin_class \<Rightarrow> 'h allocator \<Rightarrow> 'h \<Rightarrow> val list \<Rightarrow> ('h \<times> val) res" where
  "array_from bc new h vs = rvalue_pack new h (rvalue_new (bc_array bc) (Array vs))"

definition array_from_with_class :: "'h allocator \<Rightarrow> 'h \<Rightarrow> val list \<Rightarrow> val \<Rightarrow> ('h \<times> val) res" where
  "array_from_with_class new h vs c = rvalue_pack new h (rvalue_new c (Array vs))"

definition splat_value :: "builtin_class \<Rightarrow> 'h allocator \<Rightarrow> 'h \<Rightarrow> val \<Rightarrow> ('h \<times> val) res" where
  "splat_value bc new h v = rvalue_pack new h (rvalue_new (bc_array bc) (Splat v))"

definition hash_from ::
    "builtin_class \<Rightarrow> 'h allocator \<Rightarrow> 'h \<Rightarrow> hash_info \<Rightarrow> ('h \<times> val) res" where
  "hash_from bc new h hi = rvalue_pack new h (rvalue_new (bc_hash bc) (Hash hi))"

definition procobj :: "builtin_class \<Rightarrow> 'h allocator \<Rightarrow> 'h \<Rightarrow> u64 \<Rightarrow> ('h \<times> val) res" where
  "procobj bc new h c = rvalue_pack new h (rvalue_new (bc_procobj bc) (Proc c))"

definition method_value ::
    "builtin_class \<Rightarrow> 'h allocator \<Rightarrow> 'h \<Rightarrow> u32 \<Rightarrow> val \<Rightarrow> u32 \<Rightarrow> ('h \<times> val) res" where
  "method_value bc new h n r mid =
     rvalue_pack new h
       (rvalue_new (bc_method bc) (MethodObj \<lparr>mname = n, mreceiver = r, mmethod = mid\<rparr>))"

section \<open>Packing\<close>

lemma and_1_bit: "v AND 1 = 1 \<longleftrightarrow> bit v 0" "v AND 1 = 0 \<longleftrightarrow> \<not> bit v 0" for v :: u64
  by (simp_all add: and_one_eq mod2_eq_if bit_0)

lemma fixnum_tag: "is_packed_fixnum (push_bit 1 i OR 1)" "push_bit 1 i OR 1 \<noteq> (0 :: u64)"
proof -
  have b: "bit (push_bit 1 i OR 1 :: u64) 0" by (simp add: bit_or_iff)
  then show "is_packed_fixnum (push_bit 1 i OR 1)"
    unfolding is_packed_fixnum_def and_1_bit .
  from b show "push_bit 1 i OR 1 \<noteq> (0 :: u64)" by (metis bit_0_eq bot_apply bot_bool_def)
qed

text \<open>The integers that are packed: the top two bits agree, a 63-bit two's complement.\<close>

definition fits_fixnum :: "i64 \<Rightarrow> bool" where
  "fits_fixnum i \<longleftrightarrow> - (2 ^ 62) \<le> sint i \<and> sint i < 2 ^ 62"

lemma top_bits: "(drop_bit 62 i XOR drop_bit 63 i) AND 1 = 0 \<longleftrightarrow> bit i 62 = bit i 63" for i :: u64
  unfolding and_1_bit by (simp add: bit_xor_iff bit_drop_bit_eq)

lemma fixnum_shift: "bit i 62 = bit i 63 \<Longrightarrow> as_packed_fixnum (push_bit 1 i OR 1) = i"
proof (rule bit_word_eqI)
  fix n assume top: "bit i 62 = bit i 63" and n: "n < LENGTH(64)"
  show "bit (as_packed_fixnum (push_bit 1 i OR 1)) n = bit i n"
    using top n unfolding as_packed_fixnum_def bit_signed_drop_bit_iff bit_or_iff bit_push_bit_iff
    by (cases "n = 63") (auto simp: bit_1_iff)
qed

lemma fits_fixnum_bits: "fits_fixnum i \<longleftrightarrow> bit i 62 = bit i 63"
proof -
  have s: "bit (sint i) n = bit i (min 63 n)" for n
    by (cases "n = 63") (auto simp: bit_sint_iff min_def dest: bit_imp_le_length)
  have "fits_fixnum i \<longleftrightarrow> signed_take_bit 62 (sint i) = sint i"
    unfolding fits_fixnum_def signed_take_bit_int_eq_self_iff ..
  also have "\<dots> \<longleftrightarrow> (\<forall>n. bit i (min 63 (min 62 n)) = bit i (min 63 n))"
    unfolding bit_eq_iff bit_signed_take_bit_iff s by simp
  also have "\<dots> \<longleftrightarrow> bit i 62 = bit i 63"
  proof
    assume "\<forall>n. bit i (min 63 (min 62 n)) = bit i (min 63 n)"
    from this[rule_format, of 63] show "bit i 62 = bit i 63" by simp
  next
    assume top: "bit i 62 = bit i 63"
    have "bit i (min 63 (min 62 n)) = bit i (min 63 n)" for n
      by (cases "n \<le> 62") (use top in auto)
    then show "\<forall>n. bit i (min 63 (min 62 n)) = bit i (min 63 n)" by blast
  qed
  finally show ?thesis .
qed

text \<open>Floats: the packed ones have the exponent bits 011 or 100.\<close>

definition fits_flonum :: "f64 \<Rightarrow> bool" where
  "fits_flonum f \<longleftrightarrow> (bit f 62 \<longleftrightarrow> \<not> bit f 61) \<and> (bit f 61 \<longleftrightarrow> bit f 60)"

lemma small_word_cases:
  fixes e :: u64
  assumes "e = take_bit 3 e"
  shows "e = 0 \<or> e = 1 \<or> e = 2 \<or> e = 3 \<or> e = 4 \<or> e = 5 \<or> e = 6 \<or> e = 7"
proof -
  have "unat e = take_bit 3 (unat e)" using assms by (metis unsigned_take_bit_eq)
  then have "unat e < 8" using take_bit_nat_less_exp [of 3 "unat e"] by simp
  then have "unat e = 0 \<or> unat e = 1 \<or> unat e = 2 \<or> unat e = 3 \<or> unat e = 4 \<or> unat e = 5 \<or>
      unat e = 6 \<or> unat e = 7" by arith
  then show ?thesis by (simp add: word_unat_eq_iff)
qed

lemma exponent_bits:
  "(drop_bit 60 f AND 0b111) + 1 AND 0b0110 = 0b0100 \<longleftrightarrow> fits_flonum f" for f :: u64
proof -
  define e :: u64 where "e = drop_bit 60 f AND 0b111"
  have m: "(0b111 :: u64) = mask 3" by (simp add: mask_eq_exp_minus_1)
  have "e = take_bit 3 e" unfolding e_def m by (simp flip: take_bit_eq_mask)
  from small_word_cases [OF this] have "e + 1 AND 0b0110 = 0b0100 \<longleftrightarrow> e = 3 \<or> e = 4"
    by (elim disjE) simp_all
  moreover have "bit f (60 + k) = bit e k" if "k < 3" for k
    using that unfolding e_def m by (simp add: bit_and_iff bit_drop_bit_eq bit_mask_iff)
  from this [of 0] this [of 1] this [of 2]
  have "bit f 60 = bit e 0" "bit f 61 = bit e 1" "bit f 62 = bit e 2" by simp_all
  with small_word_cases [OF \<open>e = take_bit 3 e\<close>] have "e = 3 \<or> e = 4 \<longleftrightarrow> fits_flonum f"
    unfolding fits_flonum_def by (elim disjE) simp_all
  ultimately show ?thesis by (simp add: e_def)
qed

definition flonum_bits :: "f64 \<Rightarrow> u64" where
  "flonum_bits f = word_rotl 3 (f AND MASK1 OR MASK2)"

lemma mask_bits:
  "bit MASK1 n \<longleftrightarrow> n < 64 \<and> n \<noteq> 61 \<and> n \<noteq> 62" "bit MASK2 n \<longleftrightarrow> n = 62"
proof -
  have m: "MASK1 = NOT (push_bit 61 (mask 2))" "MASK2 = push_bit 62 1"
    by (simp_all add: MASK1_def MASK2_def mask_eq_exp_minus_1 push_bit_eq_mult)
  show "bit MASK1 n \<longleftrightarrow> n < 64 \<and> n \<noteq> 61 \<and> n \<noteq> 62"
    unfolding m bit_not_iff bit_push_bit_iff bit_mask_iff by auto
  show "bit MASK2 n \<longleftrightarrow> n = 62"
    unfolding m bit_push_bit_iff bit_1_iff by auto
qed

lemma bit_masked: "n < 64 \<Longrightarrow> bit (f AND MASK1 OR MASK2) n = (n = 62 \<or> n \<noteq> 61 \<and> bit f n)" for f :: u64
  unfolding bit_or_iff bit_and_iff mask_bits by auto

lemma bit_flonum: "n < 64 \<Longrightarrow> bit (flonum_bits f) n = bit (f AND MASK1 OR MASK2) ((n + 61) mod 64)"
  unfolding flonum_bits_def
  by (subst bit_word_rotl_iff) simp

lemma bit_flonum_low:
  "\<not> bit (flonum_bits f) 0" "bit (flonum_bits f) 1" "bit (flonum_bits f) 63 = bit f 60"
  by (simp_all add: bit_flonum bit_masked)

lemma low_bits:
  "bit (1 :: u64) n = (n = 0)" "bit (2 :: u64) n = (n = 1)" "bit (3 :: u64) n = (n = 0 \<or> n = 1)"
proof -
  show "bit (1 :: u64) n = (n = 0)" by (simp add: bit_1_iff)
  show "bit (2 :: u64) n = (n = 1)" by (auto simp: bit_2_iff)
  have m: "(3 :: u64) = mask 2" by (simp add: mask_eq_exp_minus_1)
  show "bit (3 :: u64) n = (n = 0 \<or> n = 1)" unfolding m by (auto simp: bit_mask_iff)
qed

lemma and_3: "v AND 3 = (if bit v 0 then 1 else 0) OR (if bit v 1 then 2 else 0)" for v :: u64
  by (rule bit_word_eqI)
    (auto simp: bit_and_iff bit_or_iff low_bits intro: gr0I simp del: bit_numeral_word_iff)

lemma flonum_tag:
  "is_packed_flonum (flonum_bits f)" "\<not> is_packed_fixnum (flonum_bits f)"
  "is_packed_num (flonum_bits f)"
  using bit_flonum_low [of f]
  by (simp_all add: is_packed_flonum_def is_packed_num_def is_packed_fixnum_def and_1_bit and_3)

lemma num_packed: "is_packed_num v \<Longrightarrow> is_packed_value v"
proof -
  assume "is_packed_num v"
  moreover have "v AND 3 = (v AND 7) AND 3" by (simp add: and.assoc)
  ultimately show ?thesis by (auto simp: is_packed_num_def is_packed_value_def)
qed

lemma packed_nonzero: "is_packed_value v \<Longrightarrow> v \<noteq> 0"
  by (auto simp: is_packed_value_def)

lemma fixnum_num: "is_packed_fixnum v \<Longrightarrow> is_packed_num v"
  unfolding is_packed_fixnum_def is_packed_num_def and_1_bit
  by (metis bit_and_iff bit_0_eq bot_apply bot_bool_def low_bits(3))

text \<open>Unpacking undoes the rotation.\<close>

lemma flonum_round_trip:
  assumes fits: "fits_flonum f" and nz: "flonum_bits f \<noteq> ZERO"
  shows "as_packed_flonum (flonum_bits f) = f"
proof (rule bit_word_eqI)
  fix n assume "n < LENGTH(64)"
  then have n: "n < 64" by simp
  let ?v = "flonum_bits f"
  let ?b = "2 - (drop_bit 63 ?v AND 1) :: u64"
  have "drop_bit 63 ?v AND 1 = (if bit f 60 then 1 else 0)"
    using bit_flonum_low(3) [of f] and_1_bit [of "drop_bit 63 ?v"] by (auto simp: bit_drop_bit_eq)
  then have b: "?b = (if bit f 60 then 1 else 2)" by auto
  have w: "bit ((?v AND NOT 3) OR ?b) k =
      (if k = 0 then bit f 60 else if k = 1 then \<not> bit f 60 else bit ?v k)" if "k < 64" for k
    unfolding b bit_or_iff bit_and_iff bit_not_iff using that
    by (auto simp: low_bits simp del: bit_numeral_word_iff)
  have "bit (as_packed_flonum ?v) n = bit ((?v AND NOT 3) OR ?b) ((n + 3) mod 64)"
    using nz n unfolding as_packed_flonum_def Let_def by (simp add: bit_word_rotr_iff)
  also have "\<dots> = bit f n"
  proof (cases "n < 61")
    case True
    then show ?thesis using w [of "n + 3"] by (simp add: bit_flonum bit_masked)
  next
    case False
    with n have "n = 61 \<or> n = 62 \<or> n = 63" by auto
    then show ?thesis
      using w [of 0] w [of 1] w [of 2] fits
      by (elim disjE) (simp_all add: fits_flonum_def bit_flonum bit_masked)
  qed
  finally show "bit (as_packed_flonum ?v) n = bit f n" .
qed

lemma flonum_zero: "as_packed_flonum ZERO = 0" "is_packed_num ZERO" "\<not> is_packed_fixnum ZERO"
    "is_packed_flonum ZERO" "ZERO \<noteq> 0"
  by (simp_all add: as_packed_flonum_def is_packed_num_def is_packed_fixnum_def
      is_packed_flonum_def ZERO_def)

text \<open>The one non-zero float whose packed form is that of zero.\<close>

lemma flonum_bits_inj:
  assumes "flonum_bits f = flonum_bits g" "fits_flonum f" "fits_flonum g"
  shows "f = g"
proof (rule bit_word_eqI)
  fix n assume "n < LENGTH(64)"
  then have n: "n < 64" by simp
  have "word_rotr 3 (flonum_bits f) = word_rotr 3 (flonum_bits g)" using assms(1) by simp
  then have m: "f AND MASK1 OR MASK2 = g AND MASK1 OR MASK2"
    unfolding flonum_bits_def word_rot_lr .
  have eq: "bit f k = bit g k" if "k < 64" "k \<noteq> 61" "k \<noteq> 62" for k
    using bit_masked [of k f] bit_masked [of k g] that m by simp
  from eq [of 60] assms(2,3) have "bit f 61 = bit g 61" "bit f 62 = bit g 62"
    by (auto simp: fits_flonum_def)
  with n eq show "bit f n = bit g n" by (cases "n = 61 \<or> n = 62") auto
qed

lemma flonum_bits_zero: "fits_flonum f \<Longrightarrow> flonum_bits f = ZERO \<longleftrightarrow> f = 0x3000000000000000"
proof -
  assume f: "fits_flonum f"
  have z: "flonum_bits 0x3000000000000000 = ZERO"
    by code_simp
  have "fits_flonum 0x3000000000000000" by (simp add: fits_flonum_def)
  with f z flonum_bits_inj show ?thesis by metis
qed

lemma symbol_low: "c AND mask 32 = c \<Longrightarrow> symbol i AND c = TAG_SYMBOL AND c"
proof -
  assume c: "c AND mask 32 = c"
  let ?x = "push_bit 32 (ucast i) :: u64"
  have z: "?x AND mask 32 = 0"
    by (rule bit_word_eqI) (auto simp: bit_and_iff bit_push_bit_iff bit_mask_iff)
  have "?x AND c = ?x AND (c AND mask 32)" by (simp only: c)
  also have "\<dots> = (?x AND mask 32) AND c" by (simp only: and.assoc and.commute [of c])
  finally have "?x AND c = 0" by (simp only: z zero_and_eq)
  then show ?thesis by (simp only: symbol_def bit.conj_disj_distrib2 or.left_neutral)
qed

lemma symbol_tag:
  "is_packed_value (symbol i)" "\<not> is_packed_num (symbol i)" "\<not> is_packed_fixnum (symbol i)"
  "is_packed_symbol (symbol i)" "as_packed_symbol (symbol i) = i"
proof -
  have m: "(c :: u64) AND mask 32 = c" if "c \<in> {1, 3, 7, 255}" for c
    using that by (auto simp: mask_eq_exp_minus_1)
  show "is_packed_value (symbol i)" "\<not> is_packed_num (symbol i)" "\<not> is_packed_fixnum (symbol i)"
    "is_packed_symbol (symbol i)"
    by (simp_all add: is_packed_value_def is_packed_num_def is_packed_fixnum_def
        is_packed_symbol_def m symbol_low TAG_SYMBOL_def)
  show "as_packed_symbol (symbol i) = i"
  proof (rule bit_word_eqI)
    fix n assume n: "n < LENGTH(32)"
    have "TAG_SYMBOL = TAG_SYMBOL AND mask 32"
      by (simp add: TAG_SYMBOL_def mask_eq_exp_minus_1)
    then have "\<not> bit TAG_SYMBOL (32 + n)" by (metis bit_and_iff bit_mask_iff not_add_less1)
    with n show "bit (as_packed_symbol (symbol i)) n = bit i n"
      by (simp add: as_packed_symbol_def symbol_def bit_ucast_iff bit_drop_bit_eq bit_or_iff
          bit_push_bit_iff)
  qed
qed

section \<open>Unpacking what was packed\<close>

lemma unpack_fixnum: "is_packed_fixnum v \<Longrightarrow> unpack m v = Inr (IntegerV (as_packed_fixnum v))"
  using fixnum_num num_packed by (simp add: unpack_def)

lemma unpack_flonum:
  "is_packed_num v \<Longrightarrow> \<not> is_packed_fixnum v \<Longrightarrow> unpack m v = Inr (FloatV (as_packed_flonum v))"
  using num_packed by (simp add: unpack_def)

lemma unpack_symbol: "unpack m (symbol i) = Inr (SymbolV i)"
  by (simp add: unpack_def symbol_tag)

lemma unpack_constants:
  "unpack m NIL_VALUE = Inr NilV" "unpack m TRUE_VALUE = Inr TrueV"
  "unpack m FALSE_VALUE = Inr FalseV" "unpack m UNINITIALIZED = Inr UninitializedV"
  by (simp_all add: unpack_def is_packed_value_def is_packed_fixnum_def is_packed_num_def
      is_packed_symbol_def tag_defs)

lemma unpack_object:
  "\<not> is_packed_value v \<Longrightarrow> unpack m v =
     (case kind (m v) of Invalid \<Rightarrow> Inl Panic | Integer i \<Rightarrow> Inr (IntegerV i)
      | Float f \<Rightarrow> Inr (FloatV f) | _ \<Rightarrow> Inr (ObjectV v))"
  by (simp add: unpack_def)

lemma f64_eq_0: "f64_eq f 0 \<longleftrightarrow> f64_is_zero f"
proof -
  have "f64_key f = 0 \<longleftrightarrow> f AND 0x7fffffffffffffff = 0"
    by (simp add: f64_key_def Let_def uint_0_iff)
  moreover have "f AND 0x7fffffffffffffff = 0 \<longleftrightarrow> f64_is_zero f"
  proof
    assume z: "f AND 0x7fffffffffffffff = 0"
    have m: "(0x7fffffffffffffff :: u64) = mask 63" "(0x8000000000000000 :: u64) = push_bit 63 1"
      by (simp_all add: mask_eq_exp_minus_1 push_bit_eq_mult)
    have b: "\<not> bit f n" if "n < 63" for n
    proof -
      have "bit (f AND mask 63) n = bit (0 :: u64) n" using z unfolding m by (rule arg_cong)
      with that show ?thesis by (simp add: bit_and_iff bit_mask_iff)
    qed
    show "f64_is_zero f"
    proof (cases "bit f 63")
      case True
      have "bit f n = bit (push_bit 63 1 :: u64) n" if "n < 64" for n
        unfolding bit_push_bit_iff bit_1_iff using that True b [of n] by (cases "n = 63") auto
      then have "f = push_bit 63 1" by (intro bit_word_eqI) simp_all
      then show ?thesis unfolding f64_is_zero_def m by blast
    next
      case False
      have "bit f n = bit (0 :: u64) n" if "n < 64" for n
        using that False b [of n] by (cases "n = 63") auto
      then have "f = 0" by (intro bit_word_eqI) simp_all
      then show ?thesis by (simp add: f64_is_zero_def)
    qed
  qed (auto simp: f64_is_zero_def)
  moreover have "f64_key 0 = 0" by (simp add: f64_key_def f64_sign_def)
  moreover have "\<not> f64_is_nan 0" by (simp add: f64_is_nan_def f64_exp_def)
  ultimately show ?thesis using f64_is_zero_not_nan by (auto simp: f64_eq_def)
qed

text \<open>What unpacking returns: negative zero and \<open>2 ^ -255\<close> come back as zero.\<close>

definition canonical :: "rv \<Rightarrow> rv" where
  "canonical x =
     (case x of
        FloatV f \<Rightarrow> FloatV (if f64_is_zero f \<or> f = 0x3000000000000000 then 0 else f)
      | _ \<Rightarrow> x)"

definition boxable :: "memory \<Rightarrow> u64 set \<Rightarrow> rv \<Rightarrow> bool" where
  "boxable m os x =
     (case x of
        ObjectV a \<Rightarrow> a \<in> os \<and> (case kind (m a) of Invalid \<Rightarrow> False | Integer _ \<Rightarrow> False
                                 | Float _ \<Rightarrow> False | _ \<Rightarrow> True)
      | _ \<Rightarrow> True)"

section \<open>What packing relies on\<close>

text \<open>
  The contract of the object store: a new object is at an address that was not in use and is
  a proper pointer, and all other objects stay as they were.
\<close>

locale object_heap =
  fixes ok :: "'h \<Rightarrow> bool"
    and objects :: "'h \<Rightarrow> u64 set"
    and mem :: "'h \<Rightarrow> memory"
    and new :: "'h allocator"
  assumes new_ok: "\<lbrakk>ok h; new h r = Inr (h', a)\<rbrakk> \<Longrightarrow> ok h'"
    and new_fresh: "\<lbrakk>ok h; new h r = Inr (h', a)\<rbrakk> \<Longrightarrow> a \<notin> objects h"
    and new_objects: "\<lbrakk>ok h; new h r = Inr (h', a)\<rbrakk> \<Longrightarrow> objects h' = insert a (objects h)"
    and new_mem: "\<lbrakk>ok h; new h r = Inr (h', a)\<rbrakk> \<Longrightarrow> mem h' = (mem h)(a := r)"
    and address: "\<lbrakk>ok h; a \<in> objects h\<rbrakk> \<Longrightarrow> \<not> is_packed_value a \<and> a \<noteq> 0"
begin

lemma pack_new:
  assumes "ok h" "rvalue_pack new h r = Inr (h', v)"
  shows "ok h'" "v \<notin> objects h" "objects h' = insert v (objects h)" "mem h' = (mem h)(v := r)"
    "\<not> is_packed_value v"
proof -
  from assms(2) have n: "new h r = Inr (h', v)"
    by (auto simp: rvalue_pack_def rbind_Inr_iff value_from_def split: if_splits)
  from new_ok [OF assms(1) n] new_fresh [OF assms(1) n] new_objects [OF assms(1) n]
    new_mem [OF assms(1) n] address
  show "ok h'" "v \<notin> objects h" "objects h' = insert v (objects h)" "mem h' = (mem h)(v := r)"
    "\<not> is_packed_value v" by auto
qed

lemma pack_total: "ok h \<Longrightarrow> new h r = Inr (h', a) \<Longrightarrow> rvalue_pack new h r = Inr (h', a)"
  using address [of h' a] new_ok [of h r h' a] new_objects [of h r h' a]
  by (simp add: rvalue_pack_def value_from_def)

lemma integer_unpack:
  assumes "ok h" "integer bc new h i = Inr (h', v)"
  shows "unpack (mem h') v = Inr (IntegerV i)" "is_packed_value v \<longleftrightarrow> fits_fixnum i"
proof -
  have t: "(drop_bit 62 i XOR drop_bit 63 i) AND 1 = 0 \<longleftrightarrow> fits_fixnum i"
    unfolding top_bits fits_fixnum_bits ..
  have "unpack (mem h') v = Inr (IntegerV i) \<and> (is_packed_value v \<longleftrightarrow> fits_fixnum i)"
  proof (cases "fits_fixnum i")
    case True
    then have v: "v = push_bit 1 i OR 1"
      using assms(2) unfolding integer_def Let_def t
      by (auto simp: rbind_Inr_iff value_from_def split: if_splits)
    have "as_packed_fixnum v = i"
      unfolding v using True by (intro fixnum_shift) (simp add: fits_fixnum_bits)
    moreover have "is_packed_fixnum v" unfolding v by (rule fixnum_tag)
    ultimately show ?thesis using True unpack_fixnum fixnum_num num_packed by simp
  next
    case False
    then have p: "rvalue_pack new h (rvalue_new (bc_integer bc) (Integer i)) = Inr (h', v)"
      using assms(2) unfolding integer_def Let_def t by simp
    from pack_new [OF assms(1) p] False show ?thesis
      by (simp add: unpack_object rvalue_new_def)
  qed
  then show "unpack (mem h') v = Inr (IntegerV i)" "is_packed_value v \<longleftrightarrow> fits_fixnum i" by auto
qed

lemma float_unpack:
  assumes "ok h" "float bc new h f = Inr (h', v)"
  shows "unpack (mem h') v = Inr (canonical (FloatV f))"
proof (cases "f64_is_zero f")
  case True
  then have "v = ZERO"
    using assms(2) by (auto simp: float_def f64_eq_0 rbind_Inr_iff value_from_def split: if_splits)
  with True show ?thesis by (simp add: unpack_flonum flonum_zero canonical_def)
next
  case nz: False
  show ?thesis
  proof (cases "fits_flonum f")
    case True
    then have v: "v = flonum_bits f"
      using assms(2) nz unfolding float_def Let_def exponent_bits f64_eq_0
      by (auto simp: rbind_Inr_iff value_from_def flonum_bits_def split: if_splits)
    show ?thesis
      using flonum_round_trip [OF True] flonum_bits_zero [OF True] nz flonum_tag
      by (cases "flonum_bits f = ZERO")
        (simp_all add: v unpack_flonum flonum_zero canonical_def)
  next
    case False
    then have p: "rvalue_pack new h (rvalue_new (bc_float bc) (Float f)) = Inr (h', v)"
      using assms(2) nz unfolding float_def Let_def exponent_bits f64_eq_0 by simp
    have "f \<noteq> 0x3000000000000000" using False by (auto simp: fits_flonum_def)
    with pack_new [OF assms(1) p] nz show ?thesis
      by (simp add: unpack_object rvalue_new_def canonical_def)
  qed
qed

theorem pack_unpack:
  assumes "ok h" "boxable (mem h) (objects h) x" "rv_pack bc new h x = Inr (h', v)"
  shows "unpack (mem h') v = Inr (canonical x)"
proof (cases x)
  case (IntegerV i)
  with assms show ?thesis by (simp add: rv_pack_def integer_unpack canonical_def)
next
  case (FloatV f)
  with assms show ?thesis by (simp add: rv_pack_def float_unpack)
next
  case (ObjectV a)
  with assms address [OF assms(1), of a] show ?thesis
    by (auto simp: rv_pack_def rbind_Inr_iff value_from_def boxable_def unpack_object canonical_def
        split: if_splits objkind.splits)
qed (use assms in \<open>auto simp: rv_pack_def canonical_def unpack_constants unpack_symbol\<close>)

text \<open>Packing leaves every object that exists as it was.\<close>

lemma pack_keeps:
  assumes "ok h" "rv_pack bc new h x = Inr (h', v)"
  shows "ok h'" "objects h \<subseteq> objects h'" "a \<in> objects h \<Longrightarrow> mem h' a = mem h a"
proof -
  have k: "ok h' \<and> objects h \<subseteq> objects h' \<and> (\<forall>a \<in> objects h. mem h' a = mem h a)"
    if "rvalue_pack new h r = Inr (h', v)" for r
    using pack_new [OF assms(1) that] by auto
  have "ok h' \<and> objects h \<subseteq> objects h' \<and> (\<forall>a \<in> objects h. mem h' a = mem h a)"
    using assms k
    by (cases x)
      (auto simp: rv_pack_def integer_def float_def rbind_Inr_iff Let_def split: if_splits)
  then show "ok h'" "objects h \<subseteq> objects h'" "a \<in> objects h \<Longrightarrow> mem h' a = mem h a" by auto
qed

end

end
