(* ===== verification/Alloc.thy ===== *)
theory Alloc
  imports Values
begin

text \<open>
  src/alloc.rs: the page allocator and the mark-and-sweep collector.

  \<open>heap\<close> is the \<open>Allocator\<close> together with the memory it manages: \<open>cells\<close> is what each
  64-byte cell holds, \<open>mark_bits\<close> the bitmap at the end of each page (named by the page's base
  address). \<open>os_alloc n\<close> is what the \<open>n\<close>-th call of the system allocator returns (0 for the
  null pointer, on which \<open>PageRef::from_ptr\<close> panics) and \<open>os_calls\<close> the number of calls that
  gave a page; theory Collector states what \<open>std::alloc::alloc\<close> promises of them (the
  layout's alignment, and no overlap). Debug-only code (feature
  \<open>gc-debug\<close>, \<open>print_mark\<close>) is not modelled. The counters are \<open>usize\<close>.
\<close>

definition SIZE :: nat where "SIZE = 64"
definition GCBOX_SIZE :: nat where "GCBOX_SIZE = 64"
definition PAGE_LEN :: nat where "PAGE_LEN = 64 * SIZE"
definition DATA_LEN :: nat where "DATA_LEN = 64 * (SIZE - 1)"
definition THRESHOLD :: nat where "THRESHOLD = 64 * (SIZE - 2)"
definition ALLOC_SIZE :: nat where "ALLOC_SIZE = PAGE_LEN * GCBOX_SIZE"

lemmas size_defs = SIZE_def GCBOX_SIZE_def PAGE_LEN_def DATA_LEN_def THRESHOLD_def ALLOC_SIZE_def

record gcbox =
  box_inner :: rvalue
  box_next :: "u64 option"

record heap =
  used_in_current :: nat
  allocated :: nat
  free_list_count :: nat
  current :: u64
  pages :: "u64 list"
  mark_counter :: nat
  free :: "u64 option"
  free_pages :: "u64 list"
  gc_count :: nat
  alloc_flag :: bool
  gc_enabled :: bool
  cells :: "u64 \<Rightarrow> gcbox"
  mark_bits :: "u64 \<Rightarrow> u64 list"
  os_alloc :: "nat \<Rightarrow> u64"
  os_calls :: nat

definition gcbox_of :: "rvalue \<Rightarrow> gcbox" where
  "gcbox_of d = \<lparr>box_inner = d, box_next = None\<rparr>"

definition get_data_ptr :: "u64 \<Rightarrow> nat \<Rightarrow> u64" where
  "get_data_ptr page i = page + of_nat (i * GCBOX_SIZE)"

definition from_inner :: "u64 \<Rightarrow> u64" where
  "from_inner ptr = ptr AND NOT (of_nat (ALLOC_SIZE - 1))"

definition alloc_page :: "'m heap_scheme \<Rightarrow> ('m heap_scheme \<times> u64) res" where
  "alloc_page h =
     (let ptr = os_alloc h (os_calls h)
      in if ptr = 0 then Inl Panic else Inr (h\<lparr>os_calls := Suc (os_calls h)\<rparr>, ptr))"

definition heap_new ::
    "(nat \<Rightarrow> u64) \<Rightarrow> (u64 \<Rightarrow> gcbox) \<Rightarrow> (u64 \<Rightarrow> u64 list) \<Rightarrow> heap res" where
  "heap_new os mem bits =
     (let h = \<lparr>used_in_current = 0, allocated = 0, free_list_count = 0, current = 0, pages = [],
               mark_counter = 0, free = None, free_pages = [], gc_count = 0, alloc_flag = False,
               gc_enabled = True, cells = mem, mark_bits = bits, os_alloc = os, os_calls = 0\<rparr>
      in rbind (alloc_page h) (\<lambda>(h, ptr). Inr (h\<lparr>current := ptr\<rparr>)))"

definition write_cell :: "u64 \<Rightarrow> gcbox \<Rightarrow> 'm heap_scheme \<Rightarrow> 'm heap_scheme" where
  "write_cell a b h = h\<lparr>cells := (cells h)(a := b)\<rparr>"

text \<open>An object changed in place: a value dereferences to its object.\<close>

definition update_object :: "(rvalue \<Rightarrow> rvalue) \<Rightarrow> val \<Rightarrow> 'm heap_scheme \<Rightarrow> 'm heap_scheme" where
  "update_object f a h =
     write_cell a ((cells h a)\<lparr>box_inner := f (box_inner (cells h a))\<rparr>) h"

text \<open>\<open>Allocator::alloc\<close>: the free list first, then the current page, then a new page.\<close>

definition pop_free_page :: "'m heap_scheme \<Rightarrow> ('m heap_scheme \<times> u64) res" where
  "pop_free_page h =
     (if free_pages h = [] then alloc_page h
      else Inr (h\<lparr>free_pages := butlast (free_pages h)\<rparr>, last (free_pages h)))"

definition alloc_free :: "u64 \<Rightarrow> 'm heap_scheme \<Rightarrow> rvalue \<Rightarrow> 'm heap_scheme" where
  "alloc_free g h d =
     (let h1 = write_cell g (gcbox_of d) (h\<lparr>free := box_next (cells h g)\<rparr>)
      in h1\<lparr>free_list_count := free_list_count h1 - 1\<rparr>)"

definition alloc_bump :: "'m heap_scheme \<Rightarrow> ('m heap_scheme \<times> u64) res" where
  "alloc_bump h =
     (if used_in_current h = DATA_LEN then
        (let h1 = h\<lparr>used_in_current := 1, pages := pages h @ [current h]\<rparr>
         in rbind (pop_free_page h1) (\<lambda>(h2, p). Inr (h2\<lparr>current := p\<rparr>, get_data_ptr p 0)))
      else
        (let h1 = (if used_in_current h = THRESHOLD \<and> gc_enabled h
                   then h\<lparr>alloc_flag := True\<rparr> else h)
         in Inr (h1\<lparr>used_in_current := used_in_current h1 + 1\<rparr>,
                 get_data_ptr (current h1) (used_in_current h1))))"

definition alloc :: "'m heap_scheme \<Rightarrow> rvalue \<Rightarrow> ('m heap_scheme \<times> u64) res" where
  "alloc h0 d =
     (let h = h0\<lparr>allocated := allocated h0 + 1\<rparr> in
      case free h of
        Some g \<Rightarrow> Inr (alloc_free g h d, g)
      | None \<Rightarrow> rbind (alloc_bump h) (\<lambda>(h1, g). Inr (write_cell g (gcbox_of d) h1, g)))"

section \<open>Marking\<close>

definition clear_bits :: "u64 \<Rightarrow> 'm heap_scheme \<Rightarrow> 'm heap_scheme" where
  "clear_bits p h = h\<lparr>mark_bits := (mark_bits h)(p := replicate (SIZE - 1) 0)\<rparr>"

definition clear_mark :: "'m heap_scheme \<Rightarrow> 'm heap_scheme" where
  "clear_mark h0 =
     (let h = fold clear_bits (pages h0) (clear_bits (current h0) h0)
      in h\<lparr>mark_counter := 0\<rparr>)"

text \<open>The bitmap word and the bit of a cell, and \<open>mark_ptr\<close>: was it marked already?\<close>

definition cell_index :: "u64 \<Rightarrow> nat" where
  "cell_index ptr = unat (ptr - get_data_ptr (from_inner ptr) 0) div GCBOX_SIZE"

definition mark_ptr :: "'m heap_scheme \<Rightarrow> u64 \<Rightarrow> ('m heap_scheme \<times> bool) res" where
  "mark_ptr h ptr =
     (let page = from_inner ptr;
          index = cell_index ptr;
          bit_mask = push_bit (index mod 64) 1
      in rbind (index_at (mark_bits h page) (index div 64)) (\<lambda>bitmap.
         let is_marked = (bitmap AND bit_mask \<noteq> 0);
             h1 = h\<lparr>mark_bits := (mark_bits h)(page :=
                      (mark_bits h page)[index div 64 := bitmap OR bit_mask])\<rparr>
         in Inr (if is_marked then h1 else h1\<lparr>mark_counter := mark_counter h1 + 1\<rparr>, is_marked)))"

definition heap_pages :: "'m heap_scheme \<Rightarrow> u64 list" where
  "heap_pages h = pages h @ [current h]"

definition is_marked :: "'m heap_scheme \<Rightarrow> u64 \<Rightarrow> bool" where
  "is_marked h a =
     bit (mark_bits h (from_inner a) ! (cell_index a div 64)) (cell_index a mod 64)"

text \<open>
  \<open>gc_mark\<close>: the recursion over an object's references, as the stack of values still to
  visit; an object's own references go on top, which is the order of the recursive code.
  \<open>refs\<close> enumerates an object's references (theory RValue).
\<close>

lemma bit_or_mask: "bit (w OR 2 ^ n) k = (bit w k \<or> (k = n \<and> n < 64))" for w :: u64
  by (auto simp: bit_simps)

definition zero_bits :: "'m heap_scheme \<Rightarrow> (u64 \<times> nat \<times> nat) set" where
  "zero_bits h =
     {(p, w, b). p \<in> set (heap_pages h) \<and> w < length (mark_bits h p) \<and> b < 64 \<and>
                 \<not> bit (mark_bits h p ! w) b}"

lemma finite_zero_bits: "finite (zero_bits h)"
proof -
  let ?S = "\<Union>p \<in> set (heap_pages h). {p} \<times> {..<length (mark_bits h p)} \<times> {..<(64::nat)}"
  have "finite ?S" by auto
  moreover have "zero_bits h \<subseteq> ?S" by (auto simp: zero_bits_def)
  ultimately show ?thesis by (rule rev_finite_subset)
qed

lemma mark_ptr_old:
  assumes "mark_ptr h a = Inr (h', True)"
  shows "h' = h"
proof -
  let ?i = "cell_index a" let ?p = "from_inner a"
  from assms have i: "?i div 64 < length (mark_bits h ?p)"
    and m: "bit (mark_bits h ?p ! (?i div 64)) (?i mod 64)"
    and h': "h' = h\<lparr>mark_bits := (mark_bits h)(?p := (mark_bits h ?p)[?i div 64 :=
               mark_bits h ?p ! (?i div 64) OR 2 ^ (?i mod 64)])\<rparr>"
    by (auto simp: mark_ptr_def Let_def index_at_def and_exp_eq_0_iff_not_bit split: if_splits)
  have "mark_bits h ?p ! (?i div 64) OR 2 ^ (?i mod 64) = mark_bits h ?p ! (?i div 64)"
    using m by (intro bit_eqI) (auto simp: bit_or_mask)
  with h' show ?thesis by simp
qed

lemma mark_ptr_new_zero_bits:
  assumes "mark_ptr h a = Inr (h', False)" "from_inner a \<in> set (heap_pages h)"
  shows "zero_bits h' \<subset> zero_bits h"
proof -
  let ?i = "cell_index a" let ?p = "from_inner a"
  from assms(1) have i: "?i div 64 < length (mark_bits h ?p)"
    and m: "\<not> bit (mark_bits h ?p ! (?i div 64)) (?i mod 64)"
    and h': "h' = h\<lparr>mark_bits := (mark_bits h)(?p := (mark_bits h ?p)[?i div 64 :=
               mark_bits h ?p ! (?i div 64) OR 2 ^ (?i mod 64)]),
               mark_counter := mark_counter h + 1\<rparr>"
    by (auto simp: mark_ptr_def Let_def index_at_def and_exp_eq_0_iff_not_bit split: if_splits)
  have "zero_bits h' \<subseteq> zero_bits h"
    using i by (auto simp: zero_bits_def h' heap_pages_def nth_list_update bit_or_mask split: if_splits)
  moreover have "(?p, ?i div 64, ?i mod 64) \<in> zero_bits h"
    using assms(2) i m by (simp add: zero_bits_def)
  moreover have "(?p, ?i div 64, ?i mod 64) \<notin> zero_bits h'"
    using i by (simp add: zero_bits_def h' bit_or_mask)
  ultimately show ?thesis by blast
qed

function mark_all :: "(rvalue \<Rightarrow> val list res) \<Rightarrow> 'm heap_scheme \<Rightarrow> val list \<Rightarrow> 'm heap_scheme res" where
  "mark_all refs h [] = Inr h"
| "mark_all refs h (v # vs) =
     (if is_packed_value v then mark_all refs h vs
      else if from_inner v \<notin> set (heap_pages h) then Inl Undef
      else
        case mark_ptr h v of
          Inl e \<Rightarrow> Inl e
        | Inr (h', True) \<Rightarrow> mark_all refs h' vs
        | Inr (h', False) \<Rightarrow>
            (case refs (box_inner (cells h v)) of
               Inl e \<Rightarrow> Inl e
             | Inr cs \<Rightarrow> mark_all refs h' (cs @ vs)))"
  by pat_completeness auto
termination
  by (relation "measures [\<lambda>(refs, h, vs). card (zero_bits h), \<lambda>(refs, h, vs). length vs]")
    (auto dest: mark_ptr_old psubset_card_mono [OF finite_zero_bits mark_ptr_new_zero_bits])

declare mark_all.simps(2) [simp del]

section \<open>Sweeping\<close>

text \<open>\<open>u64::trailing_ones\<close> of the standard library.\<close>

definition trailing_ones :: "u64 \<Rightarrow> nat" where
  "trailing_ones w = length (takeWhile (bit w) [0..<64])"

text \<open>
  The loop variables of \<open>sweep_bits\<close>: the memory, the cell pointer, and the end of the list
  built so far, which is the local \<open>anchor\<close> (\<open>None\<close>) until a first cell is linked.
\<close>

record sweep_state =
  sw_cells :: "u64 \<Rightarrow> gcbox"
  sw_ptr :: u64
  sw_head :: "u64 option"
  sw_anchor :: "u64 option"

definition unlink :: "sweep_state \<Rightarrow> sweep_state" where
  "unlink s =
     (let p = sw_ptr s;
          s1 = (case sw_head s of
                  None \<Rightarrow> s\<lparr>sw_anchor := Some p\<rparr>
                | Some g \<Rightarrow> s\<lparr>sw_cells := (sw_cells s)(g := (sw_cells s g)\<lparr>box_next := Some p\<rparr>)\<rparr>);
          s2 = s1\<lparr>sw_head := Some p\<rparr>;
          b = (sw_cells s2 p)\<lparr>box_next := None\<rparr>
      in s2\<lparr>sw_cells := (sw_cells s2)(p := b\<lparr>box_inner := rvalue_free (box_inner b)\<rparr>)\<rparr>)"

fun sweep_loop :: "nat \<Rightarrow> u64 \<Rightarrow> sweep_state \<Rightarrow> nat \<times> sweep_state" where
  "sweep_loop 0 m s = (0, s)"
| "sweep_loop (Suc k) m s =
     (let (c, s1) = (if m AND 1 = 0 then (1, unlink s) else (0, s));
          (c', s2) = sweep_loop k (drop_bit 1 m) (s1\<lparr>sw_ptr := sw_ptr s1 + of_nat GCBOX_SIZE\<rparr>)
      in (c + c', s2))"

definition sweep_bits :: "nat \<Rightarrow> u64 \<Rightarrow> sweep_state \<Rightarrow> nat \<times> sweep_state" where
  "sweep_bits n m s =
     (let k = trailing_ones m
      in sweep_loop (n - k) (drop_bit k m) (s\<lparr>sw_ptr := sw_ptr s + of_nat (k * GCBOX_SIZE)\<rparr>))"

fun sweep_words :: "u64 list \<Rightarrow> sweep_state \<Rightarrow> nat \<times> sweep_state" where
  "sweep_words [] s = (0, s)"
| "sweep_words (m # ms) s =
     (let (c, s1) = sweep_bits 64 m s; (c', s2) = sweep_words ms s1 in (c + c', s2))"

fun sweep_pages :: "(u64 \<Rightarrow> u64 list) \<Rightarrow> u64 list \<Rightarrow> sweep_state \<Rightarrow> nat \<times> sweep_state" where
  "sweep_pages bits [] s = (0, s)"
| "sweep_pages bits (p # ps) s =
     (let (c, s1) = sweep_words (bits p) (s\<lparr>sw_ptr := get_data_ptr p 0\<rparr>);
          (c', s2) = sweep_pages bits ps s1
      in (c + c', s2))"

definition sweep :: "'m heap_scheme \<Rightarrow> 'm heap_scheme res" where
  "sweep h =
     (let s0 = \<lparr>sw_cells = cells h, sw_ptr = 0, sw_head = None, sw_anchor = None\<rparr>;
          (c1, s1) = sweep_pages (mark_bits h) (pages h) s0
      in if DATA_LEN < used_in_current h then Inl Panic
         else
           let i = used_in_current h div 64;
               b = used_in_current h mod 64;
               bitmap = mark_bits h (current h);
               (c2, s2) = sweep_words (take i bitmap) (s1\<lparr>sw_ptr := get_data_ptr (current h) 0\<rparr>)
           in rbind (if i < SIZE - 1
                     then rbind (index_at bitmap i) (\<lambda>m. Inr (sweep_bits b m s2))
                     else Inr (0, s2)) (\<lambda>(c3, s3).
              Inr (h\<lparr>cells := sw_cells s3, free := sw_anchor s3,
                     free_list_count := c1 + c2 + c3\<rparr>)))"

section \<open>Collection\<close>

definition all_dead :: "'m heap_scheme \<Rightarrow> u64 \<Rightarrow> bool" where
  "all_dead h p = list_all (\<lambda>bits. bits = 0) (mark_bits h p)"

fun free_cells :: "nat \<Rightarrow> u64 \<Rightarrow> (u64 \<Rightarrow> gcbox) \<Rightarrow> (u64 \<Rightarrow> gcbox)" where
  "free_cells 0 p m = m"
| "free_cells (Suc n) p m =
     free_cells n (p + of_nat GCBOX_SIZE)
       (m(p := (m p)\<lparr>box_inner := rvalue_free (box_inner (m p))\<rparr>))"

definition free_page :: "u64 \<Rightarrow> 'm heap_scheme \<Rightarrow> 'm heap_scheme" where
  "free_page p h = h\<lparr>cells := free_cells DATA_LEN (get_data_ptr p 0) (cells h)\<rparr>"

text \<open>The pages are visited from the last to the first; \<open>i\<close> pages are still to be visited.\<close>

fun dealloc_pages :: "nat \<Rightarrow> 'm heap_scheme \<Rightarrow> 'm heap_scheme" where
  "dealloc_pages 0 h = h"
| "dealloc_pages (Suc i) h =
     dealloc_pages i
       (if all_dead h (pages h ! i) then
          (let p = pages h ! i;
               h1 = h\<lparr>pages := take i (pages h) @ drop (Suc i) (pages h)\<rparr>;
               h2 = free_page p h1
           in h2\<lparr>free_pages := free_pages h2 @ [p]\<rparr>)
        else h)"

definition dealloc_empty_pages :: "'m heap_scheme \<Rightarrow> 'm heap_scheme" where
  "dealloc_empty_pages h = dealloc_pages (length (pages h)) h"

definition gc :: "(rvalue \<Rightarrow> val list res) \<Rightarrow> 'm heap_scheme \<Rightarrow> val list \<Rightarrow> 'm heap_scheme res" where
  "gc refs h roots =
     rbind (mark_all refs (clear_mark h) roots) (\<lambda>h1.
     rbind (sweep (dealloc_empty_pages h1)) (\<lambda>h2.
     Inr (h2\<lparr>alloc_flag := False, gc_count := gc_count h2 + 1\<rparr>)))"

end
