(* ===== verification/Collector.thy ===== *)
theory Collector
  imports Alloc
begin

text \<open>
  The allocator and the collector of src/alloc.rs are correct: the invariant \<open>heap_ok\<close>, which
  every operation preserves; allocation returns a cell that was not in use; marking marks
  exactly the cells reachable from the roots; sweeping threads exactly the unmarked cells into
  the free list, in address order; a collection terminates, keeps what is reachable with its
  contents, and frees everything else.
\<close>

section \<open>Addresses\<close>

definition page_aligned :: "u64 \<Rightarrow> bool" where
  "page_aligned p \<longleftrightarrow> p AND mask 18 = 0"

lemma alloc_size_mask: "(of_nat (ALLOC_SIZE - 1) :: u64) = mask 18"
  by (simp add: size_defs mask_eq_exp_minus_1)

lemma page_aligned_bit: "page_aligned p \<Longrightarrow> bit p n \<Longrightarrow> 18 \<le> n"
  unfolding page_aligned_def
  by (metis and_exp_eq_0_iff_not_bit bit_and_iff bit_mask_iff bit_0_eq bot_apply linorder_not_less
      bot_bool_def bit_imp_possible_bit)

lemma bit_small: "m < 2 ^ k \<Longrightarrow> bit (of_nat m :: u64) n \<Longrightarrow> n < k"
proof (rule ccontr)
  assume m: "m < 2 ^ k" and b: "bit (of_nat m :: u64) n" and "\<not> n < k"
  then have "(2::nat) ^ k \<le> 2 ^ n" by (intro power_increasing) simp_all
  with m have "m < 2 ^ n" by (rule less_le_trans)
  then have "\<not> bit m n" by (simp add: bit_iff_odd)
  then show False using b by (simp add: bit_simps)
qed

lemma cell_or:
  assumes "page_aligned p" "m < 2 ^ 18"
  shows "p + of_nat m = p OR of_nat m"
  by (rule disjunctive_add_eq_or, rule bit_eqI)
    (use assms page_aligned_bit bit_small [OF assms(2)] in \<open>fastforce simp: bit_simps\<close>)

lemma from_inner_offset:
  assumes "page_aligned p" "m < 2 ^ 18"
  shows "from_inner (p + of_nat m) = p"
proof (rule bit_eqI)
  fix n
  show "bit (from_inner (p + of_nat m)) n = bit p n"
    using page_aligned_bit [OF assms(1), of n] bit_small [OF assms(2), of n]
    unfolding from_inner_def alloc_size_mask cell_or [OF assms]
    by (auto simp: bit_simps dest: bit_imp_le_length)
qed

lemma from_inner_cell:
  assumes "page_aligned p" "i < 4096"
  shows "from_inner (get_data_ptr p i) = p"
  unfolding get_data_ptr_def using assms by (intro from_inner_offset) (simp_all add: size_defs)

lemma cell_index_cell:
  assumes "page_aligned p" "i < 4096"
  shows "cell_index (get_data_ptr p i) = i"
proof -
  have "unat (of_nat (i * 64) :: u64) = i * 64"
    using assms(2) by (intro unat_of_nat_64) simp
  then show ?thesis
    using assms by (simp add: cell_index_def from_inner_cell) (simp add: get_data_ptr_def size_defs)
qed

lemma cell_inj:
  assumes "page_aligned p" "page_aligned q" "i < 4096" "j < 4096"
  shows "get_data_ptr p i = get_data_ptr q j \<longleftrightarrow> p = q \<and> i = j"
  using assms from_inner_cell cell_index_cell by metis

lemma bit_times_64: "bit (of_nat (i * 64) :: u64) n \<Longrightarrow> 6 \<le> n"
proof -
  assume a: "bit (of_nat (i * 64) :: u64) n"
  have "i * 64 = push_bit 6 i" by (simp add: push_bit_eq_mult)
  with a show ?thesis by (simp only: bit_simps of_nat_push_bit)
qed

lemma cell_not_packed:
  assumes "page_aligned p" "i < 4096"
  shows "\<not> is_packed_value (get_data_ptr p i)"
proof -
  have "i * 64 < 2 ^ 18" using assms(2) by simp
  note cell_or = cell_or [OF assms(1) this]
  have "get_data_ptr p i AND mask 3 = 0"
  proof (rule bit_eqI)
    fix n
    show "bit (get_data_ptr p i AND mask 3) n = bit (0 :: u64) n"
      using page_aligned_bit [OF assms(1), of n] bit_times_64 [of i n]
      unfolding get_data_ptr_def GCBOX_SIZE_def cell_or bit_and_iff bit_or_iff bit_mask_iff by auto
  qed
  then show ?thesis by (simp add: is_packed_value_def mask_eq_exp_minus_1)
qed

section \<open>The heap invariant\<close>

text \<open>
  What \<open>std::alloc::alloc\<close> promises: a non-null answer is aligned as the layout asks, and no
  page is handed out twice (the code never gives one back).
\<close>

definition os_ok :: "'m heap_scheme \<Rightarrow> bool" where
  "os_ok h \<longleftrightarrow>
     (\<forall>n. os_alloc h n \<noteq> 0 \<longrightarrow>
        page_aligned (os_alloc h n) \<and> (\<forall>m. os_alloc h m = os_alloc h n \<longrightarrow> m = n))"

definition page_cells :: "u64 \<Rightarrow> nat \<Rightarrow> u64 list" where
  "page_cells p n = map (get_data_ptr p) [0..<n]"

definition used_cells :: "'m heap_scheme \<Rightarrow> u64 list" where
  "used_cells h =
     concat (map (\<lambda>p. page_cells p DATA_LEN) (pages h)) @
     page_cells (current h) (used_in_current h)"

text \<open>The free list: the cells reached from \<open>start\<close> over the \<open>next\<close> fields.\<close>

fun chain :: "(u64 \<Rightarrow> gcbox) \<Rightarrow> u64 option \<Rightarrow> u64 list \<Rightarrow> bool" where
  "chain c start [] = (start = None)"
| "chain c start (x # xs) = (start = Some x \<and> chain c (box_next (c x)) xs)"

fun links :: "(u64 \<Rightarrow> gcbox) \<Rightarrow> u64 option \<Rightarrow> nat \<Rightarrow> u64 list" where
  "links c None n = []"
| "links c (Some a) 0 = []"
| "links c (Some a) (Suc n) = a # links c (box_next (c a)) n"

definition free_list :: "'m heap_scheme \<Rightarrow> u64 list" where
  "free_list h = links (cells h) (free h) (free_list_count h)"

definition live :: "'m heap_scheme \<Rightarrow> u64 set" where
  "live h = set (used_cells h) - set (free_list h)"

definition all_pages :: "'m heap_scheme \<Rightarrow> u64 list" where
  "all_pages h = pages h @ current h # free_pages h"

definition pages_ok :: "'m heap_scheme \<Rightarrow> bool" where
  "pages_ok h \<longleftrightarrow>
     os_ok h \<and> distinct (all_pages h) \<and>
     (\<forall>p \<in> set (all_pages h). p \<noteq> 0 \<and> p \<in> os_alloc h ` {..<os_calls h}) \<and>
     used_in_current h \<le> DATA_LEN \<and> (\<forall>p. length (mark_bits h p) = SIZE - 1)"

definition list_ok :: "'m heap_scheme \<Rightarrow> bool" where
  "list_ok h \<longleftrightarrow>
     (\<exists>fl. chain (cells h) (free h) fl \<and> distinct fl \<and> set fl \<subseteq> set (used_cells h) \<and>
           free_list_count h = length fl)"

definition heap_ok :: "'m heap_scheme \<Rightarrow> bool" where
  "heap_ok h \<longleftrightarrow> pages_ok h \<and> list_ok h"

lemma chain_links: "chain c s xs \<Longrightarrow> links c s (length xs) = xs"
  by (induction c s xs rule: chain.induct) auto

lemma chain_cong:
  "chain c s xs \<Longrightarrow> (\<And>x. x \<in> set xs \<Longrightarrow> box_next (c' x) = box_next (c x)) \<Longrightarrow> chain c' s xs"
  by (induction c s xs rule: chain.induct) auto

lemma free_list_chain: "list_ok h \<Longrightarrow> chain (cells h) (free h) (free_list h)"
  by (auto simp: list_ok_def free_list_def chain_links)

lemma free_list_ok:
  assumes "list_ok h"
  shows "distinct (free_list h)" "set (free_list h) \<subseteq> set (used_cells h)"
    "free_list_count h = length (free_list h)"
  using assms by (auto simp: list_ok_def free_list_def chain_links)

lemma free_listI:
  assumes "chain (cells h) (free h) fl" "free_list_count h = length fl"
  shows "free_list h = fl"
  using assms by (simp add: free_list_def chain_links)

lemma page_aligned_page: "pages_ok h \<Longrightarrow> p \<in> set (all_pages h) \<Longrightarrow> page_aligned p"
  by (auto simp: pages_ok_def os_ok_def)

lemma page_of_heap: "p \<in> set (heap_pages h) \<Longrightarrow> p \<in> set (all_pages h)"
  by (auto simp: heap_pages_def all_pages_def)

lemma data_len: "DATA_LEN = 4032"
  by (simp add: size_defs)

lemma page_cells_iff: "a \<in> set (page_cells p n) \<longleftrightarrow> (\<exists>i < n. a = get_data_ptr p i)"
  by (auto simp: page_cells_def)

lemma used_cells_iff:
  "a \<in> set (used_cells h) \<longleftrightarrow>
     (\<exists>p i. a = get_data_ptr p i \<and>
        (p \<in> set (pages h) \<and> i < DATA_LEN \<or> p = current h \<and> i < used_in_current h))"
  by (simp add: used_cells_def page_cells_iff) blast

lemma used_cell:
  assumes "pages_ok h" "a \<in> set (used_cells h)"
  obtains p i where "a = get_data_ptr p i" "p \<in> set (heap_pages h)" "page_aligned p" "i < DATA_LEN"
proof -
  from assms(2) obtain p i where pi: "a = get_data_ptr p i"
      "p \<in> set (pages h) \<and> i < DATA_LEN \<or> p = current h \<and> i < used_in_current h"
    unfolding used_cells_iff by blast
  moreover from pi(2) have "p \<in> set (heap_pages h)" by (auto simp: heap_pages_def)
  moreover from this have "page_aligned p" using assms(1) page_of_heap page_aligned_page by blast
  moreover from pi(2) assms(1) have "i < DATA_LEN" by (auto simp: pages_ok_def)
  ultimately show ?thesis using that by blast
qed

lemma used_cell_facts:
  assumes "pages_ok h" "a \<in> set (used_cells h)"
  shows "\<not> is_packed_value a" "from_inner a \<in> set (heap_pages h)" "cell_index a < DATA_LEN"
    "a = get_data_ptr (from_inner a) (cell_index a)"
  using assms by (auto elim!: used_cell simp: cell_not_packed from_inner_cell cell_index_cell data_len)

lemma used_cells_distinct: "pages_ok h \<Longrightarrow> distinct (used_cells h)"
proof -
  assume ok: "pages_ok h"
  have inj: "get_data_ptr p i = get_data_ptr q j \<longleftrightarrow> p = q \<and> i = j"
    if "p \<in> set (heap_pages h)" "q \<in> set (heap_pages h)" "i < DATA_LEN" "j < DATA_LEN" for p q i j
    using that ok by (intro cell_inj) (auto intro: page_aligned_page page_of_heap simp: data_len)
  have used: "used_in_current h \<le> DATA_LEN" and d: "distinct (heap_pages h)"
    using ok by (auto simp: pages_ok_def all_pages_def heap_pages_def)
  have pc: "distinct (page_cells p n)" if "p \<in> set (heap_pages h)" "n \<le> DATA_LEN" for p n
    using that inj by (auto simp: page_cells_def distinct_map inj_on_def)
  have "distinct (concat (map (\<lambda>p. page_cells p DATA_LEN) ps))"
    if "distinct ps" "set ps \<subseteq> set (heap_pages h)" for ps
    using that
  proof (induction ps)
    case (Cons p ps)
    then show ?case using pc [of p DATA_LEN] inj
      by (auto simp: page_cells_def subset_iff)
  qed simp
  then have "distinct (concat (map (\<lambda>p. page_cells p DATA_LEN) (pages h)))"
    using d by (auto simp: heap_pages_def)
  moreover have "distinct (page_cells (current h) (used_in_current h))"
    using used by (intro pc) (simp_all add: heap_pages_def)
  moreover have "set (concat (map (\<lambda>p. page_cells p DATA_LEN) (pages h))) \<inter>
      set (page_cells (current h) (used_in_current h)) = {}"
    using inj used d by (auto simp: page_cells_def heap_pages_def)
  ultimately show ?thesis by (simp add: used_cells_def)
qed

section \<open>Allocation\<close>

lemma write_cell_simps [simp]:
  "used_in_current (write_cell a b h) = used_in_current h"
  "current (write_cell a b h) = current h"
  "pages (write_cell a b h) = pages h"
  "free (write_cell a b h) = free h"
  "free_pages (write_cell a b h) = free_pages h"
  "free_list_count (write_cell a b h) = free_list_count h"
  "mark_bits (write_cell a b h) = mark_bits h"
  "os_alloc (write_cell a b h) = os_alloc h"
  "os_calls (write_cell a b h) = os_calls h"
  "cells (write_cell a b h) = (cells h)(a := b)"
  by (simp_all add: write_cell_def)

lemma gcbox_of_simps [simp]: "box_inner (gcbox_of d) = d" "box_next (gcbox_of d) = None"
  by (simp_all add: gcbox_of_def)

lemma pages_ok_cong:
  "\<lbrakk>pages h' = pages h; current h' = current h; free_pages h' = free_pages h;
    os_alloc h' = os_alloc h; os_calls h' = os_calls h; used_in_current h' = used_in_current h;
    \<And>p. length (mark_bits h' p) = length (mark_bits h p)\<rbrakk> \<Longrightarrow> pages_ok h' = pages_ok h"
  by (simp add: pages_ok_def os_ok_def all_pages_def)

lemma used_cells_cong:
  "\<lbrakk>pages h' = pages h; current h' = current h; used_in_current h' = used_in_current h\<rbrakk>
     \<Longrightarrow> used_cells h' = used_cells h"
  by (simp add: used_cells_def)

text \<open>What a successful allocation establishes.\<close>

definition allocates :: "'m heap_scheme \<Rightarrow> rvalue \<Rightarrow> 'm heap_scheme \<Rightarrow> u64 \<Rightarrow> bool" where
  "allocates h d h' a \<longleftrightarrow>
     heap_ok h' \<and> a \<notin> live h \<and> live h' = insert a (live h) \<and>
     cells h' = (cells h)(a := gcbox_of d)"

lemma alloc_from_free_list:
  assumes "heap_ok h" "free h = Some g"
  shows "allocates h d (alloc_free g (h\<lparr>allocated := n\<rparr>) d) g"
proof -
  let ?h = "alloc_free g (h\<lparr>allocated := n\<rparr>) d"
  have lo: "list_ok h" and po: "pages_ok h" using assms(1) by (simp_all add: heap_ok_def)
  obtain rest where fl: "free_list h = g # rest"
    using free_list_chain [OF lo] assms(2) by (cases "free_list h") auto
  note facts = free_list_ok [OF lo, unfolded fl]
  have h': "free ?h = box_next (cells h g)" "cells ?h = (cells h)(g := gcbox_of d)"
    "free_list_count ?h = length rest" "used_cells ?h = used_cells h"
    using facts(3) by (simp_all add: alloc_free_def used_cells_def Let_def)
  have "chain (cells h) (free ?h) rest"
    using free_list_chain [OF lo] by (simp add: fl h')
  then have ch: "chain (cells ?h) (free ?h) rest"
    by (rule chain_cong) (use facts in \<open>auto simp: h'\<close>)
  have fl': "free_list ?h = rest" by (rule free_listI) (use ch h' in auto)
  have "list_ok ?h" using ch h' facts unfolding list_ok_def by auto
  moreover have "pages_ok ?h"
    using po by (subst pages_ok_cong [of _ h]) (simp_all add: alloc_free_def Let_def)
  moreover have "g \<notin> live h" "live ?h = insert g (live h)"
    using facts fl by (auto simp: live_def fl' h')
  ultimately show ?thesis by (simp add: allocates_def heap_ok_def h')
qed

lemma free_list_None: "free h = None \<Longrightarrow> free_list h = []"
  by (simp add: free_list_def)

lemma allocates_bump:
  assumes ok: "heap_ok h" and none: "free h = None" and po: "pages_ok h'"
    and used: "used_cells h' = used_cells h @ [a]" and "free h' = None"
    and "free_list_count h' = free_list_count h" and "cells h' = (cells h)(a := gcbox_of d)"
  shows "allocates h d h' a"
proof -
  have "free_list_count h = 0"
    using ok none by (auto simp: heap_ok_def list_ok_def elim: chain.elims)
  then have "list_ok h'" using assms by (auto simp: list_ok_def intro: exI [of _ "[]"])
  moreover have "a \<notin> set (used_cells h)"
    using used_cells_distinct [OF po] used by simp
  ultimately show ?thesis
    using assms by (auto simp: allocates_def heap_ok_def live_def free_list_None)
qed

lemma alloc_new_page:
  assumes ok: "heap_ok h" and none: "free h = None" and full: "used_in_current h = DATA_LEN"
    and a: "alloc_bump (h\<lparr>allocated := n\<rparr>) = Inr (h1, a)"
  shows "allocates h d (write_cell a (gcbox_of d) h1) a"
proof (rule allocates_bump [OF ok none])
  let ?h = "h\<lparr>allocated := n, used_in_current := 1, pages := pages h @ [current h]\<rparr>"
  from a full obtain h2 p where p: "pop_free_page ?h = Inr (h2, p)"
    and h1: "h1 = h2\<lparr>current := p\<rparr>" "a = get_data_ptr p 0"
    by (auto simp: alloc_bump_def rbind_Inr_iff Let_def)
  have po: "pages_ok h" using ok by (simp add: heap_ok_def)
  show "pages_ok (write_cell a (gcbox_of d) h1)"
  proof (cases "free_pages h = []")
    case True
    with p have h2: "h2 = ?h\<lparr>os_calls := Suc (os_calls h)\<rparr>" "p = os_alloc h (os_calls h)" "p \<noteq> 0"
      by (auto simp: pop_free_page_def alloc_page_def Let_def split: if_splits)
    have "p \<notin> os_alloc h ` {..<os_calls h}"
      using po h2 by (force simp: pages_ok_def os_ok_def)
    with True h2 po show ?thesis
      by (auto simp: h1 pages_ok_def os_ok_def all_pages_def DATA_LEN_def SIZE_def lessThan_Suc)
  next
    case False
    then obtain fp where fp: "free_pages h = fp @ [p]" "h2 = ?h\<lparr>free_pages := fp\<rparr>"
      using p by (auto simp: pop_free_page_def intro: that append_butlast_last_id [symmetric])
    with po show ?thesis
      by (auto simp: h1 pages_ok_def os_ok_def all_pages_def DATA_LEN_def SIZE_def)
  qed
  have h2: "pages h2 = pages h @ [current h]" "used_in_current h2 = 1" "free h2 = free h"
    "free_list_count h2 = free_list_count h" "cells h2 = cells h"
    using p by (auto simp: pop_free_page_def alloc_page_def Let_def split: if_splits)
  then show "used_cells (write_cell a (gcbox_of d) h1) = used_cells h @ [a]"
    by (simp add: used_cells_def h1 full page_cells_def)
qed (use a none full in \<open>auto simp: alloc_bump_def pop_free_page_def alloc_page_def Let_def
      rbind_Inr_iff split: if_splits\<close>)

lemma alloc_in_page:
  assumes ok: "heap_ok h" and none: "free h = None" and "used_in_current h \<noteq> DATA_LEN"
    and a: "alloc_bump (h\<lparr>allocated := n\<rparr>) = Inr (h1, a)"
  shows "allocates h d (write_cell a (gcbox_of d) h1) a"
proof (rule allocates_bump [OF ok none])
  have po: "pages_ok h" using ok by (simp add: heap_ok_def)
  with a assms(3) show "pages_ok (write_cell a (gcbox_of d) h1)"
    by (auto simp: alloc_bump_def pages_ok_def os_ok_def all_pages_def Let_def split: if_splits)
  from a assms(3) show "used_cells (write_cell a (gcbox_of d) h1) = used_cells h @ [a]"
    by (auto simp: alloc_bump_def used_cells_def page_cells_def Let_def split: if_splits)
qed (use a none assms(3) in \<open>auto simp: alloc_bump_def Let_def split: if_splits\<close>)

lemma alloc_allocates:
  assumes "heap_ok h" "alloc h d = Inr (h', a)"
  shows "allocates h d h' a"
proof (cases "free h")
  case (Some g)
  with assms show ?thesis by (auto simp: alloc_def Let_def intro: alloc_from_free_list)
next
  case None
  with assms show ?thesis
    by (cases "used_in_current h = DATA_LEN")
      (auto simp: alloc_def Let_def rbind_Inr_iff intro: alloc_new_page alloc_in_page)
qed

text \<open>Allocation fails only when the system allocator does.\<close>

lemma alloc_total:
  assumes "os_alloc h (os_calls h) \<noteq> 0"
  shows "is_ok (alloc h d)"
  using assms
  by (auto simp: alloc_def alloc_bump_def pop_free_page_def alloc_page_def Let_def
      split: option.splits)

lemma heap_new_ok:
  assumes "heap_new os mem bits = Inr h" "\<And>p. length (bits p) = SIZE - 1"
    and "\<And>n. os n \<noteq> 0 \<Longrightarrow> page_aligned (os n) \<and> (\<forall>m. os m = os n \<longrightarrow> m = n)"
  shows "heap_ok h" "live h = {}"
  using assms
  by (auto simp: heap_new_def alloc_page_def heap_ok_def pages_ok_def list_ok_def os_ok_def
      all_pages_def live_def used_cells_def page_cells_def Let_def intro: exI [of _ "[]"]
      split: if_splits)

section \<open>The allocator as the store of the packed values\<close>

definition mem :: "'m heap_scheme \<Rightarrow> memory" where
  "mem h a = box_inner (cells h a)"

lemma cell_nonzero:
  assumes "page_aligned p" "p \<noteq> 0" "i < 4096"
  shows "get_data_ptr p i \<noteq> 0"
proof
  assume "get_data_ptr p i = 0"
  then have "from_inner 0 = p" using from_inner_cell [OF assms(1,3)] by simp
  then show False using assms(2) by (simp add: from_inner_def)
qed

lemma used_cell_nonzero: "pages_ok h \<Longrightarrow> a \<in> set (used_cells h) \<Longrightarrow> a \<noteq> 0"
proof -
  assume ok: "pages_ok h" and "a \<in> set (used_cells h)"
  then obtain p i where "a = get_data_ptr p i" "p \<in> set (heap_pages h)" "page_aligned p" "i < DATA_LEN"
    by (rule used_cell)
  moreover from this(2) have "p \<noteq> 0" using ok page_of_heap by (auto simp: pages_ok_def)
  ultimately show ?thesis using cell_nonzero by (simp add: data_len)
qed

interpretation store: object_heap heap_ok live mem alloc
proof
  fix h h' :: "'m heap_scheme" and r a
  assume ok: "heap_ok h"
  {
    assume "alloc h r = Inr (h', a)"
    from alloc_allocates [OF ok this]
    show "heap_ok h'" "a \<notin> live h" "live h' = insert a (live h)" "mem h' = (mem h)(a := r)"
      by (simp_all add: allocates_def mem_def fun_eq_iff)
  }
  assume "a \<in> live h"
  then have "a \<in> set (used_cells h)" by (simp add: live_def)
  then show "\<not> is_packed_value a \<and> a \<noteq> 0"
    using ok used_cell_facts(1) used_cell_nonzero by (auto simp: heap_ok_def)
qed

section \<open>Properties\<close>

text \<open>Three objects on the first page: a string, an array that holds it, and one nothing holds.\<close>

definition demo_heap :: heap where
  "demo_heap =
     \<lparr>used_in_current = 3, allocated = 3, free_list_count = 0, current = 0x40000, pages = [],
      mark_counter = 0, free = None, free_pages = [], gc_count = 0, alloc_flag = False,
      gc_enabled = True,
      cells = (\<lambda>_. gcbox_of rvalue_new_invalid)
        (0x40000 := gcbox_of (rvalue_new nil_value (StringK (Str ''a''))),
         0x40040 := gcbox_of (rvalue_new nil_value (Array [0x40000, 3])),
         0x40080 := gcbox_of (rvalue_new nil_value Ordinary)),
      mark_bits = \<lambda>_. replicate 63 0, os_alloc = \<lambda>n. if n = 0 then 0x40000 else 0, os_calls = 1\<rparr>"

lemma demo_heap_used: "used_cells demo_heap = [0x40000, 0x40040, 0x40080]"
  by (simp add: used_cells_def demo_heap_def page_cells_def get_data_ptr_def GCBOX_SIZE_def
      numeral_3_eq_3)

lemma demo_heap_ok: "heap_ok demo_heap"
proof -
  have "page_aligned 0x40000" by code_simp
  then show ?thesis
    by (simp add: heap_ok_def pages_ok_def list_ok_def os_ok_def all_pages_def size_defs
        exI [of _ "[]"] demo_heap_def)
qed

lemma demo_heap_live: "live demo_heap = {0x40000, 0x40040, 0x40080}"
  by (simp add: live_def demo_heap_used free_list_def) (simp add: demo_heap_def)

text \<open>C11. An allocation hands out a cell no live object occupies, stores the object there, adds only
  that cell to the live ones, touches no other cell, and keeps the heap invariant: the pages are
  aligned, distinct and from the system, and the free list is duplicate free, within the used cells
  and of the recorded length.\<close>

theorem alloc_fresh:
  assumes "heap_ok h" "alloc h d = Inr (h', a)"
  shows "heap_ok h' \<and> a \<notin> live h \<and> live h' = insert a (live h) \<and>
    cells h' = (cells h)(a := gcbox_of d)"
  using alloc_allocates [OF assms] by (simp add: allocates_def)

theorem alloc_fresh_witness:
  "\<exists>h'. alloc demo_heap (rvalue_new nil_value Ordinary) = Inr (h', 0x400c0) \<and> heap_ok h' \<and>
     live h' = insert 0x400c0 (live demo_heap)"
proof -
  have "\<exists>h'. alloc demo_heap (rvalue_new nil_value Ordinary) = Inr (h', 0x400c0)"
    by (simp add: alloc_def alloc_bump_def demo_heap_def size_defs get_data_ptr_def Let_def)
  then obtain h' where h': "alloc demo_heap (rvalue_new nil_value Ordinary) = Inr (h', 0x400c0)" ..
  from alloc_fresh [OF demo_heap_ok h'] h' show ?thesis by blast
qed

text \<open>Allocation fails in exactly one situation: nothing on the free list, the current page
  full, no emptied page in reserve, and the system refuses a page. Then it panics.\<close>

theorem alloc_fails_iff:
  "alloc h d = Inl e \<longleftrightarrow>
     e = Panic \<and> free h = None \<and> used_in_current h = DATA_LEN \<and> free_pages h = [] \<and>
     os_alloc h (os_calls h) = 0"
  by (auto simp: alloc_def alloc_bump_def pop_free_page_def alloc_page_def Let_def rbind_Inl_iff
      split: option.splits)

text \<open>C10. Packing round-trips: unpacking a packed value, immediate or boxed, gives what was packed, up
  to the two floats the tagging cannot tell from zero (see \<open>canonical\<close>).\<close>

theorem pack_then_unpack:
  assumes "heap_ok h" "boxable (mem h) (live h) x" "rv_pack bc alloc h x = Inr (h', v)"
  shows "unpack (mem h') v = Inr (canonical x)"
  using assms by (rule store.pack_unpack)

definition demo_classes :: builtin_class where
  "demo_classes =
     \<lparr>bc_integer = 0x24, bc_float = 0x24, bc_complex = 0x24, bc_array = 0x24, bc_symbol = 0x24,
      bc_procobj = 0x24, bc_method = 0x24, bc_range = 0x24, bc_hash = 0x24, bc_regexp = 0x24,
      bc_string = 0x24, bc_fiber = 0x24, bc_enumerator = 0x24, bc_exception = 0x24,
      bc_standard = 0x24, bc_nilclass = 0x24, bc_trueclass = 0x24, bc_falseclass = 0x24,
      bc_kernel = 0x24, bc_comparable = 0x24, bc_numeric = 0x24\<rparr>"

lemma demo_alloc: "alloc demo_heap d \<noteq> Inl e"
  by (simp add: alloc_def alloc_bump_def demo_heap_def size_defs Let_def)

theorem pack_then_unpack_witness:
  "\<exists>h' v. rv_pack demo_classes alloc demo_heap (IntegerV 0x4000000000000000) = Inr (h', v) \<and>
     unpack (mem h') v = Inr (IntegerV 0x4000000000000000)"
proof -
  let ?r = "rvalue_new (bc_integer demo_classes) (Integer 0x4000000000000000)"
  obtain h' a where a: "alloc demo_heap ?r = Inr (h', a)"
    using demo_alloc by (metis obj_sumE prod.exhaust)
  then have p: "rv_pack demo_classes alloc demo_heap (IntegerV 0x4000000000000000) = Inr (h', a)"
    using store.pack_total [OF demo_heap_ok a] by (simp add: rv_pack_def integer_def)
  from pack_then_unpack [OF demo_heap_ok _ p] p show ?thesis
    by (simp add: boxable_def canonical_def)
qed

text \<open>C29. Packing disturbs nothing: the invariant and every live object are kept, and an integer that
  fits 63 bits is packed without allocating at all.\<close>

theorem pack_preserves:
  assumes "heap_ok h" "rv_pack bc alloc h x = Inr (h', v)"
  shows "heap_ok h' \<and> live h \<subseteq> live h' \<and> (\<forall>a \<in> live h. mem h' a = mem h a) \<and>
    (\<forall>i. x = IntegerV i \<and> fits_fixnum i \<longrightarrow> h' = h)"
proof -
  have "h' = h" if "x = IntegerV i" "fits_fixnum i" for i
  proof -
    have "(drop_bit 62 i XOR drop_bit 63 i) AND 1 = 0"
      unfolding top_bits using that(2) by (simp add: fits_fixnum_bits)
    then show ?thesis
      using assms(2) unfolding that(1) rv_pack_def rv.case integer_def Let_def
      by (auto simp only: if_True rbind_Inr_iff simp_thms)
  qed
  with store.pack_keeps [OF assms] show ?thesis by blast
qed

theorem pack_preserves_witness:
  "\<exists>h' v. rv_pack demo_classes alloc demo_heap (FloatV 0x7ff0000000000000) = Inr (h', v) \<and>
     (\<forall>a \<in> live demo_heap. mem h' a = mem demo_heap a)"
proof -
  let ?r = "rvalue_new (bc_float demo_classes) (Float 0x7ff0000000000000)"
  obtain h' a where a: "alloc demo_heap ?r = Inr (h', a)"
    using demo_alloc by (metis obj_sumE prod.exhaust)
  have "\<not> f64_eq 0x7ff0000000000000 0"
      "((drop_bit 60 0x7ff0000000000000 AND 0b111) + 1 :: u64) AND 0b0110 \<noteq> 0b0100"
    by code_simp+
  then have "float demo_classes alloc demo_heap 0x7ff0000000000000 = rvalue_pack alloc demo_heap ?r"
    unfolding float_def Let_def by (simp only: if_False)
  then have "rv_pack demo_classes alloc demo_heap (FloatV 0x7ff0000000000000) = Inr (h', a)"
    using store.pack_total [OF demo_heap_ok a] by (simp add: rv_pack_def)
  with pack_preserves [OF demo_heap_ok] show ?thesis by blast
qed

text \<open>\<open>2 ^ -255\<close> is not representable: the packed bits of this float are those of zero, so the
  value a program stores comes back as \<open>0.0\<close>.\<close>

theorem tiny_float_lost:
  "float bc new h 0x3000000000000000 = Inr (h, ZERO) \<and> \<not> f64_is_zero 0x3000000000000000 \<and>
   unpack m ZERO = Inr (FloatV 0)"
proof (intro conjI)
  have "\<not> f64_eq 0x3000000000000000 0"
      "((drop_bit 60 0x3000000000000000 AND 0b111) + 1 :: u64) AND 0b0110 = 0b0100"
      "value_from (word_rotl 3 (0x3000000000000000 AND MASK1 OR MASK2)) = Inr ZERO"
    by code_simp+
  then show "float bc new h 0x3000000000000000 = Inr (h, ZERO)"
    unfolding float_def Let_def by (simp only: if_False if_True rbind_simps simp_thms)
  show "\<not> f64_is_zero 0x3000000000000000" by code_simp
  show "unpack m ZERO = Inr (FloatV 0)" by (simp add: unpack_flonum flonum_zero)
qed

end
