(* ===== verification/Numeric.thy ===== *)
theory Numeric
  imports Values "HOL-Library.Signed_Division"
begin

text \<open>
  src/value/real.rs: \<open>Real\<close>, an integer or a float, with the mixed arithmetic and the order of
  the numeric tower, and the integer operations of Rust the code uses. An \<open>i64\<close> operation that
  overflows wraps around: the crate's release profile leaves the overflow checks off. A shift
  takes its distance modulo 64. Division overflow and division by zero panic in every profile.
  \<open>sqrt\<close> is not modelled.
\<close>

datatype real_num = RInteger i64 | RFloat f64

section \<open>Integers\<close>

definition i64_cmp :: "i64 \<Rightarrow> i64 \<Rightarrow> ordering" where
  "i64_cmp a b = int_cmp (sint a) (sint b)"

definition i64_div :: "i64 \<Rightarrow> i64 \<Rightarrow> i64 res" where
  "i64_div a b =
     (if b = 0 \<or> (sint a = i64_min \<and> b = -1) then Inl Panic
      else Inr (word_of_int (sint a sdiv sint b)))"

definition div_euclid_int :: "int \<Rightarrow> int \<Rightarrow> int" where
  "div_euclid_int a b = (if 0 < b then a div b else - (a div (- b)))"

definition i64_div_euclid :: "i64 \<Rightarrow> i64 \<Rightarrow> i64 res" where
  "i64_div_euclid a b =
     (if b = 0 \<or> (sint a = i64_min \<and> b = -1) then Inl Panic
      else Inr (word_of_int (div_euclid_int (sint a) (sint b))))"

definition i64_shl :: "i64 \<Rightarrow> i64 \<Rightarrow> i64" where
  "i64_shl a b = push_bit (unat (b AND 63)) a"

definition i64_shr :: "i64 \<Rightarrow> i64 \<Rightarrow> i64" where
  "i64_shr a b = signed_drop_bit (unat (b AND 63)) a"

section \<open>Real\<close>

definition to_real :: "memory \<Rightarrow> val \<Rightarrow> real_num option res" where
  "to_real m v =
     rbind (unpack m v) (\<lambda>r. Inr (case r of
       IntegerV i \<Rightarrow> Some (RInteger i) | FloatV f \<Rightarrow> Some (RFloat f) | _ \<Rightarrow> None))"

definition to_complex :: "memory \<Rightarrow> val \<Rightarrow> (real_num \<times> real_num) option res" where
  "to_complex m v =
     rbind (unpack m v) (\<lambda>r.
       case r of
         IntegerV i \<Rightarrow> Inr (Some (RInteger i, RInteger 0))
       | FloatV f \<Rightarrow> Inr (Some (RFloat f, RInteger 0))
       | ObjectV a \<Rightarrow>
           (case kind (m a) of
              Complex r i \<Rightarrow>
                rbind (rbind (to_real m r) or_panic) (\<lambda>r'.
                rbind (rbind (to_real m i) or_panic) (\<lambda>i'. Inr (Some (r', i'))))
            | _ \<Rightarrow> Inr None)
       | _ \<Rightarrow> Inr None)"

definition to_val :: "builtin_class \<Rightarrow> 'h allocator \<Rightarrow> 'h \<Rightarrow> real_num \<Rightarrow> ('h \<times> val) res" where
  "to_val bc new h r = (case r of RInteger i \<Rightarrow> integer bc new h i | RFloat f \<Rightarrow> float bc new h f)"

definition real_is_negative :: "real_num \<Rightarrow> bool" where
  "real_is_negative r = (case r of RInteger i \<Rightarrow> sint i < 0 | RFloat f \<Rightarrow> f64_lt f 0)"

definition real_is_zero :: "real_num \<Rightarrow> bool" where
  "real_is_zero r = (case r of RInteger i \<Rightarrow> i = 0 | RFloat f \<Rightarrow> f64_eq f 0)"

text \<open>The float of a number, as the code's \<open>as f64\<close> of the integer side of a mixed operation.\<close>

definition as_f64 :: "real_num \<Rightarrow> f64" where
  "as_f64 r = (case r of RInteger i \<Rightarrow> f64_of_i64 i | RFloat f \<Rightarrow> f)"

definition quo :: "real_num \<Rightarrow> real_num \<Rightarrow> real_num res" where
  "quo x y =
     (case (x, y) of
        (RInteger a, RInteger b) \<Rightarrow> rbind (i64_div_euclid a b) (\<lambda>q. Inr (RInteger q))
      | (RInteger a, RFloat b) \<Rightarrow> Inr (RInteger (f64_floor_to_i64 (f64_div (f64_of_i64 a) b)))
      | (RFloat a, RInteger b) \<Rightarrow> Inr (RInteger (f64_floor_to_i64 (f64_div a (f64_of_i64 b))))
      | (RFloat a, RFloat b) \<Rightarrow> Inr (RInteger (f64_floor_to_i64 (f64_div a b))))"

definition real_add :: "real_num \<Rightarrow> real_num \<Rightarrow> real_num" where
  "real_add x y =
     (case (x, y) of
        (RInteger a, RInteger b) \<Rightarrow> RInteger (a + b)
      | (RInteger a, RFloat b) \<Rightarrow> RFloat (f64_add (f64_of_i64 a) b)
      | (RFloat a, RInteger b) \<Rightarrow> RFloat (f64_add a (f64_of_i64 b))
      | (RFloat a, RFloat b) \<Rightarrow> RFloat (f64_add a b))"

definition real_sub :: "real_num \<Rightarrow> real_num \<Rightarrow> real_num" where
  "real_sub x y =
     (case (x, y) of
        (RInteger a, RInteger b) \<Rightarrow> RInteger (a - b)
      | (RInteger a, RFloat b) \<Rightarrow> RFloat (f64_sub (f64_of_i64 a) b)
      | (RFloat a, RInteger b) \<Rightarrow> RFloat (f64_sub a (f64_of_i64 b))
      | (RFloat a, RFloat b) \<Rightarrow> RFloat (f64_sub a b))"

definition real_mul :: "real_num \<Rightarrow> real_num \<Rightarrow> real_num" where
  "real_mul x y =
     (case (x, y) of
        (RInteger a, RInteger b) \<Rightarrow> RInteger (a * b)
      | (RInteger a, RFloat b) \<Rightarrow> RFloat (f64_mul (f64_of_i64 a) b)
      | (RFloat a, RInteger b) \<Rightarrow> RFloat (f64_mul a (f64_of_i64 b))
      | (RFloat a, RFloat b) \<Rightarrow> RFloat (f64_mul a b))"

definition real_div :: "real_num \<Rightarrow> real_num \<Rightarrow> real_num" where
  "real_div x y = RFloat (f64_div (as_f64 x) (as_f64 y))"

definition real_neg :: "real_num \<Rightarrow> real_num" where
  "real_neg x = (case x of RInteger i \<Rightarrow> RInteger (- i) | RFloat f \<Rightarrow> RFloat (f64_neg f))"

definition real_eq :: "real_num \<Rightarrow> real_num \<Rightarrow> bool" where
  "real_eq x y =
     (case (x, y) of
        (RInteger a, RInteger b) \<Rightarrow> a = b
      | (RInteger a, RFloat b) \<Rightarrow> f64_eq (f64_of_i64 a) b
      | (RFloat a, RInteger b) \<Rightarrow> f64_eq a (f64_of_i64 b)
      | (RFloat a, RFloat b) \<Rightarrow> f64_eq a b)"

definition real_cmp :: "real_num \<Rightarrow> real_num \<Rightarrow> ordering option" where
  "real_cmp x y =
     (case (x, y) of
        (RInteger a, RInteger b) \<Rightarrow> Some (i64_cmp a b)
      | (RInteger a, RFloat b) \<Rightarrow> f64_cmp (f64_of_i64 a) b
      | (RFloat a, RInteger b) \<Rightarrow> f64_cmp a (f64_of_i64 b)
      | (RFloat a, RFloat b) \<Rightarrow> f64_cmp a b)"

text \<open>The comparison operators \<open>PartialOrd\<close> derives from \<open>partial_cmp\<close>.\<close>

definition ord_lt :: "ordering option \<Rightarrow> bool" where "ord_lt c \<longleftrightarrow> c = Some Less"
definition ord_le :: "ordering option \<Rightarrow> bool" where
  "ord_le c \<longleftrightarrow> c = Some Less \<or> c = Some Equal"
definition ord_gt :: "ordering option \<Rightarrow> bool" where "ord_gt c \<longleftrightarrow> c = Some Greater"
definition ord_ge :: "ordering option \<Rightarrow> bool" where
  "ord_ge c \<longleftrightarrow> c = Some Greater \<or> c = Some Equal"

definition included :: "real_num \<Rightarrow> real_num \<Rightarrow> real_num \<Rightarrow> bool \<Rightarrow> bool" where
  "included x s e excl \<longleftrightarrow>
     ord_le (real_cmp s x) \<and>
     (if excl then ord_lt (real_cmp x e) else ord_le (real_cmp x e))"

section \<open>Facts\<close>

lemma sint_range: "i64_min \<le> sint (a :: i64)" "sint (a :: i64) \<le> i64_max"
  using sint_ge [of a] sint_lt [of a] by (simp_all add: i64_min_def i64_max_def)

lemma sint_of_int_small: "i64_min \<le> k \<Longrightarrow> k \<le> i64_max \<Longrightarrow> sint (word_of_int k :: i64) = k"
  by (simp add: signed_of_int signed_take_bit_int_eq_self_iff i64_min_def i64_max_def)

lemma int_cmp_swap: "int_cmp b a = Less \<longleftrightarrow> int_cmp a b = Greater" "int_cmp b a = Equal \<longleftrightarrow> int_cmp a b = Equal"
  by (auto simp: int_cmp_def)

lemma div_euclid_int_spec:
  assumes "b \<noteq> 0"
  shows "0 \<le> a - b * div_euclid_int a b" "a - b * div_euclid_int a b < \<bar>b\<bar>"
proof -
  have "a - b * div_euclid_int a b = a mod \<bar>b\<bar>"
    by (simp add: div_euclid_int_def minus_mult_div_eq_mod)
      (use minus_mult_div_eq_mod [of a "- b"] assms in simp)
  then show "0 \<le> a - b * div_euclid_int a b" "a - b * div_euclid_int a b < \<bar>b\<bar>"
    using assms by simp_all
qed

lemma div_euclid_int_pos: "0 < b \<Longrightarrow> div_euclid_int a b = a div b"
  by (simp add: div_euclid_int_def)

lemma div_euclid_int_neg: "b < 0 \<Longrightarrow> div_euclid_int a b = (if b dvd a then a div b else a div b + 1)"
  by (auto simp: div_euclid_int_def zdiv_zminus2_eq_if mod_eq_0_iff_dvd)

lemma div_pos_bounds:
  fixes a c :: int
  assumes "0 < c"
  shows "min a 0 \<le> a div c" "a div c \<le> max a 0"
proof -
  show "min a 0 \<le> a div c"
    using assms zdiv_mono2_neg [of a 1 c] by (cases "a < 0") (auto simp: pos_imp_zdiv_nonneg_iff)
  show "a div c \<le> max a 0"
    using assms zdiv_mono2 [of a 1 c] zdiv_mono1 [of a 0 c] by (cases "a < 0") auto
qed

lemma div_euclid_int_range:
  assumes "b \<noteq> 0" "i64_min \<le> a" "a \<le> i64_max" "a \<noteq> i64_min \<or> b \<noteq> - 1"
  shows "i64_min \<le> div_euclid_int a b" "div_euclid_int a b \<le> i64_max"
proof -
  have r: "i64_min \<le> div_euclid_int a b \<and> div_euclid_int a b \<le> i64_max"
  proof (cases "0 < b")
    case True
    then show ?thesis
      using div_pos_bounds [OF True, of a] assms by (auto simp: div_euclid_int_def i64_min_def i64_max_def)
  next
    case False
    then have c: "0 < - b" using assms(1) by simp
    show ?thesis
    proof (cases "b = - 1")
      case True
      with assms show ?thesis by (auto simp: div_euclid_int_def i64_min_def i64_max_def)
    next
      case False
      with c have "2 \<le> - b" by simp
      then have "min (a div 2) 0 \<le> a div (- b)"
        using zdiv_mono2_neg [of a 2 "- b"] c
        by (cases "a < 0") (auto simp: pos_imp_zdiv_nonneg_iff)
      moreover have "- (2 ^ 62) \<le> a div 2" using assms(2) by (simp add: i64_min_def)
      ultimately show ?thesis
        using div_pos_bounds [OF c, of a] assms c by (auto simp: div_euclid_int_def i64_min_def i64_max_def)
    qed
  qed
  then show "i64_min \<le> div_euclid_int a b" "div_euclid_int a b \<le> i64_max" by auto
qed

section \<open>Properties\<close>

text \<open>\<open>Integer#div\<close> on two integers is Euclidean division: it rounds down for a positive divisor, as
  Ruby does, but for a negative divisor that does not divide it returns one more than Ruby's floor;
  it panics for the divisor 0 and for the one quotient that does not fit.\<close>

theorem quo_integers:
  "quo (RInteger a) (RInteger b) =
     (if b = 0 \<or> (sint a = i64_min \<and> b = - 1) then Inl Panic else Inr (RInteger (word_of_int
        (if 0 < sint b \<or> sint b dvd sint a then sint a div sint b else sint a div sint b + 1)))) \<and>
   (b \<noteq> 0 \<and> \<not> (sint a = i64_min \<and> b = - 1) \<longrightarrow>
     (\<exists>q. quo (RInteger a) (RInteger b) = Inr (RInteger q) \<and>
        0 \<le> sint a - sint b * sint q \<and> sint a - sint b * sint q < \<bar>sint b\<bar>))"
proof -
  have d: "div_euclid_int (sint a) (sint b) =
      (if 0 < sint b \<or> sint b dvd sint a then sint a div sint b else sint a div sint b + 1)"
    if "b \<noteq> 0"
  proof -
    have "sint b \<noteq> 0" using that by (simp add: signed_eq_0_iff)
    then show ?thesis
      using div_euclid_int_pos [of "sint b" "sint a"] div_euclid_int_neg [of "sint b" "sint a"]
      by (cases "0 < sint b") auto
  qed
  have "\<exists>q. i64_div_euclid a b = Inr q \<and> 0 \<le> sint a - sint b * sint q \<and>
      sint a - sint b * sint q < \<bar>sint b\<bar>"
    if "b \<noteq> 0" "\<not> (sint a = i64_min \<and> b = - 1)"
  proof -
    have b: "sint b \<noteq> 0" using that(1) by (simp add: signed_eq_0_iff)
    have "sint b = - 1 \<longrightarrow> b = - 1" by (metis signed_minus_1 signed_word_eqI)
    with that(2) have "sint a \<noteq> i64_min \<or> sint b \<noteq> - 1" by blast
    from sint_of_int_small [OF div_euclid_int_range [OF b sint_range this]]
    have "sint (word_of_int (div_euclid_int (sint a) (sint b)) :: i64) = div_euclid_int (sint a) (sint b)" .
    with div_euclid_int_spec [OF b, of "sint a"] that show ?thesis by (auto simp: i64_div_euclid_def)
  qed
  then show ?thesis using d by (auto simp: quo_def i64_div_euclid_def)
qed

theorem quo_integers_witness:
  "quo (RInteger 7) (RInteger (- 2)) = Inr (RInteger (- 3)) \<and> (7 :: int) div (- 2) = - 4 \<and>
   quo (RInteger (- 7)) (RInteger 2) = Inr (RInteger (- 4))"
proof -
  have "quo (RInteger 7) (RInteger (- 2)) = Inr (RInteger (- 3))"
    using quo_integers [of 7 "- 2"] by (simp add: quo_def i64_div_euclid_def)
  moreover have "quo (RInteger (- 7)) (RInteger 2) = Inr (RInteger (- 4))" by code_simp
  ultimately show ?thesis by simp
qed

end
