(* ===== verification/Equality.thy ===== *)
theory Equality
  imports Collector Numeric
begin

text \<open>
  The equality of values (\<open>==\<close>, src/value/value.rs) and of hash keys (\<open>eql?\<close>, src/value/hash.rs), with
  the hashes that belong to them.

  Both follow references without remembering where they were, so on a cyclic structure they do not
  return: the fuel bounds their depth, and running out is \<open>Inl Undef\<close> (the process dies of a stack
  overflow).

  Two tables are compared through the lookups of their crates (indexmap, fxhash) and of the
  standard library's \<open>HashMap\<close>. The lookups are parameters: functions of what a key feeds to the
  hasher, of the equality of keys, of the keys in the order of their insertion and of the key asked
  for, answering its position. The keys are seen as they are now; a key that was changed after its
  insertion is looked for by the crates under its old hash.
\<close>

section \<open>What is hashed\<close>

datatype fed = FWord u64 | FHalf u32 | FText string | FRaw "u8 list" | FLen nat | FFlag bool

type_synonym feed = "val \<Rightarrow> fed list res"
type_synonym equality = "val \<Rightarrow> val \<Rightarrow> bool res"
type_synonym finder = "val list \<Rightarrow> val \<Rightarrow> nat option res"

text \<open>
  The lookup in an \<open>IndexMap\<close> with keys \<open>HashKey\<close>, in a \<open>HashMap\<close> with keys \<open>Value\<close> and in one with pairs
  of values; and the derived equality of fibers, which compares their native stacks.
\<close>

record lookups =
  map_index :: "feed \<Rightarrow> equality \<Rightarrow> finder"
  value_index :: "feed \<Rightarrow> equality \<Rightarrow> finder"
  pair_index :: "(val \<times> val \<Rightarrow> fed list res) \<Rightarrow> (val \<times> val \<Rightarrow> val \<times> val \<Rightarrow> bool res) \<Rightarrow>
    (val \<times> val) list \<Rightarrow> val \<times> val \<Rightarrow> nat option res"
  fiber_eq :: "fiber_context \<Rightarrow> fiber_context \<Rightarrow> bool"

fun feed_all :: "('a \<Rightarrow> fed list res) \<Rightarrow> 'a list \<Rightarrow> fed list res" where
  "feed_all f [] = Inr []"
| "feed_all f (x # xs) = rbind (f x) (\<lambda>a. rbind (feed_all f xs) (\<lambda>b. Inr (a @ b)))"

definition feed_pair :: "feed \<Rightarrow> val \<times> val \<Rightarrow> fed list res" where
  "feed_pair f = (\<lambda>(k, v). rbind (f k) (\<lambda>a. rbind (f v) (\<lambda>b. Inr (a @ b))))"

definition rstring_feed :: "rstring \<Rightarrow> fed list" where
  "rstring_feed s =
     (case s of Str cs \<Rightarrow> [FText cs] | SmallStr cs \<Rightarrow> [FText cs] | Bytes bs \<Rightarrow> [FLen (length bs), FRaw bs])"

text \<open>The arms that \<open>Value::hash\<close> and \<open>HashKey::hash\<close> share; the numbers are theirs.\<close>

definition kind_feed :: "(i64 \<Rightarrow> u64) \<Rightarrow> (f64 \<Rightarrow> u64) \<Rightarrow> feed \<Rightarrow> val \<Rightarrow> objkind \<Rightarrow> fed list res" where
  "kind_feed fi ff f v k =
     (case k of
        Invalid \<Rightarrow> Inl Panic
      | Integer i \<Rightarrow> Inr [FWord (fi i)]
      | Float x \<Rightarrow> Inr [FWord (ff x)]
      | StringK s \<Rightarrow> Inr (rstring_feed s)
      | Array xs \<Rightarrow> rbind (feed_all f xs) (\<lambda>a. Inr (FLen (length xs) # a))
      | RangeK r \<Rightarrow>
          rbind (feed_pair f (rstart r, rend r)) (\<lambda>a. Inr (a @ [FFlag (exclude r)]))
      | Hash h \<Rightarrow> feed_all (feed_pair f) (hash_pairs h)
      | MethodObj o1 \<Rightarrow>
          rbind (f (mreceiver o1)) (\<lambda>a. Inr (FHalf (mname o1) # a @ [FHalf (mmethod o1)]))
      | _ \<Rightarrow> Inr [FWord v])"

fun value_feed :: "memory \<Rightarrow> nat \<Rightarrow> feed" where
  "value_feed m 0 v = Inl Undef"
| "value_feed m (Suc fuel) v =
     (case as_rvalue m v of
        None \<Rightarrow> Inr [FWord v]
      | Some r \<Rightarrow> kind_feed f64_of_i64 (\<lambda>x. x) (value_feed m fuel) v (kind r))"

text \<open>\<open>as u64\<close> of a float.\<close>

definition f64_to_u64 :: "f64 \<Rightarrow> u64" where
  "f64_to_u64 b =
     (if f64_is_nan b then 0
      else if f64_is_inf b then (if f64_sign b then 0 else - 1)
      else word_of_int (max 0 (min (2 ^ 64 - 1) (f64_trunc_int b))))"

definition key_feed :: "memory \<Rightarrow> nat \<Rightarrow> feed" where
  "key_feed m fuel v =
     (case as_rvalue m v of
        None \<Rightarrow> value_feed m fuel v
      | Some r \<Rightarrow> kind_feed (\<lambda>i. i) f64_to_u64 (value_feed m fuel) v (kind r))"

section \<open>The arms of the equalities\<close>

fun all_eq :: "(val \<Rightarrow> val \<Rightarrow> bool res) \<Rightarrow> val list \<Rightarrow> val list \<Rightarrow> bool res" where
  "all_eq eq (x # xs) (y # ys) = rbind (eq x y) (\<lambda>b. if b then all_eq eq xs ys else Inr False)"
| "all_eq eq _ _ = Inr True"

definition vec_eq :: "(val \<Rightarrow> val \<Rightarrow> bool res) \<Rightarrow> val list \<Rightarrow> val list \<Rightarrow> bool res" where
  "vec_eq eq xs ys = (if length xs = length ys then all_eq eq xs ys else Inr False)"

definition and_eq :: "bool res \<Rightarrow> bool res \<Rightarrow> bool res" where
  "and_eq a b = rbind a (\<lambda>x. if x then b else Inr False)"

definition packed_eq :: "val \<Rightarrow> val \<Rightarrow> bool" where
  "packed_eq x y =
     (if is_packed_num x \<and> is_packed_num y then
        (if is_packed_fixnum x \<and> \<not> is_packed_fixnum y then
           f64_eq (f64_of_i64 (as_packed_fixnum x)) (as_packed_flonum y)
         else if \<not> is_packed_fixnum x \<and> is_packed_fixnum y then
           f64_eq (as_packed_flonum x) (f64_of_i64 (as_packed_fixnum y))
         else False)
      else False)"

text \<open>
  The arms of the match on the two kinds; \<open>None\<close> is its last one. An invalid object panics
  wherever no earlier arm applies.
\<close>

definition other_kind :: "objkind \<Rightarrow> bool res option" where
  "other_kind l = (case l of Invalid \<Rightarrow> Some (Inl Panic) | _ \<Rightarrow> None)"

definition kind_eq ::
    "(hash_info \<Rightarrow> hash_info \<Rightarrow> bool res) \<Rightarrow> (val \<Rightarrow> val \<Rightarrow> bool res) \<Rightarrow> objkind \<Rightarrow> objkind \<Rightarrow>
     bool res option" where
  "kind_eq heq eq k l =
     (case k of
        Integer a \<Rightarrow>
          (case l of
             Integer b \<Rightarrow> Some (Inr (a = b))
           | Float b \<Rightarrow> Some (Inr (f64_eq (f64_of_i64 a) b))
           | _ \<Rightarrow> other_kind l)
      | Float a \<Rightarrow>
          (case l of
             Float b \<Rightarrow> Some (Inr (f64_eq a b))
           | Integer b \<Rightarrow> Some (Inr (f64_eq a (f64_of_i64 b)))
           | _ \<Rightarrow> other_kind l)
      | Complex r1 i1 \<Rightarrow>
          (case l of
             Complex r2 i2 \<Rightarrow> Some (and_eq (eq r1 r2) (eq i1 i2))
           | _ \<Rightarrow> other_kind l)
      | StringK s \<Rightarrow>
          (case l of
             StringK t \<Rightarrow> Some (Inr (rstring_bytes s = rstring_bytes t))
           | _ \<Rightarrow> other_kind l)
      | Array xs \<Rightarrow> (case l of Array ys \<Rightarrow> Some (vec_eq eq xs ys) | _ \<Rightarrow> other_kind l)
      | RangeK r \<Rightarrow>
          (case l of
             RangeK s \<Rightarrow>
               Some (and_eq (and_eq (eq (rstart r) (rstart s)) (eq (rend r) (rend s)))
                       (Inr (exclude r = exclude s)))
           | _ \<Rightarrow> other_kind l)
      | Hash a \<Rightarrow> (case l of Hash b \<Rightarrow> Some (heq a b) | _ \<Rightarrow> other_kind l)
      | RegexpK a \<Rightarrow> (case l of RegexpK b \<Rightarrow> Some (Inr (a = b)) | _ \<Rightarrow> other_kind l)
      | Time a \<Rightarrow> (case l of Time b \<Rightarrow> Some (Inr (a = b)) | _ \<Rightarrow> other_kind l)
      | Proc a \<Rightarrow> (case l of Proc b \<Rightarrow> Some (Inr (a = b)) | _ \<Rightarrow> other_kind l)
      | Invalid \<Rightarrow> Some (Inl Panic)
      | _ \<Rightarrow> other_kind l)"

text \<open>
  The arms of \<open>HashKey::eq\<close>. Its last arm is the derived equality of the kinds, in which two objects
  without contents are equal. \<open>feq\<close> is the derived equality of fibers, \<open>heq\<close> that of tables.
\<close>

definition derived_eq ::
    "(fiber_context \<Rightarrow> fiber_context \<Rightarrow> bool) \<Rightarrow> (val \<Rightarrow> val \<Rightarrow> bool res) \<Rightarrow> objkind \<Rightarrow> objkind \<Rightarrow> bool res" where
  "derived_eq feq eq k l =
     (case (k, l) of
        (Ordinary, Ordinary) \<Rightarrow> Inr True
      | (Complex r1 i1, Complex r2 i2) \<Rightarrow> and_eq (eq r1 r2) (eq i1 i2)
      | (Module c, Module d) \<Rightarrow> Inr (c = d)
      | (Splat v, Splat w) \<Rightarrow> eq v w
      | (Proc a, Proc b) \<Rightarrow> Inr (a = b)
      | (RegexpK a, RegexpK b) \<Rightarrow> Inr (a = b)
      | (Fiber a, Fiber b) \<Rightarrow> Inr (feq a b)
      | (Enumerator a, Enumerator b) \<Rightarrow> Inr (feq a b)
      | (Time a, Time b) \<Rightarrow> Inr (a = b)
      | (Exception a, Exception b) \<Rightarrow> Inr (a = b)
      | _ \<Rightarrow> Inr False)"

definition key_kind_eq ::
    "(fiber_context \<Rightarrow> fiber_context \<Rightarrow> bool) \<Rightarrow> (hash_info \<Rightarrow> hash_info \<Rightarrow> bool res) \<Rightarrow>
     (val \<Rightarrow> val \<Rightarrow> bool res) \<Rightarrow> objkind \<Rightarrow> objkind \<Rightarrow> bool res" where
  "key_kind_eq feq heq eq k l =
     (case (k, l) of
        (Integer a, Integer b) \<Rightarrow> Inr (a = b)
      | (Float a, Float b) \<Rightarrow> Inr (f64_eq a b)
      | (StringK s, StringK t) \<Rightarrow> Inr (s = t)
      | (Array xs, Array ys) \<Rightarrow> vec_eq eq xs ys
      | (RangeK r, RangeK s) \<Rightarrow>
          and_eq (and_eq (eq (rstart r) (rstart s)) (eq (rend r) (rend s))) (Inr (exclude r = exclude s))
      | (Hash a, Hash b) \<Rightarrow> heq a b
      | (MethodObj a, MethodObj b) \<Rightarrow>
          and_eq (and_eq (Inr (mname a = mname b)) (eq (mreceiver a) (mreceiver b)))
            (Inr (mmethod a = mmethod b))
      | (Invalid, _) \<Rightarrow> Inl Panic
      | (_, Invalid) \<Rightarrow> Inl Panic
      | _ \<Rightarrow> derived_eq feq eq k l)"

section \<open>Tables\<close>

text \<open>\<open>==\<close> of two \<open>IndexMap\<close>s: as many entries, and each key of the one is in the other, with an equal
  value.\<close>

definition entry_in :: "finder \<Rightarrow> ('a \<Rightarrow> 'a \<Rightarrow> bool res) \<Rightarrow> (val \<times> 'a) list \<Rightarrow> val \<times> 'a \<Rightarrow> bool res" where
  "entry_in F eq t = (\<lambda>(k, v).
     rbind (F (map fst t) k) (\<lambda>i. case i of None \<Rightarrow> Inr False | Some i \<Rightarrow> eq v (snd (t ! i))))"

fun all_res :: "('a \<Rightarrow> bool res) \<Rightarrow> 'a list \<Rightarrow> bool res" where
  "all_res p [] = Inr True"
| "all_res p (x # xs) = rbind (p x) (\<lambda>b. if b then all_res p xs else Inr False)"

definition map_eq :: "finder \<Rightarrow> equality \<Rightarrow> (val \<times> val) list \<Rightarrow> (val \<times> val) list \<Rightarrow> bool res" where
  "map_eq F eq t u = (if length t = length u then all_res (entry_in F eq u) t else Inr False)"

text \<open>Tables by identity: how often each pair of a key and a value occurs, counted in a \<open>HashMap\<close> whose
  keys are the pairs, compared by their \<open>==\<close>.\<close>

fun count_pairs ::
    "((val \<times> val) list \<Rightarrow> val \<times> val \<Rightarrow> nat option res) \<Rightarrow> (val \<times> val) list \<Rightarrow>
     ((val \<times> val) \<times> nat) list \<Rightarrow> ((val \<times> val) \<times> nat) list res" where
  "count_pairs P [] c = Inr c"
| "count_pairs P (e # t) c =
     rbind (P (map fst c) e) (\<lambda>i.
       count_pairs P t
         (case i of
            Some i \<Rightarrow> c[i := (fst (c ! i), snd (c ! i) + 1)]
          | None \<Rightarrow> c @ [(e, 1)]))"

definition counts_in ::
    "((val \<times> val) list \<Rightarrow> val \<times> val \<Rightarrow> nat option res) \<Rightarrow> ((val \<times> val) \<times> nat) list \<Rightarrow>
     (val \<times> val) \<times> nat \<Rightarrow> bool res" where
  "counts_in P d = (\<lambda>(e, n).
     rbind (P (map fst d) e) (\<lambda>i. Inr (case i of None \<Rightarrow> False | Some i \<Rightarrow> n = snd (d ! i))))"

definition counts_eq ::
    "((val \<times> val) list \<Rightarrow> val \<times> val \<Rightarrow> nat option res) \<Rightarrow> ((val \<times> val) \<times> nat) list \<Rightarrow>
     ((val \<times> val) \<times> nat) list \<Rightarrow> bool res" where
  "counts_eq P c d = (if length c = length d then all_res (counts_in P d) c else Inr False)"

definition pair_eq :: "equality \<Rightarrow> val \<times> val \<Rightarrow> val \<times> val \<Rightarrow> bool res" where
  "pair_eq eq = (\<lambda>(k, v) (l, w). and_eq (eq k l) (eq v w))"

definition ident_map_eq ::
    "((val \<times> val) list \<Rightarrow> val \<times> val \<Rightarrow> nat option res) \<Rightarrow> (val \<times> val) list \<Rightarrow> (val \<times> val) list \<Rightarrow>
     bool res" where
  "ident_map_eq P t u =
     (if length t \<noteq> length u then Inr False
      else rbind (count_pairs P t []) (\<lambda>c. rbind (count_pairs P u []) (\<lambda>d. counts_eq P c d)))"

text \<open>\<open>HashInfo::eq\<close>, from the hashing and the equalities of the next lower depth.\<close>

definition hash_info_eq ::
    "lookups \<Rightarrow> feed \<Rightarrow> feed \<Rightarrow> equality \<Rightarrow> equality \<Rightarrow> hash_info \<Rightarrow> hash_info \<Rightarrow> bool res" where
  "hash_info_eq ix kf vf keq veq a b =
     (case (a, b) of
        (HMap t, HMap u) \<Rightarrow> map_eq (map_index ix kf keq) veq t u
      | (HIdentMap t, HIdentMap u) \<Rightarrow> ident_map_eq (pair_index ix (feed_pair vf) (pair_eq veq)) t u
      | _ \<Rightarrow> Inr False)"

section \<open>Equality of values and of keys\<close>

fun value_eq :: "lookups \<Rightarrow> memory \<Rightarrow> nat \<Rightarrow> equality"
  and hash_key_eq :: "lookups \<Rightarrow> memory \<Rightarrow> nat \<Rightarrow> equality" where
  "value_eq ix m 0 x y = Inl Undef"
| "value_eq ix m (Suc fuel) x y =
     (if x = y then Inr True
      else if is_packed_value x \<or> is_packed_value y then Inr (packed_eq x y)
      else
        case kind_eq
               (hash_info_eq ix (key_feed m fuel) (value_feed m fuel) (\<lambda>x. hash_key_eq ix m fuel x)
                 (\<lambda>x. value_eq ix m fuel x))
               (\<lambda>x. value_eq ix m fuel x) (kind (m x)) (kind (m y)) of
          Some b \<Rightarrow> b
        | None \<Rightarrow> Inr False)"
| "hash_key_eq ix m 0 x y = Inl Undef"
| "hash_key_eq ix m (Suc fuel) x y =
     (if x = y then Inr True
      else
        case (as_rvalue m x, as_rvalue m y) of
          (None, None) \<Rightarrow> value_eq ix m fuel x y
        | (Some r, Some s) \<Rightarrow>
            key_kind_eq (fiber_eq ix)
              (hash_info_eq ix (key_feed m fuel) (value_feed m fuel) (\<lambda>x. hash_key_eq ix m fuel x)
                (\<lambda>x. value_eq ix m fuel x))
              (\<lambda>x. value_eq ix m fuel x) (kind r) (kind s)
        | _ \<Rightarrow> Inr False)"

definition table_eq :: "lookups \<Rightarrow> memory \<Rightarrow> nat \<Rightarrow> hash_info \<Rightarrow> hash_info \<Rightarrow> bool res" where
  "table_eq ix m fuel =
     hash_info_eq ix (key_feed m fuel) (value_feed m fuel) (hash_key_eq ix m fuel) (value_eq ix m fuel)"

lemma value_eq_Suc:
  "value_eq ix m (Suc fuel) x y =
     (if x = y then Inr True
      else if is_packed_value x \<or> is_packed_value y then Inr (packed_eq x y)
      else case kind_eq (table_eq ix m fuel) (value_eq ix m fuel) (kind (m x)) (kind (m y)) of
             Some b \<Rightarrow> b | None \<Rightarrow> Inr False)"
  by (simp only: value_eq.simps hash_key_eq.simps table_eq_def)

lemma hash_key_eq_Suc:
  "hash_key_eq ix m (Suc fuel) x y =
     (if x = y then Inr True
      else
        case (as_rvalue m x, as_rvalue m y) of
          (None, None) \<Rightarrow> value_eq ix m fuel x y
        | (Some r, Some s) \<Rightarrow>
            key_kind_eq (fiber_eq ix) (table_eq ix m fuel) (value_eq ix m fuel) (kind r) (kind s)
        | _ \<Rightarrow> Inr False)"
  by (simp only: value_eq.simps hash_key_eq.simps table_eq_def)

lemmas [simp del] = value_eq.simps(2) hash_key_eq.simps(2)
lemmas [simp] = value_eq_Suc hash_key_eq_Suc

end
