(* ===== verification/IdTable.thy ===== *)
theory IdTable
  imports Prelude "HOL-Library.AList"
begin

text \<open>
  src/id_table.rs: the interning of identifier names into \<open>IdentId\<close>s. The process-wide table
  \<open>ID\<close> behind its mutex is the state passed through the operations. \<open>table\<close> is the code's
  hash map as an association list whose order is its iteration order; \<open>get_name\<close> walks that
  order, and \<open>get_name_any_order\<close> shows that the answer does not depend on it.
  \<open>ident_id\<close> keeps its 32 bits: the counter wraps (a panic in a debug build) after \<open>2 ^ 32\<close> names.
\<close>

record ident_table =
  table :: "(string \<times> u32) list"
  ident_id :: u32

definition INITIALIZE :: u32 where "INITIALIZE = 1"
definition OBJECT :: u32 where "OBJECT = 2"
definition NEW :: u32 where "NEW = 3"
definition NAME :: u32 where "NAME = 4"
definition ADD_ID :: u32 where "ADD_ID = 5"
definition SUB_ID :: u32 where "SUB_ID = 6"
definition MUL_ID :: u32 where "MUL_ID = 7"
definition POW_ID :: u32 where "POW_ID = 8"
definition SHL_ID :: u32 where "SHL_ID = 9"
definition REM_ID :: u32 where "REM_ID = 10"
definition EQ_ID :: u32 where "EQ_ID = 11"
definition NEQ_ID :: u32 where "NEQ_ID = 12"
definition GT_ID :: u32 where "GT_ID = 13"
definition GE_ID :: u32 where "GE_ID = 14"
definition DIV_ID :: u32 where "DIV_ID = 15"
definition LT_ID :: u32 where "LT_ID = 16"
definition LE_ID :: u32 where "LE_ID = 17"
definition CMP_ID :: u32 where "CMP_ID = 18"
definition TEQ_ID :: u32 where "TEQ_ID = 19"
definition ENUM_FUNC_ID :: u32 where "ENUM_FUNC_ID = 20"
definition INDEX_ID :: u32 where "INDEX_ID = 21"
definition INDEX_ASSIGN_ID :: u32 where "INDEX_ASSIGN_ID = 22"
definition TO_S_ID :: u32 where "TO_S_ID = 23"
definition SHR_ID :: u32 where "SHR_ID = 24"
definition ALIAS_METHOD_ID :: u32 where "ALIAS_METHOD_ID = 25"
definition METHOD_MISSING_ID :: u32 where "METHOD_MISSING_ID = 26"
definition EACH_ID :: u32 where "EACH_ID = 27"
definition MAP_ID :: u32 where "MAP_ID = 28"

lemmas ident_consts =
  INITIALIZE_def OBJECT_def NEW_def NAME_def ADD_ID_def SUB_ID_def MUL_ID_def POW_ID_def
  SHL_ID_def REM_ID_def EQ_ID_def NEQ_ID_def GT_ID_def GE_ID_def DIV_ID_def LT_ID_def LE_ID_def
  CMP_ID_def TEQ_ID_def ENUM_FUNC_ID_def INDEX_ID_def INDEX_ASSIGN_ID_def TO_S_ID_def SHR_ID_def
  ALIAS_METHOD_ID_def METHOD_MISSING_ID_def EACH_ID_def MAP_ID_def

definition set_ident_id :: "string \<Rightarrow> u32 \<Rightarrow> ident_table \<Rightarrow> ident_table" where
  "set_ident_id name i t = t\<lparr>table := AList.update name i (table t)\<rparr>"

definition reserved_names :: "(string \<times> u32) list" where
  "reserved_names =
    [(''<null>'', 0), (''initialize'', INITIALIZE), (''Object'', OBJECT), (''new'', NEW),
     (''name'', NAME), (''+'', ADD_ID), (''-'', SUB_ID), (''*'', MUL_ID), (''**'', POW_ID),
     (''<<'', SHL_ID), (''%'', REM_ID), (''=='', EQ_ID), (''!='', NEQ_ID), (''>'', GT_ID),
     (''>='', GE_ID), (''/'', DIV_ID), (''<'', LT_ID), (''<='', LE_ID), (''<=>'', CMP_ID),
     (''==='', TEQ_ID), (''/enum'', ENUM_FUNC_ID), (''[]'', INDEX_ID),
     (''[]='', INDEX_ASSIGN_ID), (''to_s'', TO_S_ID), (''>>'', SHR_ID),
     (''/alias_method'', ALIAS_METHOD_ID), (''method_missing'', METHOD_MISSING_ID),
     (''each'', EACH_ID), (''map'', MAP_ID)]"

definition ident_table_new :: ident_table where
  "ident_table_new =
     fold (\<lambda>(name, i). set_ident_id name i) reserved_names \<lparr>table = [], ident_id = 40\<rparr>"

definition get_ident_id :: "ident_table \<Rightarrow> string \<Rightarrow> ident_table \<times> u32" where
  "get_ident_id t name =
     (case map_of (table t) name of
        Some i \<Rightarrow> (t, i)
      | None \<Rightarrow>
          (let i = ident_id t
           in (t\<lparr>table := AList.update name i (table t), ident_id := i + 1\<rparr>, i)))"

definition get_name :: "ident_table \<Rightarrow> u32 \<Rightarrow> string res" where
  "get_name t i = map_sum id fst (or_panic (find (\<lambda>(_, v). v = i) (table t)))"

definition starts_with :: "ident_table \<Rightarrow> u32 \<Rightarrow> string \<Rightarrow> bool res" where
  "starts_with t i pat =
     rbind (get_name t i) (\<lambda>n. Inr (length pat \<le> length n \<and> take (length pat) n = pat))"

definition add_postfix :: "ident_table \<Rightarrow> u32 \<Rightarrow> string \<Rightarrow> (ident_table \<times> u32) res" where
  "add_postfix t i postfix = rbind (get_name t i) (\<lambda>n. Inr (get_ident_id t (n @ postfix)))"

definition add_prefix :: "ident_table \<Rightarrow> u32 \<Rightarrow> string \<Rightarrow> (ident_table \<times> u32) res" where
  "add_prefix t i prefix = rbind (get_name t i) (\<lambda>n. Inr (get_ident_id t (prefix @ n)))"

definition get_ident_name :: "ident_table \<Rightarrow> u32 option \<Rightarrow> string res" where
  "get_ident_name t i = (case i of Some i \<Rightarrow> get_name t i | None \<Rightarrow> Inr '''')"

section \<open>The table's invariant\<close>

text \<open>
  Names and numbers are paired one to one, and every number handed out lies below the counter.
  \<open>has_room\<close> says the 32-bit counter can still grow.
\<close>

definition table_ok :: "ident_table \<Rightarrow> bool" where
  "table_ok t \<longleftrightarrow>
     distinct (map fst (table t)) \<and> distinct (map snd (table t)) \<and>
     (\<forall>i \<in> set (map snd (table t)). i < ident_id t)"

definition has_room :: "ident_table \<Rightarrow> bool" where
  "has_room t \<longleftrightarrow> ident_id t < - 1"

definition lookup :: "ident_table \<Rightarrow> string \<Rightarrow> u32 option" where
  "lookup t = map_of (table t)"

lemma update_fresh: "k \<notin> set (map fst xs) \<Longrightarrow> AList.update k v xs = xs @ [(k, v)]"
  by (induction xs) auto

lemma find_value_Some:
  assumes "distinct (map snd xs)" "(n, i) \<in> set xs"
  shows "find (\<lambda>(_, v). v = i) xs = Some (n, i)"
  using assms by (induction xs) (auto simp: rev_image_eqI)

lemma find_value_None:
  "i \<notin> set (map snd xs) \<Longrightarrow> find (\<lambda>(_, v). v = i) xs = None"
  by (induction xs) auto

lemma get_name_iff:
  assumes "table_ok t"
  shows "get_name t i = Inr n \<longleftrightarrow> lookup t n = Some i"
proof (cases "i \<in> set (map snd (table t))")
  case True
  then obtain m where m: "(m, i) \<in> set (table t)" by auto
  with assms have g: "get_name t i = Inr m"
    by (simp add: get_name_def table_ok_def find_value_Some)
  have "lookup t n = Some i \<longleftrightarrow> (n, i) \<in> set (table t)"
    using assms by (auto simp: table_ok_def lookup_def)
  moreover have "(n, i) \<in> set (table t) \<longleftrightarrow> n = m"
    using m assms by (force simp: table_ok_def distinct_map inj_on_def)
  ultimately show ?thesis using g by auto
next
  case False
  then show ?thesis
    by (auto simp: get_name_def find_value_None lookup_def dest!: map_of_SomeD intro: rev_image_eqI)
qed

text \<open>Whatever order the hash map is walked in, the name found is the same.\<close>

lemma get_name_any_order:
  assumes "table_ok t" "set xs = set (table t)" "distinct (map fst xs)" "distinct (map snd xs)"
  shows "get_name (t\<lparr>table := xs\<rparr>) i = get_name t i"
proof (cases "get_name t i")
  case (Inr n)
  with assms(1) have "(n, i) \<in> set (table t)"
    by (simp add: get_name_iff lookup_def map_of_SomeD)
  with assms Inr show ?thesis by (simp add: get_name_def find_value_Some)
next
  case (Inl e)
  then have "find (\<lambda>(_, v). v = i) (table t) = None" "e = Panic"
    by (auto simp: get_name_def or_panic_def split: option.splits)
  with assms(2) have "i \<notin> set (map snd xs)"
    by (auto simp: find_None_iff)
  with Inl \<open>e = Panic\<close> show ?thesis by (simp add: get_name_def find_value_None)
qed

lemma table_ok_new: "table_ok ident_table_new"
  by (simp add: table_ok_def ident_table_new_def reserved_names_def set_ident_id_def ident_consts)

lemma has_room_new: "has_room ident_table_new"
  by (simp add: has_room_def ident_table_new_def reserved_names_def set_ident_id_def)

lemma get_ident_id_known: "lookup t s = Some i \<Longrightarrow> get_ident_id t s = (t, i)"
  by (simp add: get_ident_id_def lookup_def)

lemma get_ident_id_fresh:
  "lookup t s = None \<Longrightarrow>
     get_ident_id t s = (t\<lparr>table := table t @ [(s, ident_id t)], ident_id := ident_id t + 1\<rparr>,
                         ident_id t)"
  using update_fresh [of s "table t"]
  by (simp add: get_ident_id_def lookup_def Let_def flip: map_of_eq_None_iff)

lemma less_succ_room:
  fixes w :: u32
  assumes "w < - 1"
  shows "w < w + 1"
proof -
  from assms have "1 + w \<noteq> 0" by (metis add.commute add_eq_0_iff order_less_irrefl)
  then have "unat (1 + w) = Suc (unat w)" by (rule unatSuc)
  then show ?thesis by (simp add: word_less_nat_alt add.commute)
qed

lemma get_ident_id_ok:
  assumes "table_ok t" "has_room t"
  shows "table_ok (fst (get_ident_id t s))"
proof (cases "lookup t s")
  case (Some i)
  with assms show ?thesis by (simp add: get_ident_id_known)
next
  case None
  from assms(2) have lt: "ident_id t < ident_id t + 1"
    by (simp add: has_room_def less_succ_room)
  have "ident_id t \<notin> set (map snd (table t))"
    using assms(1) by (auto simp: table_ok_def)
  moreover have "s \<notin> set (map fst (table t))"
    using None by (simp add: lookup_def map_of_eq_None_iff)
  moreover have "\<forall>i \<in> set (map snd (table t)). i < ident_id t + 1"
    using assms(1) lt by (auto simp: table_ok_def intro: order.strict_trans)
  ultimately show ?thesis
    using assms(1) lt None
    by (auto simp: table_ok_def get_ident_id_fresh)
qed

lemma get_ident_id_lookup:
  "lookup (fst (get_ident_id t s)) = (lookup t)(s \<mapsto> snd (get_ident_id t s))"
proof (cases "lookup t s")
  case (Some i)
  then show ?thesis by (auto simp: get_ident_id_known)
next
  case None
  then show ?thesis
    by (auto simp: get_ident_id_fresh fun_eq_iff) (auto simp: lookup_def map_add_def split: option.splits)
qed

section \<open>The interning interface\<close>

text \<open>
  What every user of identifiers relies on: an interned name keeps its number, numbers and names
  determine each other, and the tables that arise keep the invariant.
\<close>

locale interning =
  fixes intern :: "'t \<Rightarrow> string \<Rightarrow> 't \<times> u32"
    and name_of :: "'t \<Rightarrow> u32 \<Rightarrow> string res"
    and find :: "'t \<Rightarrow> string \<Rightarrow> u32 option"
    and ok :: "'t \<Rightarrow> bool"
    and room :: "'t \<Rightarrow> bool"
  assumes intern_find: "find (fst (intern t s)) = (find t)(s \<mapsto> snd (intern t s))"
    and intern_known: "find t s = Some i \<Longrightarrow> intern t s = (t, i)"
    and intern_ok: "ok t \<Longrightarrow> room t \<Longrightarrow> ok (fst (intern t s))"
    and name_iff: "ok t \<Longrightarrow> name_of t i = Inr n \<longleftrightarrow> find t n = Some i"
begin

lemma name_of_interned:
  "ok t \<Longrightarrow> room t \<Longrightarrow> name_of (fst (intern t s)) (snd (intern t s)) = Inr s"
  by (simp add: name_iff intern_ok intern_find)

lemma intern_idem: "intern (fst (intern t s)) s = intern t s"
  by (metis fun_upd_same intern_find intern_known prod.collapse)

lemma intern_keeps_name:
  assumes "ok t" "room t" "name_of t i = Inr n"
  shows "name_of (fst (intern t s)) i = Inr n"
proof -
  from assms have "find t n = Some i" by (simp add: name_iff)
  moreover have "find (fst (intern t s)) n = find t n" if "find t n = Some i"
    using that by (cases "n = s") (simp_all add: intern_find intern_known)
  ultimately show ?thesis using assms by (simp add: name_iff intern_ok)
qed

lemma intern_inj:
  assumes "ok t" "room t" "room (fst (intern t s))"
    and "snd (intern t s) = snd (intern (fst (intern t s)) s')"
  shows "s = s'"
proof -
  let ?t1 = "fst (intern t s)" let ?t2 = "fst (intern ?t1 s')"
  have ok1: "ok ?t1" using assms by (simp add: intern_ok)
  have "name_of ?t2 (snd (intern t s)) = Inr s"
    using ok1 assms(1-3) by (simp add: intern_keeps_name name_of_interned)
  moreover have "name_of ?t2 (snd (intern ?t1 s')) = Inr s'"
    using ok1 assms(3) by (simp add: name_of_interned)
  ultimately show ?thesis using assms(4) by (metis sum.inject(2))
qed

end

interpretation idt: interning get_ident_id get_name lookup table_ok has_room
  by unfold_locales
    (simp_all add: get_ident_id_lookup get_ident_id_known get_ident_id_ok get_name_iff)

section \<open>Properties\<close>

text \<open>C27. Interning is faithful: interning a name succeeds on any table of the invariant with room
  in its counter, keeps the invariant and every name known before, gives the name back for the
  number handed out, and interning the name again changes nothing.\<close>

theorem get_ident_id_faithful:
  assumes "table_ok t" "has_room t" "get_ident_id t s = (t', i)"
  shows "table_ok t' \<and> get_name t' i = Inr s \<and> get_ident_id t' s = (t', i) \<and>
    (\<forall>j n. get_name t j = Inr n \<longrightarrow> get_name t' j = Inr n)"
proof -
  have t': "t' = fst (get_ident_id t s)" "i = snd (get_ident_id t s)" using assms(3) by simp_all
  have "get_ident_id t' s = (t', i)" using idt.intern_idem [of t s] assms(3) by simp
  with idt.name_of_interned [OF assms(1,2), of s] idt.intern_keeps_name [OF assms(1,2)]
    get_ident_id_ok [OF assms(1,2), of s] show ?thesis
    unfolding t' by blast
qed

theorem get_ident_id_faithful_witness:
  "\<exists>t' i. get_ident_id ident_table_new ''puts'' = (t', i) \<and> i = 40 \<and> get_name t' i = Inr ''puts''"
proof -
  obtain t' i where g: "get_ident_id ident_table_new ''puts'' = (t', i)" by fastforce
  have "i = 40"
    using g by (simp add: get_ident_id_def ident_table_new_def reserved_names_def set_ident_id_def
        Let_def ident_consts)
  with get_ident_id_faithful [OF table_ok_new has_room_new g] g show ?thesis by blast
qed

text \<open>Two names with the same number are the same name.\<close>

theorem get_ident_id_injective:
  assumes "table_ok t" "has_room t" "get_ident_id t s = (t1, i)"
    "has_room t1" "get_ident_id t1 s' = (t2, i)"
  shows "s = s'"
  using idt.intern_inj [OF assms(1,2), of s s'] assms(3-5) by simp

theorem get_ident_id_injective_witness:
  "\<exists>s. get_ident_id ident_table_new s = (ident_table_new, MAP_ID) \<and> s = ''map''"
proof -
  have g: "get_ident_id ident_table_new ''map'' = (ident_table_new, MAP_ID)"
    by (intro get_ident_id_known)
      (simp add: lookup_def ident_table_new_def reserved_names_def set_ident_id_def)
  with get_ident_id_injective [OF table_ok_new has_room_new g has_room_new] show ?thesis by metis
qed

text \<open>The table the interpreter starts with satisfies the invariant, and the reserved names have
  the numbers the rest of the code refers to by constant.\<close>

theorem ident_table_new_reserved:
  "table_ok ident_table_new \<and> has_room ident_table_new \<and>
   get_name ident_table_new ADD_ID = Inr ''+'' \<and> get_name ident_table_new CMP_ID = Inr ''<=>'' \<and>
   get_name ident_table_new METHOD_MISSING_ID = Inr ''method_missing'' \<and>
   get_name ident_table_new EACH_ID = Inr ''each'' \<and> get_name ident_table_new MAP_ID = Inr ''map''"
  using table_ok_new has_room_new
  by (simp add: get_name_iff) (simp add: lookup_def ident_table_new_def reserved_names_def set_ident_id_def)

end
