(* ===== verification/Arith.thy ===== *)
theory Arith
  imports Equality IdTable
begin

text \<open>
  The operators of the virtual machine (src/vm/executor.rs, \<open>eval_add\<close> to \<open>eval_compare\<close>), up to its
  own equality \<open>eval_eq\<close>.

  The state is the heap, or any state that extends it. \<open>env\<close> is what the operators reach outside
  themselves: the built-in classes, the interning of a name, the method lookup and the call of a
  found method (which may run any Ruby code, and change any part of the state), and the functions
  of third-party crates or of the system's libm that are used (the \<open>divrem\<close> crate, \<open>powf\<close>, a
  regular expression search, the lookups of hash tables).
\<close>

record 's env =
  e_classes :: builtin_class
  e_id :: "string \<Rightarrow> u32"
  e_name :: "u32 \<Rightarrow> string"
  e_find_method :: "val \<Rightarrow> u32 \<Rightarrow> ('s, u32 option) eff"
  e_eval_method :: "u32 \<Rightarrow> val \<Rightarrow> val list \<Rightarrow> ('s, val) eff"
  e_rem_floor :: "i64 \<Rightarrow> i64 \<Rightarrow> i64 res"
  e_powf :: "f64 \<Rightarrow> f64 \<Rightarrow> f64"
  e_find_one :: "nat \<Rightarrow> string \<Rightarrow> ('s, bool) eff"
  e_index :: lookups

type_synonym 'm hs = "'m heap_scheme"
type_synonym 'm henv = "'m hs env"
type_synonym ('m, 'a) heff = "('m hs, 'a) eff"

definition int_value :: "'m henv \<Rightarrow> i64 \<Rightarrow> ('m, val) heff" where
  "int_value E i = steps (\<lambda>h. integer (e_classes E) alloc h i)"

definition float_value :: "'m henv \<Rightarrow> f64 \<Rightarrow> ('m, val) heff" where
  "float_value E f = steps (\<lambda>h. float (e_classes E) alloc h f)"

definition unpack_val :: "val \<Rightarrow> ('m, rv) heff" where
  "unpack_val v = asks (\<lambda>h. unpack (mem h) v)"

text \<open>The messages of these errors show the operands, which unpacks them.\<close>

definition undefined_op :: "val \<Rightarrow> val \<Rightarrow> ('m, 'a) heff" where
  "undefined_op rhs lhs =
     bind (unpack_val rhs) (\<lambda>_. bind (unpack_val lhs) (\<lambda>_. raise (Raise (RuntimeErr NoMethod))))"

definition undefined_method :: "val \<Rightarrow> ('m, 'a) heff" where
  "undefined_method v = bind (unpack_val v) (\<lambda>_. raise (Raise (RuntimeErr NoMethod)))"

definition class_for_method :: "'m henv \<Rightarrow> val \<Rightarrow> ('m, val) heff" where
  "class_for_method E v = asks (\<lambda>h. get_class_for_method (e_classes E) (mem h) v)"

definition fallback_for_binop :: "'m henv \<Rightarrow> u32 \<Rightarrow> val \<Rightarrow> val \<Rightarrow> ('m, val) heff" where
  "fallback_for_binop E method lhs rhs =
     bind (class_for_method E lhs) (\<lambda>c.
     bind (e_find_method E c method) (\<lambda>m.
       case m of
         Some mref \<Rightarrow> e_eval_method E mref lhs [rhs]
       | None \<Rightarrow> undefined_op rhs lhs))"

text \<open>\<open>send0\<close>: the method of the receiver's class, or \<open>method_missing\<close>.\<close>

definition send0 :: "'m henv \<Rightarrow> u32 \<Rightarrow> val \<Rightarrow> ('m, val) heff" where
  "send0 E method v =
     bind (class_for_method E v) (\<lambda>c.
     bind (e_find_method E c method) (\<lambda>m.
       case m of
         Some mref \<Rightarrow> e_eval_method E mref v []
       | None \<Rightarrow>
           bind (e_find_method E c METHOD_MISSING_ID) (\<lambda>mm.
             case mm of
               Some mref \<Rightarrow> e_eval_method E mref v [symbol method]
             | None \<Rightarrow> undefined_method v)))"

section \<open>Arithmetic\<close>

text \<open>The macros \<open>eval_op\<close> and \<open>eval_op_i\<close>.\<close>

definition eval_op ::
    "'m henv \<Rightarrow> (i64 \<Rightarrow> i64 \<Rightarrow> i64 res) \<Rightarrow> (f64 \<Rightarrow> f64 \<Rightarrow> f64) \<Rightarrow> u32 \<Rightarrow> val \<Rightarrow> val \<Rightarrow> ('m, val) heff" where
  "eval_op E iop fop method rhs lhs =
     (if is_packed_fixnum lhs \<and> is_packed_fixnum rhs then
        bind (asks (\<lambda>_. iop (as_packed_fixnum lhs) (as_packed_fixnum rhs))) (int_value E)
      else if is_packed_fixnum lhs \<and> is_packed_num rhs then
        float_value E (fop (f64_of_i64 (as_packed_fixnum lhs)) (as_packed_flonum rhs))
      else if is_packed_num lhs \<and> \<not> is_packed_fixnum lhs \<and> is_packed_fixnum rhs then
        float_value E (fop (as_packed_flonum lhs) (f64_of_i64 (as_packed_fixnum rhs)))
      else if is_packed_num lhs \<and> \<not> is_packed_fixnum lhs \<and> is_packed_num rhs then
        float_value E (fop (as_packed_flonum lhs) (as_packed_flonum rhs))
      else fallback_for_binop E method lhs rhs)"

definition eval_op_i ::
    "'m henv \<Rightarrow> (i64 \<Rightarrow> i64 \<Rightarrow> i64 res) \<Rightarrow> (f64 \<Rightarrow> f64 \<Rightarrow> f64) \<Rightarrow> u32 \<Rightarrow> val \<Rightarrow> i32 \<Rightarrow> ('m, val) heff" where
  "eval_op_i E iop fop method lhs i =
     (if is_packed_fixnum lhs then
        bind (asks (\<lambda>_. iop (as_packed_fixnum lhs) (scast i))) (int_value E)
      else if is_packed_num lhs then
        float_value E (fop (as_packed_flonum lhs) (f64_of_int (sint i)))
      else bind (int_value E (scast i)) (fallback_for_binop E method lhs))"

definition eval_add :: "'m henv \<Rightarrow> val \<Rightarrow> val \<Rightarrow> ('m, val) heff" where
  "eval_add E = eval_op E (\<lambda>a b. Inr (a + b)) f64_add ADD_ID"

definition eval_sub :: "'m henv \<Rightarrow> val \<Rightarrow> val \<Rightarrow> ('m, val) heff" where
  "eval_sub E = eval_op E (\<lambda>a b. Inr (a - b)) f64_sub SUB_ID"

definition eval_mul :: "'m henv \<Rightarrow> val \<Rightarrow> val \<Rightarrow> ('m, val) heff" where
  "eval_mul E = eval_op E (\<lambda>a b. Inr (a * b)) f64_mul MUL_ID"

definition eval_addi :: "'m henv \<Rightarrow> val \<Rightarrow> i32 \<Rightarrow> ('m, val) heff" where
  "eval_addi E = eval_op_i E (\<lambda>a b. Inr (a + b)) f64_add ADD_ID"

definition eval_subi :: "'m henv \<Rightarrow> val \<Rightarrow> i32 \<Rightarrow> ('m, val) heff" where
  "eval_subi E = eval_op_i E (\<lambda>a b. Inr (a - b)) f64_sub SUB_ID"

definition eval_div :: "'m henv \<Rightarrow> val \<Rightarrow> val \<Rightarrow> ('m, val) heff" where
  "eval_div E rhs lhs =
     bind (asks (\<lambda>h. is_zero (mem h) rhs)) (\<lambda>z.
       if z then raise (Raise (RuntimeErr ZeroDivision))
       else eval_op E i64_div f64_div DIV_ID rhs lhs)"

definition rem_floorf64 :: "f64 \<Rightarrow> f64 \<Rightarrow> f64" where
  "rem_floorf64 x y =
     (let one = 0x3ff0000000000000
      in if f64_lt 0 x \<and> f64_lt y 0
         then f64_add (f64_add (f64_rem (f64_sub x one) y) y) one
         else if f64_lt x 0 \<and> f64_lt 0 y
         then f64_sub (f64_add (f64_rem (f64_add x one) y) y) one
         else f64_rem x y)"

definition unpack2 :: "val \<Rightarrow> val \<Rightarrow> ('m, rv \<times> rv) heff" where
  "unpack2 lhs rhs = bind (unpack_val lhs) (\<lambda>l. bind (unpack_val rhs) (\<lambda>r. ret (l, r)))"

definition eval_rem :: "'m henv \<Rightarrow> val \<Rightarrow> val \<Rightarrow> ('m, val) heff" where
  "eval_rem E rhs lhs =
     bind (unpack2 lhs rhs) (\<lambda>p.
       case p of
         (IntegerV a, IntegerV b) \<Rightarrow> bind (asks (\<lambda>_. e_rem_floor E a b)) (int_value E)
       | (IntegerV a, FloatV b) \<Rightarrow> float_value E (rem_floorf64 (f64_of_i64 a) b)
       | (FloatV a, IntegerV b) \<Rightarrow> float_value E (rem_floorf64 a (f64_of_i64 b))
       | (FloatV a, FloatV b) \<Rightarrow> float_value E (rem_floorf64 a b)
       | _ \<Rightarrow> fallback_for_binop E REM_ID lhs rhs)"

definition eval_exp :: "'m henv \<Rightarrow> val \<Rightarrow> val \<Rightarrow> ('m, val) heff" where
  "eval_exp E rhs lhs =
     bind (unpack2 lhs rhs) (\<lambda>p.
       case p of
         (IntegerV a, IntegerV b) \<Rightarrow>
           if 0 \<le> sint b \<and> sint b \<le> 2 ^ 32 - 1 then int_value E (a ^ nat (sint b))
           else float_value E (e_powf E (f64_of_i64 a) (f64_of_i64 b))
       | (IntegerV a, FloatV b) \<Rightarrow> float_value E (e_powf E (f64_of_i64 a) b)
       | (FloatV a, IntegerV b) \<Rightarrow> float_value E (e_powf E a (f64_of_i64 b))
       | (FloatV a, FloatV b) \<Rightarrow> float_value E (e_powf E a b)
       | _ \<Rightarrow> fallback_for_binop E POW_ID lhs rhs)"

definition eval_neg :: "'m henv \<Rightarrow> val \<Rightarrow> ('m, val) heff" where
  "eval_neg E lhs =
     bind (unpack_val lhs) (\<lambda>l.
       case l of
         IntegerV i \<Rightarrow> int_value E (- i)
       | FloatV f \<Rightarrow> float_value E (f64_neg f)
       | _ \<Rightarrow> send0 E (e_id E ''-@'') lhs)"

definition array_push :: "val \<Rightarrow> val \<Rightarrow> 'm hs \<Rightarrow> 'm hs" where
  "array_push a v =
     update_object (\<lambda>r. case kind r of Array xs \<Rightarrow> r\<lparr>kind := Array (xs @ [v])\<rparr> | _ \<Rightarrow> r) a"

definition eval_shl :: "'m henv \<Rightarrow> val \<Rightarrow> val \<Rightarrow> ('m, val) heff" where
  "eval_shl E rhs lhs =
     (if is_packed_fixnum lhs \<and> is_packed_fixnum rhs then
        int_value E (i64_shl (as_packed_fixnum lhs) (as_packed_fixnum rhs))
      else
        bind (asks (\<lambda>h. Inr (as_array (mem h) lhs))) (\<lambda>ar.
          case ar of
            Some a \<Rightarrow> bind (modify (array_push a rhs)) (\<lambda>_. ret lhs)
          | None \<Rightarrow> fallback_for_binop E SHL_ID lhs rhs))"

definition eval_shr :: "'m henv \<Rightarrow> val \<Rightarrow> val \<Rightarrow> ('m, val) heff" where
  "eval_shr E rhs lhs =
     (if is_packed_fixnum lhs \<and> is_packed_fixnum rhs then
        int_value E (i64_shr (as_packed_fixnum lhs) (as_packed_fixnum rhs))
      else fallback_for_binop E SHR_ID lhs rhs)"

section \<open>Bitwise operators\<close>

definition eval_bitand :: "'m henv \<Rightarrow> val \<Rightarrow> val \<Rightarrow> ('m, val) heff" where
  "eval_bitand E rhs lhs =
     (if is_packed_fixnum lhs \<and> is_packed_fixnum rhs then
        int_value E (as_packed_fixnum lhs AND as_packed_fixnum rhs)
      else
        bind (unpack2 lhs rhs) (\<lambda>p.
          case p of
            (TrueV, _) \<Rightarrow> ret (bool_value (to_bool rhs))
          | (FalseV, _) \<Rightarrow> ret FALSE_VALUE
          | (IntegerV a, IntegerV b) \<Rightarrow> int_value E (a AND b)
          | (NilV, _) \<Rightarrow> ret FALSE_VALUE
          | _ \<Rightarrow> fallback_for_binop E (e_id E ''&'') lhs rhs))"

definition eval_bitandi :: "'m henv \<Rightarrow> val \<Rightarrow> i32 \<Rightarrow> ('m, val) heff" where
  "eval_bitandi E lhs i32 =
     (let i = scast i32 :: i64 in
      if is_packed_fixnum lhs then int_value E (as_packed_fixnum lhs AND i)
      else
        bind (unpack_val lhs) (\<lambda>l.
          case l of
            TrueV \<Rightarrow> ret TRUE_VALUE
          | FalseV \<Rightarrow> ret FALSE_VALUE
          | IntegerV a \<Rightarrow> int_value E (a AND i)
          | NilV \<Rightarrow> ret FALSE_VALUE
          | _ \<Rightarrow> bind (int_value E i) (fallback_for_binop E (e_id E ''&'') lhs)))"

definition eval_bitor :: "'m henv \<Rightarrow> val \<Rightarrow> val \<Rightarrow> ('m, val) heff" where
  "eval_bitor E rhs lhs =
     (if is_packed_fixnum lhs \<and> is_packed_fixnum rhs then
        int_value E (as_packed_fixnum lhs OR as_packed_fixnum rhs)
      else
        bind (unpack2 lhs rhs) (\<lambda>p.
          case p of
            (TrueV, _) \<Rightarrow> ret TRUE_VALUE
          | (FalseV, _) \<Rightarrow> ret (bool_value (to_bool rhs))
          | (IntegerV a, IntegerV b) \<Rightarrow> int_value E (a OR b)
          | (NilV, _) \<Rightarrow> ret (bool_value (to_bool rhs))
          | _ \<Rightarrow> fallback_for_binop E (e_id E ''|'') lhs rhs))"

definition eval_bitori :: "'m henv \<Rightarrow> val \<Rightarrow> i32 \<Rightarrow> ('m, val) heff" where
  "eval_bitori E lhs i32 =
     (let i = scast i32 :: i64 in
      if is_packed_fixnum lhs then int_value E (as_packed_fixnum lhs OR i)
      else
        bind (unpack_val lhs) (\<lambda>l.
          case l of
            TrueV \<Rightarrow> ret TRUE_VALUE
          | FalseV \<Rightarrow> ret TRUE_VALUE
          | IntegerV a \<Rightarrow> int_value E (a OR i)
          | NilV \<Rightarrow> ret TRUE_VALUE
          | _ \<Rightarrow> bind (int_value E i) (fallback_for_binop E (e_id E ''|'') lhs)))"

definition eval_bitxor :: "'m henv \<Rightarrow> val \<Rightarrow> val \<Rightarrow> ('m, val) heff" where
  "eval_bitxor E rhs lhs =
     bind (unpack2 lhs rhs) (\<lambda>p.
       case p of
         (TrueV, _) \<Rightarrow> ret (bool_value (\<not> to_bool rhs))
       | (FalseV, _) \<Rightarrow> ret (bool_value (to_bool rhs))
       | (IntegerV a, IntegerV b) \<Rightarrow> int_value E (a XOR b)
       | (NilV, _) \<Rightarrow> ret (bool_value (to_bool rhs))
       | _ \<Rightarrow> fallback_for_binop E (e_id E ''^'') lhs rhs)"

definition eval_bitnot :: "'m henv \<Rightarrow> val \<Rightarrow> ('m, val) heff" where
  "eval_bitnot E lhs =
     bind (unpack_val lhs) (\<lambda>l.
       case l of
         IntegerV a \<Rightarrow> int_value E (NOT a)
       | _ \<Rightarrow> undefined_method lhs)"

section \<open>Comparison\<close>

text \<open>The macros \<open>eval_cmp\<close> and \<open>eval_cmp_i\<close>; \<open>p\<close> reads the operator off the ordering.\<close>

definition binop_bool :: "'m henv \<Rightarrow> u32 \<Rightarrow> val \<Rightarrow> val \<Rightarrow> ('m, bool) heff" where
  "binop_bool E method lhs rhs =
     bind (fallback_for_binop E method lhs rhs) (\<lambda>v. ret (to_bool v))"

definition eval_cmp ::
    "'m henv \<Rightarrow> (ordering option \<Rightarrow> bool) \<Rightarrow> u32 \<Rightarrow> val \<Rightarrow> val \<Rightarrow> ('m, bool) heff" where
  "eval_cmp E p method rhs lhs =
     (if is_packed_fixnum lhs then
        (let a = as_packed_fixnum lhs in
         if is_packed_fixnum rhs then ret (p (Some (i64_cmp a (as_packed_fixnum rhs))))
         else if is_packed_num rhs then ret (p (f64_cmp (f64_of_i64 a) (as_packed_flonum rhs)))
         else binop_bool E method lhs rhs)
      else if is_packed_num lhs then
        (let a = as_packed_flonum lhs in
         if is_packed_fixnum rhs then ret (p (f64_cmp a (f64_of_i64 (as_packed_fixnum rhs))))
         else if is_packed_num rhs then ret (p (f64_cmp a (as_packed_flonum rhs)))
         else binop_bool E method lhs rhs)
      else
        bind (unpack2 lhs rhs) (\<lambda>q.
          case q of
            (IntegerV a, IntegerV b) \<Rightarrow> ret (p (Some (i64_cmp a b)))
          | (FloatV a, IntegerV b) \<Rightarrow> ret (p (f64_cmp a (f64_of_i64 b)))
          | (IntegerV a, FloatV b) \<Rightarrow> ret (p (f64_cmp (f64_of_i64 a) b))
          | (FloatV a, FloatV b) \<Rightarrow> ret (p (f64_cmp a b))
          | _ \<Rightarrow> binop_bool E method lhs rhs))"

definition eval_cmp_i ::
    "'m henv \<Rightarrow> (ordering option \<Rightarrow> bool) \<Rightarrow> u32 \<Rightarrow> val \<Rightarrow> i32 \<Rightarrow> ('m, bool) heff" where
  "eval_cmp_i E p method lhs i =
     (if is_packed_fixnum lhs then ret (p (Some (i64_cmp (as_packed_fixnum lhs) (scast i))))
      else if is_packed_num lhs then
        ret (p (f64_cmp (as_packed_flonum lhs) (f64_of_int (sint i))))
      else
        bind (unpack_val lhs) (\<lambda>l.
          case l of
            IntegerV a \<Rightarrow> ret (p (Some (i64_cmp a (scast i))))
          | FloatV a \<Rightarrow> ret (p (f64_cmp a (f64_of_int (sint i))))
          | _ \<Rightarrow> bind (int_value E (scast i)) (binop_bool E method lhs)))"

definition eval_ge :: "'m henv \<Rightarrow> val \<Rightarrow> val \<Rightarrow> ('m, bool) heff" where
  "eval_ge E = eval_cmp E ord_ge GE_ID"
definition eval_gt :: "'m henv \<Rightarrow> val \<Rightarrow> val \<Rightarrow> ('m, bool) heff" where
  "eval_gt E = eval_cmp E ord_gt GT_ID"
definition eval_le :: "'m henv \<Rightarrow> val \<Rightarrow> val \<Rightarrow> ('m, bool) heff" where
  "eval_le E = eval_cmp E ord_le LE_ID"
definition eval_lt :: "'m henv \<Rightarrow> val \<Rightarrow> val \<Rightarrow> ('m, bool) heff" where
  "eval_lt E = eval_cmp E ord_lt LT_ID"
definition eval_gei :: "'m henv \<Rightarrow> val \<Rightarrow> i32 \<Rightarrow> ('m, bool) heff" where
  "eval_gei E = eval_cmp_i E ord_ge GE_ID"
definition eval_gti :: "'m henv \<Rightarrow> val \<Rightarrow> i32 \<Rightarrow> ('m, bool) heff" where
  "eval_gti E = eval_cmp_i E ord_gt GT_ID"
definition eval_lei :: "'m henv \<Rightarrow> val \<Rightarrow> i32 \<Rightarrow> ('m, bool) heff" where
  "eval_lei E = eval_cmp_i E ord_le LE_ID"
definition eval_lti :: "'m henv \<Rightarrow> val \<Rightarrow> i32 \<Rightarrow> ('m, bool) heff" where
  "eval_lti E = eval_cmp_i E ord_lt LT_ID"

definition ordering_value :: "'m henv \<Rightarrow> ordering option \<Rightarrow> ('m, val) heff" where
  "ordering_value E c =
     (case c of Some d \<Rightarrow> int_value E (word_of_int (ordering_int d)) | None \<Rightarrow> ret NIL_VALUE)"

definition eval_compare :: "'m henv \<Rightarrow> val \<Rightarrow> val \<Rightarrow> ('m, val) heff" where
  "eval_compare E rhs lhs =
     (if rhs = lhs then int_value E 0
      else
        bind (unpack_val lhs) (\<lambda>l.
          case l of
            IntegerV a \<Rightarrow>
              bind (unpack_val rhs) (\<lambda>r.
                case r of
                  IntegerV b \<Rightarrow> ordering_value E (Some (i64_cmp a b))
                | FloatV b \<Rightarrow> ordering_value E (f64_cmp (f64_of_i64 a) b)
                | _ \<Rightarrow> ret NIL_VALUE)
          | FloatV a \<Rightarrow>
              bind (unpack_val rhs) (\<lambda>r.
                case r of
                  IntegerV b \<Rightarrow> ordering_value E (f64_cmp a (f64_of_i64 b))
                | FloatV b \<Rightarrow> ordering_value E (f64_cmp a b)
                | _ \<Rightarrow> ret NIL_VALUE)
          | _ \<Rightarrow> fallback_for_binop E CMP_ID lhs rhs))"

section \<open>Equality\<close>

text \<open>
  \<open>eval_eq\<close>: as \<open>value_eq\<close>, but objects of other kinds are asked with their method \<open>==\<close>, and an
  error it raises is read as false.
\<close>

definition eq_method :: "'m henv \<Rightarrow> val \<Rightarrow> val \<Rightarrow> ('m, bool) heff" where
  "eq_method E lhs rhs h =
     (case fallback_for_binop E EQ_ID lhs rhs h of
        (h', Inr v) \<Rightarrow> (h', Inr (to_bool v))
      | (h', Inl (Raise _)) \<Rightarrow> (h', Inr False)
      | (h', Inl e) \<Rightarrow> (h', Inl e))"

definition eval_eq :: "'m henv \<Rightarrow> nat \<Rightarrow> val \<Rightarrow> val \<Rightarrow> ('m, bool) heff" where
  "eval_eq E fuel rhs lhs h =
     (if lhs = rhs then (h, Inr True)
      else if is_packed_value lhs \<or> is_packed_value rhs then (h, Inr (packed_eq lhs rhs))
      else case kind_eq (table_eq (e_index E) (mem h) fuel) (value_eq (e_index E) (mem h) fuel)
                  (kind (mem h lhs)) (kind (mem h rhs)) of
             Some b \<Rightarrow> (h, b)
           | None \<Rightarrow> eq_method E lhs rhs h)"

definition eval_eqi :: "val \<Rightarrow> i32 \<Rightarrow> bool" where
  "eval_eqi lhs i = equal_i lhs i"

definition rstring_str :: "rstring \<Rightarrow> string res" where
  "rstring_str s = (case s of Str cs \<Rightarrow> Inr cs | SmallStr cs \<Rightarrow> Inr cs | Bytes _ \<Rightarrow> Inl Panic)"

definition eval_teq :: "'m henv \<Rightarrow> nat \<Rightarrow> val \<Rightarrow> val \<Rightarrow> ('m, bool) heff" where
  "eval_teq E fuel rhs lhs =
     bind (asks (\<lambda>h. Inr (as_rvalue (mem h) lhs, as_rstring (mem h) rhs))) (\<lambda>(o1, rs).
       case o1 of
         Some r \<Rightarrow>
           (case kind r of
              Module _ \<Rightarrow> binop_bool E TEQ_ID lhs rhs
            | RegexpK re \<Rightarrow>
                bind (unpack_val rhs) (\<lambda>u.
                  case u of
                    SymbolV s \<Rightarrow> e_find_one E re (e_name E s)
                  | ObjectV _ \<Rightarrow>
                      (case rs of
                         Some s \<Rightarrow> bind (asks (\<lambda>_. rstring_str s)) (e_find_one E re)
                       | None \<Rightarrow> ret False)
                  | _ \<Rightarrow> ret False)
            | _ \<Rightarrow> eval_eq E fuel lhs rhs)
       | None \<Rightarrow> eval_eq E fuel lhs rhs)"

end
