(* ===== verification/Hashes.thy ===== *)
theory Hashes
  imports Arith
begin

text \<open>
  src/value/hash.rs: the operations of a hash table.

  A table is an \<open>IndexMap\<close> of the third-party crate indexmap: the entries in insertion order, found
  through a hash index. The entries are the association list of theory RValue; what the index finds
  is a finder \<open>F\<close>, from the keys and the key asked for to a position. Its contract is the locale
  \<open>key_index\<close>: among the keys it is about, a position holds an equal key, and \<open>None\<close> means that there is
  no equal key, for an equality that is an equivalence. It is interpreted on \<open>IdentKey\<close>, whose equality
  and hash are those of the bits. For \<open>HashKey\<close> the finder is the lookup of the crate with the hash and
  the equality of the code (theory Equality); they meet the contract on plain keys (integers, symbols,
  true, false, nil and strings), as \<open>plain_keys_index\<close> shows, and not on every pair of values.
\<close>

section \<open>Keys by identity\<close>

definition ident_key_eq :: "val \<Rightarrow> val \<Rightarrow> bool" where
  "ident_key_eq x y \<longleftrightarrow> x = y"

section \<open>Tables\<close>

text \<open>\<open>IdentKey\<close>: the position of the same bits.\<close>

fun ident_index :: "val list \<Rightarrow> val \<Rightarrow> nat option" where
  "ident_index [] k = None"
| "ident_index (x # xs) k = (if ident_key_eq x k then Some 0 else map_option Suc (ident_index xs k))"

definition ident_find :: finder where
  "ident_find ks k = Inr (ident_index ks k)"

text \<open>The operations of \<open>IndexMap\<close> that are used. \<open>remove\<close> is its \<open>swap_remove\<close>: the last entry takes
  the place of the removed one.\<close>

definition table_get :: "finder \<Rightarrow> (val \<times> val) list \<Rightarrow> val \<Rightarrow> val option res" where
  "table_get F t k = rbind (F (map fst t) k) (\<lambda>i. Inr (map_option (\<lambda>i. snd (t ! i)) i))"

definition table_insert :: "finder \<Rightarrow> val \<Rightarrow> val \<Rightarrow> (val \<times> val) list \<Rightarrow> (val \<times> val) list res" where
  "table_insert F k v t =
     rbind (F (map fst t) k) (\<lambda>i.
       Inr (case i of Some i \<Rightarrow> t[i := (fst (t ! i), v)] | None \<Rightarrow> t @ [(k, v)]))"

definition swap_remove :: "nat \<Rightarrow> 'a list \<Rightarrow> 'a list" where
  "swap_remove i t = butlast (t[i := last t])"

definition table_remove :: "finder \<Rightarrow> val \<Rightarrow> (val \<times> val) list \<Rightarrow> ((val \<times> val) list \<times> val option) res" where
  "table_remove F k t =
     rbind (F (map fst t) k) (\<lambda>i.
       Inr (case i of Some i \<Rightarrow> (swap_remove i t, Some (snd (t ! i))) | None \<Rightarrow> (t, None)))"

text \<open>The operations of \<open>HashInfo\<close>; \<open>F\<close> finds the keys of a \<open>Map\<close>.\<close>

definition hash_finder :: "finder \<Rightarrow> hash_info \<Rightarrow> finder" where
  "hash_finder F h = (case h of HMap _ \<Rightarrow> F | HIdentMap _ \<Rightarrow> ident_find)"

definition with_pairs :: "(val \<times> val) list \<Rightarrow> hash_info \<Rightarrow> hash_info" where
  "with_pairs t h = (case h of HMap _ \<Rightarrow> HMap t | HIdentMap _ \<Rightarrow> HIdentMap t)"

definition hash_get :: "finder \<Rightarrow> hash_info \<Rightarrow> val \<Rightarrow> val option res" where
  "hash_get F h k = table_get (hash_finder F h) (hash_pairs h) k"

definition hash_len :: "hash_info \<Rightarrow> nat" where
  "hash_len h = length (hash_pairs h)"

definition hash_clear :: "hash_info \<Rightarrow> hash_info" where
  "hash_clear h = with_pairs [] h"

definition hash_insert :: "finder \<Rightarrow> val \<Rightarrow> val \<Rightarrow> hash_info \<Rightarrow> hash_info res" where
  "hash_insert F k v h =
     rbind (table_insert (hash_finder F h) k v (hash_pairs h)) (\<lambda>t. Inr (with_pairs t h))"

definition hash_remove :: "finder \<Rightarrow> val \<Rightarrow> hash_info \<Rightarrow> (hash_info \<times> val option) res" where
  "hash_remove F k h =
     rbind (table_remove (hash_finder F h) k (hash_pairs h)) (\<lambda>(t, v). Inr (with_pairs t h, v))"

definition contains_key :: "finder \<Rightarrow> hash_info \<Rightarrow> val \<Rightarrow> bool res" where
  "contains_key F h k =
     rbind (hash_finder F h (map fst (hash_pairs h)) k) (\<lambda>i. Inr (i \<noteq> None))"

definition hash_keys :: "hash_info \<Rightarrow> val list" where
  "hash_keys h = map fst (hash_pairs h)"

definition hash_values :: "hash_info \<Rightarrow> val list" where
  "hash_values h = map snd (hash_pairs h)"

section \<open>The index\<close>

locale key_index =
  fixes F :: "val list \<Rightarrow> val \<Rightarrow> nat option res" and eq :: "val \<Rightarrow> val \<Rightarrow> bool"
    and P :: "val \<Rightarrow> bool"
  assumes found: "P k \<Longrightarrow> list_all P ks \<Longrightarrow> F ks k = Inr (Some i) \<Longrightarrow> i < length ks \<and> eq (ks ! i) k"
    and missing: "P k \<Longrightarrow> list_all P ks \<Longrightarrow> F ks k = Inr None \<Longrightarrow> x \<in> set ks \<Longrightarrow> \<not> eq x k"
    and total: "P k \<Longrightarrow> list_all P ks \<Longrightarrow> \<exists>i. F ks k = Inr i"
    and eq_refl: "eq x x" and eq_sym: "eq x y \<Longrightarrow> eq y x"
    and eq_trans: "eq x y \<Longrightarrow> eq y z \<Longrightarrow> eq x z"
begin

text \<open>No two keys are equal. Then the position of a key is the only one.\<close>

lemma find_unique:
  assumes P: "P k" "list_all P ks"
    and "\<And>i j. i < length ks \<Longrightarrow> j < length ks \<Longrightarrow> eq (ks ! i) (ks ! j) \<Longrightarrow> i = j"
    and "i < length ks" "eq (ks ! i) k"
  shows "F ks k = Inr (Some i)"
proof -
  obtain r where r: "F ks k = Inr r" using total [OF P] by blast
  show ?thesis
  proof (cases r)
    case None
    then show ?thesis using r missing [OF P] assms(4,5) nth_mem by metis
  next
    case (Some j)
    then have "j < length ks" "eq (ks ! j) k" using r found [OF P] by auto
    then have "eq (ks ! j) (ks ! i)" using eq_trans [OF _ eq_sym [OF assms(5)]] by simp
    then have "j = i" using assms(3,4) \<open>j < length ks\<close> by simp
    then show ?thesis using r Some by simp
  qed
qed

lemma find_none:
  assumes P: "P k" "list_all P ks" and "\<And>x. x \<in> set ks \<Longrightarrow> \<not> eq x k"
  shows "F ks k = Inr None"
proof -
  obtain r where r: "F ks k = Inr r" using total [OF P] by blast
  then show ?thesis using assms(3) found [OF P] by (cases r) auto
qed

end

interpretation ident: key_index ident_find ident_key_eq "\<lambda>_. True"
proof unfold_locales
  have f: "ident_index ks k = Some i \<Longrightarrow> i < length ks \<and> ident_key_eq (ks ! i) k" for ks k i
    by (induction ks arbitrary: i) (auto split: if_splits)
  have n: "ident_index ks k = None \<Longrightarrow> x \<in> set ks \<Longrightarrow> \<not> ident_key_eq x k" for ks k x
    by (induction ks) (auto split: if_splits)
  show "ident_find ks k = Inr (Some i) \<Longrightarrow> i < length ks \<and> ident_key_eq (ks ! i) k" for ks k i
    using f by (simp add: ident_find_def)
  show "ident_find ks k = Inr None \<Longrightarrow> x \<in> set ks \<Longrightarrow> \<not> ident_key_eq x k" for ks k x
    using n by (simp add: ident_find_def)
qed (auto simp: ident_find_def ident_key_eq_def)

section \<open>Tables without equal keys\<close>

definition keys_apart :: "(val \<Rightarrow> val \<Rightarrow> bool) \<Rightarrow> (val \<times> val) list \<Rightarrow> bool" where
  "keys_apart eq t \<longleftrightarrow>
     (\<forall>i < length t. \<forall>j < length t. eq (fst (t ! i)) (fst (t ! j)) \<longrightarrow> i = j)"

lemma keys_apartD:
  "\<lbrakk>keys_apart eq t; i < length t; j < length t; eq (fst (t ! i)) (fst (t ! j))\<rbrakk> \<Longrightarrow> i = j"
  unfolding keys_apart_def by blast

text \<open>What a table means: the finite map on keys up to \<open>eq\<close>.\<close>

definition table_map :: "(val \<Rightarrow> val \<Rightarrow> bool) \<Rightarrow> (val \<times> val) list \<Rightarrow> val \<Rightarrow> val option" where
  "table_map eq t k = map_option snd (find (\<lambda>e. eq (fst e) k) t)"

lemma find_append: "find P (xs @ ys) = (case find P xs of None \<Rightarrow> find P ys | r \<Rightarrow> r)"
  by (induction xs) auto

lemma find_none_nth: "(\<And>j. j < length t \<Longrightarrow> \<not> P (t ! j)) \<Longrightarrow> find P t = None"
  unfolding find_None_iff by (metis in_set_conv_nth)

lemma find_nth_unique:
  "\<lbrakk>i < length t; P (t ! i); \<And>j. j < length t \<Longrightarrow> P (t ! j) \<Longrightarrow> j = i\<rbrakk> \<Longrightarrow> find P t = Some (t ! i)"
  unfolding find_Some_iff by (metis less_irrefl order.strict_trans)

context key_index
begin

lemma get_map:
  assumes G: "P k" "list_all P (map fst t)" and ap: "keys_apart eq t"
  shows "table_get F t k = Inr (table_map eq t k)"
proof (cases "\<exists>i < length t. eq (fst (t ! i)) k")
  case True
  then obtain i where i: "i < length t" "eq (fst (t ! i)) k" by blast
  have u: "j = i" if "j < length t" "eq (fst (t ! j)) k" for j
    using keys_apartD [OF ap that(1) i(1)] eq_trans [OF that(2) eq_sym [OF i(2)]] by simp
  have "F (map fst t) k = Inr (Some i)"
  proof (rule find_unique)
    fix a b
    assume ab: "a < length (map fst t)" "b < length (map fst t)" "eq (map fst t ! a) (map fst t ! b)"
    show "a = b" by (rule keys_apartD [OF ap]) (use ab in simp_all)
  qed (use i G in simp_all)
  moreover have "find (\<lambda>e. eq (fst e) k) t = Some (t ! i)"
    by (rule find_nth_unique) (use i u in blast)+
  ultimately show ?thesis by (simp add: table_get_def table_map_def)
next
  case False
  then have n: "\<not> eq (fst e) k" if "e \<in> set t" for e using that by (metis in_set_conv_nth)
  then have "F (map fst t) k = Inr None" by (intro find_none G) auto
  moreover have "find (\<lambda>e. eq (fst e) k) t = None"
    using False by (intro find_none_nth) blast
  ultimately show ?thesis by (simp add: table_get_def table_map_def)
qed

lemma map_none:
  "P k \<Longrightarrow> list_all P (map fst t) \<Longrightarrow> F (map fst t) k = Inr None \<Longrightarrow> e \<in> set t \<Longrightarrow> \<not> eq (fst e) k"
  using missing [of k "map fst t"] by auto

lemma change_total:
  assumes "P k" "list_all P (map fst t)"
  shows "\<exists>t'. table_insert F k v t = Inr t'" "\<exists>t' r. table_remove F k t = Inr (t', r)"
  using total [OF assms] by (auto simp: table_insert_def table_remove_def split: option.splits)


lemma table_map_at:
  assumes "keys_apart eq t" "i < length t"
  shows "table_map eq t (fst (t ! i)) = Some (snd (t ! i))"
proof -
  have "find (\<lambda>e. eq (fst e) (fst (t ! i))) t = Some (t ! i)"
    by (rule find_nth_unique) (use assms eq_refl keys_apartD [OF assms(1)] in blast)+
  then show ?thesis by (simp add: table_map_def)
qed

lemma table_map_cong: "eq k k' \<Longrightarrow> table_map eq t k = table_map eq t k'"
proof -
  assume e: "eq k k'"
  have "eq x k \<longleftrightarrow> eq x k'" for x
    using eq_trans [OF _ e, of x] eq_trans [OF _ eq_sym [OF e], of x] by blast
  then show ?thesis by (simp add: table_map_def)
qed

lemma insert_map:
  assumes "keys_apart eq t" "table_insert F k v t = Inr t'"
    and G: "P k" "list_all P (map fst t)"
  shows "keys_apart eq t' \<and>
    table_map eq t' k' = (if eq k k' then Some v else table_map eq t k')"
proof (cases "F (map fst t) k")
  case (Inr r)
  show ?thesis
  proof (cases r)
    case None
    then have t': "t' = t @ [(k, v)]" using assms(2) Inr by (simp add: table_insert_def)
    have no: "\<not> eq (fst e) k" if "e \<in> set t" for e using map_none [OF G] that Inr None by blast
    then have no': "\<not> eq k (fst e)" if "e \<in> set t" for e using that eq_sym by blast
    have "keys_apart eq t'"
      using assms(1) no no' unfolding t' keys_apart_def
      by (auto simp: nth_append less_Suc_eq)
    moreover have "eq k k' \<Longrightarrow> find (\<lambda>e. eq (fst e) k') t = None"
    proof -
      assume "eq k k'"
      then have "\<not> eq (fst e) k'" if "e \<in> set t" for e
        using no [OF that] eq_trans [OF _ eq_sym, of "fst e" k' k] by blast
      then show ?thesis by (auto simp: find_None_iff)
    qed
    then have "table_map eq t' k' = (if eq k k' then Some v else table_map eq t k')"
      by (auto simp: t' table_map_def find_append split: option.split)
    ultimately show ?thesis by blast
  next
    case (Some i)
    then have i: "i < length t" "eq (fst (t ! i)) k" using Inr found [OF G, of i] by auto
    have t': "t' = t[i := (fst (t ! i), v)]" using assms(2) Inr Some by (simp add: table_insert_def)
    have f: "map fst t' = map fst t"
      using i list_update_id [of "map fst t" i] by (simp add: t' map_update)
    have fn: "fst (t' ! j) = fst (t ! j)" if "j < length t" for j
      using f that nth_map [of j t' fst] nth_map [of j t fst] by (simp add: t')
    then have k: "keys_apart eq t'" using assms(1) by (simp add: keys_apart_def t')
    have "table_map eq t' k' = (if eq k k' then Some v else table_map eq t k')"
    proof (cases "\<exists>j < length t. eq (fst (t ! j)) k'")
      case True
      then obtain j where j: "j < length t" "eq (fst (t ! j)) k'" by blast
      then have "table_map eq t' k' = Some (snd (t' ! j))" "table_map eq t k' = Some (snd (t ! j))"
        using table_map_at [OF k, of j] table_map_at [OF assms(1), of j] table_map_cong [OF j(2)] fn
        by (simp_all add: t')
      moreover have "eq k k' \<longleftrightarrow> j = i"
      proof
        assume "eq k k'"
        then have "eq (fst (t ! i)) (fst (t ! j))"
          using eq_trans [OF eq_trans [OF i(2)] eq_sym [OF j(2)]] by simp
        then show "j = i" using keys_apartD [OF assms(1) i(1) j(1)] by simp
      qed (use eq_trans [OF eq_sym [OF i(2)]] j(2) in simp)
      ultimately show ?thesis using i(1) j(1) by (auto simp: t')
    next
      case False
      then have "\<not> eq k k'" using i(1) eq_trans [OF i(2)] by blast
      moreover have "find (\<lambda>e. eq (fst e) k') t = None" "find (\<lambda>e. eq (fst e) k') t' = None"
        using False fn t' by (intro find_none_nth; simp)+
      ultimately show ?thesis by (simp add: table_map_def)
    qed
    with k show ?thesis by blast
  qed
qed (use assms in \<open>simp add: table_insert_def\<close>)

end

context key_index
begin

lemma remove_map:
  assumes "keys_apart eq t" "table_remove F k t = Inr (t', r)"
    and G: "P k" "list_all P (map fst t)"
  shows "r = table_map eq t k \<and> keys_apart eq t' \<and>
    table_map eq t' k' = (if eq k k' then None else table_map eq t k')"
proof (cases "F (map fst t) k")
  case (Inr f)
  show ?thesis
  proof (cases f)
    case None
    then have t': "t' = t" "r = None" using assms(2) Inr by (simp_all add: table_remove_def)
    have no: "\<not> eq (fst e) k" if "e \<in> set t" for e using map_none [OF G] that Inr None by blast
    then have "find (\<lambda>e. eq (fst e) k) t = None" by (intro find_none_nth) simp
    then have "table_map eq t k = None" by (simp add: table_map_def)
    with t' assms(1) table_map_cong show ?thesis by metis
  next
    case (Some i)
    let ?n = "length t - 1"
    have i: "i < length t" "eq (fst (t ! i)) k" using Inr Some found [OF G, of i] by auto
    have t': "t' = swap_remove i t" "r = Some (snd (t ! i))"
      using assms(2) Inr Some by (simp_all add: table_remove_def)
    have len: "length t' = ?n" by (simp add: t' swap_remove_def)
    have nth: "t' ! j = t ! (if j = i then ?n else j)" if "j < ?n" for j
      using that i last_conv_nth [of t] by (cases "t = []") (auto simp: t' swap_remove_def nth_butlast)
    have kept: "\<exists>j < ?n. t' ! j = t ! l" if "l < length t" "l \<noteq> i" for l
      using that i nth [of "if l = ?n then i else l"]
      by (intro exI [of _ "if l = ?n then i else l"]) (auto split: if_splits)
    have src: "(if j = i then ?n else j) < length t" if "j < ?n" for j using that by auto
    have "keys_apart eq t'" unfolding keys_apart_def
    proof (intro allI impI)
      fix a b
      assume ab: "a < length t'" "b < length t'" "eq (fst (t' ! a)) (fst (t' ! b))"
      then have "(if a = i then ?n else a) = (if b = i then ?n else b)"
        using keys_apartD [OF assms(1) src src, of a b] nth len by auto
      with ab len show "a = b" by (auto split: if_splits)
    qed
    moreover have "table_map eq t k = r"
      using table_map_at [OF assms(1) i(1)] table_map_cong [OF i(2)] t' by simp
    moreover have "table_map eq t' k' = (if eq k k' then None else table_map eq t k')"
    proof (cases "\<exists>l < length t. l \<noteq> i \<and> eq (fst (t ! l)) k'")
      case True
      then obtain l where l: "l < length t" "l \<noteq> i" "eq (fst (t ! l)) k'" by blast
      obtain j where j: "j < ?n" "t' ! j = t ! l" using kept l by blast
      have "table_map eq t' k' = Some (snd (t ! l))"
        using table_map_at [OF \<open>keys_apart eq t'\<close>, of j] table_map_cong [OF l(3)] j len by simp
      moreover have "table_map eq t k' = Some (snd (t ! l))"
        using table_map_at [OF assms(1) l(1)] table_map_cong [OF l(3)] by simp
      moreover have "\<not> eq k k'"
      proof
        assume "eq k k'"
        then have "eq (fst (t ! i)) (fst (t ! l))"
          using eq_trans [OF eq_trans [OF i(2)] eq_sym [OF l(3)]] by simp
        then show False using keys_apartD [OF assms(1) i(1) l(1)] l(2) by simp
      qed
      ultimately show ?thesis by simp
    next
      case False
      have "\<not> eq (fst (t' ! j)) k'" if "j < length t'" for j
      proof -
        obtain l where l: "l = (if j = i then ?n else j)" by simp
        have "j < ?n" "l \<noteq> i" using that len i(1) by (auto simp: l)
        then have "t' ! j = t ! l" "l < length t" "l \<noteq> i"
          using nth [of j] src [of j] by (auto simp: l split: if_splits)
        then show ?thesis using False by auto
      qed
      then have "find (\<lambda>e. eq (fst e) k') t' = None" by (rule find_none_nth)
      moreover have "find (\<lambda>e. eq (fst e) k') t = None" if "\<not> eq k k'"
      proof (rule find_none_nth)
        fix l assume "l < length t"
        with False that eq_trans [OF eq_sym [OF i(2)]] show "\<not> eq (fst (t ! l)) k'" by (cases "l = i") auto
      qed
      ultimately show ?thesis by (auto simp: table_map_def)
    qed
    ultimately show ?thesis by blast
  qed
qed (use assms in \<open>simp add: table_remove_def\<close>)

end

section \<open>Plain keys\<close>

text \<open>
  The documented contract of a lookup by hash: it finds an entry with an equal key; when it finds
  none in a table that is not empty, it has hashed the key and found every key that feeds the same to
  the hasher different; and it returns when the hashing and the comparisons do.
\<close>

definition index_contract :: "(feed \<Rightarrow> equality \<Rightarrow> finder) \<Rightarrow> bool" where
  "index_contract ix \<longleftrightarrow>
     (\<forall>f q ks k i. ix f q ks k = Inr (Some i) \<longrightarrow> i < length ks \<and> q k (ks ! i) = Inr True) \<and>
     (\<forall>f q ks k x. ix f q ks k = Inr None \<longrightarrow> x \<in> set ks \<longrightarrow>
        is_ok (f k) \<and> (f x = f k \<longrightarrow> q k x = Inr False)) \<and>
     (\<forall>f q ks k. list_all (\<lambda>x. is_ok (f x)) (k # ks) \<longrightarrow> list_all (\<lambda>x. is_ok (q k x)) ks \<longrightarrow>
        is_ok (ix f q ks k))"

definition key_finder :: "lookups \<Rightarrow> memory \<Rightarrow> nat \<Rightarrow> finder" where
  "key_finder L m n = map_index L (key_feed m n) (hash_key_eq L m n)"

definition plain_key :: "memory \<Rightarrow> val \<Rightarrow> bool" where
  "plain_key m v \<longleftrightarrow>
     (case as_rvalue m v of
        None \<Rightarrow> \<not> is_packed_flonum v
      | Some r \<Rightarrow> (case kind r of Integer _ \<Rightarrow> True | StringK _ \<Rightarrow> True | _ \<Rightarrow> False))"

definition same_key :: "memory \<Rightarrow> val \<Rightarrow> val \<Rightarrow> bool" where
  "same_key m x y \<longleftrightarrow>
     x = y \<or> \<not> is_packed_value x \<and> \<not> is_packed_value y \<and> kind (m x) = kind (m y)"

lemma packed_num_cases: "is_packed_num v \<Longrightarrow> is_packed_fixnum v \<or> is_packed_flonum v"
  by (cases "bit v 0"; cases "bit v 1")
    (simp_all add: is_packed_num_def is_packed_fixnum_def is_packed_flonum_def and_1_bit and_3)

lemma packed_ints_differ:
  "\<not> is_packed_flonum x \<Longrightarrow> \<not> is_packed_flonum y \<Longrightarrow> \<not> packed_eq x y"
  using packed_num_cases by (auto simp: packed_eq_def)

lemma plain_key_cases:
  assumes "plain_key m x"
  obtains "is_packed_value x" "\<not> is_packed_flonum x"
    | i where "\<not> is_packed_value x" "kind (m x) = Integer i"
    | s where "\<not> is_packed_value x" "kind (m x) = StringK s"
  using assms by (auto simp: plain_key_def as_rvalue_def split: if_splits objkind.splits)

lemma plain_kinds:
  "key_kind_eq feq heq eq (Integer a) (Integer b) = Inr (a = b)"
  "key_kind_eq feq heq eq (StringK s) (StringK t) = Inr (s = t)"
  "key_kind_eq feq heq eq (Integer a) (StringK t) = Inr False"
  "key_kind_eq feq heq eq (StringK s) (Integer b) = Inr False"
  "kind_feed fi ff f v (Integer a) = Inr [FWord (fi a)]"
  "kind_feed fi ff f v (StringK s) = Inr (rstring_feed s)"
  by (simp_all add: key_kind_eq_def derived_eq_def kind_feed_def)

lemma plain_hash_key_eq:
  assumes "plain_key m x" "plain_key m y"
  shows "hash_key_eq L m (Suc (Suc n)) x y = Inr (same_key m x y)"
proof (cases "x = y")
  case False
  have packed: "value_eq L m (Suc n) x y = Inr False"
    if "is_packed_value x" "\<not> is_packed_flonum x" "\<not> is_packed_flonum y"
    using that False by (simp add: packed_ints_differ)
  show ?thesis
    by (rule plain_key_cases [OF assms(1)]; rule plain_key_cases [OF assms(2)])
      (simp_all add: False packed same_key_def as_rvalue_def plain_kinds del: value_eq_Suc)
qed (simp add: same_key_def)

lemma key_feed_iff:
  "key_feed m (Suc n) v =
    (if is_packed_value v then Inr [FWord v]
     else kind_feed (\<lambda>i. i) f64_to_u64 (value_feed m (Suc n)) v (kind (m v)))"
  by (simp add: key_feed_def as_rvalue_def)

lemma plain_key_feed:
  assumes "plain_key m x"
  shows "is_ok (key_feed m (Suc n) x)"
  unfolding key_feed_iff
  by (rule plain_key_cases [OF assms]) (simp_all only: plain_kinds is_ok_simps if_True if_False)

lemma same_key_feed:
  assumes "plain_key m x" "same_key m x y"
  shows "key_feed m n y = key_feed m n x"
proof -
  consider "x = y" | "\<not> is_packed_value x" "\<not> is_packed_value y" "kind (m y) = kind (m x)"
    using assms(2) by (auto simp: same_key_def)
  then show ?thesis
  proof cases
    case 2
    have e: "key_feed m n v = kind_feed (\<lambda>i. i) f64_to_u64 (value_feed m n) v (kind (m v))"
      if "\<not> is_packed_value v" for v
      using that by (simp add: key_feed_def as_rvalue_def)
    show ?thesis unfolding e [OF 2(1)] e [OF 2(2)] 2(3)
      by (rule plain_key_cases [OF assms(1)]) (use 2(1) in \<open>simp_all only: plain_kinds simp_thms\<close>)
  qed simp
qed

lemma same_key_sym: "same_key m x y \<Longrightarrow> same_key m y x"
  by (auto simp: same_key_def)

lemma same_key_trans: "same_key m x y \<Longrightarrow> same_key m y z \<Longrightarrow> same_key m x z"
  by (auto simp: same_key_def)

text \<open>Whatever the depth, an answer of a lookup with the documented behaviour is right on plain keys.\<close>

lemma index_contractD:
  assumes "index_contract ix"
  shows "ix f q ks k = Inr (Some i) \<Longrightarrow> i < length ks \<and> q k (ks ! i) = Inr True"
    "ix f q ks k = Inr None \<Longrightarrow> x \<in> set ks \<Longrightarrow> is_ok (f k) \<and> (f x = f k \<longrightarrow> q k x = Inr False)"
    "list_all (\<lambda>x. is_ok (f x)) (k # ks) \<Longrightarrow> list_all (\<lambda>x. is_ok (q k x)) ks \<Longrightarrow> is_ok (ix f q ks k)"
  using assms unfolding index_contract_def by blast+

lemma plain_answer:
  assumes "plain_key m x" "plain_key m y" "hash_key_eq L m n x y = Inr b"
  shows "b = same_key m x y"
proof (cases n)
  case (Suc j)
  show ?thesis
  proof (cases j)
    case 0
    show ?thesis
      by (rule plain_key_cases [OF assms(1)]; rule plain_key_cases [OF assms(2)])
        (use assms(3) in \<open>auto simp: Suc 0 same_key_def as_rvalue_def plain_kinds split: if_splits\<close>)
  next
    case (Suc i)
    then show ?thesis
      using assms plain_hash_key_eq [OF assms(1,2), of L i] \<open>n = Suc j\<close> by simp
  qed
qed (use assms(3) in simp)

lemma finder_right:
  assumes "index_contract (map_index L)" "plain_key m k" "list_all (plain_key m) ks"
  shows "key_finder L m n ks k = Inr (Some i) \<Longrightarrow> i < length ks \<and> same_key m (ks ! i) k"
    "key_finder L m n ks k = Inr None \<Longrightarrow> x \<in> set ks \<Longrightarrow> \<not> same_key m x k"
proof -
  note c = index_contractD [OF assms(1)]
  show "i < length ks \<and> same_key m (ks ! i) k" if "key_finder L m n ks k = Inr (Some i)"
  proof -
    have i: "i < length ks" "hash_key_eq L m n k (ks ! i) = Inr True"
      using c(1) that by (simp_all add: key_finder_def)
    then have "plain_key m (ks ! i)" using assms(3) by (simp add: list_all_length)
    from plain_answer [OF assms(2) this i(2)] i(1) same_key_sym show ?thesis by simp
  qed
  show "\<not> same_key m x k" if "key_finder L m n ks k = Inr None" "x \<in> set ks"
  proof
    assume e: "same_key m x k"
    have px: "plain_key m x" using assms(3) that(2) by (simp add: list_all_iff)
    have "hash_key_eq L m n k x = Inr False"
      using c(2) [OF that(1)[unfolded key_finder_def] that(2)] same_key_feed [OF px e] by simp
    from plain_answer [OF assms(2) px this] same_key_sym [OF e] show False by simp
  qed
qed

lemma finder_total:
  assumes "index_contract (map_index L)" "plain_key m k" "list_all (plain_key m) ks"
    "ks = [] \<and> 1 \<le> n \<or> \<not> is_packed_value k \<and> 1 \<le> n \<or> 2 \<le> n"
  obtains r where "key_finder L m n ks k = Inr r"
proof -
  have "1 \<le> n" using assms(4) by linarith
  then obtain j where n: "n = Suc j" by (cases n) auto
  have q: "is_ok (hash_key_eq L m n k x)" if "x \<in> set ks" for x
  proof -
    have px: "plain_key m x" using assms(3) that by (simp add: list_all_iff)
    show ?thesis
    proof (cases j)
      case 0
      then have "\<not> is_packed_value k" using assms(4) n that by auto
      then show ?thesis
        by (rule_tac plain_key_cases [OF assms(2)]; rule_tac plain_key_cases [OF px])
          (simp_all add: n 0 as_rvalue_def plain_kinds)
    next
      case (Suc i)
      then show ?thesis using plain_hash_key_eq [OF assms(2) px, of L i] n by simp
    qed
  qed
  have "is_ok (key_feed m n x)" if "x \<in> set (k # ks)" for x
    using that assms(2,3) plain_key_feed unfolding n by (auto simp: list_all_iff)
  then have "is_ok (key_finder L m n ks k)"
    unfolding key_finder_def using q
    by (intro index_contractD(3) [OF assms(1)]) (unfold list_all_iff, blast+)
  then show thesis using that by (auto simp: is_ok_def split: sum.splits)
qed

text \<open>So it is an index of \<open>HashKey\<close> on plain keys.\<close>

lemma plain_keys_index:
  assumes "index_contract (map_index L)" "2 \<le> n"
  shows "key_index (key_finder L m n) (same_key m) (plain_key m)"
proof
  fix k ks i x assume P: "plain_key m k" "list_all (plain_key m) ks"
  show "key_finder L m n ks k = Inr (Some i) \<Longrightarrow> i < length ks \<and> same_key m (ks ! i) k"
    by (rule finder_right(1) [OF assms(1) P])
  show "key_finder L m n ks k = Inr None \<Longrightarrow> x \<in> set ks \<Longrightarrow> \<not> same_key m x k"
    by (rule finder_right(2) [OF assms(1) P])
  show "\<exists>i. key_finder L m n ks k = Inr i"
    by (rule finder_total [OF assms(1) P, of n]) (use assms(2) in auto)
qed (auto simp: same_key_def)

text \<open>Both kinds of tables: which keys are the same, and which keys the index is right about.\<close>

definition key_rel :: "memory \<Rightarrow> hash_info \<Rightarrow> val \<Rightarrow> val \<Rightarrow> bool" where
  "key_rel m h = (case h of HMap _ \<Rightarrow> same_key m | HIdentMap _ \<Rightarrow> ident_key_eq)"

definition good_key :: "memory \<Rightarrow> hash_info \<Rightarrow> val \<Rightarrow> bool" where
  "good_key m h = (case h of HMap _ \<Rightarrow> plain_key m | HIdentMap _ \<Rightarrow> (\<lambda>_. True))"

lemma hash_index:
  assumes "index_contract (map_index L)" "2 \<le> n"
  shows "key_index (hash_finder (key_finder L m n) h) (key_rel m h) (good_key m h)"
  using plain_keys_index [OF assms] ident.key_index_axioms
  by (cases h) (simp_all add: hash_finder_def key_rel_def good_key_def)

lemma with_pairs_simps [simp]:
  "hash_pairs (with_pairs t h) = t" "hash_finder F (with_pairs t h) = hash_finder F h"
  "key_rel m (with_pairs t h) = key_rel m h"
  by (cases h; simp add: with_pairs_def hash_pairs_def hash_finder_def key_rel_def)+

text \<open>A lookup that looks at one key after the other.\<close>

fun scan_index :: "feed \<Rightarrow> equality \<Rightarrow> finder" where
  "scan_index f q [] k = Inr None"
| "scan_index f q (x # xs) k =
     rbind (f k) (\<lambda>a. rbind (f x) (\<lambda>b. rbind (if a = b then q k x else Inr False) (\<lambda>e.
       if e then Inr (Some 0) else rbind (scan_index f q xs k) (\<lambda>i. Inr (map_option Suc i)))))"

lemma scan_contract: "index_contract scan_index"
proof -
  have f: "scan_index f q ks k = Inr (Some i) \<Longrightarrow> i < length ks \<and> q k (ks ! i) = Inr True" for f q ks k i
    by (induction ks arbitrary: i) (auto simp: rbind_Inr_iff split: if_splits)
  have n: "scan_index f q ks k = Inr None \<Longrightarrow> x \<in> set ks \<Longrightarrow>
      is_ok (f k) \<and> (f x = f k \<longrightarrow> q k x = Inr False)" for f q ks k x
    by (induction ks) (auto simp: rbind_Inr_iff split: if_splits)
  have t: "list_all (\<lambda>x. is_ok (f x)) (k # ks) \<Longrightarrow> list_all (\<lambda>x. is_ok (q k x)) ks \<Longrightarrow>
      is_ok (scan_index f q ks k)" for f q ks k
  proof (induction ks)
    case (Cons x xs)
    then obtain a b e i where "f k = Inr a" "f x = Inr b" "q k x = Inr e" "scan_index f q xs k = Inr i"
      by (auto simp: is_ok_def split: sum.splits)
    then show ?case by simp
  qed simp
  show ?thesis using f n t unfolding index_contract_def by blast
qed

section \<open>Properties\<close>

text \<open>C19. A hash table refines the finite map on keys up to their equality. An insertion returns; after
  it the key reads as the new value and every other key as before, no two keys become equal, and a
  key that was there keeps its place. This holds of a table by identity, for all keys; and of any
  other table, with the hash and the equality of its keys that the code has, for plain keys (integers,
  symbols, true, false, nil and strings), with any index that behaves as documented.\<close>

theorem hash_insert_refines:
  assumes "index_contract (map_index L)" "2 \<le> n" "list_all (good_key m h) (k # k' # hash_keys h)"
    "keys_apart (key_rel m h) (hash_pairs h)"
  shows "\<exists>h'. hash_insert (key_finder L m n) k v h = Inr h' \<and>
    hash_get (key_finder L m n) h' k' =
      (if key_rel m h k k' then Inr (Some v) else hash_get (key_finder L m n) h k') \<and>
    keys_apart (key_rel m h) (hash_pairs h') \<and>
    (\<exists>new. hash_keys h' = hash_keys h @ new \<and> set new \<subseteq> {k})"
proof -
  let ?F = "hash_finder (key_finder L m n) h" and ?t = "hash_pairs h"
  note ix = hash_index [OF assms(1,2), of m h]
  have G: "good_key m h k" "good_key m h k'" "list_all (good_key m h) (map fst ?t)"
    using assms(3) by (simp_all add: hash_keys_def)
  obtain t' where t': "table_insert ?F k v ?t = Inr t'"
    using key_index.change_total(1) [OF ix G(1,3)] by blast
  note im = key_index.insert_map [OF ix assms(4) t' G(1,3)]
  have "(map fst ?t)[i := fst (?t ! i)] = map fst ?t" if "i < length ?t" for i
    using that list_update_id [of "map fst ?t" i] by simp
  then have new: "\<exists>new. map fst t' = map fst ?t @ new \<and> set new \<subseteq> {k}"
    using t' key_index.found [OF ix G(1,3)]
    by (auto simp: table_insert_def rbind_Inr_iff map_update split: option.splits)
  then obtain new where "map fst t' = map fst ?t @ new" "set new \<subseteq> {k}" by blast
  then have "list_all (good_key m h) (map fst t')" using G(1,3) by (auto simp: list_all_iff)
  from key_index.get_map [OF ix G(2) this] key_index.get_map [OF ix G(2,3) assms(4)] im
  have "table_get ?F t' k' = (if key_rel m h k k' then Inr (Some v) else table_get ?F ?t k')" by simp
  with t' im new show ?thesis by (simp add: hash_insert_def hash_get_def hash_keys_def)
qed

text \<open>Two strings that are other objects with the same text, at \<open>0x100\<close> and \<open>0x140\<close>.\<close>

definition demo_lookups :: lookups where
  "demo_lookups =
     \<lparr>map_index = scan_index, value_index = scan_index, pair_index = \<lambda>_ _ _ _. Inr None,
      fiber_eq = \<lambda>_ _. False\<rparr>"

definition demo_strings :: memory where
  "demo_strings = (\<lambda>a. rvalue_new 0x40000 (StringK (SmallStr ''ab'')))"

lemma demo_keys:
  "plain_key demo_strings 5" "plain_key demo_strings 0x100" "plain_key demo_strings 0x140"
  "same_key demo_strings 0x140 0x100" "same_key demo_strings 0x100 0x140" "\<not> same_key demo_strings 5 0x100" "\<not> same_key demo_strings 0x100 5"
  "\<not> same_key demo_strings 0x140 5" "\<not> same_key demo_strings 5 0x140" "same_key demo_strings x x"
  "index_contract (map_index demo_lookups)"
proof -
  have "is_packed_value 5" "\<not> is_packed_flonum 5" "\<not> is_packed_value 0x100" "\<not> is_packed_value 0x140"
    by code_simp+
  then show "plain_key demo_strings 5" "plain_key demo_strings 0x100" "plain_key demo_strings 0x140"
    "same_key demo_strings 0x140 0x100" "same_key demo_strings 0x100 0x140" "\<not> same_key demo_strings 5 0x100" "\<not> same_key demo_strings 0x100 5"
    "\<not> same_key demo_strings 0x140 5" "\<not> same_key demo_strings 5 0x140" "same_key demo_strings x x"
    by (simp_all add: plain_key_def same_key_def as_rvalue_def demo_strings_def rvalue_new_def)
qed (simp add: demo_lookups_def scan_contract)

lemma demo_apart: "keys_apart (same_key demo_strings) [(5, 1), (0x100, 2)]"
  using demo_keys by (auto simp: keys_apart_def less_Suc_eq)

theorem hash_insert_refines_witness:
  "\<exists>h'. hash_insert (key_finder demo_lookups demo_strings 2) 0x140 9 (HMap [(5, 1), (0x100, 2)]) = Inr h' \<and>
    hash_get (key_finder demo_lookups demo_strings 2) h' 0x100 = Inr (Some 9)"
  using hash_insert_refines [OF demo_keys(11), of 2 demo_strings "HMap [(5, 1), (0x100, 2)]" "0x140" "0x100" 9]
    demo_keys demo_apart
  by (auto simp: good_key_def key_rel_def hash_keys_def hash_pairs_def)

text \<open>C21. Removing a key takes it, and only it, out of the table, for the same tables and keys; but the
  last entry moves to its place, so that the insertion order, which Ruby keeps, is lost.\<close>

theorem hash_remove_refines:
  assumes "index_contract (map_index L)" "2 \<le> n" "list_all (good_key m h) (k # k' # hash_keys h)"
    "keys_apart (key_rel m h) (hash_pairs h)"
  shows "\<exists>h' r. hash_remove (key_finder L m n) k h = Inr (h', r) \<and>
    hash_get (key_finder L m n) h k = Inr r \<and> keys_apart (key_rel m h) (hash_pairs h') \<and>
    hash_get (key_finder L m n) h' k' =
      (if key_rel m h k k' then Inr None else hash_get (key_finder L m n) h k') \<and>
    (\<forall>i. hash_finder (key_finder L m n) h (hash_keys h) k = Inr i \<longrightarrow>
      hash_keys h' = (case i of Some i \<Rightarrow> swap_remove i (hash_keys h) | None \<Rightarrow> hash_keys h))"
proof -
  let ?F = "hash_finder (key_finder L m n) h" and ?t = "hash_pairs h"
  note ix = hash_index [OF assms(1,2), of m h]
  have G: "good_key m h k" "good_key m h k'" "list_all (good_key m h) (map fst ?t)"
    using assms(3) by (simp_all add: hash_keys_def)
  obtain t' r where t': "table_remove ?F k ?t = Inr (t', r)"
    using key_index.change_total(2) [OF ix G(1,3)] by blast
  note rm = key_index.remove_map [OF ix assms(4) t' G(1,3)]
  have "map fst (swap_remove i ?t) = swap_remove i (map fst ?t)" if "i < length ?t" for i
    using that by (cases "?t = []") (simp_all add: swap_remove_def map_butlast map_update last_map)
  then have ks: "\<forall>i. ?F (map fst ?t) k = Inr i \<longrightarrow>
      map fst t' = (case i of Some i \<Rightarrow> swap_remove i (map fst ?t) | None \<Rightarrow> map fst ?t)"
    using t' key_index.found [OF ix G(1,3)]
    by (auto simp: table_remove_def split: option.splits)
  have "set (swap_remove i (map fst ?t)) \<subseteq> set (map fst ?t)" if "i < length ?t" for i
    unfolding swap_remove_def using that last_in_set [of "map fst ?t"]
    by (cases "?t = []") (auto dest!: in_set_butlastD set_update_subset_insert [THEN subsetD])
  then have "list_all (good_key m h) (map fst t')"
    using ks G(3) key_index.found [OF ix G(1,3)] key_index.total [OF ix G(1,3)]
    by (force simp: list_all_iff split: option.splits)
  note g' = key_index.get_map [OF ix _ this]
  have "table_get ?F t' k' = (if key_rel m h k k' then Inr None else table_get ?F ?t k')"
    "table_get ?F ?t k = Inr r"
    using g' [OF G(2)] key_index.get_map [OF ix G(1,3) assms(4)] key_index.get_map [OF ix G(2,3) assms(4)] rm
    by simp_all
  then show ?thesis
    unfolding hash_keys_def using t' rm ks
    by (intro exI [of _ "with_pairs t' h"] exI [of _ r] conjI) (simp_all add: hash_remove_def hash_get_def)
qed

theorem hash_remove_refines_witness:
  "\<exists>h'. hash_remove (key_finder demo_lookups demo_strings 2) 0x140 (HMap [(5, 1), (0x100, 2)]) =
      Inr (h', Some 2) \<and> hash_get (key_finder demo_lookups demo_strings 2) h' 0x100 = Inr None"
proof -
  have f: "hash_get (key_finder demo_lookups demo_strings 2) (HMap [(5, 1), (0x100, 2)]) 0x140 = Inr (Some 2)"
    using key_index.get_map [OF plain_keys_index [OF demo_keys(11) order_refl] _ _ demo_apart, of "0x140"] demo_keys
    by (simp add: hash_get_def hash_finder_def hash_pairs_def table_map_def)
  show ?thesis
    using hash_remove_refines [OF demo_keys(11), of 2 demo_strings "HMap [(5, 1), (0x100, 2)]" "0x140" "0x100"]
      demo_keys demo_apart f
    by (auto simp: good_key_def key_rel_def hash_keys_def hash_pairs_def)
qed

text \<open>Any two plain objects are the same hash key, although they are not equal: the keys of a
  table are told apart by their hash only, where it differs.\<close>

theorem plain_objects_one_key:
  assumes "x \<noteq> y" "\<not> is_packed_value x" "\<not> is_packed_value y"
    and "kind (m x) = Ordinary" "kind (m y) = Ordinary"
  shows "hash_key_eq L m (Suc fuel) x y = Inr True \<and> value_eq L m (Suc fuel) x y = Inr False"
  using assms
  by (simp add: key_kind_eq_def derived_eq_def as_rvalue_def kind_eq_def other_kind_def)

theorem plain_objects_one_key_witness:
  "hash_key_eq demo_lookups (\<lambda>_. rvalue_new 64 Ordinary) 1 128 192 = Inr True"
proof -
  have "(128 :: val) \<noteq> 192" "\<not> is_packed_value 128" "\<not> is_packed_value 192" by code_simp+
  then show ?thesis
    using plain_objects_one_key [of 128 192 "\<lambda>_. rvalue_new 64 Ordinary" demo_lookups 0]
    by (simp add: rvalue_new_def)
qed

text \<open>The derived equality of \<open>RString\<close> compares the variants: a text that is kept as \<open>Str\<close> is another
  key than the same text kept as \<open>SmallStr\<close>, although the two strings are equal.\<close>

theorem same_text_other_key:
  assumes "x \<noteq> y" "\<not> is_packed_value x" "\<not> is_packed_value y"
    and "kind (m x) = StringK (Str cs)" "kind (m y) = StringK (SmallStr cs)"
  shows "hash_key_eq L m (Suc fuel) x y = Inr False \<and> value_eq L m (Suc fuel) x y = Inr True"
  using assms by (simp add: key_kind_eq_def as_rvalue_def kind_eq_def rstring_bytes_def)

end
