(* ===== verification/ArithFacts.thy ===== *)
theory ArithFacts
  imports Hashes
begin

text \<open>
  What the operators of theory Arith compute: exact sums and differences of packed integers, a
  product modulo \<open>2 ^ 64\<close>, a quotient rounded towards zero; the immediate forms of the
  instructions agree with the general ones; the laws of equality and comparison.
\<close>

section \<open>Packed integers\<close>

definition fixnum :: "i64 \<Rightarrow> val" where
  "fixnum i = push_bit 1 i OR 1"

lemma fixnum_facts:
  assumes "fits_fixnum i"
  shows "is_packed_fixnum (fixnum i)" "is_packed_num (fixnum i)" "is_packed_value (fixnum i)"
    "as_packed_fixnum (fixnum i) = i" "unpack m (fixnum i) = Inr (IntegerV i)"
proof -
  show f: "is_packed_fixnum (fixnum i)" unfolding fixnum_def by (rule fixnum_tag)
  then show "is_packed_num (fixnum i)" "is_packed_value (fixnum i)"
    using fixnum_num num_packed by blast+
  show v: "as_packed_fixnum (fixnum i) = i"
    unfolding fixnum_def using assms by (intro fixnum_shift) (simp add: fits_fixnum_bits)
  show "unpack m (fixnum i) = Inr (IntegerV i)" using unpack_fixnum [OF f] v by simp
qed

lemma int_value_fixnum:
  fixes E :: "'m henv"
  shows "fits_fixnum i \<Longrightarrow> int_value E i = ret (fixnum i)"
proof
  fix h :: "'m hs"
  assume "fits_fixnum i"
  then have "(drop_bit 62 i XOR drop_bit 63 i) AND 1 = 0"
    unfolding top_bits fits_fixnum_bits .
  then have "integer (e_classes E) alloc h i = Inr (h, fixnum i)"
    using fixnum_tag(2) [of i] by (simp only: integer_def Let_def fixnum_def
        value_from_def if_True if_False rbind_simps simp_thms)
  then show "int_value E i h = ret (fixnum i) h" by (simp add: int_value_def)
qed

lemma int_value_unpack:
  "heap_ok h \<Longrightarrow> int_value E i h = (h', Inr v) \<Longrightarrow> unpack (mem h') v = Inr (IntegerV i)"
  unfolding int_value_def steps_ok_iff by (rule store.integer_unpack)

lemma unpack_val_fixnum: "fits_fixnum i \<Longrightarrow> unpack_val (fixnum i) = ret (IntegerV i)"
  by (simp add: unpack_val_def fixnum_facts fun_eq_iff)

lemma unpack2_fixnum:
  "fits_fixnum i \<Longrightarrow> unpack2 v (fixnum i) = bind (unpack_val v) (\<lambda>l. ret (l, IntegerV i))"
  by (simp only: unpack2_def unpack_val_fixnum bind_ret)

lemma asks_ret [simp]: "asks (\<lambda>_. Inr x) = ret x"
  by (simp add: fun_eq_iff)

lemma asks_raise [simp]: "asks (\<lambda>_. Inl e) = raise e"
  by (simp add: fun_eq_iff)

lemma sint_scast: "sint (scast (i :: i32) :: i64) = sint i"
  by (simp add: signed_scast_eq signed_take_bit_int_eq_self_iff
      order.trans [OF _ sint_ge [of i]] less_le_trans [OF sint_lt [of i]])

lemma i32_fits: "fits_fixnum (scast (i :: i32))"
proof -
  have "sint (scast i :: i64) = sint i" by (rule sint_scast)
  then show ?thesis using sint_ge [of i] sint_lt [of i] by (simp add: fits_fixnum_def)
qed

lemma eval_op_fixnums:
  assumes "fits_fixnum a" "fits_fixnum b"
  shows "eval_op E iop fop method (fixnum b) (fixnum a) = bind (asks (\<lambda>_. iop a b)) (int_value E)"
  using assms by (simp add: eval_op_def fixnum_facts)

lemma fixnum_sum:
  assumes "fits_fixnum a" "fits_fixnum b"
  shows "sint (a + b) = sint a + sint b" "sint (a - b) = sint a - sint b"
proof -
  have "sint (word_of_int k :: i64) = k" if "- (2 ^ 63) \<le> k" "k < 2 ^ 63" for k
    using that by (intro sint_of_int_small) (simp_all add: i64_min_def i64_max_def)
  from this [of "sint a + sint b"] this [of "sint a - sint b"] assms
  show "sint (a + b) = sint a + sint b" "sint (a - b) = sint a - sint b"
    by (simp_all add: fits_fixnum_def)
qed

lemma fixnum_quotient:
  assumes "fits_fixnum a" "fits_fixnum b" "b \<noteq> 0"
  shows "i64_div a b = Inr (word_of_int (sint a sdiv sint b))"
    "sint (word_of_int (sint a sdiv sint b) :: i64) = sint a sdiv sint b"
proof -
  have "\<not> sint a = i64_min" using assms(1) by (simp add: fits_fixnum_def i64_min_def)
  then show "i64_div a b = Inr (word_of_int (sint a sdiv sint b))"
    using assms(3) by (simp add: i64_div_def)
  have nz: "sint b \<noteq> 0" using assms(3) by (simp add: signed_eq_0_iff)
  have "\<bar>sint a sdiv sint b\<bar> \<le> \<bar>sint a\<bar> div \<bar>sint b\<bar>"
    unfolding signed_divide_int_def
    by (simp add: abs_mult abs_sgn_eq pos_imp_zdiv_nonneg_iff nz)
  also have "\<dots> \<le> \<bar>sint a\<bar> div 1" using nz by (intro zdiv_mono2) auto
  finally have "\<bar>sint a sdiv sint b\<bar> \<le> \<bar>sint a\<bar>" by simp
  then show "sint (word_of_int (sint a sdiv sint b) :: i64) = sint a sdiv sint b"
    using assms(1) by (intro sint_of_int_small) (auto simp: fits_fixnum_def i64_min_def i64_max_def)
qed

section \<open>The immediate forms\<close>

lemma f64_of_i32: "f64_of_i64 (scast (i :: i32)) = f64_of_int (sint i)"
  by (simp add: f64_of_i64_def sint_scast)

lemma to_bool_fixnum: "fits_fixnum i \<Longrightarrow> to_bool (fixnum i)"
proof -
  assume "fits_fixnum i"
  then have "is_packed_fixnum (fixnum i)" by (rule fixnum_facts)
  then show ?thesis
    by (auto simp: to_bool_def is_nil_def is_false_val_def is_uninitialized_def is_packed_fixnum_def
        tag_defs)
qed

lemmas i32_fixnum =
  fixnum_facts [OF i32_fits] int_value_fixnum [OF i32_fits] to_bool_fixnum [OF i32_fits]
  unpack_val_fixnum [OF i32_fits] unpack2_fixnum [OF i32_fits]

lemma bind_cong: "(\<And>x. f x = g x) \<Longrightarrow> bind m f = bind m g"
  by (simp add: bind_def fun_eq_iff split: prod.splits sum.splits)

lemma eval_op_i_eq:
  "eval_op_i E iop fop method lhs i = eval_op E iop fop method (fixnum (scast i)) lhs"
  by (simp add: eval_op_i_def eval_op_def i32_fixnum f64_of_i32)

lemma eval_cmp_i_eq:
  "eval_cmp_i E p method lhs i = eval_cmp E p method (fixnum (scast i)) lhs"
  unfolding eval_cmp_i_def eval_cmp_def i32_fixnum
  by (auto simp: i32_fixnum f64_of_i32 Let_def bind_assoc split: rv.splits intro!: bind_cong)

lemma eval_bitandi_eq: "eval_bitandi E lhs i = eval_bitand E (fixnum (scast i)) lhs"
  unfolding eval_bitandi_def eval_bitand_def i32_fixnum
  by (auto simp: i32_fixnum Let_def bind_assoc bool_value_def split: rv.splits intro!: bind_cong)

lemma eval_bitori_eq: "eval_bitori E lhs i = eval_bitor E (fixnum (scast i)) lhs"
  unfolding eval_bitori_def eval_bitor_def i32_fixnum
  by (auto simp: i32_fixnum Let_def bind_assoc bool_value_def split: rv.splits intro!: bind_cong)

section \<open>Properties\<close>

text \<open>C26. Addition and subtraction of packed integers are exact: the result, boxed when it needs 63 bits
  or more, unpacks to the mathematical sum or difference.\<close>

theorem add_sub_exact:
  assumes "heap_ok h" "fits_fixnum a" "fits_fixnum b"
    "eval_add E (fixnum b) (fixnum a) h = (h1, Inr v1)"
    "eval_sub E (fixnum b) (fixnum a) h = (h2, Inr v2)"
  shows "\<exists>r s. unpack (mem h1) v1 = Inr (IntegerV r) \<and> sint r = sint a + sint b \<and>
    unpack (mem h2) v2 = Inr (IntegerV s) \<and> sint s = sint a - sint b"
  using assms fixnum_sum [OF assms(2,3)] int_value_unpack [OF assms(1), of E "a + b"]
    int_value_unpack [OF assms(1), of E "a - b"]
  by (simp add: eval_add_def eval_sub_def eval_op_fixnums)

definition demo_env :: "'s env" where
  "demo_env =
     \<lparr>e_classes = demo_classes, e_id = \<lambda>_. 0, e_name = \<lambda>_. [], e_find_method = \<lambda>_ _. ret None,
      e_eval_method = \<lambda>_ _ _. raise Panic,
      e_rem_floor = \<lambda>a b. if b = 0 then Inl Panic else Inr (word_of_int (sint a mod sint b)),
      e_powf = \<lambda>x _. x, e_find_one = \<lambda>_ _. ret False, e_index = demo_lookups\<rparr>"

lemma demo_int_value: "\<exists>h' v. int_value demo_env i demo_heap = (h', Inr v)"
proof -
  have "\<exists>h' v. rvalue_pack alloc demo_heap r = Inr (h', v)" for r
    using demo_alloc [of r] store.pack_total [OF demo_heap_ok]
    by (cases "alloc demo_heap r") auto
  moreover have "push_bit 1 i OR 1 \<noteq> 0" by (rule fixnum_tag)
  ultimately show ?thesis
    unfolding int_value_def steps_ok_iff integer_def Let_def value_from_def
    by (cases "(drop_bit 62 i XOR drop_bit 63 i) AND 1 = 0") (simp_all only: if_True if_False rbind_simps, auto)
qed

lemma demo_fits: "fits_fixnum 0x3fffffffffffffff" "fits_fixnum 1" "fits_fixnum 7" "fits_fixnum (- 7)"
    "fits_fixnum 2" "fits_fixnum 0" "fits_fixnum 0x100000000"
  by code_simp+

theorem add_sub_exact_witness:
  "\<exists>h' v r. eval_add demo_env (fixnum 0x3fffffffffffffff) (fixnum 1) demo_heap = (h', Inr v) \<and>
     unpack (mem h') v = Inr (IntegerV r) \<and> sint r = 2 ^ 62"
proof -
  obtain h1 v1 h2 v2 where
    r: "eval_add demo_env (fixnum 0x3fffffffffffffff) (fixnum 1) demo_heap = (h1, Inr v1)"
      "eval_sub demo_env (fixnum 0x3fffffffffffffff) (fixnum 1) demo_heap = (h2, Inr v2)"
    using demo_int_value by (auto simp: eval_add_def eval_sub_def eval_op_fixnums demo_fits) metis
  have "sint (1 :: i64) + sint (0x3fffffffffffffff :: i64) = 2 ^ 62" by code_simp
  with add_sub_exact [OF demo_heap_ok demo_fits(2,1) r] r(1) show ?thesis by auto
qed

text \<open>C30. Multiplication of packed integers wraps: the result is the product modulo \<open>2 ^ 64\<close>, which is
  the product when it fits 64 bits and a different number otherwise (Ruby would promote it).\<close>

theorem mul_wraps:
  assumes "heap_ok h" "fits_fixnum a" "fits_fixnum b"
    "eval_mul E (fixnum b) (fixnum a) h = (h', Inr v)"
  shows "\<exists>r. unpack (mem h') v = Inr (IntegerV r) \<and>
    sint r mod 2 ^ 64 = (sint a * sint b) mod 2 ^ 64 \<and>
    (sint r = sint a * sint b \<longleftrightarrow> - (2 ^ 63) \<le> sint a * sint b \<and> sint a * sint b < 2 ^ 63)"
proof -
  have "unpack (mem h') v = Inr (IntegerV (a * b))"
    using assms(2-4) int_value_unpack [OF assms(1), of E "a * b"]
    by (simp add: eval_mul_def eval_op_fixnums)
  moreover have w: "a * b = word_of_int (sint a * sint b)" by simp
  then have s: "sint (a * b) = signed_take_bit 63 (sint a * sint b)"
    by (simp only: signed_of_int) simp
  have "take_bit 64 (sint (a * b)) = take_bit 64 (sint a * sint b)"
    unfolding s by (rule take_bit_signed_take_bit) simp
  then have "sint (a * b) mod 2 ^ 64 = (sint a * sint b) mod 2 ^ 64"
    by (simp only: take_bit_eq_mod)
  moreover have "sint (a * b) = sint a * sint b \<longleftrightarrow>
      - (2 ^ 63) \<le> sint a * sint b \<and> sint a * sint b < 2 ^ 63"
    unfolding s by (simp add: signed_take_bit_int_eq_self_iff)
  ultimately show ?thesis by blast
qed

theorem mul_wraps_witness:
  "\<exists>h' v r. eval_mul demo_env (fixnum 0x100000000) (fixnum 0x100000000) demo_heap = (h', Inr v) \<and>
     unpack (mem h') v = Inr (IntegerV r) \<and> sint r \<noteq> 2 ^ 64"
proof -
  obtain h' v where
    r: "eval_mul demo_env (fixnum 0x100000000) (fixnum 0x100000000) demo_heap = (h', Inr v)"
    using demo_int_value [of "0x100000000 * 0x100000000"]
    by (auto simp only: eval_mul_def eval_op_fixnums [OF demo_fits(7,7)] asks_ret bind_ret)
  have "sint (0x100000000 :: i64) * sint (0x100000000 :: i64) = 2 ^ 64" by code_simp
  with mul_wraps [OF demo_heap_ok demo_fits(7,7) r] r show ?thesis by auto
qed

text \<open>C31. Integer division rounds towards zero (Ruby's rounds down), and dividing by zero raises
  \<open>ZeroDivisionError\<close>.\<close>

theorem div_truncates:
  assumes "fits_fixnum a" "fits_fixnum b"
  shows "eval_div E (fixnum b) (fixnum a) =
    (if b = 0 then raise (Raise (RuntimeErr ZeroDivision))
     else int_value E (word_of_int (sint a sdiv sint b)))"
  using assms fixnum_quotient(1) [OF assms]
  by (simp add: eval_div_def is_zero_def fixnum_facts eval_op_fixnums fun_eq_iff bind_def)

theorem div_truncates_witness:
  "eval_div demo_env (fixnum 2) (fixnum (- 7)) demo_heap = (demo_heap, Inr (fixnum (- 3))) \<and>
   eval_div demo_env (fixnum 0) (fixnum 7) demo_heap =
     (demo_heap, Inl (Raise (RuntimeErr ZeroDivision)))"
proof -
  have "word_of_int (sint (- 7 :: i64) sdiv sint (2 :: i64)) = (- 3 :: i64)" "fits_fixnum (- 3)"
    by code_simp+
  with div_truncates [OF demo_fits(4,5), of "demo_env :: heap env"]
    div_truncates [OF demo_fits(3,6), of "demo_env :: heap env"]
  show ?thesis by (simp add: int_value_fixnum)
qed

text \<open>C35. The immediate forms of the instructions compute what the general forms do on the packed
  operand: addition, subtraction, the four comparisons, \<open>&\<close> and \<open>|\<close>.\<close>

theorem immediate_forms:
  "eval_addi E lhs i = eval_add E (fixnum (scast i)) lhs \<and>
   eval_subi E lhs i = eval_sub E (fixnum (scast i)) lhs \<and>
   eval_gti E lhs i = eval_gt E (fixnum (scast i)) lhs \<and>
   eval_gei E lhs i = eval_ge E (fixnum (scast i)) lhs \<and>
   eval_lti E lhs i = eval_lt E (fixnum (scast i)) lhs \<and>
   eval_lei E lhs i = eval_le E (fixnum (scast i)) lhs \<and>
   eval_bitandi E lhs i = eval_bitand E (fixnum (scast i)) lhs \<and>
   eval_bitori E lhs i = eval_bitor E (fixnum (scast i)) lhs"
  by (simp add: eval_addi_def eval_add_def eval_subi_def eval_sub_def eval_gti_def eval_gt_def
      eval_gei_def eval_ge_def eval_lti_def eval_lt_def eval_lei_def eval_le_def
      eval_op_i_eq eval_cmp_i_eq eval_bitandi_eq eval_bitori_eq)

lemma fixnum_inj: "fits_fixnum a \<Longrightarrow> fits_fixnum b \<Longrightarrow> fixnum a = fixnum b \<longleftrightarrow> a = b"
  by (metis fixnum_facts(4))

text \<open>On packed integers exactly one of \<open><\<close>, \<open>==\<close> and \<open>>\<close> holds, as for the numbers they stand
  for, and \<open><=>\<close> agrees with them.\<close>

theorem fixnum_order:
  assumes "fits_fixnum a" "fits_fixnum b"
  shows "eval_lt E (fixnum b) (fixnum a) = ret (sint a < sint b) \<and>
    eval_gt E (fixnum b) (fixnum a) = ret (sint b < sint a) \<and>
    eval_eq E n (fixnum b) (fixnum a) = ret (sint a = sint b) \<and>
    eval_compare E (fixnum b) (fixnum a) = ret (fixnum (word_of_int (sgn (sint a - sint b))))"
proof -
  have s: "fits_fixnum 0" "fits_fixnum 1" "fits_fixnum (- 1)" by code_simp+
  have "sint a = sint b \<longleftrightarrow> a = b" by (rule signed_word_eqI [THEN iffI]) auto
  with assms fixnum_inj [OF assms] s show ?thesis
    by (auto simp: eval_lt_def eval_gt_def eval_cmp_def eval_eq_def eval_compare_def fixnum_facts
        fun_eq_iff unpack_val_fixnum
        ord_lt_def ord_gt_def i64_cmp_def int_cmp_def Let_def packed_eq_def ordering_value_def
        ordering_int_def int_value_fixnum sgn_if)
qed

theorem fixnum_order_witness:
  "eval_compare demo_env (fixnum 7) (fixnum (- 7)) demo_heap = (demo_heap, Inr (fixnum (- 1)))"
proof -
  have "word_of_int (sgn (sint (- 7 :: i64) - sint (7 :: i64))) = (- 1 :: i64)" by code_simp
  with fixnum_order [OF demo_fits(4,3), of "demo_env :: heap env" 0] show ?thesis by simp
qed

text \<open>Equality loses the numeric comparison when only one side is boxed: a boxed integer never
  equals a packed float, so \<open>4611686018427387904 == 4611686018427387904.0\<close> is false although the
  float is exactly that integer.\<close>

theorem boxed_integer_ne_packed_float:
  assumes "kind (m a) = Integer i" "\<not> is_packed_value a" "is_packed_flonum x"
  shows "value_eq L m (Suc n) a x = Inr False"
proof -
  have "is_packed_num x" using assms(3) by (simp add: is_packed_flonum_def is_packed_num_def)
  then have "is_packed_value x" by (rule num_packed)
  with assms(2) num_packed [of a] show ?thesis by (auto simp: packed_eq_def)
qed

theorem boxed_integer_ne_packed_float_witness:
  "value_eq demo_lookups (\<lambda>_. rvalue_new nil_value (Integer 0x4000000000000000)) 1 0x40000 0x1e80000000000002 = Inr False \<and>
   f64_eq (f64_of_i64 0x4000000000000000) (as_packed_flonum 0x1e80000000000002)"
proof -
  have "\<not> is_packed_value 0x40000" "is_packed_flonum 0x1e80000000000002"
      "f64_eq (f64_of_i64 0x4000000000000000) (as_packed_flonum 0x1e80000000000002)"
    by code_simp+
  with boxed_integer_ne_packed_float [of "\<lambda>_. rvalue_new nil_value (Integer 0x4000000000000000)"
      "0x40000" "0x4000000000000000" "0x1e80000000000002" demo_lookups 0]
  show ?thesis by (simp add: rvalue_new_def)
qed

end
