(* ===== verification/EqualityFacts.thy ===== *)
theory EqualityFacts
  imports ArithFacts
begin

text \<open>
  What the equality of values answers: the same in both directions, and the same at every depth that
  is enough, also for structures that contain hash tables with plain keys.
\<close>

section \<open>Agreement\<close>

text \<open>Two computations that, when both return, return the same.\<close>

definition concur :: "'a res \<Rightarrow> 'a res \<Rightarrow> bool" where
  "concur p q \<longleftrightarrow> (\<forall>a b. p = Inr a \<longrightarrow> q = Inr b \<longrightarrow> a = b)"

lemma concur_simps [simp]: "concur (Inr a) (Inr b) \<longleftrightarrow> a = b" "concur (Inl e) q" "concur p (Inl e)"
  by (simp_all add: concur_def)

lemma concur_refl [simp]: "concur p p"
  by (auto simp: concur_def)

lemma and_eq_agree: "concur a c \<Longrightarrow> concur b d \<Longrightarrow> concur (and_eq a b) (and_eq c d)"
  by (auto simp: concur_def and_eq_def rbind_Inr_iff split: if_splits)

lemma all_eq_agree:
  assumes "\<And>x y. concur (eq x y) (eq y x)"
  shows "length xs = length ys \<Longrightarrow> concur (all_eq eq xs ys) (all_eq eq ys xs)"
proof (induction xs ys rule: list_induct2)
  case (Cons x xs y ys)
  have "all_eq eq (x # xs) (y # ys) = and_eq (eq x y) (all_eq eq xs ys)" for x y xs ys
    by (simp add: and_eq_def)
  with and_eq_agree [OF assms Cons.IH] show ?case by simp
qed simp

lemma vec_eq_agree: "(\<And>x y. concur (eq x y) (eq y x)) \<Longrightarrow> concur (vec_eq eq xs ys) (vec_eq eq ys xs)"
  using all_eq_agree [of eq xs ys] by (auto simp: vec_eq_def)

lemma packed_eq_sym: "packed_eq x y = packed_eq y x"
  by (auto simp: packed_eq_def f64_eq_sym)

text \<open>More fuel does not change an answer.\<close>

definition below :: "'a res \<Rightarrow> 'a res \<Rightarrow> bool" where
  "below p q \<longleftrightarrow> (\<forall>a. p = Inr a \<longrightarrow> q = Inr a)"

lemma below_res_simps [simp]: "below p p" "below (Inl e) q" "below (Inr a) q \<longleftrightarrow> q = Inr a"
  by (auto simp: below_def)

lemma and_eq_below: "below a c \<Longrightarrow> below b d \<Longrightarrow> below (and_eq a b) (and_eq c d)"
  by (auto simp: below_def and_eq_def rbind_Inr_iff split: if_splits)

lemma all_eq_below:
  assumes "\<And>x y. below (eq x y) (eq' x y)"
  shows "below (all_eq eq xs ys) (all_eq eq' xs ys)"
proof (induction xs ys rule: list_induct2')
  case (4 x xs y ys)
  have "all_eq f (x # xs) (y # ys) = and_eq (f x y) (all_eq f xs ys)" for f
    by (simp add: and_eq_def)
  with and_eq_below [OF assms 4] show ?case by simp
qed simp_all

lemma vec_eq_below: "(\<And>x y. below (eq x y) (eq' x y)) \<Longrightarrow> below (vec_eq eq xs ys) (vec_eq eq' xs ys)"
  using all_eq_below [of eq eq'] by (auto simp: vec_eq_def)

lemma all_res_below:
  "(\<And>x. x \<in> set xs \<Longrightarrow> below (p x) (q x)) \<Longrightarrow> below (all_res p xs) (all_res q xs)"
proof (induction xs)
  case (Cons x xs)
  have "all_res f (x # xs) = and_eq (f x) (all_res f xs)" for f :: "'a \<Rightarrow> bool res"
    by (simp add: and_eq_def)
  with and_eq_below [OF Cons.prems [of x]] Cons.IH Cons.prems show ?case by simp
qed simp

lemma all_res_True: "all_res p xs = Inr True \<longleftrightarrow> (\<forall>x \<in> set xs. p x = Inr True)"
  by (induction xs) (auto simp: rbind_Inr_iff)

lemma all_res_False: "all_res p xs = Inr False \<Longrightarrow> \<exists>x \<in> set xs. p x = Inr False"
  by (induction xs) (auto simp: rbind_Inr_iff split: if_splits)

text \<open>The arms of the match on the kinds.\<close>

definition arm_agree :: "bool res option \<Rightarrow> bool res option \<Rightarrow> bool" where
  "arm_agree p q \<longleftrightarrow> (p = None \<longleftrightarrow> q = None) \<and> (\<forall>a b. p = Some a \<longrightarrow> q = Some b \<longrightarrow> concur a b)"

lemma kind_eq_agree:
  assumes "\<And>x y. concur (eq x y) (eq y x)" "\<And>a b. k = Hash a \<Longrightarrow> l = Hash b \<Longrightarrow> concur (heq a b) (heq b a)"
  shows "arm_agree (kind_eq heq eq k l) (kind_eq heq eq l k)"
proof -
  have v: "concur (vec_eq eq xs ys) (vec_eq eq ys xs)" for xs ys using assms(1) by (rule vec_eq_agree)
  have a2: "concur (and_eq (eq p q) (eq r s)) (and_eq (eq q p) (eq s r))" for p q r s
    by (intro and_eq_agree assms(1))
  have a3: "concur (and_eq (and_eq (eq p q) (eq r s)) t) (and_eq (and_eq (eq q p) (eq s r)) t)"
    for p q r s t
    by (intro and_eq_agree assms(1)) auto
  show ?thesis
    using assms(2) unfolding kind_eq_def arm_agree_def
    by (cases k; cases l; simp add: other_kind_def v a2 a3 f64_eq_sym eq_commute)
qed

definition arm_below :: "bool res option \<Rightarrow> bool res option \<Rightarrow> bool" where
  "arm_below p q \<longleftrightarrow> (p = None \<longleftrightarrow> q = None) \<and> (\<forall>a b. p = Some a \<longrightarrow> q = Some b \<longrightarrow> below a b)"

lemma kind_eq_below:
  assumes "\<And>x y. below (eq x y) (eq' x y)" "\<And>a b. k = Hash a \<Longrightarrow> l = Hash b \<Longrightarrow> below (heq a b) (heq' a b)"
  shows "arm_below (kind_eq heq eq k l) (kind_eq heq' eq' k l)"
proof -
  have v: "below (vec_eq eq xs ys) (vec_eq eq' xs ys)" for xs ys using assms(1) by (rule vec_eq_below)
  have a2: "below (and_eq (eq p q) (eq r s)) (and_eq (eq' p q) (eq' r s))" for p q r s
    by (intro and_eq_below assms(1))
  have a3: "below (and_eq (and_eq (eq p q) (eq r s)) t) (and_eq (and_eq (eq' p q) (eq' r s)) t)" for p q r s t
    by (intro and_eq_below assms(1)) auto
  show ?thesis
    using assms(2) unfolding kind_eq_def arm_below_def
    by (cases k; cases l; simp add: other_kind_def v a2 a3)
qed

section \<open>Tables with plain keys\<close>

text \<open>The tables of a memory: none by identity, plain keys only, no two of them the same.\<close>

definition plain_tables :: "memory \<Rightarrow> bool" where
  "plain_tables m \<longleftrightarrow>
     (\<forall>a h. kind (m a) = Hash h \<longrightarrow>
        (\<exists>t. h = HMap t \<and> list_all (plain_key m) (map fst t) \<and> keys_apart (same_key m) t))"

lemma entry_in_plain:
  assumes "index_contract (map_index L)" "plain_key m k" "list_all (plain_key m) (map fst u)"
    "entry_in (key_finder L m n) eq u (k, v) = Inr b"
  shows "(\<exists>j < length u. same_key m (fst (u ! j)) k \<and> eq v (snd (u ! j)) = Inr b) \<or>
    (\<forall>j < length u. \<not> same_key m (fst (u ! j)) k) \<and> \<not> b"
proof -
  obtain r where r: "key_finder L m n (map fst u) k = Inr r"
    "(case r of None \<Rightarrow> Inr False | Some i \<Rightarrow> eq v (snd (u ! i))) = Inr b"
    using assms(4) by (auto simp: entry_in_def rbind_Inr_iff)
  note f = finder_right [OF assms(1-3), of n]
  show ?thesis
  proof (cases r)
    case None
    with f(2) r(1) have "\<not> same_key m (fst (u ! j)) k" if "j < length u" for j using that by simp
    then show ?thesis using r(2) None by simp
  next
    case (Some i)
    then show ?thesis using f(1) [of i] r by auto
  qed
qed

text \<open>In tables of the same size, a key of the one for every key of the other is one for one.\<close>

lemma matching_onto:
  assumes "length t = length u" "keys_apart (same_key m) t"
    and "\<And>i. i < length t \<Longrightarrow> \<exists>j < length u. same_key m (fst (u ! j)) (fst (t ! i))"
    and "j < length u"
  shows "\<exists>i < length t. same_key m (fst (u ! j)) (fst (t ! i))"
proof -
  obtain f where f: "\<And>i. i < length t \<Longrightarrow> f i < length u \<and> same_key m (fst (u ! f i)) (fst (t ! i))"
    using assms(3) by metis
  have "inj_on f {..< length t}"
  proof (rule inj_onI)
    fix i i' assume i: "i \<in> {..< length t}" "i' \<in> {..< length t}" "f i = f i'"
    have "same_key m (fst (t ! i)) (fst (u ! f i))" using f [of i] i(1) same_key_sym by simp
    moreover have "same_key m (fst (u ! f i)) (fst (t ! i'))" using f [of i'] i(2,3) by simp
    ultimately have "same_key m (fst (t ! i)) (fst (t ! i'))" by (rule same_key_trans)
    then show "i = i'" using keys_apartD [OF assms(2)] i(1,2) by simp
  qed
  moreover have "f ` {..< length t} \<subseteq> {..< length t}" using f assms(1) by auto
  ultimately have "f ` {..< length t} = {..< length t}" by (simp add: endo_inj_surj)
  then have "j \<in> f ` {..< length t}" using assms(1,4) by auto
  then show ?thesis using f by auto
qed

lemma map_eq_agree:
  assumes ix: "index_contract (map_index L)" and eq: "\<And>x y. concur (eq x y) (eq y x)"
    and t: "list_all (plain_key m) (map fst t)" "keys_apart (same_key m) t"
    and u: "list_all (plain_key m) (map fst u)" "keys_apart (same_key m) u"
    and r: "map_eq (key_finder L m n) eq t u = Inr True" "map_eq (key_finder L m n) eq u t = Inr b"
  shows b
proof (rule ccontr)
  assume nb: "\<not> b"
  have len: "length t = length u" using r(1) by (simp add: map_eq_def split: if_splits)
  let ?E = "entry_in (key_finder L m n) eq"
  have all: "?E u e = Inr True" if "e \<in> set t" for e
    using r(1) len that by (simp add: map_eq_def all_res_True)
  have pt: "plain_key m (fst (t ! i))" if "i < length t" for i using t(1) that by (simp add: list_all_length)
  have pu: "plain_key m (fst (u ! i))" if "i < length u" for i using u(1) that by (simp add: list_all_length)
  have fwd: "\<exists>j < length u. same_key m (fst (u ! j)) (fst (t ! i)) \<and> eq (snd (t ! i)) (snd (u ! j)) = Inr True"
    if "i < length t" for i
    using entry_in_plain [OF ix pt [OF that] u(1), of n eq "snd (t ! i)" True] all [OF nth_mem [OF that]] by simp
  have "all_res (?E t) u = Inr False" using r(2) len nb by (simp add: map_eq_def)
  from all_res_False [OF this] obtain j where j: "j < length u" "?E t (u ! j) = Inr False"
    by (auto simp: in_set_conv_nth)
  obtain i where i: "i < length t" "same_key m (fst (u ! j)) (fst (t ! i))"
    using matching_onto [OF len t(2) _ j(1)] fwd by blast
  obtain j' where j': "j' < length u" "same_key m (fst (u ! j')) (fst (t ! i))"
    "eq (snd (t ! i)) (snd (u ! j')) = Inr True" using fwd [OF i(1)] by blast
  have "j' = j"
    using keys_apartD [OF u(2) j'(1) j(1)] same_key_trans [OF j'(2) same_key_sym [OF i(2)]] by simp
  have "?E t (fst (u ! j), snd (u ! j)) = Inr False" using j(2) by simp
  from entry_in_plain [OF ix pu [OF j(1)] t(1) this] obtain i' where
    i': "i' < length t" "same_key m (fst (t ! i')) (fst (u ! j))" "eq (snd (u ! j)) (snd (t ! i')) = Inr False"
    using i same_key_sym by blast
  have "i' = i" using keys_apartD [OF t(2) i'(1) i(1)] same_key_trans [OF i'(2) i(2)] by simp
  with i'(3) j'(3) \<open>j' = j\<close> eq [of "snd (t ! i)" "snd (u ! j)"] show False by simp
qed

lemma table_eq_map: "table_eq L m n (HMap t) (HMap u) = map_eq (key_finder L m n) (value_eq L m n) t u"
  by (simp add: table_eq_def hash_info_eq_def key_finder_def)

lemma map_eq_below:
  assumes ix: "index_contract (map_index L)" and eq: "\<And>x y. below (eq x y) (eq' x y)"
    and t: "list_all (plain_key m) (map fst t)"
    and u: "list_all (plain_key m) (map fst u)" "keys_apart (same_key m) u"
  shows "below (map_eq (key_finder L m n) eq t u) (map_eq (key_finder L m (Suc n)) eq' t u)"
proof -
  have "below (entry_in (key_finder L m n) eq u e) (entry_in (key_finder L m (Suc n)) eq' u e)"
    if e: "e \<in> set t" for e
  proof -
    obtain k v where kv: "e = (k, v)" by (cases e)
    have k: "plain_key m k" using t e kv by (auto simp: list_all_iff)
    let ?F = "\<lambda>n. key_finder L m n (map fst u) k"
    show ?thesis
    proof (cases "?F n")
      case (Inl a)
      then show ?thesis by (simp add: kv entry_in_def)
    next
      case (Inr r)
      note f = finder_right [OF ix k u(1)] and c = index_contractD [OF ix]
      have "map fst u = [] \<and> 1 \<le> Suc n \<or> \<not> is_packed_value k \<and> 1 \<le> Suc n \<or> 2 \<le> Suc n"
      proof (cases n)
        case 0
        have no: "\<not> is_ok (hash_key_eq L m 0 k x)" for x by simp
        have "is_packed_value k \<Longrightarrow> \<not> is_ok (key_feed m 0 k)" by (simp add: key_feed_def as_rvalue_def)
        moreover have "is_ok (key_feed m 0 k)" if "u \<noteq> []"
        proof (cases r)
          case None
          from c(2) [OF Inr [unfolded 0 None key_finder_def], of "fst (hd u)"] that show ?thesis by simp
        next
          case (Some i)
          from c(1) [OF Inr [unfolded 0 Some key_finder_def]] show ?thesis by simp
        qed
        ultimately show ?thesis by auto
      qed simp
      then obtain r' where r': "?F (Suc n) = Inr r'" by (rule finder_total [OF ix k u(1)])
      have "r' = r"
      proof (cases r; cases r')
        fix i j assume ij: "r = Some i" "r' = Some j"
        then have "i < length u" "same_key m (fst (u ! i)) k" "j < length u" "same_key m (fst (u ! j)) k"
          using f(1) [OF Inr [unfolded ij]] f(1) [OF r' [unfolded ij]] by auto
        then have "i = j" using keys_apartD [OF u(2)] same_key_trans same_key_sym by blast
        then show ?thesis by (simp add: ij)
      next
        fix i assume i: "r = Some i" "r' = None"
        with f(1) [OF Inr [unfolded i]] f(2) [OF r' [unfolded i], of "map fst u ! i"] show ?thesis by auto
      next
        fix i assume i: "r = None" "r' = Some i"
        with f(2) [OF Inr [unfolded i], of "map fst u ! i"] f(1) [OF r' [unfolded i]] show ?thesis by auto
      qed simp
      then show ?thesis using Inr r' eq by (simp add: kv entry_in_def split: option.split)
    qed
  qed
  then show ?thesis by (auto simp: map_eq_def intro: all_res_below)
qed

section \<open>Values\<close>

lemma value_eq_agree:
  assumes ix: "index_contract (map_index L)" and m: "plain_tables m"
  shows "concur (value_eq L m n x y) (value_eq L m n y x)"
proof (induction n arbitrary: x y)
  case (Suc n)
  have "concur (table_eq L m n a b) (table_eq L m n b a)" if h: "kind (m x) = Hash a" "kind (m y) = Hash b" for a b
  proof -
    obtain t u where t: "a = HMap t" "list_all (plain_key m) (map fst t)" "keys_apart (same_key m) t"
      and u: "b = HMap u" "list_all (plain_key m) (map fst u)" "keys_apart (same_key m) u"
      using m h unfolding plain_tables_def by metis
    show ?thesis unfolding t(1) u(1) table_eq_map concur_def
    proof (intro allI impI)
      fix p q
      assume p: "map_eq (key_finder L m n) (value_eq L m n) t u = Inr p"
        and q: "map_eq (key_finder L m n) (value_eq L m n) u t = Inr q"
      have "p \<Longrightarrow> q" using map_eq_agree [OF ix Suc.IH t(2,3) u(2,3) _ q] p by simp
      moreover have "q \<Longrightarrow> p" using map_eq_agree [OF ix Suc.IH u(2,3) t(2,3) _ p] q by simp
      ultimately show "p = q" by blast
    qed
  qed
  note k = kind_eq_agree [of "value_eq L m n" "kind (m x)" "kind (m y)" "table_eq L m n", OF Suc.IH this]
  show ?case
    using k packed_eq_sym [of x y] unfolding arm_agree_def value_eq_Suc
    by (auto simp: eq_commute split: option.split)
qed simp

lemma value_eq_below:
  assumes ix: "index_contract (map_index L)" and m: "plain_tables m"
  shows "below (value_eq L m n x y) (value_eq L m (Suc n) x y)"
proof (induction n arbitrary: x y)
  case (Suc n)
  have "below (table_eq L m n a b) (table_eq L m (Suc n) a b)" if h: "kind (m x) = Hash a" "kind (m y) = Hash b" for a b
  proof -
    obtain t u where t: "a = HMap t" "list_all (plain_key m) (map fst t)"
      and u: "b = HMap u" "list_all (plain_key m) (map fst u)" "keys_apart (same_key m) u"
      using m h unfolding plain_tables_def by metis
    from map_eq_below [OF ix Suc.IH t(2) u(2,3)] show ?thesis unfolding t(1) u(1) table_eq_map .
  qed
  note k = kind_eq_below [of "value_eq L m n" "value_eq L m (Suc n)" "kind (m x)" "kind (m y)"
      "table_eq L m n" "table_eq L m (Suc n)", OF Suc.IH this]
  show ?case
    using k unfolding arm_below_def value_eq_Suc [of L m n] value_eq_Suc [of L m "Suc n"]
    by (auto split: option.split)
qed simp

lemma value_eq_more:
  assumes "index_contract (map_index L)" "plain_tables m" "value_eq L m n x y = Inr b" "n \<le> k"
  shows "value_eq L m k x y = Inr b"
  using assms(4)
proof (induction k rule: dec_induct)
  case (step k)
  then show ?case using value_eq_below [OF assms(1,2), of k x y] by (simp add: below_def)
qed (rule assms(3))

section \<open>Property\<close>

text \<open>C36. Equality of values is symmetric, and its answers do not depend on the depth explored: when
  \<open>x == y\<close> answers with one fuel, it answers the same with any larger one, and \<open>y == x\<close> answers nothing
  else with any fuel. The memory may have any objects, cyclic ones too; the hash tables in it have plain
  keys (integers, symbols, true, false, nil and strings), no two the same, and are not by identity, and
  their lookups behave as documented.\<close>

theorem value_eq_symmetric:
  assumes "index_contract (map_index L)" "plain_tables m" "value_eq L m n x y = Inr b"
  shows "(\<forall>k \<ge> n. value_eq L m k x y = Inr b) \<and> (\<forall>k c. value_eq L m k y x = Inr c \<longrightarrow> c = b)"
proof (intro conjI allI impI)
  show "value_eq L m k x y = Inr b" if "n \<le> k" for k by (rule value_eq_more [OF assms that])
  fix k c assume c: "value_eq L m k y x = Inr c"
  have "value_eq L m (max n k) x y = Inr b" "value_eq L m (max n k) y x = Inr c"
    by (rule value_eq_more [OF assms(1,2)], (rule assms(3) c), simp)+
  with value_eq_agree [OF assms(1,2), of "max n k" x y] show "c = b" by simp
qed

text \<open>Two tables, at \<open>0x200\<close> and \<open>0x240\<close>, whose keys are other objects with the same text.\<close>

definition demo_tables :: memory where
  "demo_tables =
     demo_strings
       (0x200 := rvalue_new 0x40000 (Hash (HMap [(0x100, 3)])),
        0x240 := rvalue_new 0x40000 (Hash (HMap [(0x140, 3)])))"

lemma demo_tables_plain: "plain_tables demo_tables"
proof -
  have "\<not> is_packed_value 0x100" "\<not> is_packed_value 0x140" by code_simp+
  then show ?thesis
    by (auto simp: plain_tables_def demo_tables_def demo_strings_def rvalue_new_def plain_key_def
        as_rvalue_def keys_apart_def)
qed

lemma demo_tables_eq: "value_eq demo_lookups demo_tables 2 0x200 0x240 = Inr True"
  by code_simp

theorem value_eq_symmetric_witness:
  "value_eq demo_lookups demo_tables 9 0x200 0x240 = Inr True \<and>
   value_eq demo_lookups demo_tables 3 0x240 0x200 \<noteq> Inr False"
  using value_eq_symmetric [OF demo_keys(11) demo_tables_plain demo_tables_eq] by auto

end
