(* ===== verification/Marking.thy ===== *)
theory Marking
  imports Collector
begin

text \<open>
  The mark phase of src/alloc.rs: \<open>mark_all\<close> returns, and the cells it leaves marked are exactly
  those reachable from the roots over the references of src/value/rvalue.rs.
\<close>

inductive reachable :: "(rvalue \<Rightarrow> val list res) \<Rightarrow> 'm heap_scheme \<Rightarrow> val set \<Rightarrow> u64 \<Rightarrow> bool"
  for refs :: "rvalue \<Rightarrow> val list res" and h :: "'m heap_scheme" and roots :: "val set" where
  root: "v \<in> roots \<Longrightarrow> \<not> is_packed_value v \<Longrightarrow> reachable refs h roots v"
| ref: "reachable refs h roots a \<Longrightarrow> refs (box_inner (cells h a)) = Inr cs \<Longrightarrow> c \<in> set cs \<Longrightarrow>
    \<not> is_packed_value c \<Longrightarrow> reachable refs h roots c"

text \<open>
  A value a program can hold: an immediate or a live cell. In a closed heap the references of
  every live object can be enumerated and are such values.
\<close>

definition wf_val :: "'m heap_scheme \<Rightarrow> val \<Rightarrow> bool" where
  "wf_val h v \<longleftrightarrow> is_packed_value v \<or> v \<in> live h"

definition heap_closed :: "(rvalue \<Rightarrow> val list res) \<Rightarrow> 'm heap_scheme \<Rightarrow> bool" where
  "heap_closed refs h \<longleftrightarrow>
     (\<forall>a \<in> live h. \<exists>cs. refs (box_inner (cells h a)) = Inr cs \<and> list_all (wf_val h) cs)"

definition marked :: "'m heap_scheme \<Rightarrow> u64 set" where
  "marked h = {a \<in> set (used_cells h). is_marked h a}"

definition mark_only :: "'m heap_scheme \<Rightarrow> 'm heap_scheme \<Rightarrow> bool" where
  "mark_only h h' \<longleftrightarrow>
     cells h' = cells h \<and> pages h' = pages h \<and> current h' = current h \<and>
     used_in_current h' = used_in_current h \<and> free h' = free h \<and>
     free_list_count h' = free_list_count h \<and> free_pages h' = free_pages h \<and>
     os_alloc h' = os_alloc h \<and> os_calls h' = os_calls h \<and> allocated h' = allocated h \<and>
     gc_count h' = gc_count h \<and> alloc_flag h' = alloc_flag h \<and> gc_enabled h' = gc_enabled h \<and>
     (\<forall>p. length (mark_bits h' p) = length (mark_bits h p))"

lemma mark_only_fields:
  assumes "mark_only h h'"
  shows "cells h' = cells h" "pages h' = pages h" "current h' = current h"
    "used_in_current h' = used_in_current h" "free h' = free h"
    "free_list_count h' = free_list_count h" "free_pages h' = free_pages h"
    "os_alloc h' = os_alloc h" "os_calls h' = os_calls h"
  using assms by (simp_all add: mark_only_def)

lemma mark_only_refl: "mark_only h h"
  by (simp add: mark_only_def)

lemma mark_only_trans: "mark_only h h' \<Longrightarrow> mark_only h' h'' \<Longrightarrow> mark_only h h''"
  by (simp add: mark_only_def)

lemma mark_only_derived:
  assumes "mark_only h h'"
  shows "used_cells h' = used_cells h" "live h' = live h" "heap_pages h' = heap_pages h"
    "pages_ok h' = pages_ok h" "list_ok h' = list_ok h" "free_list h' = free_list h"
    "wf_val h' = wf_val h" "heap_closed refs h' = heap_closed refs h"
proof -
  note f = mark_only_fields [OF assms]
  show u: "used_cells h' = used_cells h" by (simp add: used_cells_def f)
  show fl: "free_list h' = free_list h" by (simp add: free_list_def f)
  show l: "live h' = live h" by (simp add: live_def u fl)
  show "heap_pages h' = heap_pages h" by (simp add: heap_pages_def f)
  show "pages_ok h' = pages_ok h"
    using assms by (intro pages_ok_cong) (simp_all add: f mark_only_def)
  show "list_ok h' = list_ok h" by (simp add: list_ok_def f u)
  show w: "wf_val h' = wf_val h" by (simp add: wf_val_def l fun_eq_iff)
  show "heap_closed refs h' = heap_closed refs h" by (simp add: heap_closed_def l w f)
qed

lemma reachable_mono_h:
  "reachable refs h R a \<Longrightarrow> cells h' = cells h \<Longrightarrow> reachable refs h' R a"
  by (induction rule: reachable.induct) (auto intro: reachable.intros)

lemma reachable_step_roots:
  assumes "reachable refs h (set (cs @ vs)) a" "\<not> is_packed_value v"
    and "refs (box_inner (cells h v)) = Inr cs"
  shows "reachable refs h (set (v # vs)) a"
  using assms(1)
proof (induction rule: reachable.induct)
  case (root x)
  show ?case
  proof (cases "x \<in> set cs")
    case True
    have "reachable refs h (set (v # vs)) v" using assms(2) by (auto intro: reachable.root)
    from this assms(3) True root(2) show ?thesis by (rule reachable.ref)
  next
    case False
    with root show ?thesis by (auto intro: reachable.root)
  qed
next
  case (ref a cs' c)
  then show ?case by (blast intro: reachable.ref)
qed

lemma reachable_more_roots: "reachable refs h R a \<Longrightarrow> R \<subseteq> R' \<Longrightarrow> reachable refs h R' a"
  by (induction rule: reachable.induct) (auto intro: reachable.intros)

section \<open>Marking one cell\<close>

lemma marked_bit:
  assumes "pages_ok h" "p \<in> set (heap_pages h)" "i < DATA_LEN"
  shows "is_marked h (get_data_ptr p i) = bit (mark_bits h p ! (i div 64)) (i mod 64)"
  using assms page_aligned_page [OF assms(1) page_of_heap]
  by (simp add: is_marked_def from_inner_cell cell_index_cell data_len)

lemma mark_ptr_used:
  assumes ok: "pages_ok h" and a: "a \<in> set (used_cells h)"
  obtains h' where "mark_ptr h a = Inr (h', is_marked h a)" "mark_only h h'"
    "marked h' = insert a (marked h)"
    "mark_counter h' = (if is_marked h a then mark_counter h else mark_counter h + 1)"
proof -
  note facts = used_cell_facts [OF ok a]
  let ?p = "from_inner a" let ?i = "cell_index a"
  have len: "length (mark_bits h q) = 63" for q using ok by (simp add: pages_ok_def SIZE_def)
  have i: "?i div 64 < length (mark_bits h ?p)" using facts(3) by (simp add: len data_len)
  let ?w = "mark_bits h ?p ! (?i div 64)"
  let ?h1 = "h\<lparr>mark_bits := (mark_bits h)(?p := (mark_bits h ?p)[?i div 64 := ?w OR 2 ^ (?i mod 64)])\<rparr>"
  let ?h' = "if is_marked h a then ?h1 else ?h1\<lparr>mark_counter := mark_counter ?h1 + 1\<rparr>"
  have r: "mark_ptr h a = Inr (?h', is_marked h a)"
    using i by (simp add: mark_ptr_def Let_def is_marked_def and_exp_eq_0_iff_not_bit)
  have mo: "mark_only h ?h'"
    by (simp add: mark_only_def)
  have u: "used_cells ?h' = used_cells h" by (rule mark_only_derived(1) [OF mo])
  have mb: "mark_bits ?h' = (mark_bits h)(?p := (mark_bits h ?p)[?i div 64 := ?w OR 2 ^ (?i mod 64)])"
    by simp
  have im: "is_marked ?h' b = (is_marked h b \<or> b = a)" if b: "b \<in> set (used_cells h)" for b
  proof -
    note fb = used_cell_facts [OF ok b]
    have 1: "b = a" if "from_inner b = ?p" "cell_index b div 64 = ?i div 64"
        "cell_index b mod 64 = ?i mod 64"
      using that fb(4) facts(4) by (metis div_mult_mod_eq)
    have "?i mod 64 < 64" by simp
    show ?thesis
      unfolding is_marked_def mb using i 1 \<open>?i mod 64 < 64\<close>
      by (auto simp: bit_or_mask nth_list_update)
  qed
  have "marked ?h' = insert a (marked h)"
    unfolding marked_def u using im a by blast
  moreover have "mark_counter ?h' = (if is_marked h a then mark_counter h else mark_counter h + 1)"
    by simp
  ultimately show ?thesis by (rule that [OF r mo])
qed

section \<open>Marking everything\<close>

definition marks_from :: "(rvalue \<Rightarrow> val list res) \<Rightarrow> 'm heap_scheme \<Rightarrow> val list \<Rightarrow> 'm heap_scheme \<Rightarrow> bool" where
  "marks_from refs h vs h' \<longleftrightarrow>
     mark_only h h' \<and> marked h \<subseteq> marked h' \<and>
     (\<forall>v \<in> set vs. is_packed_value v \<or> v \<in> marked h') \<and>
     (\<forall>a \<in> marked h' - marked h. reachable refs h (set vs) a) \<and>
     (\<forall>a \<in> marked h' - marked h. \<forall>cs. refs (box_inner (cells h a)) = Inr cs \<longrightarrow>
        (\<forall>c \<in> set cs. is_packed_value c \<or> c \<in> marked h')) \<and>
     mark_counter h' = mark_counter h + card (marked h' - marked h)"

lemma live_used: "live h \<subseteq> set (used_cells h)"
  by (auto simp: live_def)

lemma finite_marked: "finite (marked h)"
  by (simp add: marked_def)

lemma marks_from_push:
  assumes mo: "mark_only h h1" and m1: "marked h1 = insert v (marked h)" and nv: "v \<notin> marked h"
    and np: "\<not> is_packed_value v" and cs: "refs (box_inner (cells h v)) = Inr cs"
    and c1: "mark_counter h1 = mark_counter h + 1"
    and rest: "marks_from refs h1 (cs @ vs) h2"
  shows "marks_from refs h (v # vs) h2"
proof -
  note r = rest[unfolded marks_from_def]
  have cl: "cells h1 = cells h" using mo by (rule mark_only_fields)
  have sub: "marked h1 \<subseteq> marked h2" using r by blast
  have new: "marked h2 - marked h = insert v (marked h2 - marked h1)"
    using m1 nv sub by auto
  have "reachable refs h (set (v # vs)) a" if "a \<in> marked h2 - marked h" for a
  proof (cases "a = v")
    case True
    with np show ?thesis by (auto intro: reachable.root)
  next
    case False
    with that m1 r have "reachable refs h1 (set (cs @ vs)) a" by auto
    then have "reachable refs h (set (cs @ vs)) a" using cl by (simp add: reachable_mono_h)
    then show ?thesis using np cs by (rule reachable_step_roots)
  qed
  moreover have "\<forall>c \<in> set ds. is_packed_value c \<or> c \<in> marked h2"
    if "a \<in> marked h2 - marked h" "refs (box_inner (cells h a)) = Inr ds" for a ds
    using that r cs new cl by (cases "a = v") auto
  moreover have "card (marked h2 - marked h) = Suc (card (marked h2 - marked h1))"
    using new m1 finite_marked by simp
  ultimately show ?thesis
    using mo r m1 c1 unfolding marks_from_def by (auto intro: mark_only_trans)
qed

lemma marks_from_skip:
  assumes "marks_from refs h vs h'" "is_packed_value v \<or> v \<in> marked h"
  shows "marks_from refs h (v # vs) h'"
  using assms unfolding marks_from_def by (auto intro: reachable_more_roots)

lemma marks_from_nil: "marks_from refs h [] h"
  by (simp add: marks_from_def mark_only_refl)

lemma mark_all_marks:
  assumes "pages_ok h" "heap_closed refs h" "list_all (wf_val h) vs"
  shows "\<exists>h'. mark_all refs h vs = Inr h' \<and> marks_from refs h vs h'"
  using assms
proof (induction refs h vs rule: mark_all.induct)
  case (1 refs h)
  then show ?case by (simp add: marks_from_nil)
next
  case (2 refs h v vs)
  show ?case
  proof (cases "is_packed_value v")
    case True
    with 2 obtain h' where "mark_all refs h vs = Inr h'" "marks_from refs h vs h'" by auto
    with True show ?thesis by (auto simp: mark_all.simps(2) intro: marks_from_skip)
  next
    case np: False
    with "2.prems" have v: "v \<in> live h" by (simp add: wf_val_def)
    then have u: "v \<in> set (used_cells h)" using live_used by blast
    have pg: "from_inner v \<in> set (heap_pages h)"
      using used_cell_facts(2) [OF \<open>pages_ok h\<close> u] .
    obtain h1 where h1: "mark_ptr h v = Inr (h1, is_marked h v)" "mark_only h h1"
        "marked h1 = insert v (marked h)"
        "mark_counter h1 = (if is_marked h v then mark_counter h else mark_counter h + 1)"
      using mark_ptr_used [OF \<open>pages_ok h\<close> u] .
    note d = mark_only_derived [OF h1(2)]
    show ?thesis
    proof (cases "is_marked h v")
      case True
      with h1 have "h1 = h" using mark_ptr_old by metis
      moreover have "\<exists>h'. mark_all refs h1 vs = Inr h' \<and> marks_from refs h1 vs h'"
        using "2.IH"(2) [OF np _ h1(1)] True pg "2.prems" by (simp add: d)
      moreover have "v \<in> marked h" using u True by (simp add: marked_def)
      ultimately show ?thesis
        using np pg h1(1) True by (auto simp: mark_all.simps(2) intro: marks_from_skip)
    next
      case False
      obtain cs where cs: "refs (box_inner (cells h v)) = Inr cs" "list_all (wf_val h) cs"
        using "2.prems"(2) v by (auto simp: heap_closed_def)
      have "\<exists>h'. mark_all refs h1 (cs @ vs) = Inr h' \<and> marks_from refs h1 (cs @ vs) h'"
        using "2.IH"(3) [OF np _ h1(1) _ _ cs(1)] False pg "2.prems" cs(2) by (simp add: d)
      then obtain h2 where h2: "mark_all refs h1 (cs @ vs) = Inr h2" "marks_from refs h1 (cs @ vs) h2"
        by blast
      have "marks_from refs h (v # vs) h2"
        using h1(2,3) False np cs(1) h1(4) h2(2) by (intro marks_from_push) (auto simp: marked_def)
      with np pg h1(1) False cs(1) h2(1) show ?thesis by (auto simp: mark_all.simps(2))
    qed
  qed
qed

section \<open>A whole mark phase\<close>

lemma clear_bits_fold:
  "pages (fold clear_bits ps h) = pages h"
  "mark_bits (fold clear_bits ps h) q = (if q \<in> set ps then replicate (SIZE - 1) 0 else mark_bits h q)"
  by (induction ps arbitrary: h) (auto simp: clear_bits_def)

lemma clear_bits_only: "(\<And>q. length (mark_bits h q) = SIZE - 1) \<Longrightarrow> mark_only h (clear_bits p h)"
  by (simp add: mark_only_def clear_bits_def)

lemma clear_bits_fold_only:
  "(\<And>q. length (mark_bits h q) = SIZE - 1) \<Longrightarrow> mark_only h (fold clear_bits ps h)"
proof (induction ps arbitrary: h)
  case (Cons p ps)
  have "mark_only h (clear_bits p h)" using Cons.prems by (rule clear_bits_only)
  moreover have "mark_only (clear_bits p h) (fold clear_bits ps (clear_bits p h))"
    using Cons.prems by (intro Cons.IH) (simp add: clear_bits_def)
  ultimately show ?case by (simp add: mark_only_trans)
qed (simp add: mark_only_refl)

lemma clear_mark_only:
  assumes "pages_ok h"
  shows "mark_only h (clear_mark h)" "mark_counter (clear_mark h) = 0"
    "p \<in> set (heap_pages h) \<Longrightarrow> mark_bits (clear_mark h) p = replicate (SIZE - 1) 0"
proof -
  let ?h1 = "fold clear_bits (current h # pages h) h"
  have c: "clear_mark h = ?h1\<lparr>mark_counter := 0\<rparr>" by (simp add: clear_mark_def Let_def)
  have "mark_only h ?h1"
    using assms by (intro clear_bits_fold_only) (simp add: pages_ok_def)
  then show "mark_only h (clear_mark h)" by (simp add: c mark_only_def)
  show "mark_counter (clear_mark h) = 0" by (simp add: c)
  show "mark_bits (clear_mark h) p = replicate (SIZE - 1) 0" if "p \<in> set (heap_pages h)"
    using that by (auto simp: c heap_pages_def clear_bits_fold clear_bits_def)
qed

lemma clear_mark_unmarked:
  assumes "pages_ok h"
  shows "marked (clear_mark h) = {}"
proof -
  note mo = clear_mark_only [OF assms]
  note d = mark_only_derived [OF mo(1)]
  have "\<not> is_marked (clear_mark h) a" if "a \<in> set (used_cells h)" for a
    using used_cell_facts [OF assms that] mo(3)
    by (simp add: is_marked_def data_len SIZE_def)
  then show ?thesis by (auto simp: marked_def d)
qed

theorem mark_phase:
  assumes ok: "pages_ok h" and closed: "heap_closed refs h" and roots: "list_all (wf_val h) roots"
  obtains h' where "mark_all refs (clear_mark h) roots = Inr h'" "mark_only h h'"
    "marked h' = {a. reachable refs h (set roots) a}"
    "mark_counter h' = card {a. reachable refs h (set roots) a}"
proof -
  note mo = clear_mark_only [OF ok]
  note d = mark_only_derived [OF mo(1)]
  have cl: "cells (clear_mark h) = cells h" using mo(1) by (rule mark_only_fields)
  obtain h' where h': "mark_all refs (clear_mark h) roots = Inr h'"
    and m: "marks_from refs (clear_mark h) roots h'"
    using mark_all_marks [of "clear_mark h" refs roots] assms by (auto simp: d)
  note m = m[unfolded marks_from_def clear_mark_unmarked [OF ok] cl]
  have "a \<in> marked h'" if "reachable refs h (set roots) a" for a
    using that
  proof (induction rule: reachable.induct)
    case (root v)
    with m show ?case by blast
  next
    case (ref a cs c)
    with m show ?case by blast
  qed
  moreover have "reachable refs h (set roots) a" if "a \<in> marked h'" for a
    using that m cl by (auto intro: reachable_mono_h)
  ultimately have "marked h' = {a. reachable refs h (set roots) a}" by blast
  with h' m mo show ?thesis by (intro that [OF h']) (auto intro: mark_only_trans)
qed

end
