(* ===== verification/Sweeping.thy ===== *)
theory Sweeping
  imports Marking
begin

text \<open>
  The sweep phase of src/alloc.rs and the whole collection. \<open>sweep_bits\<close> skips the leading
  marked cells and walks the rest bit by bit; the lemmas here show that the walk over all pages
  amounts to \<open>thread\<close>ing the unmarked cells, in address order, into one list.
\<close>

section \<open>The walk as a list of cells to free\<close>

fun thread :: "u64 list \<Rightarrow> sweep_state \<Rightarrow> sweep_state" where
  "thread [] s = s"
| "thread (a # as) s = thread as (unlink (s\<lparr>sw_ptr := a\<rparr>))"

lemma thread_append: "thread (xs @ ys) s = thread ys (thread xs s)"
  by (induction xs arbitrary: s) simp_all

lemma unlink_ptr: "sw_ptr (unlink s) = sw_ptr s"
  by (simp add: unlink_def Let_def split: option.splits)

lemma thread_ptr_irrelevant:
  "(thread xs (s\<lparr>sw_ptr := q\<rparr>))\<lparr>sw_ptr := r\<rparr> = (thread xs s)\<lparr>sw_ptr := r\<rparr>"
  by (cases xs) simp_all

lemma thread_ptr_fields:
  "sw_cells (thread xs (s\<lparr>sw_ptr := q\<rparr>)) = sw_cells (thread xs s)"
  "sw_anchor (thread xs (s\<lparr>sw_ptr := q\<rparr>)) = sw_anchor (thread xs s)"
  by (cases xs; simp)+

definition unmarked_bits :: "nat \<Rightarrow> u64 \<Rightarrow> u64 \<Rightarrow> u64 list" where
  "unmarked_bits n m p = map (\<lambda>j. p + of_nat (64 * j)) (filter (\<lambda>j. \<not> bit m j) [0..<n])"

lemma unmarked_bits_Suc:
  "unmarked_bits (Suc n) m p =
     (if bit m 0 then [] else [p]) @ unmarked_bits n (drop_bit 1 m) (p + 64)"
proof -
  have "[0..<Suc n] = 0 # map Suc [0..<n]" by (simp add: upt_conv_Cons map_Suc_upt del: upt_Suc)
  then show ?thesis
    by (simp add: unmarked_bits_def filter_map comp_def bit_drop_bit_eq algebra_simps del: upt_Suc)
qed

lemma and_one_bit: "m AND 1 = 0 \<longleftrightarrow> \<not> bit m 0" for m :: u64
  using and_exp_eq_0_iff_not_bit [of m 0] by simp

lemma sweep_loop_thread:
  "sweep_loop n m s =
     (length (unmarked_bits n m (sw_ptr s)),
      (thread (unmarked_bits n m (sw_ptr s)) s)\<lparr>sw_ptr := sw_ptr s + of_nat (64 * n)\<rparr>)"
proof (induction n arbitrary: m s)
  case 0
  then show ?case by (simp add: unmarked_bits_def)
next
  case (Suc n)
  let ?s1 = "if m AND 1 = 0 then unlink s else s"
  have p: "sw_ptr ?s1 = sw_ptr s" by (simp add: unlink_ptr)
  have "sweep_loop (Suc n) m s =
      (let (c', s2) = sweep_loop n (drop_bit 1 m) (?s1\<lparr>sw_ptr := sw_ptr s + 64\<rparr>)
       in ((if m AND 1 = 0 then 1 else 0) + c', s2))"
    using p by (simp add: GCBOX_SIZE_def unlink_ptr)
  then show ?case
    by (simp add: Suc.IH unmarked_bits_Suc and_one_bit thread_ptr_irrelevant thread_append
        algebra_simps)
qed

lemma unmarked_bits_skip:
  assumes "\<And>j. j < k \<Longrightarrow> bit m j"
  shows "unmarked_bits n m p = unmarked_bits (n - k) (drop_bit k m) (p + of_nat (64 * k))"
  using assms
proof (induction k arbitrary: n m p)
  case 0
  then show ?case by simp
next
  case (Suc k)
  show ?case
  proof (cases n)
    case 0
    then show ?thesis by (simp add: unmarked_bits_def)
  next
    case (Suc n')
    have "unmarked_bits n m p = unmarked_bits n' (drop_bit 1 m) (p + 64)"
      using Suc.prems [of 0] Suc by (simp add: unmarked_bits_Suc)
    also have "\<dots> = unmarked_bits (n' - k) (drop_bit k (drop_bit 1 m)) (p + 64 + of_nat (64 * k))"
      using Suc.prems by (intro Suc.IH) (simp add: bit_drop_bit_eq)
    finally show ?thesis using Suc by (simp add: algebra_simps)
  qed
qed

lemma trailing_ones_bits: "j < trailing_ones m \<Longrightarrow> bit m j"
proof -
  assume j: "j < trailing_ones m"
  let ?t = "takeWhile (bit m) [0..<64]"
  from j have j: "j < length ?t" by (simp add: trailing_ones_def)
  then have "j < 64" using length_takeWhile_le [of "bit m" "[0..<64]"] by simp
  with j have "?t ! j = j" by (simp add: takeWhile_nth del: upt_Suc)
  moreover have "?t ! j \<in> set ?t" using j by (rule nth_mem)
  ultimately show ?thesis by (metis set_takeWhileD)
qed

lemma trailing_ones_le: "trailing_ones m \<le> 64"
  using length_takeWhile_le [of "bit m" "[0..<64]"] by (simp add: trailing_ones_def)

lemma sw_ptr_update: "sw_ptr (s\<lparr>sw_ptr := q\<rparr>) = q"
  by simp

lemma sweep_bits_thread:
  "sweep_bits n m s =
     (length (unmarked_bits n m (sw_ptr s)),
      (thread (unmarked_bits n m (sw_ptr s)) s)
        \<lparr>sw_ptr := sw_ptr s + of_nat (64 * max n (trailing_ones m))\<rparr>)"
proof -
  let ?k = "trailing_ones m"
  have "unmarked_bits n m (sw_ptr s) =
      unmarked_bits (n - ?k) (drop_bit ?k m) (sw_ptr s + of_nat (64 * ?k))"
    by (intro unmarked_bits_skip trailing_ones_bits)
  moreover have "?k + (n - ?k) = max n ?k" by simp
  then have "sw_ptr s + of_nat (?k * 64) + of_nat (64 * (n - ?k)) = sw_ptr s + of_nat (64 * max n ?k)"
    by (metis (no_types, lifting) add.assoc of_nat_add add_mult_distrib2 mult.commute)
  ultimately show ?thesis
    by (simp only: sweep_bits_def Let_def sweep_loop_thread GCBOX_SIZE_def thread_ptr_irrelevant
        sw_ptr_update mult.commute [of 64])
qed

fun unmarked_words :: "u64 list \<Rightarrow> u64 \<Rightarrow> u64 list" where
  "unmarked_words [] p = []"
| "unmarked_words (m # ms) p = unmarked_bits 64 m p @ unmarked_words ms (p + 4096)"

lemma sweep_words_thread:
  "sweep_words ms s =
     (length (unmarked_words ms (sw_ptr s)),
      (thread (unmarked_words ms (sw_ptr s)) s)\<lparr>sw_ptr := sw_ptr s + of_nat (4096 * length ms)\<rparr>)"
proof (induction ms arbitrary: s)
  case Nil
  then show ?case by simp
next
  case (Cons m ms)
  have "max 64 (trailing_ones m) = 64" using trailing_ones_le [of m] by simp
  then show ?case
    by (simp add: Cons.IH sweep_bits_thread thread_append thread_ptr_irrelevant algebra_simps)
qed

lemma sweep_pages_thread:
  "\<exists>q. sweep_pages bits ps s =
     (let u = concat (map (\<lambda>p. unmarked_words (bits p) (get_data_ptr p 0)) ps)
      in (length u, (thread u s)\<lparr>sw_ptr := q\<rparr>))"
proof (induction ps arbitrary: s)
  case Nil
  then show ?case by (auto intro: exI [of _ "sw_ptr s"])
next
  case (Cons p ps)
  let ?u = "unmarked_words (bits p) (get_data_ptr p 0)"
  let ?s1 = "(thread ?u s)\<lparr>sw_ptr := get_data_ptr p 0 + of_nat (4096 * length (bits p))\<rparr>"
  have 1: "sweep_words (bits p) (s\<lparr>sw_ptr := get_data_ptr p 0\<rparr>) = (length ?u, ?s1)"
    by (simp add: sweep_words_thread thread_ptr_irrelevant)
  obtain q where q: "sweep_pages bits ps ?s1 =
      (let u = concat (map (\<lambda>p. unmarked_words (bits p) (get_data_ptr p 0)) ps)
       in (length u, (thread u ?s1)\<lparr>sw_ptr := q\<rparr>))"
    using Cons.IH by blast
  show ?case
    by (rule exI [of _ q])
      (simp add: 1 q Let_def thread_append thread_ptr_irrelevant del: of_nat_mult)
qed

text \<open>The same cells by their index in the page.\<close>

lemma upt_split: "[0..<a + b] = [0..<a] @ map ((+) a) [0..<b]"
  by (rule nth_equalityI) (auto simp: nth_append)

lemma div_64_step: "(64 + i) div 64 = Suc (i div 64)" "(i + 64) div 64 = Suc (i div 64)" for i :: nat
  by simp_all

lemma unmarked_words_cells:
  "unmarked_words ms p =
     map (\<lambda>i. p + of_nat (64 * i))
       (filter (\<lambda>i. \<not> bit (ms ! (i div 64)) (i mod 64)) [0..<64 * length ms])"
proof (induction ms arbitrary: p)
  case Nil
  then show ?case by simp
next
  case (Cons m ms)
  have "[0..<64 * length (m # ms)] = [0..<64] @ map ((+) 64) [0..<64 * length ms]"
    using upt_split [of 64 "64 * length ms"] by (simp add: mult_Suc_right del: upt_Suc)
  moreover have "filter (\<lambda>i. \<not> bit ((m # ms) ! (i div 64)) (i mod 64)) [0..<64] =
      filter (\<lambda>i. \<not> bit m i) [0..<64]"
    by (rule filter_cong) auto
  ultimately show ?case
    by (simp add: Cons.IH unmarked_bits_def filter_map comp_def algebra_simps div_64_step del: upt_Suc)
qed

section \<open>The list the walk builds\<close>

text \<open>\<open>linked c0 ds s\<close>: the walk started on the memory \<open>c0\<close> and has freed the cells \<open>ds\<close>.\<close>

definition linked :: "(u64 \<Rightarrow> gcbox) \<Rightarrow> u64 list \<Rightarrow> sweep_state \<Rightarrow> bool" where
  "linked c0 ds s \<longleftrightarrow>
     sw_head s = (if ds = [] then None else Some (last ds)) \<and>
     chain (sw_cells s) (sw_anchor s) ds \<and>
     (\<forall>a. a \<notin> set ds \<longrightarrow> sw_cells s a = c0 a) \<and>
     (\<forall>a \<in> set ds. box_inner (sw_cells s a) = rvalue_free (box_inner (c0 a)))"

lemma chain_snoc:
  assumes "chain c s xs" "distinct (xs @ [p])" "xs \<noteq> []"
    and "\<And>x. x \<noteq> p \<Longrightarrow> x \<noteq> last xs \<Longrightarrow> c' x = c x"
    and "box_next (c' (last xs)) = Some p" "box_next (c' p) = None"
  shows "chain c' s (xs @ [p])"
  using assms
proof (induction c s xs rule: chain.induct)
  case (2 c s x xs)
  show ?case
  proof (cases "xs = []")
    case True
    with 2 show ?thesis by simp
  next
    case False
    then have "last xs \<in> set xs" by simp
    with False 2 have "x \<noteq> p" "x \<noteq> last xs" by auto
    then have "c' x = c x" using 2 False by simp
    moreover have "chain c' (box_next (c x)) (xs @ [p])"
      using 2 False by (intro "2.IH") auto
    ultimately show ?thesis using 2 by simp
  qed
qed simp

lemma unlink_linked:
  assumes l: "linked c0 ds s" and d: "distinct (ds @ [p])"
  shows "linked c0 (ds @ [p]) (unlink (s\<lparr>sw_ptr := p\<rparr>))"
proof (cases "ds = []")
  case True
  with l show ?thesis by (simp add: linked_def unlink_def)
next
  case False
  let ?g = "last ds" and ?s = "unlink (s\<lparr>sw_ptr := p\<rparr>)"
  have g: "?g \<in> set ds" "?g \<noteq> p" using False d by auto
  have h: "sw_head s = Some ?g" using l False by (simp add: linked_def)
  have c: "sw_cells ?s = (sw_cells s)(?g := (sw_cells s ?g)\<lparr>box_next := Some p\<rparr>,
      p := \<lparr>box_inner = rvalue_free (box_inner (sw_cells s p)), box_next = None\<rparr>)"
    using g by (cases "sw_cells s p") (simp add: unlink_def h Let_def fun_eq_iff)
  have f: "sw_head ?s = Some p" "sw_anchor ?s = sw_anchor s"
    by (simp_all add: unlink_def h Let_def)
  have "chain (sw_cells ?s) (sw_anchor s) (ds @ [p])"
    by (rule chain_snoc [of "sw_cells s"]) (use l d False g in \<open>auto simp: linked_def c\<close>)
  with l d g show ?thesis by (auto simp: linked_def c f)
qed

lemma thread_linked:
  assumes "linked c0 ds s" "distinct (ds @ xs)"
  shows "linked c0 (ds @ xs) (thread xs s)"
  using assms
proof (induction xs arbitrary: ds s)
  case (Cons x xs)
  have "linked c0 (ds @ [x]) (unlink (s\<lparr>sw_ptr := x\<rparr>))"
    using Cons.prems by (intro unlink_linked) auto
  then show ?case using Cons.IH [of "ds @ [x]"] Cons.prems by simp
qed simp

lemma linked_ptr [simp]: "linked c0 ds (s\<lparr>sw_ptr := q\<rparr>) = linked c0 ds s"
  by (simp add: linked_def)

section \<open>The sweep\<close>

lemma page_words_cells:
  assumes "pages_ok h" "p \<in> set (heap_pages h)" "k \<le> 63"
  shows "unmarked_words (take k (mark_bits h p)) (get_data_ptr p 0) =
     filter (\<lambda>a. \<not> is_marked h a) (page_cells p (64 * k))"
proof -
  have len: "length (mark_bits h p) = 63" using assms(1) by (simp add: pages_ok_def SIZE_def)
  have m: "is_marked h (get_data_ptr p i) = bit (mark_bits h p ! (i div 64)) (i mod 64)"
    if "i < 64 * k" for i
    using assms that by (intro marked_bit) (simp_all add: data_len)
  have "filter (\<lambda>i. \<not> bit (take k (mark_bits h p) ! (i div 64)) (i mod 64)) [0..<64 * k] =
      filter (\<lambda>i. \<not> is_marked h (get_data_ptr p i)) [0..<64 * k]"
    by (rule filter_cong) (auto simp: m)
  moreover have "get_data_ptr p 0 + of_nat (64 * i) = get_data_ptr p i" for i
    by (simp add: get_data_ptr_def GCBOX_SIZE_def)
  moreover have "64 * length (take k (mark_bits h p)) = 64 * k"
    using len assms(3) by simp
  ultimately show ?thesis
    by (simp only: unmarked_words_cells page_cells_def filter_map comp_def)
qed

lemma last_word_cells:
  assumes "pages_ok h" "p \<in> set (heap_pages h)" "i < 63" "b < 64"
  shows "unmarked_bits b (mark_bits h p ! i) (get_data_ptr p (64 * i)) =
     filter (\<lambda>a. \<not> is_marked h a) (map (get_data_ptr p) (map ((+) (64 * i)) [0..<b]))"
proof -
  have m: "is_marked h (get_data_ptr p (64 * i + j)) = bit (mark_bits h p ! i) j"
    if "j < b" for j
    using assms that by (subst marked_bit) (simp_all add: data_len)
  have "filter (\<lambda>j. \<not> is_marked h (get_data_ptr p (64 * i + j))) [0..<b] =
      filter (\<lambda>j. \<not> bit (mark_bits h p ! i) j) [0..<b]"
    by (rule filter_cong) (auto simp: m)
  then show ?thesis
    by (simp add: unmarked_bits_def filter_map comp_def get_data_ptr_def GCBOX_SIZE_def
        algebra_simps)
qed

lemma concat_filter: "concat (map (\<lambda>x. filter P (f x)) xs) = filter P (concat (map f xs))"
  by (simp add: filter_concat comp_def)

lemma page_cells_append: "page_cells p (m + n) = page_cells p m @ map (get_data_ptr p) (map ((+) m) [0..<n])"
  by (simp only: page_cells_def upt_split map_append)

lemma sweep_frees:
  assumes ok: "pages_ok h"
  obtains s where
    "sweep h = Inr (h\<lparr>cells := sw_cells s, free := sw_anchor s,
       free_list_count := length (filter (\<lambda>a. \<not> is_marked h a) (used_cells h))\<rparr>)"
    "linked (cells h) (filter (\<lambda>a. \<not> is_marked h a) (used_cells h)) s"
proof -
  let ?P = "\<lambda>a. \<not> is_marked h a" and ?n = "used_in_current h" and ?p = "current h"
  let ?i = "?n div 64" and ?b = "?n mod 64" and ?bm = "mark_bits h (current h)"
  let ?st = "\<lparr>sw_cells = cells h, sw_ptr = 0, sw_head = None, sw_anchor = None\<rparr>"
  have len: "length (mark_bits h q) = 63" for q using ok by (simp add: pages_ok_def SIZE_def)
  have n: "?n \<le> 4032" using ok by (simp add: pages_ok_def data_len)
  have i: "?i \<le> 63" "?i = 63 \<Longrightarrow> ?b = 0"
    using n div_mult_mod_eq [of ?n 64] by linarith+
  let ?u1 = "filter ?P (concat (map (\<lambda>p. page_cells p DATA_LEN) (pages h)))"
  have "unmarked_words (mark_bits h q) (get_data_ptr q 0) = filter ?P (page_cells q DATA_LEN)"
    if "q \<in> set (pages h)" for q
    using page_words_cells [OF ok, of q 63] that by (simp add: len data_len heap_pages_def)
  then have u1: "concat (map (\<lambda>p. unmarked_words (mark_bits h p) (get_data_ptr p 0)) (pages h)) = ?u1"
    by (simp flip: concat_filter cong: map_cong)
  obtain q1 where s1: "sweep_pages (mark_bits h) (pages h) ?st =
      (length ?u1, (thread ?u1 ?st)\<lparr>sw_ptr := q1\<rparr>)"
    using sweep_pages_thread [of "mark_bits h" "pages h" ?st] by (auto simp: u1 Let_def)
  let ?u2 = "filter ?P (page_cells ?p (64 * ?i))"
  have cur: "?p \<in> set (heap_pages h)" by (simp add: heap_pages_def)
  have s2: "sweep_words (take ?i ?bm) (s\<lparr>sw_ptr := get_data_ptr ?p 0\<rparr>) =
      (length ?u2, (thread ?u2 s)\<lparr>sw_ptr := get_data_ptr ?p (64 * ?i)\<rparr>)" for s
    using page_words_cells [OF ok cur i(1)] i(1)
    by (simp add: sweep_words_thread len thread_ptr_irrelevant)
      (simp add: get_data_ptr_def GCBOX_SIZE_def)
  let ?u3 = "filter ?P (map (get_data_ptr ?p) (map ((+) (64 * ?i)) [0..<?b]))"
  have s3: "\<exists>q. sweep_bits ?b (?bm ! ?i) (s\<lparr>sw_ptr := get_data_ptr ?p (64 * ?i)\<rparr>) =
      (length ?u3, (thread ?u3 s)\<lparr>sw_ptr := q\<rparr>)" if "?i < 63" for s
    using last_word_cells [OF ok cur that, of ?b]
    by (auto simp: sweep_bits_thread thread_ptr_irrelevant)
  have u: "filter ?P (used_cells h) = ?u1 @ ?u2 @ ?u3"
    using page_cells_append [of ?p "64 * ?i" ?b] by (simp add: used_cells_def)
  let ?s = "thread (filter ?P (used_cells h)) ?st"
  have l0: "linked (cells h) [] ?st" by (simp add: linked_def)
  have l: "linked (cells h) (filter ?P (used_cells h)) ?s"
    using thread_linked [OF l0, of "filter ?P (used_cells h)"] used_cells_distinct [OF ok]
    unfolding append_Nil by simp
  have "\<exists>q. sweep h = Inr (h\<lparr>cells := sw_cells (?s\<lparr>sw_ptr := q\<rparr>),
      free := sw_anchor (?s\<lparr>sw_ptr := q\<rparr>),
      free_list_count := length (filter ?P (used_cells h))\<rparr>)"
  proof (cases "?i < 63")
    case True
    obtain q where "sweep_bits ?b (?bm ! ?i) ((thread (?u1 @ ?u2) ?st)\<lparr>sw_ptr := get_data_ptr ?p (64 * ?i)\<rparr>)
        = (length ?u3, (thread ?u3 (thread (?u1 @ ?u2) ?st))\<lparr>sw_ptr := q\<rparr>)"
      using s3 [OF True] by blast
    then show ?thesis
      using True n
      by (simp add: sweep_def Let_def s1 s2 u data_len SIZE_def len thread_append thread_ptr_irrelevant
          thread_ptr_fields)
  next
    case False
    with i have ib: "?i = 63" "?b = 0" by auto
    have "take 63 ?bm = ?bm" by (simp add: len)
    note s2' = s2 [unfolded ib this]
    from ib show ?thesis
      using n
      by (simp add: sweep_def Let_def s1 s2' u data_len SIZE_def len thread_append thread_ptr_irrelevant
          thread_ptr_fields)
  qed
  then show ?thesis using that [OF _ l] by simp
qed

end
