(* ===== verification/Collection.thy ===== *)
theory Collection
  imports Sweeping
begin

text \<open>
  A whole collection of src/alloc.rs: mark, give back the pages that hold no marked cell, sweep.
  It returns, keeps every reachable object where it is with its contents, and everything else
  is free.
\<close>

section \<open>What the sweep does to the heap\<close>

lemma sweep_heap:
  assumes ok: "pages_ok h"
  obtains h' where "sweep h = Inr h'" "heap_ok h'" "live h' = marked h"
    "free_list h' = filter (\<lambda>a. \<not> is_marked h a) (used_cells h)"
    "\<And>a. a \<in> marked h \<Longrightarrow> cells h' a = cells h a"
    "mark_counter h' = mark_counter h" "gc_count h' = gc_count h"
proof -
  let ?u = "filter (\<lambda>a. \<not> is_marked h a) (used_cells h)"
  obtain s where s: "sweep h = Inr (h\<lparr>cells := sw_cells s, free := sw_anchor s,
       free_list_count := length ?u\<rparr>)" "linked (cells h) ?u s"
    using sweep_frees [OF ok] .
  let ?h = "h\<lparr>cells := sw_cells s, free := sw_anchor s, free_list_count := length ?u\<rparr>"
  have ch: "chain (cells ?h) (free ?h) ?u" using s(2) by (simp add: linked_def)
  have fl: "free_list ?h = ?u" by (rule free_listI [OF ch]) simp
  have uc: "used_cells ?h = used_cells h" by (simp add: used_cells_def)
  have po: "pages_ok ?h" using ok by (subst pages_ok_cong [of _ h]) simp_all
  have lo: "list_ok ?h"
    unfolding list_ok_def uc using ch used_cells_distinct [OF ok]
    by (intro exI [of _ ?u]) simp
  show ?thesis
  proof (rule that [OF s(1)])
    show "heap_ok ?h" using po lo by (simp add: heap_ok_def)
    show "live ?h = marked h" unfolding live_def fl uc by (auto simp: marked_def)
    show "free_list ?h = ?u" by (rule fl)
    show "cells ?h a = cells h a" if "a \<in> marked h" for a
      using that s(2) by (simp add: linked_def marked_def)
  qed simp_all
qed

section \<open>Giving back the empty pages\<close>

lemma free_cells_other:
  "(\<And>i. i < n \<Longrightarrow> a \<noteq> p + of_nat (64 * i)) \<Longrightarrow> free_cells n p m a = m a"
proof (induction n arbitrary: p m)
  case (Suc n)
  have "a \<noteq> p" using Suc.prems [of 0] by simp
  moreover have "free_cells n (p + 64) (m(p := (m p)\<lparr>box_inner := rvalue_free (box_inner (m p))\<rparr>)) a
      = (m(p := (m p)\<lparr>box_inner := rvalue_free (box_inner (m p))\<rparr>)) a"
    using Suc.prems [of "Suc _"] by (intro Suc.IH) (simp add: add.assoc)
  ultimately show ?case by (simp add: GCBOX_SIZE_def)
qed simp

lemma free_page_fields [simp]:
  "pages (free_page p h) = pages h" "current (free_page p h) = current h"
  "used_in_current (free_page p h) = used_in_current h"
  "free_pages (free_page p h) = free_pages h" "mark_bits (free_page p h) = mark_bits h"
  "os_alloc (free_page p h) = os_alloc h" "os_calls (free_page p h) = os_calls h"
  "mark_counter (free_page p h) = mark_counter h" "gc_count (free_page p h) = gc_count h"
  by (simp_all add: free_page_def)

lemma free_page_cells:
  "a \<notin> set (page_cells p DATA_LEN) \<Longrightarrow> cells (free_page p h) a = cells h a"
  unfolding free_page_def
  by (simp, rule free_cells_other)
    (auto simp: page_cells_iff get_data_ptr_def GCBOX_SIZE_def mult.commute)

definition same_pages :: "'m heap_scheme \<Rightarrow> 'm heap_scheme \<Rightarrow> bool" where
  "same_pages h h' \<longleftrightarrow>
     mark_bits h' = mark_bits h \<and> current h' = current h \<and>
     used_in_current h' = used_in_current h \<and> os_alloc h' = os_alloc h \<and>
     os_calls h' = os_calls h \<and> mark_counter h' = mark_counter h \<and> gc_count h' = gc_count h"

lemma all_dead_cong: "mark_bits h' = mark_bits h \<Longrightarrow> all_dead h' = all_dead h"
  by (simp add: all_dead_def fun_eq_iff)

lemma dealloc_pages_spec:
  assumes "i \<le> length (pages h)"
  shows "same_pages h (dealloc_pages i h) \<and>
    pages (dealloc_pages i h) = filter (\<lambda>p. \<not> all_dead h p) (take i (pages h)) @ drop i (pages h) \<and>
    free_pages (dealloc_pages i h) = free_pages h @ rev (filter (all_dead h) (take i (pages h))) \<and>
    (\<forall>a. (\<forall>p \<in> set (pages h). all_dead h p \<longrightarrow> a \<notin> set (page_cells p DATA_LEN)) \<longrightarrow>
       cells (dealloc_pages i h) a = cells h a)"
  using assms
proof (induction i arbitrary: h)
  case 0
  then show ?case by (simp add: same_pages_def)
next
  case (Suc i)
  let ?p = "pages h ! i"
  have i: "i < length (pages h)" using Suc.prems by simp
  then have t: "take (Suc i) (pages h) = take i (pages h) @ [?p]"
    and d: "drop i (pages h) = ?p # drop (Suc i) (pages h)" and pin: "?p \<in> set (pages h)"
    by (simp_all add: take_Suc_conv_app_nth Cons_nth_drop_Suc)
  show ?case
  proof (cases "all_dead h ?p")
    case False
    then show ?thesis using Suc.IH [of h] i t d by simp
  next
    case True
    let ?h1 = "free_page ?p (h\<lparr>pages := take i (pages h) @ drop (Suc i) (pages h)\<rparr>)"
    let ?h2 = "?h1\<lparr>free_pages := free_pages h @ [?p]\<rparr>"
    have s: "dealloc_pages (Suc i) h = dealloc_pages i ?h2" using True by (simp add: Let_def)
    have ad: "all_dead ?h2 = all_dead h" by (rule all_dead_cong) simp
    have sub: "set (pages ?h2) \<subseteq> set (pages h)" using set_take_subset set_drop_subset by fastforce
    have c: "cells ?h2 a = cells h a" if "a \<notin> set (page_cells ?p DATA_LEN)" for a
      using that by (simp add: free_page_cells)
    have len: "i \<le> length (pages ?h2)" using i by simp
    note ih = Suc.IH [OF len, unfolded ad]
    have pg: "take i (pages ?h2) = take i (pages h)" "drop i (pages ?h2) = drop (Suc i) (pages h)"
      using i by simp_all
    have "same_pages h (dealloc_pages i ?h2)"
      using ih unfolding same_pages_def by simp
    moreover have "cells (dealloc_pages i ?h2) a = cells h a"
      if a: "\<forall>p \<in> set (pages h). all_dead h p \<longrightarrow> a \<notin> set (page_cells p DATA_LEN)" for a
    proof -
      have "cells (dealloc_pages i ?h2) a = cells ?h2 a" using ih a sub by blast
      also have "\<dots> = cells h a" using a pin True c by blast
      finally show ?thesis .
    qed
    ultimately show ?thesis unfolding s using ih [unfolded pg] t True by simp
  qed
qed

lemma dealloc_empty_pages_spec:
  "same_pages h (dealloc_empty_pages h)"
  "pages (dealloc_empty_pages h) = filter (\<lambda>p. \<not> all_dead h p) (pages h)"
  "free_pages (dealloc_empty_pages h) = free_pages h @ rev (filter (all_dead h) (pages h))"
  "(\<And>p. p \<in> set (pages h) \<Longrightarrow> all_dead h p \<Longrightarrow> a \<notin> set (page_cells p DATA_LEN)) \<Longrightarrow>
     cells (dealloc_empty_pages h) a = cells h a"
  using dealloc_pages_spec [of "length (pages h)" h] by (simp_all add: dealloc_empty_pages_def)

lemma dealloc_pages_ok:
  assumes "pages_ok h"
  shows "pages_ok (dealloc_empty_pages h)"
proof -
  note d = dealloc_empty_pages_spec [of h]
  have "distinct (all_pages h)" using assms by (simp add: pages_ok_def)
  then have "distinct (all_pages (dealloc_empty_pages h))"
    using d(1) by (auto simp: all_pages_def d(2,3) same_pages_def)
  moreover have "set (all_pages (dealloc_empty_pages h)) = set (all_pages h)"
    using d(1) by (auto simp: all_pages_def d(2,3) same_pages_def)
  ultimately show ?thesis
    using assms d(1) by (simp add: pages_ok_def os_ok_def same_pages_def)
qed

lemma dead_page_unmarked:
  assumes "pages_ok h" "p \<in> set (heap_pages h)" "all_dead h p" "a \<in> set (page_cells p DATA_LEN)"
  shows "\<not> is_marked h a"
proof -
  obtain i where i: "i < DATA_LEN" "a = get_data_ptr p i" using assms(4) by (auto simp: page_cells_iff)
  then have "i div 64 < length (mark_bits h p)"
    using assms(1) by (simp add: pages_ok_def data_len SIZE_def)
  then have "mark_bits h p ! (i div 64) = 0"
    using assms(3) by (simp add: all_dead_def list_all_length)
  then show ?thesis using marked_bit [OF assms(1,2) i(1)] i(2) by simp
qed

lemma dealloc_marked:
  assumes ok: "pages_ok h"
  shows "marked (dealloc_empty_pages h) = marked h"
    "a \<in> marked h \<Longrightarrow> cells (dealloc_empty_pages h) a = cells h a"
proof -
  note d = dealloc_empty_pages_spec [of h]
  have im: "is_marked (dealloc_empty_pages h) b = is_marked h b" for b
    using d(1) by (simp add: is_marked_def same_pages_def)
  have dead: "\<not> is_marked h b"
    if "p \<in> set (pages h)" "all_dead h p" "b \<in> set (page_cells p DATA_LEN)" for p b
    using dead_page_unmarked [OF ok, of p b] that by (simp add: heap_pages_def)
  have "marked (dealloc_empty_pages h) \<subseteq> marked h"
    using d(1) by (auto simp: marked_def used_cells_def im d(2) same_pages_def)
  moreover have "marked h \<subseteq> marked (dealloc_empty_pages h)"
    using d(1) dead by (fastforce simp: marked_def used_cells_def im d(2) same_pages_def)
  ultimately show "marked (dealloc_empty_pages h) = marked h" ..
  show "cells (dealloc_empty_pages h) a = cells h a" if "a \<in> marked h"
    using that dead by (intro d(4)) (auto simp: marked_def)
qed

section \<open>A whole collection\<close>

definition collects :: "(rvalue \<Rightarrow> val list res) \<Rightarrow> 'm heap_scheme \<Rightarrow> val list \<Rightarrow> 'm heap_scheme \<Rightarrow> bool" where
  "collects refs h roots h' \<longleftrightarrow>
     heap_ok h' \<and> live h' = {a. reachable refs h (set roots) a} \<and>
     (\<forall>a. reachable refs h (set roots) a \<longrightarrow> cells h' a = cells h a) \<and>
     mark_counter h' = card {a. reachable refs h (set roots) a} \<and>
     gc_count h' = gc_count h + 1 \<and> \<not> alloc_flag h'"

lemma gc_collects:
  assumes ok: "heap_ok h" and closed: "heap_closed refs h" and roots: "list_all (wf_val h) roots"
  obtains h' where "gc refs h roots = Inr h'" "collects refs h roots h'"
proof -
  let ?R = "{a. reachable refs h (set roots) a}"
  have po: "pages_ok h" using ok by (simp add: heap_ok_def)
  obtain h1 where h1: "mark_all refs (clear_mark h) roots = Inr h1" "mark_only h h1"
      "marked h1 = ?R" "mark_counter h1 = card ?R"
    using mark_phase [OF po closed roots] .
  have po1: "pages_ok h1" using po mark_only_derived(4) [OF h1(2)] by simp
  let ?h2 = "dealloc_empty_pages h1"
  note d = dealloc_empty_pages_spec(1) [of h1, unfolded same_pages_def]
  obtain h3 where h3: "sweep ?h2 = Inr h3" "heap_ok h3" "live h3 = marked ?h2"
      "\<And>a. a \<in> marked ?h2 \<Longrightarrow> cells h3 a = cells ?h2 a" "mark_counter h3 = mark_counter ?h2"
      "gc_count h3 = gc_count ?h2"
    using sweep_heap [OF dealloc_pages_ok [OF po1]] by metis
  let ?h = "h3\<lparr>alloc_flag := False, gc_count := gc_count h3 + 1\<rparr>"
  note m = dealloc_marked [OF po1]
  have "cells h3 a = cells h a" if "a \<in> ?R" for a
    using that h3(4) m h1(3) mark_only_fields(1) [OF h1(2)] by simp
  moreover have "heap_ok ?h"
    using h3(2) pages_ok_cong [of ?h h3]
    by (simp add: heap_ok_def list_ok_def used_cells_def)
  moreover have "live ?h = ?R"
    using h3(3) m(1) h1(3) by (simp add: live_def free_list_def used_cells_def)
  moreover have "gc_count h1 = gc_count h" using h1(2) by (simp add: mark_only_def)
  ultimately have "collects refs h roots ?h"
    using h3(5,6) d h1(4) by (simp add: collects_def)
  then show ?thesis using that h1(1) h3(1) by (simp add: gc_def)
qed

lemma collected_closed:
  assumes "heap_closed refs h" "list_all (wf_val h) roots" "collects refs h roots h'"
  shows "heap_closed refs h'" "list_all (wf_val h') roots"
proof -
  note c = assms(3)[unfolded collects_def]
  have live: "a \<in> live h" if "reachable refs h (set roots) a" for a
    using that
  proof (induction rule: reachable.induct)
    case (root v)
    with assms(2) show ?case by (auto simp: wf_val_def list_all_iff)
  next
    case (ref a cs c)
    with assms(1) show ?case by (fastforce simp: heap_closed_def wf_val_def list_all_iff)
  qed
  show "list_all (wf_val h') roots"
    using c by (auto simp: wf_val_def list_all_iff intro: reachable.root)
  show "heap_closed refs h'"
    unfolding heap_closed_def
  proof
    fix a assume "a \<in> live h'"
    then have r: "reachable refs h (set roots) a" "cells h' a = cells h a" using c by auto
    with live assms(1) obtain cs where cs: "refs (box_inner (cells h a)) = Inr cs"
      unfolding heap_closed_def by blast
    have "wf_val h' x" if "x \<in> set cs" for x
      using that r(1) cs c by (auto simp: wf_val_def intro: reachable.ref)
    with cs r(2) show "\<exists>cs. refs (box_inner (cells h' a)) = Inr cs \<and> list_all (wf_val h') cs"
      by (auto simp: list_all_iff)
  qed
qed

section \<open>Properties\<close>

text \<open>C1. A garbage collection is correct: on a closed heap it returns, keeps the heap invariant and
  the heap closed, the objects still live afterwards are exactly those reachable from the roots, each
  unchanged, and everything else is on the free list or on an emptied page.\<close>

theorem gc_keeps_reachable:
  assumes "heap_ok h" "heap_closed (rvalue_values bx fuel) h" "list_all (wf_val h) roots"
  shows "\<exists>h'. gc (rvalue_values bx fuel) h roots = Inr h' \<and> heap_ok h' \<and>
    heap_closed (rvalue_values bx fuel) h' \<and> list_all (wf_val h') roots \<and>
    live h' = {a. reachable (rvalue_values bx fuel) h (set roots) a} \<and>
    (\<forall>a \<in> live h'. cells h' a = cells h a) \<and> gc_count h' = gc_count h + 1 \<and> \<not> alloc_flag h'"
proof -
  obtain h' where h': "gc (rvalue_values bx fuel) h roots = Inr h'"
      "collects (rvalue_values bx fuel) h roots h'"
    using gc_collects [OF assms] .
  with collected_closed [OF assms(2,3) h'(2)] show ?thesis by (auto simp: collects_def)
qed

definition no_boxes :: boxes where
  "no_boxes = \<lparr>contexts = Map.empty, exts = Map.empty\<rparr>"

lemma demo_refs:
  "rvalue_values no_boxes 1 (box_inner (cells demo_heap 0x40000)) = Inr [0x24]"
  "rvalue_values no_boxes 1 (box_inner (cells demo_heap 0x40040)) = Inr [0x24, 0x40000, 3]"
  "rvalue_values no_boxes 1 (box_inner (cells demo_heap 0x40080)) = Inr [0x24]"
  by (simp_all add: demo_heap_def rvalue_values_def kind_values_def gcbox_of_def rvalue_new_def
      nil_value_def)

lemma demo_tags:
  "\<not> is_packed_value 0x40040" "\<not> is_packed_value 0x40000" "is_packed_value 0x24"
  "is_packed_value 3"
  by code_simp+

lemma demo_heap_closed: "heap_closed (rvalue_values no_boxes 1) demo_heap"
proof -
  have "wf_val demo_heap 0x24" "wf_val demo_heap 3" "wf_val demo_heap 0x40000"
    by (simp_all add: wf_val_def demo_tags demo_heap_live)
  then show ?thesis
    by (auto simp: heap_closed_def demo_heap_live demo_refs simp del: One_nat_def)
qed

theorem gc_keeps_reachable_witness:
  "\<exists>h'. gc (rvalue_values no_boxes 1) demo_heap [0x40040] = Inr h' \<and>
     live h' = {0x40000, 0x40040} \<and> cells h' 0x40000 = cells demo_heap 0x40000"
proof -
  let ?refs = "rvalue_values no_boxes 1"
  have wf: "list_all (wf_val demo_heap) [0x40040]" by (simp add: wf_val_def demo_heap_live)
  from gc_keeps_reachable [OF demo_heap_ok demo_heap_closed wf] obtain h' where
    h': "gc ?refs demo_heap [0x40040] = Inr h'"
      "live h' = {a. reachable ?refs demo_heap {0x40040} a}"
      "\<forall>a \<in> live h'. cells h' a = cells demo_heap a"
    by auto
  have r: "reachable ?refs demo_heap {0x40040} 0x40040"
    by (rule reachable.root) (simp_all add: demo_tags)
  have "reachable ?refs demo_heap {0x40040} 0x40000"
    by (rule reachable.ref [OF r demo_refs(2)]) (simp_all add: demo_tags)
  moreover have "a \<in> {0x40040, 0x40000}" if "reachable ?refs demo_heap {0x40040} a" for a
    using that
  proof (induction rule: reachable.induct)
    case (ref a cs c)
    with demo_refs(1,2) show ?case using demo_tags by auto
  qed simp
  ultimately have "live h' = {0x40000, 0x40040}" using h'(2) r by blast
  with h' show ?thesis by auto
qed

text \<open>C28. Sweeping builds the free list of exactly the used cells without a mark, in the order of the
  pages and of the cells in a page, and counts them.\<close>

theorem sweep_free_list:
  assumes "pages_ok h"
  shows "\<exists>h'. sweep h = Inr h' \<and>
    free_list h' = filter (\<lambda>a. \<not> is_marked h a) (used_cells h) \<and>
    free_list_count h' = length (free_list h') \<and>
    (\<forall>a \<in> set (free_list h'). kind (mem h' a) = Invalid)"
proof -
  let ?u = "filter (\<lambda>a. \<not> is_marked h a) (used_cells h)"
  obtain s where s: "sweep h = Inr (h\<lparr>cells := sw_cells s, free := sw_anchor s,
       free_list_count := length ?u\<rparr>)" "linked (cells h) ?u s"
    using sweep_frees [OF assms] .
  let ?h = "h\<lparr>cells := sw_cells s, free := sw_anchor s, free_list_count := length ?u\<rparr>"
  have "chain (cells ?h) (free ?h) ?u" using s(2) by (simp add: linked_def)
  then have fl: "free_list ?h = ?u" by (rule free_listI) simp
  have "kind (mem ?h a) = Invalid" if "a \<in> set ?u" for a
  proof -
    have "mem ?h a = rvalue_free (mem h a)" using that s(2) by (simp add: linked_def mem_def)
    then show ?thesis by (simp add: rvalue_free_def)
  qed
  with fl s(1) show ?thesis by (intro exI [of _ ?h]) simp
qed

theorem sweep_free_list_witness:
  "\<exists>h'. sweep demo_heap = Inr h' \<and> free_list h' = [0x40000, 0x40040, 0x40080]"
proof -
  have ok: "pages_ok demo_heap" using demo_heap_ok by (simp add: heap_ok_def)
  from sweep_free_list [OF ok] obtain h' where h': "sweep demo_heap = Inr h'"
      "free_list h' = filter (\<lambda>a. \<not> is_marked demo_heap a) [0x40000, 0x40040, 0x40080]"
    unfolding demo_heap_used by blast
  have "\<not> is_marked demo_heap a" if "a \<in> set (used_cells demo_heap)" for a
  proof -
    have m: "mark_bits demo_heap p = replicate 63 0" for p
      by (simp only: demo_heap_def heap.simps)
    have "cell_index a div 64 < 63" using used_cell_facts(3) [OF ok that] by (simp add: data_len)
    from nth_replicate [OF this, of "0 :: u64"] show ?thesis unfolding is_marked_def m by simp
  qed
  with h' show ?thesis by (simp add: demo_heap_used)
qed

text \<open>The heaps a run produces: allocations and collections of a closed heap, from a new one.\<close>

inductive heap_run :: "(rvalue \<Rightarrow> val list res) \<Rightarrow> (nat \<Rightarrow> u64) \<Rightarrow> heap \<Rightarrow> bool"
  for refs :: "rvalue \<Rightarrow> val list res" and os :: "nat \<Rightarrow> u64" where
  new: "(\<And>p. length (bits p) = SIZE - 1) \<Longrightarrow> heap_new os m bits = Inr h \<Longrightarrow> heap_run refs os h"
| alloc: "heap_run refs os h \<Longrightarrow> alloc h d = Inr (h', a) \<Longrightarrow> heap_run refs os h'"
| gc: "heap_run refs os h \<Longrightarrow> heap_closed refs h \<Longrightarrow> list_all (wf_val h) roots \<Longrightarrow>
    gc refs h roots = Inr h' \<Longrightarrow> heap_run refs os h'"

text \<open>C24. The heap invariant holds in every state: if the system's allocator answers with aligned
  pages and never with the same one twice, then in whatever order a run allocates and collects, the
  pages and the free list stay well-formed.\<close>

theorem heap_run_ok:
  assumes "heap_run refs os h"
    and "\<And>n. os n \<noteq> 0 \<Longrightarrow> page_aligned (os n) \<and> (\<forall>m. os m = os n \<longrightarrow> m = n)"
  shows "heap_ok h"
  using assms(1)
proof (induction rule: heap_run.induct)
  case (new bits m h)
  from heap_new_ok(1) [OF new(2,1) assms(2)] show ?case .
next
  case (alloc h d h' a)
  from alloc_allocates [OF alloc.IH alloc.hyps(2)] show ?case by (simp add: allocates_def)
next
  case (gc h roots h')
  with gc_collects [of h refs roots] show ?case by (auto simp: collects_def)
qed

theorem heap_run_ok_witness:
  "\<exists>h h' a. heap_new (os_alloc demo_heap) (\<lambda>_. gcbox_of rvalue_new_invalid)
       (\<lambda>_. replicate (SIZE - 1) 0) = Inr h \<and>
     alloc h (rvalue_new nil_value Ordinary) = Inr (h', a) \<and> heap_ok h'"
proof -
  let ?os = "os_alloc demo_heap"
  have os: "?os n \<noteq> 0 \<Longrightarrow> page_aligned (?os n) \<and> (\<forall>m. ?os m = ?os n \<longrightarrow> m = n)" for n
    using demo_heap_ok by (simp add: heap_ok_def pages_ok_def os_ok_def)
  obtain h where h: "heap_new ?os (\<lambda>_. gcbox_of rvalue_new_invalid) (\<lambda>_. replicate (SIZE - 1) 0) = Inr h"
      "used_in_current h = 0" "free h = None"
    by (simp add: heap_new_def alloc_page_def demo_heap_def Let_def)
  have "is_ok (alloc h (rvalue_new nil_value Ordinary))"
    using h(2,3) by (simp add: alloc_def alloc_bump_def size_defs Let_def)
  then obtain h' a where a: "alloc h (rvalue_new nil_value Ordinary) = Inr (h', a)"
    by (auto simp: is_ok_iff)
  have "heap_run (rvalue_values no_boxes 1) ?os h"
    by (rule heap_run.new [OF _ h(1)]) simp
  then have "heap_run (rvalue_values no_boxes 1) ?os h'" using a by (rule heap_run.alloc)
  from heap_run_ok [OF this os] h(1) a show ?thesis by blast
qed

end
