(* ===== verification/Arguments.thy ===== *)
theory Arguments
  imports Values
begin

text \<open>
  src/vm/args.rs: the arguments of a call, and the checks of their number. An \<open>Args\<close> is the record
  \<open>args\<close> of theory RValue; its small vector is a list.
\<close>

definition args_new :: "nat \<Rightarrow> args" where
  "args_new len = \<lparr>a_block = BNone, kw_arg = NIL_VALUE, elems = replicate len NIL_VALUE\<rparr>"

definition args_from_slice :: "val list \<Rightarrow> args" where
  "args_from_slice data = \<lparr>a_block = BNone, kw_arg = NIL_VALUE, elems = data\<rparr>"

definition args_new0 :: args where
  "args_new0 = \<lparr>a_block = BNone, kw_arg = NIL_VALUE, elems = []\<rparr>"

definition args_new0_block :: "block \<Rightarrow> args" where
  "args_new0_block b = \<lparr>a_block = b, kw_arg = NIL_VALUE, elems = []\<rparr>"

definition args_new1 :: "val \<Rightarrow> args" where
  "args_new1 v = \<lparr>a_block = BNone, kw_arg = NIL_VALUE, elems = [v]\<rparr>"

definition args_new2 :: "val \<Rightarrow> val \<Rightarrow> args" where
  "args_new2 v w = \<lparr>a_block = BNone, kw_arg = NIL_VALUE, elems = [v, w]\<rparr>"

definition args_new3 :: "block \<Rightarrow> val \<Rightarrow> val \<Rightarrow> val \<Rightarrow> args" where
  "args_new3 b u v w = \<lparr>a_block = b, kw_arg = NIL_VALUE, elems = [u, v, w]\<rparr>"

definition args_len :: "args \<Rightarrow> nat" where
  "args_len a = length (elems a)"

definition args_push :: "val \<Rightarrow> args \<Rightarrow> args" where
  "args_push v a = a\<lparr>elems := elems a @ [v]\<rparr>"

definition args_append :: "val list \<Rightarrow> args \<Rightarrow> args" where
  "args_append vs a = a\<lparr>elems := elems a @ vs\<rparr>"

definition arg :: "args \<Rightarrow> nat \<Rightarrow> val res" where
  "arg a i = index_at (elems a) i"

section \<open>Checks\<close>

definition check_args_num :: "args \<Rightarrow> nat \<Rightarrow> unit res" where
  "check_args_num a num = (if args_len a = num then Inr () else argument_error)"

definition check_args_range :: "args \<Rightarrow> nat \<Rightarrow> nat \<Rightarrow> unit res" where
  "check_args_range a mn mx =
     (if mn \<le> args_len a \<and> args_len a \<le> mx then Inr () else argument_error)"

definition check_args_range_ofs :: "args \<Rightarrow> nat \<Rightarrow> nat \<Rightarrow> nat \<Rightarrow> unit res" where
  "check_args_range_ofs a offset mn mx =
     (let len = args_len a + offset in if mn \<le> len \<and> len \<le> mx then Inr () else argument_error)"

definition check_args_min :: "args \<Rightarrow> nat \<Rightarrow> unit res" where
  "check_args_min a mn = (if mn \<le> args_len a then Inr () else argument_error)"

definition expect_block :: "args \<Rightarrow> block res" where
  "expect_block a = (case a_block a of BNone \<Rightarrow> argument_error | b \<Rightarrow> Inr b)"

definition expect_no_block :: "args \<Rightarrow> unit res" where
  "expect_no_block a = (case a_block a of BNone \<Rightarrow> Inr () | _ \<Rightarrow> argument_error)"

lemmas args_defs [model_defs] =
  args_new_def args_from_slice_def args_new0_def args_new0_block_def args_new1_def args_new2_def
  args_new3_def args_len_def args_push_def args_append_def

lemma check_ok [simp]:
  "check_args_num a n = Inr () \<longleftrightarrow> length (elems a) = n"
  "check_args_range a mn mx = Inr () \<longleftrightarrow> mn \<le> length (elems a) \<and> length (elems a) \<le> mx"
  "check_args_range_ofs a k mn mx = Inr () \<longleftrightarrow> mn \<le> length (elems a) + k \<and> length (elems a) + k \<le> mx"
  "check_args_min a mn = Inr () \<longleftrightarrow> mn \<le> length (elems a)"
  by (simp_all add: check_args_num_def check_args_range_def check_args_range_ofs_def check_args_min_def
      args_len_def argument_error_def Let_def)

end
