(* ===== verification/Arrays.thy ===== *)
theory Arrays
  imports Arguments Arith
begin

text \<open>
  src/value/array.rs: element access by index, by start and length and by range, assignment,
  iteration and \<open>retain\<close>. An operation works on the array object at an address, in the heap; the
  exhaustion of memory by a long padding is not modelled.
\<close>

definition elements :: "'m hs \<Rightarrow> val \<Rightarrow> val list res" where
  "elements h a = (case kind (mem h a) of Array xs \<Rightarrow> Inr xs | _ \<Rightarrow> Inl Panic)"

definition set_elements :: "val \<Rightarrow> val list \<Rightarrow> ('m, unit) heff" where
  "set_elements a xs = modify (update_object (\<lambda>r. r\<lparr>kind := Array xs\<rparr>) a)"

definition new_array :: "builtin_class \<Rightarrow> val list \<Rightarrow> ('m, val) heff" where
  "new_array bc xs = steps (\<lambda>h. array_from bc alloc h xs)"

section \<open>Reading\<close>

text \<open>The index of a negative number counts from the end.\<close>

definition get_array_index :: "i64 \<Rightarrow> nat \<Rightarrow> nat res" where
  "get_array_index index len =
     (if index <s 0 then
        let i = of_nat len + index
        in if i <s 0 then Inl (Raise Internal) else Inr (unat i)
      else Inr (unat index))"

definition get_elem_imm :: "val list \<Rightarrow> u32 \<Rightarrow> val" where
  "get_elem_imm xs index = (if length xs \<le> unat index then NIL_VALUE else xs ! unat index)"

definition elem_at_index :: "val list \<Rightarrow> i64 \<Rightarrow> val" where
  "elem_at_index xs i =
     (let index = unwrap_or (get_array_index i (length xs)) (length xs)
      in if length xs \<le> index then NIL_VALUE else xs ! index)"

text \<open>A range: \<open>None\<close> is \<open>nil\<close>. The casts to \<open>usize\<close> wrap what is still negative.\<close>

definition range_start :: "nat \<Rightarrow> i64 \<Rightarrow> i64" where
  "range_start len i = (if i <s 0 then of_nat len + i else i)"

definition range_end :: "nat \<Rightarrow> i64 \<Rightarrow> bool \<Rightarrow> nat" where
  "range_end len i excl =
     (if 0 <=s i then min len (unat i + (if excl then 0 else 1))
      else unat (of_nat len + i + (if excl then 0 else 1)))"

definition elems_of_range :: "memory \<Rightarrow> val list \<Rightarrow> range_info \<Rightarrow> val list option res" where
  "elems_of_range m xs r =
     rbind (expect_integer m (rstart r)) (\<lambda>i.
     let len = length xs; i_start = range_start len i in
       if of_nat len <s i_start then Inr None
       else if of_nat len = i_start then Inr (Some [])
       else
         rbind (expect_integer m (rend r)) (\<lambda>e.
         let start = unat i_start; ende = range_end len e (exclude r) in
           if ende \<le> start then Inr (Some [])
           else rbind (vslice xs start ende) (\<lambda>ys. Inr (Some ys))))"

definition get_elem1 :: "builtin_class \<Rightarrow> val list \<Rightarrow> val \<Rightarrow> ('m, val) heff" where
  "get_elem1 bc xs idx =
     bind (asks (\<lambda>h. Inr (as_integer (mem h) idx, as_range (mem h) idx))) (\<lambda>q.
       case q of
         (Some i, _) \<Rightarrow> ret (elem_at_index xs i)
       | (None, Some r) \<Rightarrow>
           bind (asks (\<lambda>h. elems_of_range (mem h) xs r)) (\<lambda>ys.
             case ys of Some ys \<Rightarrow> new_array bc ys | None \<Rightarrow> ret NIL_VALUE)
       | (None, None) \<Rightarrow> asks (\<lambda>h. wrong_type (mem h) idx))"

definition get_elem :: "builtin_class \<Rightarrow> val list \<Rightarrow> args \<Rightarrow> ('m, val) heff" where
  "get_elem bc xs a =
     bind (asks (\<lambda>_. check_args_range a 1 2)) (\<lambda>_.
       if args_len a = 1 then get_elem1 bc xs (elems a ! 0)
       else
         bind (asks (\<lambda>h. expect_integer (mem h) (elems a ! 0))) (\<lambda>i.
         bind (asks (\<lambda>h. expect_integer (mem h) (elems a ! 1))) (\<lambda>len.
           let index = unwrap_or (get_array_index i (length xs)) (length xs) in
             if len <s 0 then ret NIL_VALUE
             else if length xs \<le> index then new_array bc []
             else new_array bc (take (unat len) (drop index xs)))))"

section \<open>Writing\<close>

text \<open>Assignment beyond the end pads with \<open>nil\<close>.\<close>

definition put_at :: "val list \<Rightarrow> nat \<Rightarrow> val \<Rightarrow> val list" where
  "put_at xs i v =
     (if length xs \<le> i then xs @ replicate (i - length xs) NIL_VALUE @ [v] else xs[i := v])"

definition put_index :: "val list \<Rightarrow> i64 \<Rightarrow> val \<Rightarrow> val list res" where
  "put_index xs index v =
     (if of_nat (length xs) <=s index then Inr (put_at xs (unat index) v)
      else rbind (get_array_index index (length xs)) (\<lambda>i. Inr (xs[i := v])))"

definition set_elem1 :: "val \<Rightarrow> val \<Rightarrow> val \<Rightarrow> ('m, val) heff" where
  "set_elem1 a idx v =
     bind (asks (\<lambda>h. expect_integer (mem h) idx)) (\<lambda>index.
     bind (asks (\<lambda>h. elements h a)) (\<lambda>xs.
     bind (asks (\<lambda>_. put_index xs index v)) (\<lambda>ys.
     bind (set_elements a ys) (\<lambda>_. ret v))))"

definition set_elem_imm :: "val \<Rightarrow> u32 \<Rightarrow> val \<Rightarrow> ('m, unit) heff" where
  "set_elem_imm a index v =
     bind (asks (\<lambda>h. elements h a)) (\<lambda>xs. set_elements a (put_at xs (unat index) v))"

text \<open>
  Start and length: the elements of an array, or any other value, replace a part. The elements of
  an array are read when the front is already cut off, which shows when it is the array itself.
\<close>

definition set_elem3 :: "val \<Rightarrow> i64 \<Rightarrow> val \<Rightarrow> val \<Rightarrow> ('m, unit) heff" where
  "set_elem3 a i lenv v =
     bind (asks (\<lambda>h. elements h a)) (\<lambda>xs.
     bind (asks (\<lambda>_. get_array_index i (length xs))) (\<lambda>index.
     bind (asks (\<lambda>h. expect_integer (mem h) lenv)) (\<lambda>len.
       if len <s 0 then raise (Raise (RuntimeErr Index))
       else
         let ende = min (length xs) (index + unat len) in
         bind (asks (\<lambda>h. Inr (as_array (mem h) v))) (\<lambda>o1.
           case o1 of
             Some b \<Rightarrow>
               bind (set_elements a (take index (take ende xs))) (\<lambda>_.
               bind (asks (\<lambda>h. elements h b)) (\<lambda>ys.
               set_elements a (take index (take ende xs) @ ys @ drop ende xs)))
           | None \<Rightarrow>
               if ende < index then raise Panic
               else set_elements a (take index xs @ v # drop ende xs)))))"

definition set_elem :: "val \<Rightarrow> args \<Rightarrow> ('m, val) heff" where
  "set_elem a args =
     bind (asks (\<lambda>_. check_args_range args 2 3)) (\<lambda>_.
     bind (asks (\<lambda>h. expect_integer (mem h) (elems args ! 0))) (\<lambda>index.
       if args_len args = 2 then
         bind (asks (\<lambda>h. elements h a)) (\<lambda>xs.
         bind (asks (\<lambda>_. put_index xs index (elems args ! 1))) (\<lambda>ys.
         bind (set_elements a ys) (\<lambda>_. ret (elems args ! 1))))
       else
         bind (set_elem3 a index (elems args ! 1) (elems args ! 2)) (\<lambda>_. ret (elems args ! 2))))"

section \<open>Iterating\<close>

text \<open>\<open>each\<close> reads the length once and every element when it is due.\<close>

fun each_from :: "(val \<Rightarrow> ('m, unit) heff) \<Rightarrow> val \<Rightarrow> nat list \<Rightarrow> ('m, unit) heff" where
  "each_from f a [] = ret ()"
| "each_from f a (i # js) =
     bind (asks (\<lambda>h. rbind (elements h a) (\<lambda>xs. index_at xs i))) (\<lambda>v.
     bind (f v) (\<lambda>_. each_from f a js))"

definition array_each :: "(val \<Rightarrow> ('m, unit) heff) \<Rightarrow> val \<Rightarrow> ('m, unit) heff" where
  "array_each f a = bind (asks (\<lambda>h. elements h a)) (\<lambda>xs. each_from f a [0..<length xs])"

text \<open>
  \<open>retain\<close> moves what stays to the front by swaps, and truncates at the end. The slice it works on
  is \<open>v\<close>; an error of \<open>f\<close> leaves it as it is.
\<close>

definition swap :: "nat \<Rightarrow> nat \<Rightarrow> 'a list \<Rightarrow> 'a list" where
  "swap i j v = v[i := v ! j, j := v ! i]"

fun retain_loop ::
    "(val \<Rightarrow> ('s, bool) eff) \<Rightarrow> val list \<Rightarrow> nat \<Rightarrow> nat list \<Rightarrow> 's \<Rightarrow> 's \<times> val list \<times> nat res" where
  "retain_loop f v del [] s = (s, v, Inr del)"
| "retain_loop f v del (i # js) s =
     (case f (v ! i) s of
        (s', Inl e) \<Rightarrow> (s', v, Inl e)
      | (s', Inr keep) \<Rightarrow>
          if \<not> keep then retain_loop f v (del + 1) js s'
          else retain_loop f (if 0 < del then swap (i - del) i v else v) del js s')"

definition retain :: "(val \<Rightarrow> ('m, bool) heff) \<Rightarrow> val \<Rightarrow> ('m, unit) heff" where
  "retain f a =
     bind (asks (\<lambda>h. elements h a)) (\<lambda>xs h.
       case retain_loop f xs 0 [0..<length xs] h of
         (h', v, Inl e) \<Rightarrow> (fst (set_elements a v h'), Inl e)
       | (h', v, Inr del) \<Rightarrow>
           set_elements a (if 0 < del then take (length xs - del) v else v) h')"

end
