(* ===== verification/ArrayFacts.thy ===== *)
theory ArrayFacts
  imports Arrays "HOL-Library.Multiset"
begin

text \<open>
  What the element accesses of theory Arrays compute, against plain lists: indices count from
  either end, an assignment is read back and changes nothing else, \<open>retain\<close> is a filter, and a
  range that ends before the array begins panics.
\<close>

section \<open>Indices\<close>

lemma sint_of_nat_64: "n < 2 ^ 63 \<Longrightarrow> sint (of_nat n :: i64) = int n"
  by (simp add: sint_uint signed_take_bit_int_eq_self uint_nat unat_of_nat_64)

lemma unat_nonneg: "0 \<le> sint (i :: i64) \<Longrightarrow> unat i = nat (sint i)"
proof -
  assume "0 \<le> sint i"
  moreover have "uint i = take_bit 64 (sint i)" using uint_sint [of i] by simp
  moreover have "sint i < 2 ^ 63" using sint_lt [of i] by simp
  ultimately show ?thesis by (simp add: unat_eq_nat_uint take_bit_int_eq_self)
qed

lemma sint_add_len:
  assumes "n < 2 ^ 63" "sint (i :: i64) < 0"
  shows "sint (of_nat n + i) = int n + sint i"
proof -
  have "- (2 ^ 63) \<le> sint i" using sint_ge [of i] by simp
  then show ?thesis
    using assms sint_of_nat_64 [OF assms(1)]
    by (simp add: sint_word_add signed_take_bit_int_eq_self)
qed

lemma get_array_index_eq:
  assumes "n < 2 ^ 63"
  shows "get_array_index i n =
    (if sint i < 0 then
       if int n + sint i < 0 then Inl (Raise Internal) else Inr (nat (int n + sint i))
     else Inr (nat (sint i)))"
  using assms sint_add_len [OF assms, of i]
  by (auto simp: get_array_index_def word_sless_alt Let_def unat_nonneg)

text \<open>The position an index stands for, if it is one of the array's.\<close>

definition position :: "nat \<Rightarrow> int \<Rightarrow> nat option" where
  "position n i =
     (if 0 \<le> i \<and> i < int n then Some (nat i)
      else if - int n \<le> i \<and> i < 0 then Some (nat (int n + i))
      else None)"

lemma position_less: "position n i = Some k \<Longrightarrow> k < n"
  by (auto simp: position_def split: if_splits)

lemma elem_at_index_eq:
  assumes "length xs < 2 ^ 63"
  shows "elem_at_index xs i =
    (case position (length xs) (sint i) of Some k \<Rightarrow> xs ! k | None \<Rightarrow> NIL_VALUE)"
  by (auto simp: elem_at_index_def get_array_index_eq [OF assms] position_def Let_def)

lemma put_index_eq:
  assumes "length xs < 2 ^ 63"
  shows "put_index xs i v =
    (if int (length xs) \<le> sint i then
       Inr (xs @ replicate (nat (sint i) - length xs) NIL_VALUE @ [v])
     else case position (length xs) (sint i) of
            Some k \<Rightarrow> Inr (xs[k := v])
          | None \<Rightarrow> Inl (Raise Internal))"
  using assms
  by (auto simp: put_index_def put_at_def word_sle_eq sint_of_nat_64 get_array_index_eq [OF assms]
      unat_nonneg position_def)

section \<open>retain\<close>

lemma swap_mset: "i < length v \<Longrightarrow> j < length v \<Longrightarrow> mset (swap i j v) = mset v"
  by (simp add: swap_def mset_swap [of j v i] list_update_swap [of i j] cong: if_cong)

lemma swap_nth:
  "i < length v \<Longrightarrow> j < length v \<Longrightarrow>
     swap i j v ! k = (if k = j then v ! i else if k = i then v ! j else v ! k)"
  by (simp add: swap_def nth_list_update)

lemma swap_length [simp]: "length (swap i j v) = length v"
  by (simp add: swap_def)

text \<open>Whatever \<open>f\<close> does, the slice is a permutation of what it was.\<close>

lemma retain_loop_mset:
  "\<lbrakk>retain_loop f v del [i..<length v] s = (s', w, r); del \<le> i\<rbrakk> \<Longrightarrow> mset w = mset v"
proof (induction "length v - i" arbitrary: v del i s)
  case 0
  then show ?case by simp
next
  case (Suc n)
  then have i: "i < length v" by simp
  let ?v = "if 0 < del then swap (i - del) i v else v"
  have m: "mset ?v = mset v" "length ?v = length v" using i by (simp_all add: swap_mset)
  obtain s1 b where f: "f (v ! i) s = (s1, b)" by fastforce
  show ?case
  proof (cases b)
    case (Inr keep)
    have "mset w = mset (if keep then ?v else v)"
      using Suc.prems Suc.hyps(2) i f Inr m
      by (intro Suc.hyps(1) [of _ "Suc i" "if keep then del else del + 1" s1]) (auto simp: upt_conv_Cons)
    with m show ?thesis by simp
  qed (use Suc.prems i f in \<open>simp add: upt_conv_Cons\<close>)
qed

text \<open>With a predicate that has no effect, the front is what passed so far.\<close>

lemma retain_loop_filter:
  assumes "\<And>x s. f x s = (s, Inr (p x))"
  shows "\<lbrakk>xs = us @ ws; v = filter p us @ zs @ ws; length zs = del; del = length (filter (\<lambda>x. \<not> p x) us)\<rbrakk> \<Longrightarrow>
    \<exists>zs'. retain_loop f v del [length us..<length xs] s =
      (s, filter p xs @ zs', Inr (length (filter (\<lambda>x. \<not> p x) xs)))"
proof (induction ws arbitrary: us zs v del)
  case Nil
  then show ?case by auto
next
  case (Cons w ws)
  let ?i = "length us"
  have lf: "length (filter p us) + del = ?i"
    using Cons.prems(4) sum_length_filter_compl [of p us] by simp
  have i: "?i < length xs" using Cons.prems(1) by simp
  have vi: "v ! ?i = w"
    using Cons.prems(2,3) lf nth_append_length [of "filter p us @ zs" w ws] by simp
  have fv: "f (v ! ?i) s = (s, Inr (p w))" using vi assms [of w s] by simp
  show ?case
  proof (cases "p w")
    case False
    have "\<exists>zs'. retain_loop f v (del + 1) [length (us @ [w])..<length xs] s =
      (s, filter p xs @ zs', Inr (length (filter (\<lambda>x. \<not> p x) xs)))"
      using Cons.prems False by (intro Cons.IH [of "us @ [w]" v "zs @ [w]"]) auto
    with i False fv show ?thesis by (simp add: upt_conv_Cons)
  next
    case True
    let ?v = "if 0 < del then swap (?i - del) ?i v else v"
    have "\<exists>zs''. ?v = filter p (us @ [w]) @ zs'' @ ws \<and> length zs'' = del"
    proof (cases zs)
      case Nil
      then show ?thesis using Cons.prems True by auto
    next
      case (Cons z zs2)
      have k: "?i - del = length (filter p us)" using lf by simp
      have "length us - length (filter p us) = Suc (length zs2)" using lf Cons Cons.prems(3) by simp
      note k = k this
      have "swap (?i - del) ?i v = filter p us @ w # zs2 @ z # ws"
        using Cons.prems(2,3) lf Cons vi k
        by (intro nth_equalityI)
          (auto simp: swap_nth nth_append nth_Cons' Cons.prems split: if_splits)
      then show ?thesis using True Cons Cons.prems(3) by (intro exI [of _ "zs2 @ [z]"]) auto
    qed
    then obtain zs'' where z: "?v = filter p (us @ [w]) @ zs'' @ ws" "length zs'' = del" by blast
    have "\<exists>zs'. retain_loop f ?v del [length (us @ [w])..<length xs] s =
      (s, filter p xs @ zs', Inr (length (filter (\<lambda>x. \<not> p x) xs)))"
      using Cons.prems True z by (intro Cons.IH [of "us @ [w]" ?v zs'']) auto
    with i True fv show ?thesis by (simp add: upt_conv_Cons)
  qed
qed

section \<open>Ranges\<close>

lemma unat_of_neg: "sint (i :: i64) < 0 \<Longrightarrow> 2 ^ 63 \<le> unat i"
proof -
  assume "sint i < 0"
  moreover have "uint i = take_bit 64 (sint i)" using uint_sint [of i] by simp
  moreover have "- (2 ^ 63) \<le> sint i" using sint_ge [of i] by simp
  moreover from this \<open>sint i < 0\<close> have "(sint i + 2 ^ 64) mod 2 ^ 64 = sint i + 2 ^ 64"
    by (intro mod_pos_pos_trivial) simp_all
  then have "sint i mod 2 ^ 64 = sint i + 2 ^ 64" by (metis mod_add_self2)
  ultimately have "uint i = sint i + 2 ^ 64" by (simp add: take_bit_eq_mod)
  then show ?thesis using \<open>- (2 ^ 63) \<le> sint i\<close> by (simp add: unat_eq_nat_uint)
qed

text \<open>The last position of a range, one past it: what Ruby means by it.\<close>

definition range_stop :: "nat \<Rightarrow> int \<Rightarrow> bool \<Rightarrow> int" where
  "range_stop n e excl =
     (if 0 \<le> e then min (int n) (e + (if excl then 0 else 1)) else int n + e + (if excl then 0 else 1))"

lemma range_end_eq:
  assumes "n < 2 ^ 62"
  shows "0 \<le> range_stop n (sint e) x \<Longrightarrow> range_end n e x = nat (range_stop n (sint e) x)"
    "range_stop n (sint e) x < 0 \<Longrightarrow> n < range_end n e x"
proof -
  let ?k = "if x then 0 else 1 :: i64"
  have n: "n < 2 ^ 63" using assms by simp
  have w: "sint (of_nat n + e + ?k) = int n + sint e + (if x then 0 else 1)" if "sint e < 0"
  proof -
    have "sint (of_nat n + e) = int n + sint e" using n that by (rule sint_add_len)
    moreover have "- (2 ^ 63) \<le> sint e" using sint_ge [of e] by simp
    ultimately show ?thesis
      using that assms by (simp add: sint_word_add signed_take_bit_int_eq_self)
  qed
  show "range_end n e x = nat (range_stop n (sint e) x)" if "0 \<le> range_stop n (sint e) x"
  proof (cases "0 \<le> sint e")
    case True
    then show ?thesis
      by (auto simp: range_end_def range_stop_def word_sle_eq unat_nonneg min_def nat_add_distrib)
  next
    case False
    with that have "0 \<le> sint (of_nat n + e + ?k)" by (simp add: w range_stop_def)
    then have "unat (of_nat n + e + ?k) = nat (sint (of_nat n + e + ?k))" by (rule unat_nonneg)
    with False show ?thesis using w by (simp add: range_end_def range_stop_def word_sle_eq)
  qed
  show "n < range_end n e x" if "range_stop n (sint e) x < 0"
  proof -
    have "sint e < 0" using that by (auto simp: range_stop_def split: if_splits)
    with that have "sint (of_nat n + e + ?k) < 0" by (simp add: w range_stop_def)
    then have "2 ^ 63 \<le> unat (of_nat n + e + ?k)" by (rule unat_of_neg)
    with \<open>sint e < 0\<close> assms show ?thesis by (simp add: range_end_def word_sle_eq)
  qed
qed

section \<open>The heap\<close>

lemma set_elements_ok: "elements (fst (set_elements a ys h)) a = Inr ys"
  by (simp add: set_elements_def elements_def update_object_def write_cell_def mem_def)

section \<open>Properties\<close>

text \<open>C20. An assignment to an element is read back at that index, and every other position reads as
  before; the array grows to hold the index, and what is between is \<open>nil\<close>.\<close>

theorem array_put_get:
  assumes "length xs < 2 ^ 63" "length ys < 2 ^ 63" "put_index xs i v = Inr ys" "0 \<le> sint j"
  shows "elem_at_index ys i = v \<and> int (length ys) = max (int (length xs)) (sint i + 1) \<and>
    elem_at_index ys j =
      (if sint j = (if sint i < 0 then int (length xs) + sint i else sint i) then v
       else elem_at_index xs j)"
  using assms(3,4) position_less [of "length xs" "sint i"]
  by (auto simp: elem_at_index_eq [OF assms(1)] elem_at_index_eq [OF assms(2)] put_index_eq [OF assms(1)]
      position_def nth_append nth_list_update split: if_splits option.splits)

theorem array_put_get_witness:
  "\<exists>ys. put_index [5, 7] 3 9 = Inr ys \<and> elem_at_index ys 3 = 9 \<and> elem_at_index ys 2 = NIL_VALUE \<and>
    elem_at_index ys 1 = 7"
proof -
  have "put_index [5, 7] 3 9 = Inr [5, 7, NIL_VALUE, 9]" by code_simp
  with array_put_get [of "[5, 7]" "[5, 7, NIL_VALUE, 9]" 3 9 3]
    array_put_get [of "[5, 7]" "[5, 7, NIL_VALUE, 9]" 3 9 2]
    array_put_get [of "[5, 7]" "[5, 7, NIL_VALUE, 9]" 3 9 1]
  show ?thesis by (simp add: elem_at_index_eq position_def)
qed

text \<open>C40. Indexing with a range that starts inside the array: the slice Ruby means when the range ends
  at or after the beginning of the array, and a panic of the interpreter when it ends before it.\<close>

theorem range_slice:
  assumes "length xs < 2 ^ 62" "expect_integer m (rstart r) = Inr s" "expect_integer m (rend r) = Inr e"
    and "0 \<le> sint (range_start (length xs) s)" "sint (range_start (length xs) s) < int (length xs)"
  shows "elems_of_range m xs r =
    (let a = nat (sint (range_start (length xs) s)); b = range_stop (length xs) (sint e) (exclude r)
     in if b < 0 then Inl Panic else Inr (Some (take (nat b - a) (drop a xs))))"
proof -
  let ?n = "length xs" and ?s = "range_start (length xs) s"
  have n: "?n < 2 ^ 63" using assms(1) by simp
  have a: "unat ?s = nat (sint ?s)" using assms(4) by (rule unat_nonneg)
  have "of_nat ?n \<noteq> ?s" using assms(5) sint_of_nat_64 [OF n] by auto
  moreover have "\<not> of_nat ?n <s ?s" using assms(5) sint_of_nat_64 [OF n] by (simp add: word_sless_alt)
  moreover have "range_stop ?n (sint e) (exclude r) \<le> int ?n" by (auto simp: range_stop_def)
  ultimately show ?thesis
    using assms(2-5) a range_end_eq [OF assms(1), of e "exclude r"]
    by (cases "range_stop ?n (sint e) (exclude r) < 0")
      (auto simp: elems_of_range_def Let_def vslice_def)
qed

theorem range_slice_witness:
  "elems_of_range (\<lambda>_. rvalue_new_invalid) [5, 7] \<lparr>rstart = 1, rend = - 7, exclude = False\<rparr> = Inl Panic"
proof -
  have "expect_integer (\<lambda>_. rvalue_new_invalid) 1 = Inr 0"
    "expect_integer (\<lambda>_. rvalue_new_invalid) (- 7) = Inr (- 4)" by code_simp+
  from range_slice [of "[5, 7]" "\<lambda>_. rvalue_new_invalid" "\<lparr>rstart = 1, rend = - 7, exclude = False\<rparr>" 0 "- 4"]
    this
  show ?thesis by (simp add: range_start_def range_stop_def)
qed

text \<open>C39. \<open>retain\<close> with a block without effects keeps exactly the elements that pass, in their order.\<close>

theorem retain_filter:
  assumes "elements h a = Inr xs"
  shows "snd (retain (\<lambda>x. ret (p x)) a h) = Inr () \<and>
    elements (fst (retain (\<lambda>x. ret (p x)) a h)) a = Inr (filter p xs)"
proof -
  obtain zs where r: "retain_loop (\<lambda>x. ret (p x)) xs 0 [0..<length xs] h =
      (h, filter p xs @ zs, Inr (length (filter (\<lambda>x. \<not> p x) xs)))"
    using retain_loop_filter [of "\<lambda>x. ret (p x)" p xs "[]" xs xs "[]" 0 h] by auto
  have "mset (filter p xs @ zs) = mset xs" using retain_loop_mset [OF r] by simp
  then have "length (filter p xs @ zs) = length xs" by (metis size_mset)
  then have "length (filter (\<lambda>x. \<not> p x) xs) = 0 \<Longrightarrow> zs = []"
    "length xs - length (filter (\<lambda>x. \<not> p x) xs) = length (filter p xs)"
    using sum_length_filter_compl [of p xs] by auto
  then show ?thesis
    using r assms by (auto simp: retain_def bind_def set_elements_ok) (simp_all add: set_elements_def)
qed

theorem retain_filter_witness:
  "\<exists>h :: heap. elements h 64 = Inr [1, 3, 5] \<and>
    elements (fst (retain (\<lambda>x. ret (x \<noteq> 3)) 64 h)) 64 = Inr [1, 5]"
proof -
  let ?h = "fst (set_elements 64 [1, 3, 5] (undefined :: heap))"
  have "elements ?h 64 = Inr [1, 3, 5]" by (rule set_elements_ok)
  with retain_filter [of ?h 64 "[1, 3, 5]" "\<lambda>x. x \<noteq> 3"] show ?thesis by auto
qed

end
