(* ===== verification/Methods.thy ===== *)
theory Methods
  imports Collector IdTable
begin

text \<open>
  src/vm/method.rs, the tables: the method repository, the inline caches and the global method
  cache. \<open>store\<close> extends the heap with them and with the class extensions of
  src/value/class.rs, which are boxed outside the collector's heap: \<open>box_addr n\<close> is the address of
  the \<open>n\<close>-th box and \<open>boxes_made\<close> their number. The lookup functions are in theories Classes and
  MethodCache. The counters of the feature \<open>perf-method\<close> are not modelled.

  A method number is never 0 (\<open>NonZeroU32\<close>). A native function is named by a number of its own.
\<close>

datatype native = Enumerator_iterate | Native nat

datatype method_info =
    RubyFunc iseq_info
  | AttrReader u32
  | AttrWriter u32
  | BuiltinFunc u32 native
  | VoidM

record inline_entry =
  ic_version :: u32
  ic_class :: val
  ic_method :: u32

record cache_entry =
  mc_method :: u32
  mc_version :: u32

record store = heap +
  ext_store :: "u64 \<Rightarrow> class_ext option"
  box_addr :: "nat \<Rightarrow> u64"
  boxes_made :: nat
  methods :: "method_info list"
  class_version :: u32
  ic_table :: "inline_entry option list"
  ic_id :: u32
  m_cache :: "val \<times> u32 \<Rightarrow> cache_entry option"

type_synonym 'm st = "'m store_scheme"
type_synonym ('m, 'a) seff = "('m st, 'a) eff"

definition METHOD_ENUM :: u32 where "METHOD_ENUM = 2"

section \<open>The repository\<close>

definition repo_table_new :: "method_info list" where
  "repo_table_new = [VoidM, VoidM, BuiltinFunc ENUM_FUNC_ID Enumerator_iterate]"

definition method_id_new :: "u32 \<Rightarrow> u32 res" where
  "method_id_new i = (if i = 0 then Inl Panic else Inr i)"

definition repo_add :: "method_info \<Rightarrow> ('m, u32) seff" where
  "repo_add info =
     bind (modify (\<lambda>h. h\<lparr>methods := methods h @ [info]\<rparr>)) (\<lambda>_.
     asks (\<lambda>h. method_id_new (of_nat (length (methods h) - 1))))"

definition repo_get :: "u32 \<Rightarrow> ('m, method_info) seff" where
  "repo_get i = asks (\<lambda>h. index_at (methods h) (unat i))"

definition repo_update :: "u32 \<Rightarrow> method_info \<Rightarrow> ('m, unit) seff" where
  "repo_update i info =
     bind (repo_get i) (\<lambda>_. modify (\<lambda>h. h\<lparr>methods := (methods h)[unat i := info]\<rparr>))"

definition inc_class_version :: "('m, unit) seff" where
  "inc_class_version = modify (\<lambda>h. h\<lparr>class_version := class_version h + 1\<rparr>)"

text \<open>\<open>MethodInfo::as_iseq\<close>, \<open>MethodId::as_iseq\<close>, and the two tests of \<open>ISeqInfo\<close>.\<close>

definition info_as_iseq :: "method_info \<Rightarrow> iseq_info res" where
  "info_as_iseq m = (case m of RubyFunc s \<Rightarrow> Inr s | _ \<Rightarrow> Inl Panic)"

definition as_iseq :: "u32 \<Rightarrow> ('m, iseq_info) seff" where
  "as_iseq i = bind (repo_get i) (\<lambda>m. asks (\<lambda>_. info_as_iseq m))"

definition is_block :: "iseq_info \<Rightarrow> bool" where
  "is_block s = (case ikind s of BlockK \<Rightarrow> True | _ \<Rightarrow> False)"

definition is_method :: "iseq_info \<Rightarrow> bool" where
  "is_method s = (case ikind s of MethodK _ \<Rightarrow> True | _ \<Rightarrow> False)"

definition is_opt :: "iseq_params \<Rightarrow> bool" where
  "is_opt p \<longleftrightarrow>
     opt p = 0 \<and> rest p = None \<and> post p = 0 \<and> \<not> has_block p \<and> keyword p = [] \<and> \<not> kwrest p"

section \<open>The inline caches\<close>

definition ic_add_entry :: "('m, u32) seff" where
  "ic_add_entry =
     bind (modify (\<lambda>h. h\<lparr>ic_id := ic_id h + 1, ic_table := ic_table h @ [None]\<rparr>)) (\<lambda>_.
     asks (\<lambda>h. Inr (ic_id h - 1)))"

definition ic_get_entry :: "'m st \<Rightarrow> u32 \<Rightarrow> inline_entry option res" where
  "ic_get_entry h i = index_at (ic_table h) (unat i)"

definition ic_update_entry :: "u32 \<Rightarrow> inline_entry \<Rightarrow> ('m, unit) seff" where
  "ic_update_entry i e =
     bind (asks (\<lambda>h. ic_get_entry h i)) (\<lambda>_.
     modify (\<lambda>h. h\<lparr>ic_table := (ic_table h)[unat i := Some e]\<rparr>))"

section \<open>The global cache\<close>

definition mc_add_entry :: "val \<Rightarrow> u32 \<Rightarrow> u32 \<Rightarrow> u32 \<Rightarrow> ('m, unit) seff" where
  "mc_add_entry class i version method =
     modify (\<lambda>h. h\<lparr>m_cache := (m_cache h)((class, i) \<mapsto>
       \<lparr>mc_method = method, mc_version = version\<rparr>)\<rparr>)"

definition mc_get_entry :: "'m st \<Rightarrow> val \<Rightarrow> u32 \<Rightarrow> cache_entry option" where
  "mc_get_entry h class i = m_cache h (class, i)"

section \<open>What the tables keep\<close>

text \<open>A state of the tables with nothing in them, over a heap.\<close>

definition store_new :: "(nat \<Rightarrow> u64) \<Rightarrow> heap \<Rightarrow> store" where
  "store_new boxes h =
     heap.extend h
       \<lparr>ext_store = (\<lambda>_. None), box_addr = boxes, boxes_made = 0, methods = repo_table_new,
        class_version = 0, ic_table = [], ic_id = 0, m_cache = (\<lambda>_. None)\<rparr>"

lemma repo_add_ok:
  assumes "length (methods h) < 2 ^ 32" "methods h \<noteq> []"
  shows "repo_add info h =
    (h\<lparr>methods := methods h @ [info]\<rparr>, Inr (of_nat (length (methods h))))"
proof -
  have "of_nat (length (methods h)) \<noteq> (0 :: u32)"
    using unat_of_nat_32 [OF assms(1)] assms(2) by (metis length_0_conv unat_0)
  then show ?thesis by (simp add: repo_add_def bind_def method_id_new_def)
qed

lemma repo_get_add:
  assumes "length (methods h) < 2 ^ 32" "methods h \<noteq> []" "repo_add info h = (h', Inr i)"
  shows "repo_get i h' = (h', Inr info)"
    "unat j < length (methods h) \<Longrightarrow> repo_get j h' = (h', snd (repo_get j h))"
proof -
  from assms have h: "h' = h\<lparr>methods := methods h @ [info]\<rparr>" "i = of_nat (length (methods h))"
    by (simp_all add: repo_add_ok)
  moreover have "unat (of_nat (length (methods h)) :: u32) = length (methods h)"
    using assms(1) by (rule unat_of_nat_32)
  ultimately show "repo_get i h' = (h', Inr info)" by (simp add: repo_get_def)
  show "unat j < length (methods h) \<Longrightarrow> repo_get j h' = (h', snd (repo_get j h))"
    by (simp add: repo_get_def h nth_append)
qed

end
