(* ===== verification/Classes.thy ===== *)
theory Classes
  imports Methods
begin

text \<open>
  src/value/class.rs: modules and classes, their ancestors, method, constant and class variable
  lookup, inclusion and prepending; with the parts of src/value/rvalue.rs, src/value/value.rs
  and src/vm/executor.rs that walk the class chain.

  A \<open>Module\<close> is the value of a module object. Its \<open>ClassInfo\<close> is in the object (theory RValue); the
  rest, \<open>ClassExt\<close>, is in a box which an included copy of a module shares with the module:
  \<open>ext_store\<close> maps the address of the box to it. The loops over the chain take fuel, since the
  chain can be made cyclic; running out is \<open>Undef\<close>. Theory ClassFacts shows how much is enough.
  \<open>nm\<close> gives the name of an identifier (theory IdTable); \<open>EC\<close> holds the essential classes.
\<close>

record essential_class =
  ec_class :: val
  ec_module :: val
  ec_object :: val

section \<open>Flags\<close>

definition IS_MODULE :: u8 where "IS_MODULE = 1"
definition INCLUDED :: u8 where "INCLUDED = 2"
definition HAS_PREPEND :: u8 where "HAS_PREPEND = 4"

definition class_flags_new :: "bool \<Rightarrow> u8" where
  "class_flags_new m = (if m then IS_MODULE else 0)"

definition flag_module :: "u8 \<Rightarrow> bool" where "flag_module f \<longleftrightarrow> f AND IS_MODULE \<noteq> 0"
definition flag_included :: "u8 \<Rightarrow> bool" where "flag_included f \<longleftrightarrow> f AND INCLUDED \<noteq> 0"
definition flag_prepend :: "u8 \<Rightarrow> bool" where "flag_prepend f \<longleftrightarrow> f AND HAS_PREPEND \<noteq> 0"

section \<open>Reading a module\<close>

definition cinfo :: "'m st \<Rightarrow> val \<Rightarrow> class_info res" where
  "cinfo h m = as_class (mem h) m"

definition ext_of :: "'m st \<Rightarrow> val \<Rightarrow> class_ext res" where
  "ext_of h m = rbind (cinfo h m) (\<lambda>ci. load (ext_store h) (ext ci))"

definition is_included :: "'m st \<Rightarrow> val \<Rightarrow> bool res" where
  "is_included h m = rbind (cinfo h m) (\<lambda>ci. Inr (flag_included (flags ci)))"

definition has_prepend :: "'m st \<Rightarrow> val \<Rightarrow> bool res" where
  "has_prepend h m = rbind (cinfo h m) (\<lambda>ci. Inr (flag_prepend (flags ci)))"

definition is_module_flag :: "'m st \<Rightarrow> val \<Rightarrow> bool res" where
  "is_module_flag h m = rbind (cinfo h m) (\<lambda>ci. Inr (flag_module (flags ci)))"

definition is_singleton :: "'m st \<Rightarrow> val \<Rightarrow> bool res" where
  "is_singleton h m = rbind (ext_of h m) (\<lambda>e. Inr (singleton_for e \<noteq> None))"

definition module_origin :: "'m st \<Rightarrow> val \<Rightarrow> val option res" where
  "module_origin h m = rbind (ext_of h m) (\<lambda>e. Inr (origin e))"

definition real_module :: "'m st \<Rightarrow> val \<Rightarrow> val res" where
  "real_module h m =
     rbind (is_included h m) (\<lambda>i.
       if i then rbind (module_origin h m) or_panic else Inr m)"

definition get_instance_method :: "'m st \<Rightarrow> u32 \<Rightarrow> val \<Rightarrow> u32 option res" where
  "get_instance_method h i m = rbind (ext_of h m) (\<lambda>e. Inr (map_of (method_table e) i))"

definition module_get_const :: "'m st \<Rightarrow> u32 \<Rightarrow> val \<Rightarrow> val option res" where
  "module_get_const h i m = rbind (ext_of h m) (\<lambda>e. Inr (map_of (const_table e) i))"

definition module_get_var :: "'m st \<Rightarrow> u32 \<Rightarrow> val \<Rightarrow> val option res" where
  "module_get_var h i m = rbind (cinfo h m) (\<lambda>_. Inr (get_var (mem h m) i))"

section \<open>The chain\<close>

text \<open>The loops of \<open>ClassInfo::upper\<close> and \<open>ClassInfo::superclass\<close>: skip while the flag is set.\<close>

fun skip_while :: "(u8 \<Rightarrow> bool) \<Rightarrow> nat \<Rightarrow> 'm st \<Rightarrow> val option \<Rightarrow> val option res" where
  "skip_while p 0 h u = Inl Undef"
| "skip_while p (Suc n) h None = Inr None"
| "skip_while p (Suc n) h (Some m) =
     rbind (cinfo h m) (\<lambda>ci.
       if p (flags ci) then skip_while p n h (upper_field ci) else Inr (Some m))"

definition module_upper :: "nat \<Rightarrow> 'm st \<Rightarrow> val \<Rightarrow> val option res" where
  "module_upper n h m = rbind (cinfo h m) (\<lambda>ci. skip_while flag_prepend n h (upper_field ci))"

definition superclass :: "nat \<Rightarrow> 'm st \<Rightarrow> val \<Rightarrow> val option res" where
  "superclass n h m = rbind (cinfo h m) (\<lambda>ci. skip_while flag_included n h (upper_field ci))"

text \<open>
  The loop the lookups share: look at a module, stop when it answers, else go to \<open>upper()\<close>.
\<close>

fun walk :: "nat \<Rightarrow> 'm st \<Rightarrow> (val \<Rightarrow> 'a option res) \<Rightarrow> val \<Rightarrow> 'a option res" where
  "walk 0 h look m = Inl Undef"
| "walk (Suc n) h look m =
     rbind (look m) (\<lambda>r.
       case r of
         Some x \<Rightarrow> Inr (Some x)
       | None \<Rightarrow>
           rbind (module_upper n h m) (\<lambda>u.
             case u of Some s \<Rightarrow> walk n h look s | None \<Rightarrow> Inr None))"

definition when_res :: "bool res \<Rightarrow> unit option res" where
  "when_res b = rbind b (\<lambda>b. Inr (if b then Some () else None))"

definition include_module :: "nat \<Rightarrow> 'm st \<Rightarrow> val \<Rightarrow> val \<Rightarrow> bool res" where
  "include_module n h self target =
     rbind (walk n h (\<lambda>m. when_res (rbind (real_module h m) (\<lambda>t. Inr (t = target)))) self)
       (\<lambda>r. Inr (r \<noteq> None))"

text \<open>
  \<open>Module::get_method\<close>: up the chain; a singleton class that has nothing passes on to its class.
\<close>

definition get_method :: "nat \<Rightarrow> 'm st \<Rightarrow> val \<Rightarrow> u32 \<Rightarrow> u32 option res" where
  "get_method n h self i =
     rbind (is_singleton h self) (\<lambda>singleton_flag.
     rbind (walk n h (get_instance_method h i) self) (\<lambda>r.
       case r of
         Some x \<Rightarrow> Inr (Some x)
       | None \<Rightarrow>
           if singleton_flag then walk n h (get_instance_method h i) (rclass (mem h self))
           else Inr None))"

text \<open>The builtins \<open>Module#ancestors\<close> and \<open>Module#included_modules\<close>.\<close>

fun ancestors_from :: "nat \<Rightarrow> 'm st \<Rightarrow> (val \<Rightarrow> val list res) \<Rightarrow> val option \<Rightarrow> val list res" where
  "ancestors_from 0 h shown m = Inl Undef"
| "ancestors_from (Suc n) h shown None = Inr []"
| "ancestors_from (Suc n) h shown (Some m) =
     rbind (shown m) (\<lambda>xs.
     rbind (module_upper n h m) (\<lambda>u.
     rbind (ancestors_from n h shown u) (\<lambda>ys. Inr (xs @ ys))))"

definition ancestors :: "nat \<Rightarrow> 'm st \<Rightarrow> val \<Rightarrow> val list res" where
  "ancestors n h m =
     ancestors_from n h (\<lambda>m. rbind (real_module h m) (\<lambda>r. Inr [r])) (Some m)"

definition included_modules :: "nat \<Rightarrow> 'm st \<Rightarrow> val \<Rightarrow> val list res" where
  "included_modules n h m =
     ancestors_from n h
       (\<lambda>m. rbind (is_included h m) (\<lambda>i.
          if i then rbind (rbind (module_origin h m) or_panic) (\<lambda>r. Inr [r]) else Inr []))
       (Some m)"

section \<open>The class of a value\<close>

text \<open>\<open>RValue::search_class\<close>: the first class above that is not a singleton class.\<close>

fun search_class :: "nat \<Rightarrow> 'm st \<Rightarrow> val \<Rightarrow> val res" where
  "search_class 0 h c = Inl Undef"
| "search_class (Suc n) h c =
     rbind (is_singleton h c) (\<lambda>s.
       if s then rbind (rbind (superclass n h c) or_panic) (search_class n h) else Inr c)"

definition get_class :: "builtin_class \<Rightarrow> nat \<Rightarrow> 'm st \<Rightarrow> val \<Rightarrow> val res" where
  "get_class bc n h v =
     rbind (unpack (mem h) v) (\<lambda>r.
       case r of
         IntegerV _ \<Rightarrow> Inr (bc_integer bc)
       | FloatV _ \<Rightarrow> Inr (bc_float bc)
       | SymbolV _ \<Rightarrow> Inr (bc_symbol bc)
       | NilV \<Rightarrow> Inr (bc_nilclass bc)
       | TrueV \<Rightarrow> Inr (bc_trueclass bc)
       | FalseV \<Rightarrow> Inr (bc_falseclass bc)
       | ObjectV a \<Rightarrow> search_class n h (rclass (mem h a))
       | UninitializedV \<Rightarrow> Inl Panic)"

definition kind_of :: "builtin_class \<Rightarrow> nat \<Rightarrow> 'm st \<Rightarrow> val \<Rightarrow> val \<Rightarrow> bool res" where
  "kind_of bc n h v class =
     rbind (get_class bc n h v) (\<lambda>c.
     rbind (walk n h (\<lambda>m. Inr (if m = class then Some () else None)) c) (\<lambda>r. Inr (r \<noteq> None)))"

text \<open>\<open>Value::is_exception_class\<close> follows \<open>superclass()\<close>.\<close>

fun superclass_is :: "nat \<Rightarrow> 'm st \<Rightarrow> val \<Rightarrow> val \<Rightarrow> bool res" where
  "superclass_is 0 h ex v = Inl Undef"
| "superclass_is (Suc n) h ex v =
     (if v = ex then Inr True
      else rbind (superclass n h v) (\<lambda>s.
        case s of Some s \<Rightarrow> superclass_is n h ex s | None \<Rightarrow> Inr False))"

definition is_exception_class :: "builtin_class \<Rightarrow> nat \<Rightarrow> 'm st \<Rightarrow> val \<Rightarrow> bool res" where
  "is_exception_class bc n h v =
     rbind (cinfo h v) (\<lambda>_. superclass_is n h (bc_exception bc) v)"

section \<open>Constants, class variables, rescue\<close>

definition name_error :: "'a res" where "name_error = Inl (Raise (RuntimeErr Name))"

definition get_const :: "'m st \<Rightarrow> val \<Rightarrow> u32 \<Rightarrow> val res" where
  "get_const h parent i =
     rbind (module_get_const h i parent) (\<lambda>r.
       case r of Some v \<Rightarrow> Inr v | None \<Rightarrow> name_error)"

definition get_super_const :: "essential_class \<Rightarrow> nat \<Rightarrow> 'm st \<Rightarrow> val \<Rightarrow> u32 \<Rightarrow> val res" where
  "get_super_const EC n h class i =
     rbind (is_module_flag h class) (\<lambda>m.
     rbind (walk n h (module_get_const h i) class) (\<lambda>r.
       case r of
         Some v \<Rightarrow> Inr v
       | None \<Rightarrow> if m then get_const h (ec_object EC) i else name_error))"

text \<open>The exceptions of a rescue clause: each a class, or a splatted array of classes.\<close>

fun any_res :: "('a \<Rightarrow> bool res) \<Rightarrow> 'a list \<Rightarrow> bool res" where
  "any_res p [] = Inr False"
| "any_res p (x # xs) = rbind (p x) (\<lambda>b. if b then Inr True else any_res p xs)"

definition rescue_matches :: "'m st \<Rightarrow> val \<Rightarrow> val \<Rightarrow> bool res" where
  "rescue_matches h m x =
     (case as_splat (mem h) x of
        Some ary \<Rightarrow>
          rbind (or_panic (as_kind (\<lambda>k. case k of Array xs \<Rightarrow> Some xs | _ \<Rightarrow> None) (mem h) ary))
            (\<lambda>xs. Inr (m \<in> set xs))
      | None \<Rightarrow> Inr (x = m))"

definition rescue_look :: "'m st \<Rightarrow> val list \<Rightarrow> val \<Rightarrow> unit option res" where
  "rescue_look h exceptions m =
     rbind (is_module_flag h m) (\<lambda>im.
       if im then Inr None else when_res (any_res (rescue_matches h m) exceptions))"

definition eval_rescue :: "builtin_class \<Rightarrow> nat \<Rightarrow> 'm st \<Rightarrow> val \<Rightarrow> val list \<Rightarrow> bool res" where
  "eval_rescue bc n h v exceptions =
     rbind (if is_class (mem h) v then Inr v else get_class bc n h v) (\<lambda>c.
     rbind (walk n h (rescue_look h exceptions) c) (\<lambda>r. Inr (r \<noteq> None)))"

section \<open>Changing a module\<close>

definition get_cinfo :: "val \<Rightarrow> ('m, class_info) seff" where
  "get_cinfo m = asks (\<lambda>h. cinfo h m)"

definition modify_cinfo :: "(class_info \<Rightarrow> class_info) \<Rightarrow> val \<Rightarrow> ('m, unit) seff" where
  "modify_cinfo f m =
     bind (get_cinfo m) (\<lambda>ci. modify (update_object (\<lambda>r. r\<lparr>kind := Module (f ci)\<rparr>) m))"

definition modify_ext :: "(class_ext \<Rightarrow> class_ext) \<Rightarrow> val \<Rightarrow> ('m, unit) seff" where
  "modify_ext f m =
     bind (get_cinfo m) (\<lambda>ci.
     bind (asks (\<lambda>h. load (ext_store h) (ext ci))) (\<lambda>e.
     modify (\<lambda>h. h\<lparr>ext_store := (ext_store h)(ext ci \<mapsto> f e)\<rparr>)))"

definition set_upper :: "val \<Rightarrow> val option \<Rightarrow> ('m, unit) seff" where
  "set_upper m u = modify_cinfo (\<lambda>ci. ci\<lparr>upper_field := u\<rparr>) m"

definition set_prepend :: "val \<Rightarrow> ('m, unit) seff" where
  "set_prepend m = modify_cinfo (\<lambda>ci. ci\<lparr>flags := flags ci OR HAS_PREPEND\<rparr>) m"

definition set_include :: "val \<Rightarrow> val \<Rightarrow> ('m, unit) seff" where
  "set_include m org =
     bind (modify_cinfo (\<lambda>ci. ci\<lparr>flags := flags ci OR INCLUDED\<rparr>) m) (\<lambda>_.
     modify_ext (\<lambda>e. e\<lparr>origin := Some org\<rparr>) m)"

definition set_name :: "val \<Rightarrow> string \<Rightarrow> ('m, unit) seff" where
  "set_name m s = modify_ext (\<lambda>e. e\<lparr>cname := Some s\<rparr>) m"

definition set_class :: "val \<Rightarrow> val \<Rightarrow> ('m, unit) seff" where
  "set_class v c =
     (if is_packed_value v then raise Panic
      else modify (update_object (\<lambda>r. r\<lparr>rclass := c\<rparr>) v))"

definition add_method :: "val \<Rightarrow> u32 \<Rightarrow> u32 \<Rightarrow> ('m, u32 option) seff" where
  "add_method m i method =
     bind (get_cinfo m) (\<lambda>_.
     bind inc_class_version (\<lambda>_.
     bind (asks (\<lambda>h. get_instance_method h i m)) (\<lambda>old.
     bind (modify_ext (\<lambda>e. e\<lparr>method_table := AList.update i method (method_table e)\<rparr>) m) (\<lambda>_.
     ret old))))"

definition add_builtin_method :: "val \<Rightarrow> u32 \<Rightarrow> native \<Rightarrow> ('m, unit) seff" where
  "add_builtin_method m i func =
     bind (get_cinfo m) (\<lambda>_.
     bind (repo_add (BuiltinFunc i func)) (\<lambda>methodref.
     modify_ext (\<lambda>e. e\<lparr>method_table := AList.update i methodref (method_table e)\<rparr>) m))"

definition define_reader :: "val \<Rightarrow> u32 \<Rightarrow> u32 \<Rightarrow> ('m, u32 option) seff" where
  "define_reader class i instance_var_id =
     bind (repo_add (AttrReader instance_var_id)) (add_method class i)"

definition define_writer :: "val \<Rightarrow> u32 \<Rightarrow> u32 \<Rightarrow> ('m, u32 option) seff" where
  "define_writer class assign_id instance_var_id =
     bind (repo_add (AttrWriter instance_var_id)) (add_method class assign_id)"

section \<open>Copies\<close>

text \<open>
  \<open>Value::dup\<close> and \<open>RValue::dup\<close>. A copy of a module has its own \<open>ClassInfo\<close> and shares the
  extension. The fuel bounds the nesting of complex numbers.
\<close>

definition dup_kind :: "(val \<Rightarrow> ('m, val) seff) \<Rightarrow> objkind \<Rightarrow> ('m, objkind) seff" where
  "dup_kind dup k =
     (case k of
        Invalid \<Rightarrow> raise Panic
      | Complex r i \<Rightarrow> bind (dup r) (\<lambda>r'. bind (dup i) (\<lambda>i'. ret (Complex r' i')))
      | Enumerator _ \<Rightarrow> ret Ordinary
      | Fiber _ \<Rightarrow> ret Ordinary
      | _ \<Rightarrow> ret k)"

fun value_dup :: "nat \<Rightarrow> val \<Rightarrow> ('m, val) seff" where
  "value_dup 0 v = raise Undef"
| "value_dup (Suc n) v =
     bind (asks (\<lambda>h. Inr (as_rvalue (mem h) v))) (\<lambda>o1.
       case o1 of
         None \<Rightarrow> ret v
       | Some r \<Rightarrow>
           bind (dup_kind (value_dup n) (kind r)) (\<lambda>k.
           steps (\<lambda>h. rvalue_pack alloc h (r\<lparr>kind := k\<rparr>))))"

definition generate_included :: "nat \<Rightarrow> val \<Rightarrow> ('m, val) seff" where
  "generate_included n m =
     bind (asks (\<lambda>h. real_module h m)) (\<lambda>org.
     bind (value_dup n m) (\<lambda>im.
     bind (set_include im org) (\<lambda>_. ret im)))"

section \<open>Inclusion and prepending\<close>

text \<open>The loop of both: a copy of each module above \<open>module\<close>, chained below \<open>imodule\<close>.\<close>

fun append_loop :: "nat \<Rightarrow> val \<Rightarrow> val \<Rightarrow> ('m, val) seff" where
  "append_loop 0 module imodule = raise Undef"
| "append_loop (Suc n) module imodule =
     bind (asks (\<lambda>h. module_upper n h module)) (\<lambda>u.
       case u of
         None \<Rightarrow> ret imodule
       | Some m \<Rightarrow>
           bind (generate_included n m) (\<lambda>im.
           bind (set_upper imodule (Some im)) (\<lambda>_.
           append_loop n m im)))"

definition append_copies :: "nat \<Rightarrow> val \<Rightarrow> val \<Rightarrow> ('m, val) seff" where
  "append_copies n self module =
     bind (generate_included n module) (\<lambda>imodule.
     bind (set_upper self (Some imodule)) (\<lambda>_.
     append_loop n module imodule))"

definition append_include_without_increment_version :: "nat \<Rightarrow> val \<Rightarrow> val \<Rightarrow> ('m, unit) seff" where
  "append_include_without_increment_version n self module =
     bind (get_cinfo self) (\<lambda>ci.
     bind (append_copies n self module) (\<lambda>imodule.
     set_upper imodule (upper_field ci)))"

definition append_include :: "nat \<Rightarrow> val \<Rightarrow> val \<Rightarrow> ('m, unit) seff" where
  "append_include n self module =
     bind (append_include_without_increment_version n self module) (\<lambda>_. inc_class_version)"

definition append_prepend :: "nat \<Rightarrow> val \<Rightarrow> val \<Rightarrow> val \<Rightarrow> ('m, unit) seff" where
  "append_prepend n self base module =
     bind (get_cinfo self) (\<lambda>ci.
     bind (append_copies n self module) (\<lambda>imodule.
     bind (asks (\<lambda>h. has_prepend h self)) (\<lambda>p.
     bind (if \<not> p then
             bind (value_dup n base) (\<lambda>dummy.
             bind (set_upper dummy (upper_field ci)) (\<lambda>_.
             bind (set_include dummy base) (\<lambda>_.
             bind (set_upper imodule (Some dummy)) (\<lambda>_.
             set_prepend self))))
           else set_upper imodule (upper_field ci)) (\<lambda>_.
     inc_class_version))))"

section \<open>New modules\<close>

definition class_ext_new :: class_ext where
  "class_ext_new =
     \<lparr>cname = None, method_table = [], const_table = [], singleton_for = None, origin = None\<rparr>"

definition class_ext_singleton :: "val \<Rightarrow> class_ext" where
  "class_ext_singleton target = class_ext_new\<lparr>singleton_for := Some target\<rparr>"

definition class_info_new :: "bool \<Rightarrow> val option \<Rightarrow> class_ext \<Rightarrow> ('m, class_info) seff" where
  "class_info_new m super e =
     bind (asks (\<lambda>h. Inr (box_addr h (boxes_made h)))) (\<lambda>a.
     bind (modify (\<lambda>h. h\<lparr>ext_store := (ext_store h)(a \<mapsto> e), boxes_made := Suc (boxes_made h)\<rparr>)) (\<lambda>_.
     ret \<lparr>upper_field = super, flags = class_flags_new m, ext = a\<rparr>))"

definition pack_module :: "val \<Rightarrow> class_info \<Rightarrow> ('m, val) seff" where
  "pack_module class ci = steps (\<lambda>h. rvalue_pack alloc h (rvalue_new class (Module ci)))"

definition singleton_class_from ::
    "essential_class \<Rightarrow> val option \<Rightarrow> val \<Rightarrow> ('m, val) seff" where
  "singleton_class_from EC super target =
     bind (class_info_new False super (class_ext_singleton target)) (pack_module (ec_class EC))"

text \<open>\<open>unwrap()\<close> of a \<open>Result\<close>.\<close>

definition unwrapped :: "('m, 'a) seff \<Rightarrow> ('m, 'a) seff" where
  "unwrapped f h =
     (case f h of (h', Inl (Raise _)) \<Rightarrow> (h', Inl Panic) | other \<Rightarrow> other)"

fun get_singleton_class :: "essential_class \<Rightarrow> nat \<Rightarrow> val \<Rightarrow> ('m, val) seff" where
  "get_singleton_class EC 0 v = raise Undef"
| "get_singleton_class EC (Suc n) v =
     (if is_packed_value v then asks (\<lambda>h. wrong_type (mem h) v)
      else
        bind (asks (\<lambda>h. Inr (mem h v))) (\<lambda>r.
        bind (asks (\<lambda>h. is_singleton h (rclass r))) (\<lambda>s.
          if s then ret (rclass r)
          else
            bind (case kind r of
                    Module ci \<Rightarrow>
                      bind (asks (\<lambda>h. superclass n h v)) (\<lambda>super.
                      bind (case super of
                              None \<Rightarrow> ret None
                            | Some c \<Rightarrow>
                                bind (unwrapped (get_singleton_class EC n c)) (\<lambda>c'. ret (Some c')))
                        (\<lambda>super'. singleton_class_from EC super' v))
                  | Invalid \<Rightarrow> raise Panic
                  | _ \<Rightarrow> singleton_class_from EC (Some (rclass r)) v) (\<lambda>singleton.
            bind (set_class v singleton) (\<lambda>_. ret singleton)))))"

definition new_class :: "essential_class \<Rightarrow> nat \<Rightarrow> val option \<Rightarrow> ('m, val) seff" where
  "new_class EC n super =
     bind (class_info_new False super class_ext_new) (\<lambda>ci.
     bind (pack_module (ec_class EC) ci) (\<lambda>obj.
     bind (unwrapped (get_singleton_class EC n obj)) (\<lambda>_. ret obj)))"

definition new_module :: "essential_class \<Rightarrow> ('m, val) seff" where
  "new_module EC = bind (class_info_new True None class_ext_new) (pack_module (ec_module EC))"

definition add_builtin_class_method ::
    "essential_class \<Rightarrow> nat \<Rightarrow> val \<Rightarrow> u32 \<Rightarrow> native \<Rightarrow> ('m, unit) seff" where
  "add_builtin_class_method EC n m i func =
     bind (unwrapped (get_singleton_class EC n m)) (\<lambda>s. add_builtin_method s i func)"

definition add_builtin_module_func ::
    "essential_class \<Rightarrow> nat \<Rightarrow> val \<Rightarrow> u32 \<Rightarrow> native \<Rightarrow> ('m, unit) seff" where
  "add_builtin_module_func EC n m i func =
     bind (add_builtin_method m i func) (\<lambda>_. add_builtin_class_method EC n m i func)"

section \<open>Names and constants\<close>

text \<open>
  \<open>op_name\<close> gives a singleton class the name of its target as it answers. The name of an object
  is that of \<open>RValue::to_s\<close>.
\<close>

definition hex_digit :: "nat \<Rightarrow> char" where
  "hex_digit d = (if d < 10 then char_of (48 + d) else char_of (87 + d))"

definition hex16 :: "u64 \<Rightarrow> string" where
  "hex16 w = map (\<lambda>k. hex_digit (unat (drop_bit (4 * k) w) mod 16)) (rev [0..<16])"

definition default_name :: "'m st \<Rightarrow> val \<Rightarrow> string res" where
  "default_name h m =
     rbind (cinfo h m) (\<lambda>ci.
       Inr ((if flag_module (flags ci) then ''#<Module:0x'' else ''#<Class:0x'') @
            hex16 (ext ci) @ ''>''))"

definition name_or_default :: "val \<Rightarrow> string option \<Rightarrow> ('m, string) seff" where
  "name_or_default m n1 = (case n1 of Some s \<Rightarrow> ret s | None \<Rightarrow> asks (\<lambda>h. default_name h m))"

text \<open>The name a singleton class shows for its target, kept as its own when there is one.\<close>

definition keep_name :: "val \<Rightarrow> string option \<Rightarrow> ('m, string) seff" where
  "keep_name m n1 =
     (case n1 of
        Some s \<Rightarrow> bind (set_name m s) (\<lambda>_. ret s)
      | None \<Rightarrow> asks (\<lambda>h. default_name h m))"

definition object_name :: "string \<Rightarrow> val \<Rightarrow> string" where
  "object_name c v = ''#<'' @ c @ '':0x'' @ hex16 v @ ''>''"

fun op_name :: "nat \<Rightarrow> val \<Rightarrow> ('m, string option) seff" where
  "op_name 0 m = raise Undef"
| "op_name (Suc n) m =
     bind (asks (\<lambda>h. ext_of h m)) (\<lambda>e.
       case cname e of
         Some s \<Rightarrow> ret (Some s)
       | None \<Rightarrow>
           (case singleton_for e of
              None \<Rightarrow> ret None
            | Some target \<Rightarrow>
                bind (bind (asks (\<lambda>h. Inr (if_mod_class (mem h) target))) (\<lambda>c.
                        case c of
                          Some c \<Rightarrow> bind (op_name n c) (keep_name m)
                        | None \<Rightarrow>
                            if is_packed_value target then raise Panic
                            else
                              bind (asks (\<lambda>h. search_class n h (rclass (mem h target)))) (\<lambda>c.
                              bind (op_name n c) (\<lambda>on.
                              bind (name_or_default c on) (\<lambda>s.
                                keep_name m (Some (object_name s target)))))))
                  (\<lambda>s. ret (Some (''#<Class:'' @ s @ ''>'')))))"

definition class_name :: "nat \<Rightarrow> val \<Rightarrow> ('m, string) seff" where
  "class_name n m = bind (op_name n m) (name_or_default m)"

text \<open>\<open>ClassInfo::set_const\<close> names an anonymous module after its first constant.\<close>

definition name_for_const ::
    "essential_class \<Rightarrow> (u32 \<Rightarrow> string) \<Rightarrow> nat \<Rightarrow> val \<Rightarrow> u32 \<Rightarrow> val \<Rightarrow> ('m, unit) seff" where
  "name_for_const EC nm n self i module =
     bind (op_name n module) (\<lambda>on.
       if on \<noteq> None then ret ()
       else if self = ec_object EC then set_name module (nm i)
       else
         bind (asks (\<lambda>h. ext_of h self)) (\<lambda>e.
           case cname e of
             Some parent \<Rightarrow> set_name module (parent @ ''::'' @ nm i)
           | None \<Rightarrow> ret ()))"

definition module_set_const ::
    "essential_class \<Rightarrow> (u32 \<Rightarrow> string) \<Rightarrow> nat \<Rightarrow> val \<Rightarrow> u32 \<Rightarrow> val \<Rightarrow> ('m, unit) seff" where
  "module_set_const EC nm n self i v =
     bind (asks (\<lambda>h. Inr (if_mod_class (mem h) v))) (\<lambda>m.
     bind (case m of Some module \<Rightarrow> name_for_const EC nm n self i module | None \<Rightarrow> ret ()) (\<lambda>_.
     modify_ext (\<lambda>e. e\<lparr>const_table := AList.update i v (const_table e)\<rparr>) self))"

section \<open>Class variables and methods of an object\<close>

text \<open>\<open>VM::set_class_var\<close> and \<open>get_class_var\<close> from the class they start at.\<close>

definition write_var :: "val \<Rightarrow> u32 \<Rightarrow> val \<Rightarrow> ('m, unit) seff" where
  "write_var m i v = modify (update_object (\<lambda>r. fst (set_var r i v)) m)"

definition set_class_var_from :: "nat \<Rightarrow> val \<Rightarrow> u32 \<Rightarrow> val \<Rightarrow> ('m, unit) seff" where
  "set_class_var_from n org i v =
     bind (asks (\<lambda>h. walk n h (\<lambda>m.
             rbind (module_get_var h i m) (\<lambda>x. Inr (case x of Some _ \<Rightarrow> Some m | None \<Rightarrow> None))) org))
       (\<lambda>m. write_var (case m of Some m \<Rightarrow> m | None \<Rightarrow> org) i v)"

definition get_class_var_from :: "nat \<Rightarrow> 'm st \<Rightarrow> val \<Rightarrow> u32 \<Rightarrow> val res" where
  "get_class_var_from n h class i =
     rbind (walk n h (module_get_var h i) class) (\<lambda>r.
       case r of Some v \<Rightarrow> Inr v | None \<Rightarrow> name_error)"

definition self_class :: "builtin_class \<Rightarrow> nat \<Rightarrow> 'm st \<Rightarrow> val \<Rightarrow> val res" where
  "self_class bc n h v =
     (case if_mod_class (mem h) v of Some m \<Rightarrow> Inr m | None \<Rightarrow> get_class bc n h v)"

definition define_method :: "builtin_class \<Rightarrow> nat \<Rightarrow> val \<Rightarrow> u32 \<Rightarrow> u32 \<Rightarrow> ('m, unit) seff" where
  "define_method bc n target i method =
     bind (asks (\<lambda>h. self_class bc n h target)) (\<lambda>m.
     bind (add_method m i method) (\<lambda>_. ret ()))"

definition define_singleton_method ::
    "essential_class \<Rightarrow> nat \<Rightarrow> val \<Rightarrow> u32 \<Rightarrow> u32 \<Rightarrow> ('m, unit) seff" where
  "define_singleton_method EC n target i method =
     bind (get_singleton_class EC n target) (\<lambda>s.
     bind (add_method s i method) (\<lambda>_. ret ()))"

end
