(* ===== verification/ClassFacts.thy ===== *)
theory ClassFacts
  imports Classes
begin

text \<open>
  What the class chain computes: the loops of theory Classes end on a chain that ends and answer
  for the modules above in order; inclusion puts copies of the module's chain right above the
  class, which keep answering for the originals; and where the code departs from what it means.
\<close>

section \<open>Chains\<close>

text \<open>\<open>linked h u ms\<close>: the modules from \<open>u\<close> up over the \<open>upper\<close> fields are \<open>ms\<close>, all present.\<close>

fun linked :: "'m st \<Rightarrow> val option \<Rightarrow> val list \<Rightarrow> bool" where
  "linked h u [] \<longleftrightarrow> u = None"
| "linked h u (m # ms) \<longleftrightarrow>
     u = Some m \<and> (\<exists>ci. cinfo h m = Inr ci \<and> ext_store h (ext ci) \<noteq> None \<and>
                        linked h (upper_field ci) ms)"

definition flagged :: "(u8 \<Rightarrow> bool) \<Rightarrow> 'm st \<Rightarrow> val \<Rightarrow> bool" where
  "flagged p h m = (case cinfo h m of Inr ci \<Rightarrow> p (flags ci) | Inl _ \<Rightarrow> False)"

text \<open>A class itself is looked at even when it has prepended modules; above it such are skipped.\<close>

definition visible :: "'m st \<Rightarrow> val list \<Rightarrow> val list" where
  "visible h ms = filter (\<lambda>m. \<not> flagged flag_prepend h m) ms"

definition mro :: "'m st \<Rightarrow> val list \<Rightarrow> val list" where
  "mro h ms = (case ms of [] \<Rightarrow> [] | m # us \<Rightarrow> m # visible h us)"

definition first_of :: "'a list \<Rightarrow> 'a option" where
  "first_of xs = (case xs of [] \<Rightarrow> None | x # _ \<Rightarrow> Some x)"

lemma linked_cinfo: "linked h u ms \<Longrightarrow> m \<in> set ms \<Longrightarrow> \<exists>ci e. cinfo h m = Inr ci \<and> ext_of h m = Inr e"
  by (induction h u ms rule: linked.induct) (auto simp: ext_of_def load_def split: option.splits)

lemma linked_cons:
  assumes "linked h u (m # ms)"
  obtains ci where "u = Some m" "cinfo h m = Inr ci" "linked h (upper_field ci) ms"
  using assms by auto

lemma linked_suffix: "linked h u (xs @ m # ms) \<Longrightarrow> linked h (Some m) (m # ms)"
  by (induction xs arbitrary: u) auto

lemma skip_while_linked:
  "linked h u ms \<Longrightarrow> length ms < n \<Longrightarrow>
     skip_while p n h u = Inr (first_of (dropWhile (flagged p h) ms))"
proof (induction n arbitrary: u ms)
  case 0
  then show ?case by simp
next
  case (Suc n)
  show ?case
  proof (cases ms)
    case Nil
    with Suc.prems show ?thesis by (simp add: first_of_def)
  next
    case (Cons m ms')
    with Suc.prems(1) obtain ci
      where "u = Some m" "cinfo h m = Inr ci" "linked h (upper_field ci) ms'"
      by (auto elim: linked_cons)
    with Cons Suc.IH [of "upper_field ci" ms'] Suc.prems(2) show ?thesis
      by (simp add: flagged_def first_of_def)
  qed
qed

lemma module_upper_linked:
  assumes "linked h (Some m) (m # ms)" "length ms < n"
  shows "module_upper n h m = Inr (first_of (dropWhile (flagged flag_prepend h) ms))"
  using assms by (auto simp: module_upper_def skip_while_linked)

lemma superclass_linked:
  assumes "linked h (Some m) (m # ms)" "length ms < n"
  shows "superclass n h m = Inr (first_of (dropWhile (flagged flag_included h) ms))"
  using assms by (auto simp: superclass_def skip_while_linked)

section \<open>The walk\<close>

fun first_res :: "('a \<Rightarrow> 'b option res) \<Rightarrow> 'a list \<Rightarrow> 'b option res" where
  "first_res look [] = Inr None"
| "first_res look (m # ms) =
     rbind (look m) (\<lambda>r. case r of Some x \<Rightarrow> Inr (Some x) | None \<Rightarrow> first_res look ms)"

lemma visible_dropWhile:
  "visible h (dropWhile (flagged flag_prepend h) ms) = visible h ms"
  by (induction ms) (simp_all add: visible_def)

lemma dropWhile_flagged:
  assumes "dropWhile (flagged p h) ms = m # us"
  shows "\<not> flagged p h m"
  using assms hd_dropWhile [of "flagged p h" ms] by auto

lemma walk_linked:
  assumes "linked h (Some m) (m # ms)" "length ms + 2 \<le> n"
  shows "walk n h look m = first_res look (mro h (m # ms))"
  using assms
proof (induction "length ms" arbitrary: m ms n rule: less_induct)
  case less
  let ?us = "dropWhile (flagged flag_prepend h) ms"
  obtain k where n: "n = Suc k" "length ms < k" using less.prems(2) by (cases n) auto
  have up: "module_upper k h m = Inr (first_of ?us)"
    using less.prems(1) n(2) by (rule module_upper_linked)
  show ?case
  proof (cases ?us)
    case Nil
    then have "visible h ms = []" using visible_dropWhile [of h ms] by (simp add: visible_def)
    with up Nil show ?thesis
      by (auto simp: n mro_def first_of_def cong: option.case_cong)
  next
    case (Cons s us)
    have len: "length us < length ms"
      using Cons length_dropWhile_le [of "flagged flag_prepend h" ms] by simp
    have "ms = takeWhile (flagged flag_prepend h) ms @ s # us"
      using Cons takeWhile_dropWhile_id [of "flagged flag_prepend h" ms] by simp
    with less.prems(1) have "linked h (Some s) (s # us)"
      using linked_suffix [of h "Some m" "m # takeWhile (flagged flag_prepend h) ms" s us] by simp
    then have "walk k h look s = first_res look (mro h (s # us))"
      using less.hyps [OF len] n less.prems(2) len by simp
    moreover have "visible h ms = s # visible h us"
      using visible_dropWhile [of h ms] dropWhile_flagged [OF Cons] by (simp add: Cons visible_def)
    ultimately show ?thesis
      using up by (auto simp: n mro_def first_of_def Cons cong: option.case_cong)
  qed
qed

section \<open>Memory and tables\<close>

lemma update_object_simps [simp]:
  "mem (update_object f a h) = (mem h)(a := f (mem h a))"
  "ext_store (update_object f a h) = ext_store (h :: 'm st)"
  "class_version (update_object f a h) = class_version h"
  by (auto simp: update_object_def write_cell_def mem_def fun_eq_iff)

lemma update_object_links:
  "box_next (cells (update_object f a h) b) = box_next (cells h b)"
  by (simp add: update_object_def write_cell_def)

lemma update_object_heap:
  "used_cells (update_object f a h) = used_cells h" "free_list_count (update_object f a h) = free_list_count h"
  "free (update_object f a h) = free h" "pages_ok (update_object f a h) = pages_ok h"
  by (simp_all add: update_object_def used_cells_def)
    (rule pages_ok_cong, simp_all)

lemma links_cong: "(\<And>b. box_next (c b) = box_next (d b)) \<Longrightarrow> links c u n = links d u n"
  by (induction c u n rule: links.induct) auto

lemma chain_links_cong: "(\<And>b. box_next (c b) = box_next (d b)) \<Longrightarrow> chain c u xs = chain d u xs"
  by (induction xs arbitrary: u) auto

lemma update_object_ok [simp]:
  "live (update_object f a h) = live h" "heap_ok (update_object f a h) = heap_ok h"
proof -
  let ?c = "cells (update_object f a h)"
  have "links ?c (free h) n = links (cells h) (free h) n" for n
    by (rule links_cong) (rule update_object_links)
  then show "live (update_object f a h) = live h"
    by (simp add: live_def free_list_def update_object_heap)
  have "chain ?c u xs = chain (cells h) u xs" for u xs
    by (rule chain_links_cong) (rule update_object_links)
  then show "heap_ok (update_object f a h) = heap_ok h"
    by (simp add: heap_ok_def list_ok_def update_object_heap)
qed

lemma alloc_more: "alloc h d = Inr (h', a) \<Longrightarrow> heap.more h' = heap.more h"
  by (auto simp: alloc_def alloc_free_def alloc_bump_def pop_free_page_def alloc_page_def write_cell_def
      rbind_Inr_iff Let_def split: option.splits if_splits)

lemma more_tables:
  fixes h h' :: "'m st"
  assumes "heap.more h' = heap.more h"
  shows "ext_store h' = ext_store h" "class_version h' = class_version h"
    "box_addr h' = box_addr h" "boxes_made h' = boxes_made h" "methods h' = methods h"
    "ic_table h' = ic_table h" "m_cache h' = m_cache h"
  using assms by (cases h; cases h'; simp)+

lemma pack_more: "rvalue_pack alloc h r = Inr (h', v) \<Longrightarrow> heap.more h' = heap.more h"
  by (auto simp: rvalue_pack_def rbind_Inr_iff dest: alloc_more)

lemma pack_store:
  fixes h :: "'m st"
  assumes "heap_ok h" "rvalue_pack alloc h r = Inr (h', v)"
  shows "heap_ok h'" "v \<notin> live h" "live h' = insert v (live h)" "mem h' = (mem h)(v := r)"
    "\<not> is_packed_value v" "ext_store h' = ext_store h"
  using store.pack_new [OF assms] more_tables(1) [OF pack_more [OF assms(2)]] by simp_all

section \<open>The primitive changes\<close>

lemma cinfo_iff: "cinfo h m = Inr ci \<longleftrightarrow> \<not> is_packed_value m \<and> kind (mem h m) = Module ci"
  by (auto simp: cinfo_def as_class_def as_kind_def as_rvalue_def or_panic_def
      split: option.splits objkind.splits)

lemma modify_cinfo_ok:
  assumes "cinfo h m = Inr ci"
  shows "modify_cinfo f m h = (update_object (\<lambda>r. r\<lparr>kind := Module (f ci)\<rparr>) m h, Inr ())"
  using assms by (simp add: modify_cinfo_def get_cinfo_def bind_def)

lemma cinfo_modify:
  assumes "cinfo h m = Inr ci"
  shows "cinfo (update_object (\<lambda>r. r\<lparr>kind := Module ci'\<rparr>) m h) x =
    (if x = m then Inr ci' else cinfo h x)"
  using assms unfolding cinfo_iff
  by (auto simp: cinfo_def as_class_def as_kind_def as_rvalue_def)

lemma modify_ext_ok:
  assumes "cinfo h m = Inr ci" "ext_store h (ext ci) = Some e"
  shows "modify_ext f m h = (h\<lparr>ext_store := (ext_store h)(ext ci \<mapsto> f e)\<rparr>, Inr ())"
  using assms by (simp add: modify_ext_def get_cinfo_def bind_def load_def)

lemma ext_update_mem [simp]:
  "mem (h\<lparr>ext_store := s\<rparr>) = mem (h :: 'm st)" "mem (h\<lparr>class_version := v\<rparr>) = mem h"
  by (simp_all add: mem_def fun_eq_iff)

lemmas heap_shape =
  heap_ok_def pages_ok_def list_ok_def os_ok_def all_pages_def used_cells_def live_def free_list_def

lemma ext_update_simps [simp]:
  "cinfo (h\<lparr>ext_store := s\<rparr>) = cinfo (h :: 'm st)" "cinfo (h\<lparr>class_version := v\<rparr>) = cinfo h"
  "heap_ok (h\<lparr>ext_store := s\<rparr>) = heap_ok h" "heap_ok (h\<lparr>class_version := v\<rparr>) = heap_ok h"
  "live (h\<lparr>ext_store := s\<rparr>) = live h" "live (h\<lparr>class_version := v\<rparr>) = live h"
  by (simp_all add: cinfo_def fun_eq_iff heap_shape)

section \<open>Copies of a module\<close>

lemma flags_or [simp]:
  "flag_included (f OR INCLUDED)" "flag_prepend (f OR INCLUDED) = flag_prepend f"
  "flag_module (f OR INCLUDED) = flag_module f"
  "flag_prepend (f OR HAS_PREPEND)" "flag_included (f OR HAS_PREPEND) = flag_included f"
  by (simp_all add: flag_included_def flag_prepend_def flag_module_def IS_MODULE_def INCLUDED_def
      HAS_PREPEND_def bit.conj_disj_distrib2 or_eq_0_iff)

text \<open>
  The extension of a module names its owner: the origin, once a copy is included, and else the
  module itself. \<open>same_exts\<close>: the extensions agree but for the origins.
\<close>

definition owned :: "(u64 \<Rightarrow> val) \<Rightarrow> 'm st \<Rightarrow> val \<Rightarrow> class_info \<Rightarrow> bool" where
  "owned owner h x ci \<longleftrightarrow>
     (\<exists>e. ext_store h (ext ci) = Some e \<and>
          (if flag_included (flags ci) then origin e = Some (owner (ext ci))
           else x = owner (ext ci)))"

definition origins_ok :: "(u64 \<Rightarrow> val) \<Rightarrow> 'm st \<Rightarrow> bool" where
  "origins_ok owner h \<longleftrightarrow>
     (\<forall>x \<in> live h. \<forall>ci. cinfo h x = Inr ci \<longrightarrow> owned owner h x ci)"

definition same_exts :: "'m st \<Rightarrow> 'm st \<Rightarrow> bool" where
  "same_exts h h' \<longleftrightarrow>
     (\<forall>a. map_option (origin_update (\<lambda>_. None)) (ext_store h' a) =
          map_option (origin_update (\<lambda>_. None)) (ext_store h a))"

lemma same_exts_refl [simp]: "same_exts h h"
  by (simp add: same_exts_def)

lemma same_exts_trans: "same_exts h1 h2 \<Longrightarrow> same_exts h2 h3 \<Longrightarrow> same_exts h1 h3"
  by (simp add: same_exts_def)

lemma same_exts_origin:
  assumes "ext_store h a = Some e" "ext_store h' = (ext_store h)(a \<mapsto> e\<lparr>origin := org\<rparr>)"
  shows "same_exts h h'"
  using assms by (auto simp: same_exts_def)

lemma same_exts_eq: "ext_store h' = ext_store h \<Longrightarrow> same_exts h h'"
  by (simp add: same_exts_def)

lemma same_exts_dom: "same_exts h h' \<Longrightarrow> ext_store h' a = None \<longleftrightarrow> ext_store h a = None"
  by (simp add: same_exts_def) (metis option.map_disc_iff)

lemma same_exts_some:
  assumes "same_exts h h'" "ext_store h a = Some e"
  obtains e' where "ext_store h' a = Some e'" "e'\<lparr>origin := None\<rparr> = e\<lparr>origin := None\<rparr>"
proof -
  from assms have "map_option (origin_update (\<lambda>_. None)) (ext_store h' a) = Some (e\<lparr>origin := None\<rparr>)"
    by (simp add: same_exts_def)
  with that show ?thesis by auto
qed

lemma origins_okD:
  assumes "origins_ok owner h" "x \<in> live h" "cinfo h x = Inr ci"
  obtains e where "ext_store h (ext ci) = Some e"
    "if flag_included (flags ci) then origin e = Some (owner (ext ci)) else x = owner (ext ci)"
  using assms unfolding origins_ok_def owned_def by blast

lemma real_module_owner:
  assumes "origins_ok owner h" "x \<in> live h" "cinfo h x = Inr ci"
  shows "real_module h x = Inr (owner (ext ci))"
  using assms(3) by (rule_tac origins_okD [OF assms])
    (auto simp: real_module_def is_included_def module_origin_def ext_of_def load_def split: if_splits)

lemma value_dup_module:
  assumes "cinfo h m = Inr ci"
  shows "value_dup (Suc n) m h = steps (\<lambda>h'. rvalue_pack alloc h' (mem h m)) h"
proof -
  from assms have k: "\<not> is_packed_value m" "kind (mem h m) = Module ci"
    by (simp_all add: cinfo_iff)
  then have eq: "(mem h m)\<lparr>kind := Module ci\<rparr> = mem h m" by simp
  from k show ?thesis by (simp add: as_rvalue_def dup_kind_def) (simp only: eq)
qed

lemma value_dup_module_ok:
  assumes "heap_ok h" "cinfo h m = Inr ci" "value_dup n m h = (h', Inr v)"
  shows "heap_ok h'" "v \<notin> live h" "live h' = insert v (live h)" "ext_store h' = ext_store h"
    "cinfo h' v = Inr ci" "\<And>x. x \<noteq> v \<Longrightarrow> cinfo h' x = cinfo h x"
proof -
  from assms(3) obtain k where n: "n = Suc k" by (cases n) auto
  from assms have p: "rvalue_pack alloc h (mem h m) = Inr (h', v)"
    by (simp add: n value_dup_module [OF assms(2)] steps_ok_iff del: value_dup.simps)
  note s = pack_store [OF assms(1) p]
  from s show "heap_ok h'" "v \<notin> live h" "live h' = insert v (live h)" "ext_store h' = ext_store h"
    by simp_all
  from s assms(2) show "cinfo h' v = Inr ci" by (simp add: cinfo_iff)
  from s show "cinfo h' x = cinfo h x" if "x \<noteq> v" for x
    using that by (simp add: cinfo_def as_class_def as_kind_def as_rvalue_def)
qed

lemma set_include_ok:
  assumes "cinfo h m = Inr ci" "ext_store h (ext ci) = Some e"
  shows "\<exists>h'. set_include m org h = (h', Inr ()) \<and> live h' = live h \<and> heap_ok h' = heap_ok h \<and>
    ext_store h' = (ext_store h)(ext ci \<mapsto> e\<lparr>origin := Some org\<rparr>) \<and>
    (\<forall>x. cinfo h' x =
       (if x = m then Inr (ci\<lparr>flags := flags ci OR INCLUDED\<rparr>) else cinfo h x))"
proof -
  let ?ci = "ci\<lparr>flags := flags ci OR INCLUDED\<rparr>"
  let ?h = "update_object (\<lambda>r. r\<lparr>kind := Module ?ci\<rparr>) m h"
  have c: "cinfo ?h x = (if x = m then Inr ?ci else cinfo h x)" for x
    by (rule cinfo_modify [OF assms(1)])
  then have "modify_ext (\<lambda>e. e\<lparr>origin := Some org\<rparr>) m ?h =
      (?h\<lparr>ext_store := (ext_store ?h)(ext ?ci \<mapsto> e\<lparr>origin := Some org\<rparr>)\<rparr>, Inr ())"
    using assms by (intro modify_ext_ok) simp_all
  then have "set_include m org h =
      (?h\<lparr>ext_store := (ext_store ?h)(ext ?ci \<mapsto> e\<lparr>origin := Some org\<rparr>)\<rparr>, Inr ())"
    by (simp add: set_include_def bind_def modify_cinfo_ok [OF assms(1)])
  with c show ?thesis by simp
qed

lemma generate_included_ok:
  assumes ok: "heap_ok h" "origins_ok owner h" and m: "m \<in> live h" "cinfo h m = Inr ci"
    and r: "generate_included n m h = (h', Inr im)"
  shows "heap_ok h'" "origins_ok owner h'" "im \<notin> live h" "live h' = insert im (live h)"
    "cinfo h' im = Inr (ci\<lparr>flags := flags ci OR INCLUDED\<rparr>)"
    "\<And>x. x \<noteq> im \<Longrightarrow> cinfo h' x = cinfo h x" "same_exts h h'"
proof -
  let ?o = "owner (ext ci)"
  obtain e where e: "ext_store h (ext ci) = Some e" using ok(2) m by (rule origins_okD)
  from r obtain h1 where d: "value_dup n m h = (h1, Inr im)" and s: "set_include im ?o h1 = (h', Inr ())"
    using real_module_owner [OF ok(2) m] by (auto simp: generate_included_def bind_ok_iff)
  note v = value_dup_module_ok [OF ok(1) m(2) d]
  from e v(4) have e1: "ext_store h1 (ext ci) = Some e" by simp
  from set_include_ok [OF v(5) e1, of ?o] s
  have h': "live h' = live h1" "heap_ok h' = heap_ok h1"
    "ext_store h' = (ext_store h)(ext ci \<mapsto> e\<lparr>origin := Some ?o\<rparr>)"
    "\<And>x. cinfo h' x =
       (if x = im then Inr (ci\<lparr>flags := flags ci OR INCLUDED\<rparr>) else cinfo h1 x)"
    using v(4) by auto
  show "heap_ok h'" "im \<notin> live h" "live h' = insert im (live h)"
    "cinfo h' im = Inr (ci\<lparr>flags := flags ci OR INCLUDED\<rparr>)"
    using h' v by simp_all
  show old: "cinfo h' x = cinfo h x" if "x \<noteq> im" for x using h'(4) v(6) that by simp
  show "same_exts h h'" using e h'(3) by (rule same_exts_origin)
  show "origins_ok owner h'"
    unfolding origins_ok_def
  proof (intro ballI allI impI)
    fix x c
    assume x: "x \<in> live h'" "cinfo h' x = Inr c"
    show "owned owner h' x c"
    proof (cases "x = im")
      case True
      with x h'(4) have "c = ci\<lparr>flags := flags ci OR INCLUDED\<rparr>" by simp
      then show ?thesis by (simp add: h'(3) owned_def)
    next
      case False
      with x v h'(1) old have "x \<in> live h" "cinfo h x = Inr c" by simp_all
      with ok(2) have "owned owner h x c" by (simp add: origins_ok_def)
      then show ?thesis using e by (auto simp: h'(3) owned_def)
    qed
  qed
qed

lemma set_upper_ok:
  assumes "cinfo h m = Inr ci" "set_upper m u h = (h', r)"
  shows "r = Inr ()" "live h' = live h" "heap_ok h' = heap_ok h" "ext_store h' = ext_store h"
    "cinfo h' m = Inr (ci\<lparr>upper_field := u\<rparr>)" "\<And>x. x \<noteq> m \<Longrightarrow> cinfo h' x = cinfo h x"
    "origins_ok owner h \<Longrightarrow> origins_ok owner h'"
proof -
  let ?ci = "ci\<lparr>upper_field := u\<rparr>"
  from assms(2) have h': "h' = update_object (\<lambda>r. r\<lparr>kind := Module ?ci\<rparr>) m h" and "r = Inr ()"
    by (simp_all add: set_upper_def modify_cinfo_ok [OF assms(1)])
  note c = cinfo_modify [OF assms(1), of ?ci]
  show "r = Inr ()" "live h' = live h" "heap_ok h' = heap_ok h" "ext_store h' = ext_store h"
    "cinfo h' m = Inr ?ci" "\<And>x. x \<noteq> m \<Longrightarrow> cinfo h' x = cinfo h x"
    using c \<open>r = Inr ()\<close> by (simp_all add: h')
  show "origins_ok owner h'" if "origins_ok owner h"
    using that assms(1) unfolding origins_ok_def h'
    by (auto simp: c owned_def split: if_splits)
qed

section \<open>Inclusion\<close>

lemma linked_frame:
  assumes "linked h u ms" "\<And>x. x \<in> set ms \<Longrightarrow> cinfo h' x = cinfo h x" "same_exts h h'"
  shows "linked h' u ms"
  using assms(1,2)
proof (induction ms arbitrary: u)
  case (Cons m ms)
  then obtain ci where c: "u = Some m" "cinfo h m = Inr ci" "ext_store h (ext ci) \<noteq> None"
    "linked h (upper_field ci) ms" by auto
  have "linked h' (upper_field ci) ms" using Cons.prems by (intro Cons.IH c(4)) simp
  moreover have "cinfo h' m = Inr ci" using Cons.prems c(2) by simp
  ultimately show ?case using c(1,3) same_exts_dom [OF assms(3)] by simp
qed simp

lemma visible_frame:
  "(\<And>x. x \<in> set ms \<Longrightarrow> cinfo h' x = cinfo h x) \<Longrightarrow> visible h' ms = visible h ms"
  unfolding visible_def by (rule filter_cong) (simp_all add: flagged_def)

lemma skip_while_answer:
  "linked h u ms \<Longrightarrow> skip_while p n h u = Inr r \<Longrightarrow> r = first_of (dropWhile (flagged p h) ms)"
proof (induction n arbitrary: u ms)
  case (Suc n)
  show ?case
  proof (cases ms)
    case (Cons m us)
    with Suc.prems(1) obtain ci
      where c: "u = Some m" "cinfo h m = Inr ci" "linked h (upper_field ci) us"
      by (auto elim: linked_cons)
    with Suc.prems(2) Suc.IH [OF c(3)] Cons show ?thesis
      by (auto simp: flagged_def first_of_def split: if_splits)
  qed (use Suc.prems in \<open>auto simp: first_of_def\<close>)
qed simp

lemma module_upper_answer:
  assumes "linked h (Some m) (m # ms)" "module_upper n h m = Inr u"
  shows "case u of None \<Rightarrow> visible h ms = []
    | Some s \<Rightarrow> \<exists>us. linked h (Some s) (s # us) \<and> visible h ms = s # visible h us \<and>
        set (s # us) \<subseteq> set ms"
proof -
  let ?us = "dropWhile (flagged flag_prepend h) ms"
  from assms have u: "u = first_of ?us"
    by (auto simp: module_upper_def intro: skip_while_answer)
  show ?thesis
  proof (cases ?us)
    case Nil
    with u visible_dropWhile [of h ms] show ?thesis by (simp add: first_of_def visible_def)
  next
    case (Cons s us)
    have ms: "ms = takeWhile (flagged flag_prepend h) ms @ s # us"
      using Cons takeWhile_dropWhile_id [of "flagged flag_prepend h" ms] by simp
    with assms(1) have "linked h (Some s) (s # us)"
      using linked_suffix [of h "Some m" "m # takeWhile (flagged flag_prepend h) ms" s us] by simp
    moreover have "visible h ms = s # visible h us"
      using visible_dropWhile [of h ms] dropWhile_flagged [OF Cons] by (simp add: Cons visible_def)
    moreover have "set (s # us) \<subseteq> set ms" by (subst ms) auto
    ultimately show ?thesis using u Cons by (auto simp: first_of_def)
  qed
qed

text \<open>A copy has the extension of its original, and the flag of an included module.\<close>

definition copy_of :: "'m st \<Rightarrow> 'm st \<Rightarrow> val \<Rightarrow> val \<Rightarrow> bool" where
  "copy_of h h' i v \<longleftrightarrow>
     (\<exists>ci cv. cinfo h v = Inr cv \<and> cinfo h' i = Inr ci \<and> ext ci = ext cv \<and>
              flags ci = flags cv OR INCLUDED)"

text \<open>What the loop and the link to the old superclass establish.\<close>

definition appended ::
    "(u64 \<Rightarrow> val) \<Rightarrow> 'm st \<Rightarrow> 'm st \<Rightarrow> val \<Rightarrow> val list \<Rightarrow> val list \<Rightarrow> val list \<Rightarrow> bool" where
  "appended owner h h' im is vs old \<longleftrightarrow>
     linked h' (Some im) (im # is @ old) \<and> heap_ok h' \<and> origins_ok owner h' \<and> same_exts h h' \<and>
     live h' = live h \<union> set is \<and> set is \<inter> live h = {} \<and>
     (\<forall>x. x \<notin> set (im # is) \<longrightarrow> cinfo h' x = cinfo h x) \<and>
     list_all2 (copy_of h h') is vs \<and>
     (\<exists>c c'. cinfo h im = Inr c \<and> cinfo h' im = Inr c' \<and> ext c' = ext c \<and> flags c' = flags c)"

lemma append_loop_ok:
  assumes "append_loop n m im h = (h1, Inr e)" "set_upper e old_super h1 = (h', Inr ())"
    and "heap_ok h" "origins_ok owner h"
    and "linked h (Some m) (m # ms)" "set (m # ms) \<subseteq> live h"
    and "linked h (Some im) (im # us)" "im \<in> live h" "im \<notin> set (m # ms)"
    and "linked h old_super old" "im \<notin> set old" "set old \<subseteq> live h"
  shows "\<exists>is. appended owner h h' im is (visible h ms) old"
  using assms
proof (induction n arbitrary: m im h ms us)
  case 0
  then show ?case by simp
next
  case (Suc n)
  note prems = Suc.prems
  obtain cim where cim: "cinfo h im = Inr cim" "ext_store h (ext cim) \<noteq> None"
    using prems(7) by auto
  from prems(1) obtain u where u: "module_upper n h m = Inr u" by (auto simp: bind_ok_iff)
  note ans = module_upper_answer [OF prems(5) u]
  show ?case
  proof (cases u)
    case None
    with prems(1) u have "h1 = h" "e = im" by (auto simp: bind_ok_iff)
    with prems(2) have s: "set_upper im old_super h = (h', Inr ())" by simp
    note su = set_upper_ok [OF cim(1) s]
    have "cinfo h' x = cinfo h x" if "x \<in> set old" for x using that prems(11) by (intro su(6)) auto
    then have "linked h' old_super old"
      by (rule linked_frame [OF prems(10)]) (simp_all add: same_exts_eq [OF su(4)])
    then have "appended owner h h' im [] (visible h ms) old"
      using ans None su prems(3,4) cim by (auto simp: appended_def same_exts_eq)
    then show ?thesis ..
  next
    case (Some s)
    with ans obtain vs where vs: "linked h (Some s) (s # vs)" "visible h ms = s # visible h vs"
      "set (s # vs) \<subseteq> set ms" by auto
    from prems(1) u Some obtain h2 h3 im2 where
      g: "generate_included n s h = (h2, Inr im2)" and
      su: "set_upper im (Some im2) h2 = (h3, Inr ())" and
      l: "append_loop n s im2 h3 = (h1, Inr e)"
      by (auto simp: bind_ok_iff)
    obtain cs where cs: "cinfo h s = Inr cs" using vs(1) by auto
    have "s \<in> live h" using vs(3) prems(6) by auto
    note gi = generate_included_ok [OF prems(3,4) this cs g]
    have "im2 \<noteq> im" using gi(3) prems(8) by auto
    then have "cinfo h2 im = Inr cim" using gi(6) cim(1) by simp
    note sup = set_upper_ok [OF this su]
    have exts: "same_exts h h3" using gi(7) sup(4) by (auto intro: same_exts_trans same_exts_eq)
    have frame: "cinfo h3 x = cinfo h x" if "x \<noteq> im" "x \<noteq> im2" for x
      using that sup(6) gi(6) by simp
    have fr: "x \<noteq> im \<and> x \<noteq> im2" if "x \<in> set (s # vs) \<union> set old" for x
      using that vs(3) prems(6,9,11,12) gi(3) by auto
    have keep: "linked h3 v ys" if "linked h v ys" "set ys \<subseteq> set (s # vs) \<union> set old" for v ys
      by (rule linked_frame [OF that(1) _ exts]) (use that(2) frame fr in blast)
    have im2: "cinfo h3 im2 = Inr (cs\<lparr>flags := flags cs OR INCLUDED\<rparr>)"
      using sup(6) gi(5) \<open>im2 \<noteq> im\<close> by simp
    have IH: "\<exists>is. appended owner h3 h' im2 is (visible h3 vs) old"
    proof (rule Suc.IH [OF l prems(2)])
      show "heap_ok h3" "origins_ok owner h3" using sup(3,7) gi(1,2) by simp_all
      show "linked h3 (Some s) (s # vs)" "linked h3 old_super old"
        by (rule keep [OF vs(1)], blast) (rule keep [OF prems(10)], blast)
      show "im2 \<in> live h3" "set (s # vs) \<subseteq> live h3" "set old \<subseteq> live h3"
        using sup(2) gi(4) vs(3) prems(6,12) by auto
      show "im2 \<notin> set (s # vs)" "im2 \<notin> set old" using fr by auto
      show "linked h3 (Some im2) (im2 # tl (s # vs))"
      proof -
        have "linked h (upper_field cs) vs" using vs(1) cs by auto
        then have "linked h3 (upper_field cs) vs"
          by (rule keep) auto
        moreover have "ext_store h3 (ext cs) \<noteq> None"
          using vs(1) cs same_exts_dom [OF exts] by auto
        ultimately show ?thesis using im2 by simp
      qed
    qed
    then obtain "is" where A: "appended owner h3 h' im2 is (visible h3 vs) old" ..
    have vis: "visible h3 vs = visible h vs" using frame fr by (intro visible_frame) auto
    have im_new: "im \<notin> set (im2 # is)"
      using A \<open>im2 \<noteq> im\<close> prems(8) gi(4) sup(2) by (auto simp: appended_def)
    have cim': "cinfo h' im = Inr (cim\<lparr>upper_field := Some im2\<rparr>)"
      using A im_new sup(5) by (simp add: appended_def)
    have exts': "same_exts h h'" using A exts by (auto simp: appended_def intro: same_exts_trans)
    have "appended owner h h' im (im2 # is) (visible h ms) old"
      unfolding appended_def
    proof (intro conjI)
      show "linked h' (Some im) (im # (im2 # is) @ old)"
        using A cim' cim(2) same_exts_dom [OF exts'] by (simp add: appended_def)
      show "list_all2 (copy_of h h') (im2 # is) (visible h ms)"
      proof -
        have "copy_of h h' im2 s" using A im2 cs by (auto simp: appended_def copy_of_def)
        moreover have "list_all2 (copy_of h h') is (visible h vs)"
        proof (rule list.rel_mono_strong)
          show "list_all2 (copy_of h3 h') is (visible h vs)" using A vis by (simp add: appended_def)
          show "copy_of h h' i v" if "v \<in> set (visible h vs)" "copy_of h3 h' i v" for i v
            using that frame fr by (auto simp: copy_of_def visible_def)
        qed
        ultimately show ?thesis by (simp add: vs(2))
      qed
      show "live h' = live h \<union> set (im2 # is)" "set (im2 # is) \<inter> live h = {}"
        using A gi(3,4) sup(2) by (auto simp: appended_def)
      show "\<forall>x. x \<notin> set (im # im2 # is) \<longrightarrow> cinfo h' x = cinfo h x"
        using A frame by (simp add: appended_def)
      show "\<exists>c c'. cinfo h im = Inr c \<and> cinfo h' im = Inr c' \<and> ext c' = ext c \<and> flags c' = flags c"
        using cim cim' by simp
    qed (use A exts' in \<open>simp_all add: appended_def\<close>)
    then show ?thesis ..
  qed
qed

lemma linked_unique: "linked h u xs \<Longrightarrow> linked h u ys \<Longrightarrow> xs = ys"
proof (induction xs arbitrary: u ys)
  case Nil
  then show ?case by (cases ys) auto
next
  case (Cons x xs)
  then show ?case by (cases ys) auto
qed

lemma linked_distinct: "linked h u ms \<Longrightarrow> distinct ms"
proof (induction ms arbitrary: u)
  case (Cons m ms)
  have "m \<notin> set ms"
  proof
    assume "m \<in> set ms"
    then obtain xs ys where ms: "ms = xs @ m # ys" by (meson split_list)
    with Cons.prems have "linked h (Some m) (m # ys)"
      using linked_suffix [of h u "m # xs" m ys] by simp
    moreover have "linked h (Some m) (m # ms)" using Cons.prems by auto
    ultimately have "m # ys = m # ms" by (rule linked_unique)
    then show False by (simp add: ms)
  qed
  with Cons show ?case by auto
qed simp

text \<open>What inclusion does to the chain of the class: the copies go right above it.\<close>

definition included ::
    "(u64 \<Rightarrow> val) \<Rightarrow> 'm st \<Rightarrow> 'm st \<Rightarrow> val \<Rightarrow> val list \<Rightarrow> val list \<Rightarrow> val list \<Rightarrow> bool" where
  "included owner h h' self is vs old \<longleftrightarrow>
     linked h' (Some self) (self # is @ old) \<and> heap_ok h' \<and> origins_ok owner h' \<and> same_exts h h' \<and>
     live h' = live h \<union> set is \<and> set is \<inter> live h = {} \<and>
     (\<forall>x \<in> live h - {self}. cinfo h' x = cinfo h x) \<and> list_all2 (copy_of h h') is vs \<and>
     (\<exists>c c'. cinfo h self = Inr c \<and> cinfo h' self = Inr c' \<and> ext c' = ext c \<and> flags c' = flags c)"

lemma append_include_chain:
  assumes r: "append_include_without_increment_version n self m h = (h', Inr ())"
    and ok: "heap_ok h" "origins_ok owner h"
    and self: "linked h (Some self) (self # old)" "set (self # old) \<subseteq> live h"
    and m: "linked h (Some m) (m # ms)" "set (m # ms) \<subseteq> live h"
    and new: "self \<notin> set (m # ms)"
  shows "\<exists>is. included owner h h' self is (m # visible h ms) old"
proof -
  obtain cs cm where c: "cinfo h self = Inr cs" "linked h (upper_field cs) old"
      "ext_store h (ext cs) \<noteq> None"
    and cm: "cinfo h m = Inr cm" "linked h (upper_field cm) ms" "ext_store h (ext cm) \<noteq> None"
    using self(1) m(1) by auto
  from r c(1) obtain h1 im h2 h3 e where
    g: "generate_included n m h = (h1, Inr im)" and su: "set_upper self (Some im) h1 = (h2, Inr ())" and
    l: "append_loop n m im h2 = (h3, Inr e)" and s: "set_upper e (upper_field cs) h3 = (h', Inr ())"
    by (auto simp: append_include_without_increment_version_def append_copies_def get_cinfo_def
        bind_ok_iff)
  have "m \<in> live h" using m(2) by simp
  note gi = generate_included_ok [OF ok this cm(1) g]
  have im: "im \<notin> set (self # old)" "im \<notin> set (m # ms)" "self \<noteq> im" using gi(3) self(2) m(2) by auto
  have self_old: "self \<notin> set old" using linked_distinct [OF self(1)] by simp
  have "cinfo h1 self = Inr cs" using gi(6) c(1) im(3) by simp
  note sup = set_upper_ok [OF this su]
  have exts: "same_exts h h2" using gi(7) sup(4) by (auto intro: same_exts_trans same_exts_eq)
  have frame: "cinfo h2 x = cinfo h x" if "x \<noteq> self" "x \<noteq> im" for x using that sup(6) gi(6) by simp
  have fr: "x \<noteq> self \<and> x \<noteq> im" if "x \<in> set (m # ms) \<union> set old" for x
    using that im self_old new by auto
  have keep: "linked h2 v ys" if "linked h v ys" "set ys \<subseteq> set (m # ms) \<union> set old" for v ys
    by (rule linked_frame [OF that(1) _ exts]) (use that(2) frame fr in blast)
  have cim: "cinfo h2 im = Inr (cm\<lparr>flags := flags cm OR INCLUDED\<rparr>)" using sup(6) gi(5) im(3) by simp
  have exts_im: "ext_store h2 (ext cm) \<noteq> None" using cm(3) same_exts_dom [OF exts] by simp
  have "\<exists>is. appended owner h2 h' im is (visible h2 ms) old"
  proof (rule append_loop_ok [OF l s])
    show "linked h2 (Some m) (m # ms)" by (rule keep [OF m(1)]) blast
    have "linked h2 (upper_field cm) ms" by (rule keep [OF cm(2)]) auto
    with cim exts_im show "linked h2 (Some im) (im # ms)" by simp
    show "linked h2 (upper_field cs) old" by (rule keep [OF c(2)]) blast
  qed (use gi sup m(2) self(2) im in auto)
  then obtain "is" where A: "appended owner h2 h' im is (visible h2 ms) old" ..
  have vis: "visible h2 ms = visible h ms" using frame fr by (intro visible_frame) auto
  have out: "cinfo h' x = cinfo h x" if "x \<in> live h" "x \<noteq> self" for x
  proof -
    have "x \<notin> set (im # is)" "x \<noteq> im" using A that(1) gi(3,4) sup(2) by (auto simp: appended_def)
    with A that(2) frame show ?thesis by (simp add: appended_def)
  qed
  have self': "cinfo h' self = Inr (cs\<lparr>upper_field := Some im\<rparr>)"
  proof -
    have "self \<notin> set (im # is)" using A im(3) self(2) gi(4) sup(2) by (auto simp: appended_def)
    with A sup(5) show ?thesis by (simp add: appended_def)
  qed
  have exts': "same_exts h h'" using A exts by (auto simp: appended_def intro: same_exts_trans)
  have "list_all2 (copy_of h h') is (visible h ms)"
  proof (rule list.rel_mono_strong)
    show "list_all2 (copy_of h2 h') is (visible h ms)" using A vis by (simp add: appended_def)
    show "copy_of h h' i v" if "v \<in> set (visible h ms)" "copy_of h2 h' i v" for i v
      using that frame fr by (auto simp: copy_of_def visible_def)
  qed
  moreover have "copy_of h h' im m" using A cim cm(1) by (auto simp: appended_def copy_of_def)
  ultimately have copies: "list_all2 (copy_of h h') (im # is) (m # visible h ms)" by simp
  have chain': "linked h' (Some self) (self # im # is @ old)"
    using A self' c(3) same_exts_dom [OF exts'] by (simp add: appended_def)
  have "included owner h h' self (im # is) (m # visible h ms) old"
    unfolding included_def
  proof (intro conjI)
    show "live h' = live h \<union> set (im # is)" "set (im # is) \<inter> live h = {}"
      using A gi(3,4) sup(2) by (auto simp: appended_def)
    show "\<forall>x \<in> live h - {self}. cinfo h' x = cinfo h x" using out by blast
    show "\<exists>c c'. cinfo h self = Inr c \<and> cinfo h' self = Inr c' \<and> ext c' = ext c \<and> flags c' = flags c"
      using c(1) self' by simp
  qed (use A exts' copies chain' in \<open>simp_all add: appended_def\<close>)
  then show ?thesis ..
qed

section \<open>Ancestors\<close>

definition real_of :: "(u64 \<Rightarrow> val) \<Rightarrow> 'm st \<Rightarrow> val \<Rightarrow> val" where
  "real_of owner h x = (case cinfo h x of Inr ci \<Rightarrow> owner (ext ci) | Inl _ \<Rightarrow> x)"

lemma ancestors_from_linked:
  assumes "linked h (Some m) (m # ms)" "length ms + 2 \<le> n"
    "\<And>x. x \<in> set (m # ms) \<Longrightarrow> shown x = Inr [g x]"
  shows "ancestors_from n h shown (Some m) = Inr (map g (mro h (m # ms)))"
  using assms
proof (induction "length ms" arbitrary: m ms n rule: less_induct)
  case less
  let ?us = "dropWhile (flagged flag_prepend h) ms"
  obtain k where n: "n = Suc (Suc k)" "length ms < Suc k"
    using less.prems(2) by (cases n; cases "n - 1") auto
  have up: "module_upper (Suc k) h m = Inr (first_of ?us)"
    using less.prems(1) n(2) by (rule module_upper_linked)
  note ans = module_upper_answer [OF less.prems(1) up]
  show ?case
  proof (cases ?us)
    case Nil
    with ans up less.prems(3) show ?thesis by (simp add: n mro_def first_of_def)
  next
    case (Cons s us)
    have "length us < length ms"
      using Cons length_dropWhile_le [of "flagged flag_prepend h" ms] by simp
    moreover from ans Cons obtain us' where us': "linked h (Some s) (s # us')"
      "visible h ms = s # visible h us'" "set (s # us') \<subseteq> set ms" by (auto simp: first_of_def)
    moreover have "us' = us"
    proof -
      have "ms = takeWhile (flagged flag_prepend h) ms @ s # us"
        using Cons takeWhile_dropWhile_id [of "flagged flag_prepend h" ms] by simp
      with less.prems(1) have "linked h (Some s) (s # us)"
        using linked_suffix [of h "Some m" "m # takeWhile (flagged flag_prepend h) ms" s us] by simp
      with us'(1) have "s # us' = s # us" by (rule linked_unique)
      then show ?thesis by simp
    qed
    ultimately have "ancestors_from (Suc k) h shown (Some s) = Inr (map g (mro h (s # us)))"
      using less.hyps [of us s "Suc k"] less.prems(2,3) n by auto
    with up less.prems(3) us'(2) \<open>us' = us\<close> show ?thesis
      by (simp add: n mro_def first_of_def Cons)
  qed
qed

lemma ancestors_linked:
  assumes "origins_ok owner h" "linked h (Some m) (m # ms)" "set (m # ms) \<subseteq> live h"
    "length ms + 2 \<le> n"
  shows "ancestors n h m = Inr (map (real_of owner h) (mro h (m # ms)))"
  unfolding ancestors_def
proof (rule ancestors_from_linked [OF assms(2,4)])
  fix x assume x: "x \<in> set (m # ms)"
  with assms(3) have "x \<in> live h" by auto
  moreover obtain ci where "cinfo h x = Inr ci" using linked_cinfo [OF assms(2) x] by blast
  ultimately show "rbind (real_module h x) (\<lambda>r. Inr [r]) = Inr [real_of owner h x]"
    using assms(1) by (simp add: real_module_owner real_of_def)
qed

lemma linked_version [simp]: "linked (h\<lparr>class_version := v\<rparr>) u ms = linked h u ms"
  by (induction ms arbitrary: u) simp_all

lemma version_simps [simp]:
  "flagged p (h\<lparr>class_version := v\<rparr>) = flagged p h"
  "origins_ok owner (h\<lparr>class_version := v\<rparr>) = origins_ok owner h"
  "same_exts h1 (h\<lparr>class_version := v\<rparr>) = same_exts h1 h"
  "copy_of h1 (h\<lparr>class_version := v\<rparr>) = copy_of h1 h"
  by (simp_all add: fun_eq_iff flagged_def origins_ok_def owned_def same_exts_def copy_of_def)

lemma append_include_included:
  assumes "append_include n self m h = (h', Inr ())" "heap_ok h" "origins_ok owner h"
    "linked h (Some self) (self # old)" "set (self # old) \<subseteq> live h"
    "linked h (Some m) (m # ms)" "set (m # ms) \<subseteq> live h" "self \<notin> set (m # ms)"
  obtains "is" where "included owner h h' self is (m # visible h ms) old"
proof -
  from assms(1) obtain h1 where
    r: "append_include_without_increment_version n self m h = (h1, Inr ())"
    and h': "h' = h1\<lparr>class_version := class_version h1 + 1\<rparr>"
    by (auto simp: append_include_def inc_class_version_def bind_ok_iff)
  from append_include_chain [OF r assms(2-)] obtain "is"
    where "included owner h h1 self is (m # visible h ms) old" ..
  then have "included owner h h' self is (m # visible h ms) old" by (simp add: included_def h')
  then show ?thesis by (rule that)
qed

lemma included_facts:
  assumes i: "included owner h h' self is vs old"
    and old: "set old \<subseteq> live h" "self \<notin> set old"
    and vs: "\<And>v. v \<in> set vs \<Longrightarrow> \<not> flagged flag_prepend h v"
  shows "mro h' (self # is @ old) = self # is @ visible h old"
    "map (real_of owner h') is = map (real_of owner h) vs"
    "real_of owner h' self = real_of owner h self"
    "map (real_of owner h') (visible h old) = map (real_of owner h) (visible h old)"
    "length is = length vs" "set (self # is @ old) \<subseteq> live h' \<or> self \<notin> live h"
proof -
  have copies: "list_all2 (copy_of h h') is vs" using i by (simp add: included_def)
  have fr: "cinfo h' x = cinfo h x" if "x \<in> set old" for x
    using that i old by (auto simp: included_def)
  have "\<not> flagged flag_prepend h' x" if "x \<in> set is" for x
    using copies that vs by (fastforce simp: list_all2_conv_all_nth in_set_conv_nth copy_of_def flagged_def)
  then have "visible h' is = is" by (simp add: visible_def)
  moreover have "visible h' old = visible h old" using fr by (rule visible_frame)
  ultimately show "mro h' (self # is @ old) = self # is @ visible h old"
    by (simp add: mro_def) (simp add: visible_def)
  show "map (real_of owner h') is = map (real_of owner h) vs"
    using copies by (auto simp: list_all2_conv_all_nth list_eq_iff_nth_eq copy_of_def real_of_def)
  show "real_of owner h' self = real_of owner h self"
    using i by (auto simp: included_def real_of_def)
  show "map (real_of owner h') (visible h old) = map (real_of owner h) (visible h old)"
    using fr by (simp add: visible_def real_of_def)
  show "length is = length vs" using copies by (rule list_all2_lengthD)
  show "set (self # is @ old) \<subseteq> live h' \<or> self \<notin> live h" using i old by (auto simp: included_def)
qed

lemma visible_length: "length (visible h ms) \<le> length ms"
  by (simp add: visible_def)

section \<open>Looking up\<close>

fun find_map :: "('a \<Rightarrow> 'b option) \<Rightarrow> 'a list \<Rightarrow> 'b option" where
  "find_map f [] = None"
| "find_map f (x # xs) = (case f x of Some y \<Rightarrow> Some y | None \<Rightarrow> find_map f xs)"

lemma find_map_append:
  "find_map f (xs @ ys) = (case find_map f xs of Some y \<Rightarrow> Some y | None \<Rightarrow> find_map f ys)"
  by (induction xs) (auto split: option.splits)

lemma first_res_find_map:
  "(\<And>x. x \<in> set xs \<Longrightarrow> look x = Inr (f x)) \<Longrightarrow> first_res look xs = Inr (find_map f xs)"
  by (induction xs) (auto split: option.splits)

definition method_in :: "'m st \<Rightarrow> u32 \<Rightarrow> val \<Rightarrow> u32 option" where
  "method_in h i m = (case ext_of h m of Inr e \<Rightarrow> map_of (method_table e) i | Inl _ \<Rightarrow> None)"

lemma mro_subset: "set (mro h ms) \<subseteq> set ms"
  by (auto simp: mro_def visible_def split: list.splits)

lemma walk_find_map:
  assumes "linked h (Some m) (m # ms)" "length ms + 2 \<le> n"
    "\<And>x. x \<in> set (m # ms) \<Longrightarrow> look x = Inr (f x)"
  shows "walk n h look m = Inr (find_map f (mro h (m # ms)))"
  unfolding walk_linked [OF assms(1,2)] using assms(3) mro_subset
  by (intro first_res_find_map) blast

lemma find_map_eq: "find_map (\<lambda>x. if x = t then Some () else None) xs \<noteq> None \<longleftrightarrow> t \<in> set xs"
  by (induction xs) auto

lemma find_map_image:
  "find_map (\<lambda>x. if g x = t then Some () else None) xs \<noteq> None \<longleftrightarrow> t \<in> set (map g xs)"
  by (induction xs) auto

lemma get_instance_method_in:
  assumes "linked h u ms" "x \<in> set ms"
  shows "get_instance_method h i x = Inr (method_in h i x)"
  using linked_cinfo [OF assms] by (auto simp: get_instance_method_def method_in_def)

lemma include_module_linked:
  assumes "origins_ok owner h" "linked h (Some c) (c # ms)" "set (c # ms) \<subseteq> live h"
    "length ms + 2 \<le> n"
  shows "include_module n h c t = Inr (t \<in> set (map (real_of owner h) (mro h (c # ms))))"
proof -
  have "when_res (rbind (real_module h x) (\<lambda>r. Inr (r = t))) =
      Inr (if real_of owner h x = t then Some () else None)" if x: "x \<in> set (c # ms)" for x
  proof -
    have "x \<in> live h" using x assms(3) by blast
    moreover obtain ci where "cinfo h x = Inr ci" using linked_cinfo [OF assms(2) x] by blast
    ultimately show ?thesis
      using assms(1) by (simp add: when_res_def real_module_owner real_of_def)
  qed
  then show ?thesis
    unfolding include_module_def
    by (subst walk_find_map [OF assms(2,4)]) (assumption, simp only: rbind_simps find_map_image)
qed

lemma kind_of_linked:
  assumes "get_class bc n h v = Inr c" "linked h (Some c) (c # ms)" "length ms + 2 \<le> n"
  shows "kind_of bc n h v t = Inr (t \<in> set (mro h (c # ms)))"
  unfolding kind_of_def assms(1)
  by (simp add: walk_find_map [OF assms(2,3), of _ "\<lambda>m. if m = t then Some () else None"]
      find_map_eq del: not_None_eq)

end
