(* ===== verification/ClassProps.thy ===== *)
theory ClassProps
  imports ClassFacts
begin

text \<open>
  The properties of modules and classes: what method lookup, ancestors and inclusion compute, and
  where the code departs from what it means.
\<close>

section \<open>A small hierarchy\<close>

text \<open>A class \<open>0x40040\<close> below a class \<open>0x40000\<close>, and a module \<open>0x40080\<close>.\<close>

definition demo_module :: "val option \<Rightarrow> bool \<Rightarrow> u64 \<Rightarrow> rvalue" where
  "demo_module u m a =
     rvalue_new 0x40000 (Module \<lparr>upper_field = u, flags = class_flags_new m, ext = a\<rparr>)"

definition demo_ext :: "string \<Rightarrow> (u32 \<times> u32) list \<Rightarrow> class_ext" where
  "demo_ext s ms = class_ext_new\<lparr>cname := Some s, method_table := ms\<rparr>"

definition demo_store :: store where
  "demo_store =
     store_new (\<lambda>n. of_nat (8 * n + 8))
       (demo_heap\<lparr>cells := (\<lambda>_. gcbox_of rvalue_new_invalid)
          (0x40000 := gcbox_of (demo_module None False 8),
           0x40040 := gcbox_of (demo_module (Some 0x40000) False 16),
           0x40080 := gcbox_of (demo_module None True 24))\<rparr>)
     \<lparr>ext_store := [8 \<mapsto> demo_ext ''Object'' [(50, 3)], 16 \<mapsto> demo_ext ''C'' [],
                     24 \<mapsto> demo_ext ''M'' [(50, 4)]]\<rparr>"

definition demo_owner :: "u64 \<Rightarrow> val" where
  "demo_owner a = (if a = 8 then 0x40000 else if a = 16 then 0x40040 else 0x40080)"

lemma demo_fields [simp]:
  "used_in_current demo_store = 3" "allocated demo_store = 3" "free demo_store = None"
  "free_list_count demo_store = 0"
  "current demo_store = 0x40000" "pages demo_store = []" "free_pages demo_store = []"
  "gc_enabled demo_store" "os_calls demo_store = 1"
  "os_alloc demo_store = (\<lambda>n. if n = 0 then 0x40000 else 0)"
  "mark_bits demo_store = (\<lambda>_. replicate 63 0)" "class_version demo_store = 0"
  by (simp_all add: demo_store_def store_new_def demo_heap_def heap.defs)

lemma demo_cells:
  "cells demo_store = (\<lambda>_. gcbox_of rvalue_new_invalid)
     (0x40000 := gcbox_of (demo_module None False 8),
      0x40040 := gcbox_of (demo_module (Some 0x40000) False 16),
      0x40080 := gcbox_of (demo_module None True 24))"
  by (simp add: demo_store_def store_new_def demo_heap_def heap.defs)

lemma demo_exts:
  "ext_store demo_store = [8 \<mapsto> demo_ext ''Object'' [(50, 3)], 16 \<mapsto> demo_ext ''C'' [],
                           24 \<mapsto> demo_ext ''M'' [(50, 4)]]"
  by (simp add: demo_store_def)

lemma demo_store_live: "live demo_store = {0x40000, 0x40040, 0x40080}"
  by (simp add: live_def used_cells_def free_list_def page_cells_def get_data_ptr_def GCBOX_SIZE_def
      numeral_3_eq_3)

lemma demo_store_ok: "heap_ok demo_store"
proof -
  have "page_aligned 0x40000" by code_simp
  then show ?thesis
    by (simp add: heap_ok_def pages_ok_def list_ok_def os_ok_def all_pages_def size_defs
        exI [of _ "[]"])
qed

lemma demo_cinfo:
  "cinfo demo_store 0x40000 = Inr \<lparr>upper_field = None, flags = 0, ext = 8\<rparr>"
  "cinfo demo_store 0x40040 = Inr \<lparr>upper_field = Some 0x40000, flags = 0, ext = 16\<rparr>"
  "cinfo demo_store 0x40080 = Inr \<lparr>upper_field = None, flags = 1, ext = 24\<rparr>"
  by (simp_all add: cinfo_def as_class_def as_kind_def as_rvalue_def is_packed_value_def mem_def
      demo_cells demo_module_def rvalue_new_def class_flags_new_def IS_MODULE_def)

lemma demo_linked:
  "linked demo_store (Some 0x40040) [0x40040, 0x40000]" "linked demo_store (Some 0x40080) [0x40080]"
  "linked demo_store (Some 0x40000) [0x40000]"
  by (simp_all add: demo_cinfo demo_exts)

lemma demo_origins: "origins_ok demo_owner demo_store"
  by (auto simp: origins_ok_def demo_store_live demo_cinfo owned_def demo_exts demo_owner_def
      flag_included_def INCLUDED_def)

lemma demo_flagged: "\<not> flagged flag_prepend demo_store 0x40080" "\<not> flagged flag_prepend demo_store 0x40000"
  by (simp_all add: flagged_def demo_cinfo flag_prepend_def HAS_PREPEND_def)

lemma demo_alloc_store: "alloc demo_store d \<noteq> Inl e"
  by (simp add: alloc_def alloc_bump_def size_defs Let_def)

lemma modify_cinfo_total: "cinfo h m = Inr ci \<Longrightarrow> \<exists>h'. modify_cinfo f m h = (h', Inr ())"
  by (simp add: modify_cinfo_ok)

lemma demo_generate: "\<exists>h' im. generate_included 5 0x40080 demo_store = (h', Inr im)"
proof -
  obtain h1 v where a: "alloc demo_store (mem demo_store 0x40080) = Inr (h1, v)"
    using demo_alloc_store by (metis obj_sumE prod.exhaust)
  then have "rvalue_pack alloc demo_store (mem demo_store 0x40080) = Inr (h1, v)"
    using store.pack_total [OF demo_store_ok a] by simp
  then have d: "value_dup 5 0x40080 demo_store = (h1, Inr v)"
    using value_dup_module [OF demo_cinfo(3), of 4] by (simp add: eval_nat_numeral)
  note v = value_dup_module_ok [OF demo_store_ok demo_cinfo(3) d]
  have "ext_store h1 24 = Some (demo_ext ''M'' [(50, 4)])" by (simp add: v(4) demo_exts)
  then have "\<exists>h'. set_include v 0x40080 h1 = (h', Inr ())" using set_include_ok [OF v(5)] by fastforce
  moreover have "real_module demo_store 0x40080 = Inr 0x40080"
    by (simp add: real_module_owner [OF demo_origins _ demo_cinfo(3)] demo_store_live demo_owner_def)
  ultimately show ?thesis using d by (auto simp: generate_included_def bind_def)
qed

lemma demo_include: "\<exists>h'. append_include 5 0x40040 0x40080 demo_store = (h', Inr ())"
proof -
  obtain h1 im where g: "generate_included 5 0x40080 demo_store = (h1, Inr im)"
    using demo_generate by blast
  have live: "0x40080 \<in> live demo_store" by (simp add: demo_store_live)
  note gi = generate_included_ok [OF demo_store_ok demo_origins live demo_cinfo(3) g]
  have new: "im \<noteq> 0x40040" "im \<noteq> 0x40080" using gi(3) by (auto simp: demo_store_live)
  then have c: "cinfo h1 0x40040 = cinfo demo_store 0x40040" "cinfo h1 0x40080 = cinfo demo_store 0x40080"
    using gi(6) by (metis, metis)
  then obtain h2 where su: "set_upper 0x40040 (Some im) h1 = (h2, Inr ())"
    using modify_cinfo_total demo_cinfo(2) unfolding set_upper_def by metis
  note s = set_upper_ok [OF c(1) [unfolded demo_cinfo] su]
  have "cinfo h2 0x40080 = Inr \<lparr>upper_field = None, flags = 1, ext = 24\<rparr>"
    using s(6) [of "0x40080"] c(2) demo_cinfo(3) by simp
  then have l: "append_loop 5 0x40080 im h2 = (h2, Inr im)"
    by (simp add: eval_nat_numeral module_upper_def bind_def)
  have "cinfo h2 im = cinfo h1 im" using s(6) new(1) by simp
  then obtain h3 where "set_upper im (Some 0x40000) h2 = (h3, Inr ())"
    using modify_cinfo_total gi(5) unfolding set_upper_def by metis
  with g su l show ?thesis
    by (simp add: append_include_def append_include_without_increment_version_def append_copies_def
        get_cinfo_def bind_def demo_cinfo inc_class_version_def)
qed

lemma demo_add: "\<exists>h'. add_method 0x40080 51 7 demo_store = (h', Inr None)"
  by (simp add: add_method_def get_cinfo_def inc_class_version_def bind_def demo_cinfo
      get_instance_method_def ext_of_def load_def demo_exts demo_ext_def class_ext_new_def modify_ext_def)

section \<open>Properties\<close>

text \<open>C12. Method lookup answers with the first definition along the method resolution order: the class
  itself, then the modules above it that no prepended module hides; for a singleton class that has
  none, the order of its own class follows.\<close>

theorem get_method_spec:
  assumes "linked h (Some c) (c # ms)" "length ms + 2 \<le> n"
    and "linked h (Some (rclass (mem h c))) (rclass (mem h c) # ks)" "length ks + 2 \<le> n"
  shows "get_method n h c i =
    Inr (find_map (method_in h i)
      (mro h (c # ms) @
       (if is_singleton h c = Inr True then mro h (rclass (mem h c) # ks) else [])))"
proof -
  have "is_singleton h c = Inr True \<or> is_singleton h c = Inr False"
    using assms(1) by (auto simp: is_singleton_def ext_of_def load_def)
  moreover have "walk n h (get_instance_method h i) c = Inr (find_map (method_in h i) (mro h (c # ms)))"
    using get_instance_method_in [OF assms(1)] by (intro walk_find_map assms(1,2))
  moreover have "walk n h (get_instance_method h i) (rclass (mem h c)) =
      Inr (find_map (method_in h i) (mro h (rclass (mem h c) # ks)))"
    using get_instance_method_in [OF assms(3)] by (intro walk_find_map assms(3,4))
  ultimately show ?thesis
    by (auto simp: get_method_def find_map_append split: option.splits)
qed

theorem get_method_spec_witness: "get_method 4 demo_store 0x40040 50 = Inr (Some 3)"
proof -
  have k: "rclass (mem demo_store 0x40040) = 0x40000"
    by (simp add: mem_def demo_cells demo_module_def rvalue_new_def)
  have "get_method 4 demo_store 0x40040 50 = Inr (find_map (method_in demo_store 50)
      (mro demo_store [0x40040, 0x40000] @
       (if is_singleton demo_store 0x40040 = Inr True then mro demo_store [0x40000] else [])))"
    using get_method_spec [OF demo_linked(1), of 4 "[]"] demo_linked(3) by (simp add: k)
  then show ?thesis
    by (simp add: mro_def visible_def demo_flagged method_in_def ext_of_def demo_cinfo load_def
        demo_exts demo_ext_def class_ext_new_def)
qed

text \<open>C32. \<open>Module#include?\<close> and \<open>Module#===\<close> test exactly membership in \<open>Module#ancestors\<close>.\<close>

theorem include_module_ancestors:
  assumes "origins_ok owner h" "linked h (Some c) (c # ms)" "set (c # ms) \<subseteq> live h"
    "length ms + 2 \<le> n"
  shows "\<exists>as. ancestors n h c = Inr as \<and> (\<forall>t. include_module n h c t = Inr (t \<in> set as))"
using ancestors_linked [OF assms] include_module_linked [OF assms] by blast

theorem include_module_ancestors_witness:
  "\<exists>as. ancestors 4 demo_store 0x40040 = Inr as \<and>
     include_module 4 demo_store 0x40040 0x40080 = Inr (0x40080 \<in> set as)"
  using include_module_ancestors [OF demo_origins demo_linked(1), of 4] demo_store_live by auto

text \<open>C23. Including a module puts the module and its ancestors, in their order, right above the class;
  the class itself and everything that was above it stay.\<close>

theorem append_include_ancestors:
  assumes "append_include n self m h = (h', Inr ())" "heap_ok h" "origins_ok owner h"
    "linked h (Some self) (self # old)" "set (self # old) \<subseteq> live h"
    "linked h (Some m) (m # ms)" "set (m # ms) \<subseteq> live h" "self \<notin> set (m # ms)"
    "\<not> flagged flag_prepend h m" "length old + length ms + 3 \<le> N"
  shows "\<exists>a as am. ancestors N h self = Inr (a # as) \<and> ancestors N h m = Inr am \<and>
    ancestors N h' self = Inr (a # am @ as)"
proof -
  obtain "is" where i: "included owner h h' self is (m # visible h ms) old"
    using append_include_included [OF assms(1-8)] .
  have "self \<notin> set old" using linked_distinct [OF assms(4)] by simp
  moreover have "set old \<subseteq> live h" using assms(5) by simp
  ultimately have f: "mro h' (self # is @ old) = self # is @ visible h old"
    "map (real_of owner h') is = map (real_of owner h) (m # visible h ms)"
    "real_of owner h' self = real_of owner h self"
    "map (real_of owner h') (visible h old) = map (real_of owner h) (visible h old)"
    "length is = Suc (length (visible h ms))"
    using included_facts [OF i] assms(9) by (auto simp: visible_def)
  have "ancestors N h' self = Inr (map (real_of owner h') (mro h' (self # is @ old)))"
    using i assms(5,10) f(5) visible_length [of h ms]
    by (intro ancestors_linked) (auto simp: included_def)
  moreover have "ancestors N h self = Inr (map (real_of owner h) (mro h (self # old)))"
    using assms(10) by (intro ancestors_linked assms(3,4,5)) simp
  moreover have "ancestors N h m = Inr (map (real_of owner h) (mro h (m # ms)))"
    using assms(10) by (intro ancestors_linked assms(3,6,7)) simp
  ultimately show ?thesis using f(1-4) by (simp add: mro_def)
qed

theorem append_include_ancestors_witness:
  "\<exists>h' a as am. append_include 5 0x40040 0x40080 demo_store = (h', Inr ()) \<and>
     ancestors 9 demo_store 0x40040 = Inr (a # as) \<and> ancestors 9 demo_store 0x40080 = Inr am \<and>
     ancestors 9 h' 0x40040 = Inr (a # am @ as)"
proof -
  obtain h' where "append_include 5 0x40040 0x40080 demo_store = (h', Inr ())"
    using demo_include by blast
  with append_include_ancestors [OF this demo_store_ok demo_origins demo_linked(1) _ demo_linked(2)
      _ _ demo_flagged(1), of 9] show ?thesis
    by (simp add: demo_store_live)
qed

text \<open>A module is shared by its copies: a method added to it is seen at once through every copy,
  and through no other module; the old method is returned and every cached lookup is outdated.\<close>

theorem add_method_shared:
  assumes "add_method m i x h = (h', Inr old)" "cinfo h m = Inr cm"
  shows "old = method_in h i m \<and> class_version h' = class_version h + 1 \<and>
    (\<forall>y cy j. cinfo h y = Inr cy \<longrightarrow>
       method_in h' j y = (if ext cy = ext cm \<and> j = i then Some x else method_in h j y))"
proof -
  let ?h = "h\<lparr>class_version := class_version h + 1\<rparr>"
  let ?f = "\<lambda>e. e\<lparr>method_table := AList.update i x (method_table e)\<rparr>"
  from assms obtain h2 where o: "get_instance_method ?h i m = Inr old"
    and e: "modify_ext ?f m ?h = (h2, Inr ())" "h' = h2"
    by (auto simp: add_method_def get_cinfo_def inc_class_version_def bind_ok_iff)
  from o assms(2) obtain em where em: "ext_store h (ext cm) = Some em" "old = map_of (method_table em) i"
    by (auto simp: get_instance_method_def ext_of_def load_def rbind_Inr_iff split: option.splits)
  have "h2 = ?h\<lparr>ext_store := (ext_store ?h)(ext cm \<mapsto> ?f em)\<rparr>"
    using modify_ext_ok [of ?h m cm em ?f] e em(1) assms(2) by simp
  then show ?thesis
    using e em assms(2) by (auto simp: method_in_def ext_of_def load_def update_conv split: option.splits)
qed

theorem add_method_shared_witness:
  "\<exists>h'. add_method 0x40080 51 7 demo_store = (h', Inr None) \<and> class_version h' = 1 \<and>
     method_in h' 51 0x40080 = Some 7 \<and> method_in h' 51 0x40040 = None"
proof -
  obtain h' where h': "add_method 0x40080 51 7 demo_store = (h', Inr None)" using demo_add by blast
  from add_method_shared [OF h' demo_cinfo(3)] demo_cinfo h' show ?thesis
    by (auto simp: method_in_def ext_of_def load_def demo_exts demo_ext_def class_ext_new_def)
qed

text \<open>The system can still provide a page at each of the next \<open>n\<close> requests.\<close>

definition supplied :: "nat \<Rightarrow> 'm heap_scheme \<Rightarrow> bool" where
  "supplied n h \<longleftrightarrow> (\<forall>k < n. os_alloc h (os_calls h + k) \<noteq> 0)"

lemma supplied_mono: "supplied n h \<Longrightarrow> k \<le> n \<Longrightarrow> supplied k h"
  by (simp add: supplied_def)

lemma supplied_cong:
  "os_alloc h' = os_alloc h \<Longrightarrow> os_calls h' = os_calls h \<Longrightarrow> supplied n h' = supplied n h"
  by (simp add: supplied_def)

lemma alloc_supplied:
  assumes "alloc h d = Inr (h', a)" "supplied (Suc n) h"
  shows "supplied n h'"
proof -
  have "os_alloc h' = os_alloc h" "os_calls h' = os_calls h \<or> os_calls h' = Suc (os_calls h)"
    using assms(1)
    by (auto simp: alloc_def alloc_free_def alloc_bump_def pop_free_page_def alloc_page_def write_cell_def
        rbind_Inr_iff Let_def split: option.splits if_splits)
  with assms(2) show ?thesis by (auto simp: supplied_def)
qed

lemma set_include_supplied: "set_include m org h = (h', r) \<Longrightarrow> supplied n h' = supplied n h"
  by (rule supplied_cong)
    (auto simp: set_include_def modify_cinfo_def modify_ext_def get_cinfo_def bind_def update_object_def
      write_cell_def split: sum.splits prod.splits)

lemma set_upper_supplied: "set_upper m u h = (h', r) \<Longrightarrow> supplied n h' = supplied n h"
  by (rule supplied_cong)
    (auto simp: set_upper_def modify_cinfo_def get_cinfo_def bind_def update_object_def
      write_cell_def split: sum.splits prod.splits)

text \<open>While there is memory, the copy of a module is made.\<close>

lemma generate_included_total:
  assumes "heap_ok h" "origins_ok owner h" "m \<in> live h" "cinfo h m = Inr ci" "supplied (Suc n) h"
  obtains h' im where "generate_included (Suc k) m h = (h', Inr im)" "supplied n h'"
proof -
  have "os_alloc h (os_calls h) \<noteq> 0" using assms(5) by (auto simp: supplied_def dest: spec [of _ 0])
  then obtain h1 v where a: "alloc h (mem h m) = Inr (h1, v)"
    using alloc_total [of h "mem h m"] by (auto simp: is_ok_def split: sum.splits)
  then have d: "value_dup (Suc k) m h = (h1, Inr v)"
    using store.pack_total [OF assms(1) a] value_dup_module [OF assms(4), of k]
    by (simp add: steps_def del: value_dup.simps)
  note v = value_dup_module_ok [OF assms(1,4) d]
  obtain e where "ext_store h (ext ci) = Some e" using assms(2-4) by (rule origins_okD)
  then have "ext_store h1 (ext ci) = Some e" by (simp add: v(4))
  then obtain h2 where s: "set_include v (owner (ext ci)) h1 = (h2, Inr ())"
    using set_include_ok [OF v(5)] by blast
  have "generate_included (Suc k) m h = (h2, Inr v)"
    using s d real_module_owner [OF assms(2-4)]
    by (simp add: generate_included_def bind_def del: value_dup.simps)
  moreover have "supplied n h2"
    using alloc_supplied [OF a assms(5)] set_include_supplied [OF s] by simp
  ultimately show thesis by (rule that)
qed

lemma live_finite [simp]: "finite (live h)"
  by (simp add: live_def)

text \<open>The loop of an inclusion below a chain that starts with the copy just made: every round makes
  another copy and links it above, so no amount of fuel reaches an end.\<close>

lemma append_loop_runs_on:
  "\<lbrakk>heap_ok h; origins_ok owner h; cinfo h m = Inr cm; upper_field cm = Some im; im \<in> live h;
    cinfo h im = Inr ci; \<not> flag_prepend (flags ci); supplied n h\<rbrakk> \<Longrightarrow>
   \<exists>h'. append_loop (Suc n) m im h = (h', Inl Undef) \<and> card (live h') = card (live h) + n"
proof (induction n arbitrary: h m cm im ci)
  case 0
  then show ?case by (simp add: module_upper_def bind_def)
next
  case (Suc n)
  have u: "module_upper (Suc n) h m = Inr (Some im)"
    using Suc.prems(3,4,6,7) by (simp add: module_upper_def)
  obtain h1 im2 where g: "generate_included (Suc n) im h = (h1, Inr im2)" and s1: "supplied n h1"
    using Suc.prems(1,2,5,6,8) by (rule generate_included_total)
  note gi = generate_included_ok [OF Suc.prems(1,2,5,6) g]
  have new: "im2 \<noteq> im" using gi(3) Suc.prems(5) by blast
  then have c1: "cinfo h1 im = Inr ci" using gi(6) Suc.prems(6) by metis
  obtain h2 r where s: "set_upper im (Some im2) h1 = (h2, r)" by (cases "set_upper im (Some im2) h1")
  note su = set_upper_ok [OF c1 s]
  have c2: "cinfo h2 im2 = Inr (ci\<lparr>flags := flags ci OR INCLUDED\<rparr>)" using su(6) [OF new] gi(5) by simp
  have "supplied n h2" using s1 set_upper_supplied [OF s] by simp
  then have "\<exists>h'. append_loop (Suc n) im im2 h2 = (h', Inl Undef) \<and> card (live h') = card (live h2) + n"
    using su gi Suc.prems(7) by (intro Suc.IH [OF _ _ su(5) _ _ c2]) simp_all
  then obtain h' where "append_loop (Suc n) im im2 h2 = (h', Inl Undef)" "card (live h') = card (live h2) + n"
    by blast
  then show ?case using u g s su(1,2) gi(3,4) by (simp add: bind_def card_insert_if)
qed

text \<open>C33. Including a module in itself never returns: whatever fuel \<open>n\<close> the loop is given, and as
  long as the system provides memory, it is still running after it has made \<open>n\<close> copies of the
  module, each included above the one before; it neither completes nor raises an error.\<close>

theorem include_self_diverges:
  assumes "heap_ok h" "origins_ok owner h" "cinfo h m = Inr cm" "m \<in> live h"
    "\<not> flagged flag_prepend h m" "supplied n h"
  shows "\<exists>h'. append_include n m m h = (h', Inl Undef) \<and> card (live h') = card (live h) + n"
proof (cases n)
  case 0
  with real_module_owner [OF assms(2,4,3)] assms(3) show ?thesis
    by (simp add: append_include_def append_include_without_increment_version_def append_copies_def
        get_cinfo_def bind_def generate_included_def)
next
  case (Suc k)
  obtain h1 im where g: "generate_included (Suc k) m h = (h1, Inr im)" and s1: "supplied k h1"
    using assms(1,2,4,3) assms(6) [unfolded Suc] by (rule generate_included_total)
  note gi = generate_included_ok [OF assms(1,2,4,3) g]
  have new: "im \<noteq> m" using gi(3) assms(4) by blast
  then have c1: "cinfo h1 m = Inr cm" using gi(6) assms(3) by metis
  obtain h2 r where s: "set_upper m (Some im) h1 = (h2, r)" by (cases "set_upper m (Some im) h1")
  note su = set_upper_ok [OF c1 s]
  have c2: "cinfo h2 im = Inr (cm\<lparr>flags := flags cm OR INCLUDED\<rparr>)" using su(6) [OF new] gi(5) by simp
  have "supplied k h2" using s1 set_upper_supplied [OF s] by simp
  then have "\<exists>h'. append_loop (Suc k) m im h2 = (h', Inl Undef) \<and> card (live h') = card (live h2) + k"
    using su gi assms(3,5) by (intro append_loop_runs_on [OF _ _ su(5) _ _ c2]) (simp_all add: flagged_def)
  then obtain h' where "append_loop (Suc k) m im h2 = (h', Inl Undef)" "card (live h') = card (live h2) + k"
    by blast
  then show ?thesis using g s su(1,2) gi(3,4) assms(3) Suc
    by (simp add: append_include_def append_include_without_increment_version_def append_copies_def
        get_cinfo_def bind_def card_insert_if)
qed

definition demo_pages :: "nat \<Rightarrow> u64" where
  "demo_pages n =
     (if n = 0 then 0x40000 else if n = 1 then 0x80000 else if n = 2 then 0xC0000
      else if n = 3 then 0x100000 else 0)"

definition demo_supply :: store where
  "demo_supply = demo_store\<lparr>os_alloc := demo_pages\<rparr>"

lemma demo_supply_same:
  "cinfo demo_supply = cinfo demo_store" "live demo_supply = live demo_store"
  "ext_store demo_supply = ext_store demo_store"
proof -
  have m: "mem demo_supply = mem demo_store" by (simp add: demo_supply_def mem_def fun_eq_iff)
  show "cinfo demo_supply = cinfo demo_store" by (simp add: cinfo_def m fun_eq_iff)
qed (simp_all add: demo_supply_def live_def used_cells_def free_list_def)

lemma demo_supply_ok: "heap_ok demo_supply"
proof -
  have "page_aligned 0x40000" "page_aligned 0x80000" "page_aligned 0xC0000" "page_aligned 0x100000"
    by code_simp+
  then have "os_ok demo_supply" by (simp add: os_ok_def demo_supply_def demo_pages_def)
  moreover have "page_aligned 0x40000" by code_simp
  ultimately show ?thesis
    by (simp add: heap_ok_def pages_ok_def list_ok_def all_pages_def demo_supply_def size_defs
        demo_pages_def exI [of _ "[]"])
qed

lemma demo_supplied: "supplied 3 demo_supply"
proof -
  have "k = 0 \<or> k = 1 \<or> k = 2" if "k < 3" for k :: nat using that by linarith
  then show ?thesis by (auto simp: supplied_def demo_supply_def demo_pages_def)
qed

theorem include_self_diverges_witness:
  "\<exists>h'. append_include 3 0x40080 0x40080 demo_supply = (h', Inl Undef) \<and> card (live h') = 6"
proof -
  have o: "origins_ok demo_owner demo_supply"
    using demo_origins by (simp add: origins_ok_def owned_def demo_supply_same)
  have "\<not> flagged flag_prepend demo_supply 0x40080"
    using demo_flagged(1) by (simp add: flagged_def demo_supply_same)
  moreover have "card (live demo_supply) = 3" "0x40080 \<in> live demo_supply"
    by (simp_all add: demo_supply_same demo_store_live)
  ultimately show ?thesis
    using include_self_diverges [OF demo_supply_ok o _ _ _ demo_supplied, of "0x40080"]
    by (simp add: demo_supply_same demo_cinfo)
qed

text \<open>C34. \<open>Object#kind_of?\<close> compares with the modules of the chain themselves, not with what they
  are copies of: after a module is included in a class, \<open>Module#===\<close> of the module accepts the
  instances of the class, but \<open>kind_of?\<close> denies that they are of that kind.\<close>

theorem kind_of_misses_included:
  assumes "append_include n self m h = (h', Inr ())" "heap_ok h" "origins_ok owner h"
    "linked h (Some self) (self # old)" "set (self # old) \<subseteq> live h"
    "linked h (Some m) (m # ms)" "set (m # ms) \<subseteq> live h" "self \<notin> set (m # ms)"
    "\<not> flagged flag_prepend h m" "\<not> flagged flag_included h m" "m \<notin> set old"
    "length old + length ms + 3 \<le> N" "get_class bc N h' v = Inr self"
  shows "include_module N h' self m = Inr True \<and> kind_of bc N h' v m = Inr False"
proof -
  obtain "is" where i: "included owner h h' self is (m # visible h ms) old"
    using append_include_included [OF assms(1-8)] .
  have old: "set old \<subseteq> live h" "self \<notin> set old"
    using assms(5) linked_distinct [OF assms(4)] by simp_all
  have vs: "\<not> flagged flag_prepend h x" if "x \<in> set (m # visible h ms)" for x
    using that assms(9) by (auto simp: visible_def)
  note f = included_facts [OF i old vs, simplified]
  have link: "linked h' (Some self) (self # is @ old)" and "set is \<inter> live h = {}"
    and live: "set (self # is @ old) \<subseteq> live h'" and ok: "origins_ok owner h'"
    using i assms(5) by (auto simp: included_def)
  then have not_in: "m \<notin> set (self # is @ old)" using assms(7,8,11) by auto
  have len: "length (is @ old) + 2 \<le> N" using f(5) visible_length [of h ms] assms(12) by simp
  obtain cm where "cinfo h m = Inr cm" using assms(6) by auto
  then have m: "real_of owner h m = m"
    using assms(3,7,10) by (auto simp: real_of_def origins_ok_def owned_def flagged_def)
  have "m \<in> set (map (real_of owner h') (mro h' (self # is @ old)))"
    by (simp only: f(1)) (simp add: f(2) m)
  then have "include_module N h' self m = Inr True"
    using include_module_linked [OF ok link live len] by (simp only:)
  moreover have "m \<notin> set (mro h' (self # is @ old))" using not_in mro_subset by blast
  ultimately show ?thesis using kind_of_linked [OF assms(13) link len] by (simp only: simp_thms)
qed

theorem kind_of_misses_included_witness:
  "\<exists>h'. append_include 5 0x40040 0x40080 demo_store = (h', Inr ()) \<and>
     include_module 9 h' 0x40040 0x40080 = Inr True \<and>
     kind_of (demo_classes\<lparr>bc_integer := 0x40040\<rparr>) 9 h' 3 0x40080 = Inr False"
proof -
  obtain h' where h': "append_include 5 0x40040 0x40080 demo_store = (h', Inr ())"
    using demo_include by blast
  have "unpack m 3 = Inr (IntegerV (as_packed_fixnum 3))" for m
    by (simp add: unpack_def is_packed_value_def is_packed_fixnum_def)
  then have c: "get_class (demo_classes\<lparr>bc_integer := 0x40040\<rparr>) 9 h' 3 = Inr 0x40040"
    by (simp add: get_class_def)
  have "\<not> flagged flag_included demo_store 0x40080"
    by (simp add: flagged_def demo_cinfo flag_included_def INCLUDED_def)
  with kind_of_misses_included [OF h' demo_store_ok demo_origins demo_linked(1) _ demo_linked(2)
      _ _ demo_flagged(1) _ _ _ c] h' show ?thesis
    by (simp add: demo_store_live)
qed

text \<open>The name of a singleton class changes by being asked for: an unnamed singleton class of the
  class \<open>C\<close> first answers \<open>#<Class:C>\<close>, and from then on \<open>C\<close>.\<close>

theorem singleton_name_changes:
  assumes "cinfo h s = Inr cs" "ext_store h (ext cs) = Some es" "cname es = None"
    "singleton_for es = Some c" "cinfo h c = Inr cc" "ext_store h (ext cc) = Some ec"
    "cname ec = Some nm" "2 \<le> n"
  shows "\<exists>h'. op_name n s h = (h', Inr (Some (''#<Class:'' @ nm @ ''>''))) \<and>
    op_name n s h' = (h', Inr (Some nm))"
proof -
  obtain k where n: "n = Suc (Suc k)" using assms(8) by (cases n; cases "n - 1") auto
  let ?h = "h\<lparr>ext_store := (ext_store h)(ext cs \<mapsto> es\<lparr>cname := Some nm\<rparr>)\<rparr>"
  have e: "ext_of h s = Inr es" "ext_of h c = Inr ec" using assms by (simp_all add: ext_of_def load_def)
  have "if_mod_class (mem h) c = Some c"
    using assms(5) unfolding cinfo_iff by (simp add: if_mod_class_def as_kind_def as_rvalue_def)
  moreover have "op_name (Suc k) c h = (h, Inr (Some nm))" by (simp add: bind_def e assms(7))
  moreover have "set_name s nm h = (?h, Inr ())"
    unfolding set_name_def by (rule modify_ext_ok [OF assms(1,2)])
  ultimately have "op_name n s h = (?h, Inr (Some (''#<Class:'' @ nm @ ''>'')))"
    using e assms(3,4) by (simp add: n bind_def keep_name_def del: op_name.simps)
      (simp add: bind_def keep_name_def)
  moreover have "op_name n s ?h = (?h, Inr (Some nm))"
    by (simp add: n bind_def ext_of_def assms(1) load_def)
  ultimately show ?thesis by blast
qed

theorem singleton_name_changes_witness:
  "\<exists>h'. op_name 2 0x40080 (demo_store\<lparr>ext_store :=
       (ext_store demo_store)(24 \<mapsto> class_ext_singleton 0x40040)\<rparr>) =
       (h', Inr (Some ''#<Class:C>'')) \<and>
     op_name 2 0x40080 h' = (h', Inr (Some ''C''))"
proof -
  let ?h = "demo_store\<lparr>ext_store := (ext_store demo_store)(24 \<mapsto> class_ext_singleton 0x40040)\<rparr>"
  let ?cs = "\<lparr>upper_field = None, flags = 1, ext = 24\<rparr>"
  let ?cc = "\<lparr>upper_field = Some 0x40000, flags = 0, ext = 16\<rparr>"
  have "cinfo ?h 0x40080 = Inr ?cs" "cinfo ?h 0x40040 = Inr ?cc" by (simp_all add: demo_cinfo)
  moreover have "ext_store ?h (ext ?cs) = Some (class_ext_singleton 0x40040)"
    "ext_store ?h (ext ?cc) = Some (demo_ext ''C'' [])" by (simp_all add: demo_exts)
  moreover have "cname (class_ext_singleton 0x40040) = None"
    "singleton_for (class_ext_singleton 0x40040) = Some 0x40040" "cname (demo_ext ''C'' []) = Some ''C''"
    by (simp_all add: class_ext_singleton_def class_ext_new_def demo_ext_def)
  ultimately show ?thesis using singleton_name_changes [where n = 2] by fastforce
qed

end
