(* ===== verification/MethodCache.thy ===== *)
theory MethodCache
  imports ClassProps
begin

text \<open>
  src/vm/method.rs, the lookups: the global method cache and the inline caches in front of
  \<open>Module::get_method\<close>. The locale \<open>versioned_cache\<close> is what any cache stamped with a version
  needs for its answers to be those of the lookup it stands for; it is interpreted on the global
  cache and on the inline caches.
\<close>

section \<open>The lookups\<close>

definition mc_get_method :: "nat \<Rightarrow> u32 \<Rightarrow> val \<Rightarrow> u32 \<Rightarrow> ('m, u32 option) seff" where
  "mc_get_method n version rec_class i =
     bind (asks (\<lambda>h. Inr (mc_get_entry h rec_class i))) (\<lambda>e.
       if (case e of Some e \<Rightarrow> mc_version e = version | None \<Rightarrow> False)
       then ret (map_option mc_method e)
       else
         bind (asks (\<lambda>h. get_method n h rec_class i)) (\<lambda>r.
           case r of
             Some m \<Rightarrow> bind (mc_add_entry rec_class i version m) (\<lambda>_. ret (Some m))
           | None \<Rightarrow> ret None))"

definition find_method :: "nat \<Rightarrow> val \<Rightarrow> u32 \<Rightarrow> ('m, u32 option) seff" where
  "find_method n rec_class i =
     bind (asks (\<lambda>h. Inr (class_version h))) (\<lambda>version. mc_get_method n version rec_class i)"

definition find_method_from_receiver ::
    "builtin_class \<Rightarrow> nat \<Rightarrow> val \<Rightarrow> u32 \<Rightarrow> ('m, u32 option) seff" where
  "find_method_from_receiver bc n recv i =
     bind (asks (\<lambda>h. get_class_for_method bc (mem h) recv)) (\<lambda>c. find_method n c i)"

definition find_method_inline_cache ::
    "nat \<Rightarrow> u32 \<Rightarrow> val \<Rightarrow> u32 \<Rightarrow> ('m, u32 option) seff" where
  "find_method_inline_cache n site rec_class i =
     bind (asks (\<lambda>h. Inr (class_version h))) (\<lambda>version.
     bind (asks (\<lambda>h. ic_get_entry h site)) (\<lambda>e.
       if (case e of Some e \<Rightarrow> ic_version e = version \<and> ic_class e = rec_class | None \<Rightarrow> False)
       then ret (map_option ic_method e)
       else
         bind (mc_get_method n version rec_class i) (\<lambda>r.
           case r of
             Some m \<Rightarrow>
               bind (ic_update_entry site
                       \<lparr>ic_version = version, ic_class = rec_class, ic_method = m\<rparr>) (\<lambda>_.
               ret (Some m))
           | None \<Rightarrow> ret None)))"

section \<open>Versioned caches\<close>

text \<open>
  An entry carries the version it was made at. \<open>coherent\<close>: no entry is from the future, and an
  entry of the current version is valid, which is to say that the lookup would give it.
\<close>

definition coherent ::
    "('s \<Rightarrow> u32) \<Rightarrow> ('s \<Rightarrow> 'k \<Rightarrow> (u32 \<times> 'v) option) \<Rightarrow> ('s \<Rightarrow> 'k \<Rightarrow> 'v \<Rightarrow> bool) \<Rightarrow> 's \<Rightarrow> bool" where
  "coherent version entry valid s \<longleftrightarrow>
     (\<forall>k v x. entry s k = Some (v, x) \<longrightarrow> v \<le> version s \<and> (v = version s \<longrightarrow> valid s k x))"

text \<open>
  The interface: writing an entry changes that entry alone; it changes neither the version nor
  what is looked up.
\<close>

locale versioned_cache =
  fixes version :: "'s \<Rightarrow> u32"
    and entry :: "'s \<Rightarrow> 'k \<Rightarrow> (u32 \<times> 'v) option"
    and valid :: "'s \<Rightarrow> 'k \<Rightarrow> 'v \<Rightarrow> bool"
    and put :: "'k \<Rightarrow> u32 \<times> 'v \<Rightarrow> 's \<Rightarrow> 's"
    and has :: "'s \<Rightarrow> 'k \<Rightarrow> bool"
  assumes entry_put: "has s k \<Longrightarrow> entry (put k e s) k' = (if k' = k then Some e else entry s k')"
    and version_put: "version (put k e s) = version s"
    and valid_put: "valid (put k e s) = valid s"
begin

lemma hit: "coherent version entry valid s \<Longrightarrow> entry s k = Some (version s, x) \<Longrightarrow> valid s k x"
  by (auto simp: coherent_def)

lemma put_coherent:
  assumes "coherent version entry valid s" "has s k" "valid s k x"
  shows "coherent version entry valid (put k (version s, x) s)"
  using assms by (auto simp: coherent_def entry_put version_put valid_put)

text \<open>Whatever happens to the lookups, a new version makes every entry old.\<close>

lemma bump_coherent:
  assumes "coherent version entry valid s" "version s' = version s + 1" "version s \<noteq> - 1"
    "entry s' = entry s"
  shows "coherent version entry valid s'"
proof -
  have "version s < version s'" using word_less_succ [OF assms(3)] by (simp add: assms(2) add.commute)
  then have "v < version s'" if "entry s' k = Some (v, x)" for k v x
    using assms(1,4) that unfolding coherent_def by (metis le_less_trans)
  then show ?thesis by (fastforce simp: coherent_def intro: less_imp_le)
qed

text \<open>A change of the state outside the cache that keeps the version and what is valid.\<close>

lemma frame_coherent:
  assumes "coherent version entry valid s" "version s' = version s" "entry s' = entry s"
    "valid s' = valid s"
  shows "coherent version entry valid s'"
  using assms by (simp add: coherent_def)

end

section \<open>The lookup sees only objects and extensions\<close>

lemma get_method_cong:
  assumes "mem h' = mem h" "ext_store h' = ext_store h"
  shows "get_method n h' = get_method n h"
proof -
  have c: "cinfo h' = cinfo h" and e: "ext_of h' = ext_of h"
    by (rule ext, simp add: assms cinfo_def ext_of_def)+
  have s: "skip_while p k h' u = skip_while p k h u" for p k u
  proof (induction k arbitrary: u)
    case (Suc k)
    then show ?case by (cases u) (simp_all add: c cong: if_cong)
  qed simp
  then have u: "module_upper k h' = module_upper k h" for k
    by (simp add: module_upper_def c fun_eq_iff)
  have w: "walk k h' look = walk k h look" for k and look :: "val \<Rightarrow> u32 option res"
  proof (induction k)
    case (Suc k)
    show ?case by (rule ext) (simp add: u Suc)
  qed (simp add: fun_eq_iff)
  have gi: "get_instance_method h' = get_instance_method h"
    by (simp add: get_instance_method_def e fun_eq_iff)
  show ?thesis unfolding get_method_def is_singleton_def gi e w assms(1) by (rule refl)
qed

section \<open>The two caches\<close>

definition mc_entry :: "'m st \<Rightarrow> val \<times> u32 \<Rightarrow> (u32 \<times> u32) option" where
  "mc_entry h k = map_option (\<lambda>e. (mc_version e, mc_method e)) (m_cache h k)"

definition mc_valid :: "nat \<Rightarrow> 'm st \<Rightarrow> val \<times> u32 \<Rightarrow> u32 \<Rightarrow> bool" where
  "mc_valid n h k m \<longleftrightarrow> get_method n h (fst k) (snd k) = Inr (Some m)"

definition mc_put :: "val \<times> u32 \<Rightarrow> u32 \<times> u32 \<Rightarrow> 'm st \<Rightarrow> 'm st" where
  "mc_put k e h = h\<lparr>m_cache := (m_cache h)(k \<mapsto> \<lparr>mc_method = snd e, mc_version = fst e\<rparr>)\<rparr>"

text \<open>An inline cache belongs to one call site, which calls one name: \<open>name\<close>.\<close>

definition ic_entry :: "'m st \<Rightarrow> u32 \<Rightarrow> (u32 \<times> val \<times> u32) option" where
  "ic_entry h site =
     (if unat site < length (ic_table h)
      then map_option (\<lambda>e. (ic_version e, ic_class e, ic_method e)) (ic_table h ! unat site)
      else None)"

definition ic_valid :: "(u32 \<Rightarrow> u32) \<Rightarrow> nat \<Rightarrow> 'm st \<Rightarrow> u32 \<Rightarrow> val \<times> u32 \<Rightarrow> bool" where
  "ic_valid name n h site x \<longleftrightarrow> get_method n h (fst x) (name site) = Inr (Some (snd x))"

definition ic_put :: "u32 \<Rightarrow> u32 \<times> val \<times> u32 \<Rightarrow> 'm st \<Rightarrow> 'm st" where
  "ic_put site e h = h\<lparr>ic_table := (ic_table h)[unat site :=
     Some \<lparr>ic_version = fst e, ic_class = fst (snd e), ic_method = snd (snd e)\<rparr>]\<rparr>"

lemma cache_mem [simp]:
  "mem (h\<lparr>m_cache := c\<rparr>) = mem (h :: 'm st)" "mem (h\<lparr>ic_table := t\<rparr>) = mem h"
  by (simp_all add: mem_def fun_eq_iff)

lemma put_method [simp]:
  "get_method n (mc_put k e h) = get_method n h" "get_method n (ic_put site e' h) = get_method n h"
  by (rule get_method_cong; simp add: mc_put_def ic_put_def)+

interpretation global_cache:
  versioned_cache class_version mc_entry "mc_valid n" mc_put "\<lambda>_ _. True"
  by unfold_locales (auto simp: mc_entry_def mc_put_def mc_valid_def fun_eq_iff
      put_method(1) [unfolded mc_put_def])

interpretation inline_cache:
  versioned_cache class_version ic_entry "ic_valid name n" ic_put
    "\<lambda>h site. unat site < length (ic_table h)"
  by unfold_locales (auto simp: ic_entry_def ic_put_def ic_valid_def fun_eq_iff nth_list_update
      put_method(2) [unfolded ic_put_def] simp flip: word_unat_eq_iff)

section \<open>Properties\<close>

definition caches_ok :: "(u32 \<Rightarrow> u32) \<Rightarrow> nat \<Rightarrow> 'm st \<Rightarrow> bool" where
  "caches_ok name n h \<longleftrightarrow>
     coherent class_version mc_entry (mc_valid n) h \<and>
     coherent class_version ic_entry (ic_valid name n) h"

lemma mc_add_entry_put: "mc_add_entry c i v m h = (mc_put (c, i) (v, m) h, Inr ())"
  by (simp add: mc_add_entry_def mc_put_def)

lemma put_other [simp]:
  "class_version (mc_put k e h) = class_version h" "class_version (ic_put site e' h) = class_version h"
  "ic_table (mc_put k e h) = ic_table h" "ic_entry (mc_put k e h) = ic_entry h"
  "ic_valid name n (mc_put k e h) = ic_valid name n h"
  "mc_entry (ic_put site e' h) = mc_entry h" "mc_valid n (ic_put site e' h) = mc_valid n h"
  "length (ic_table (ic_put site e' h)) = length (ic_table h)"
  by (simp_all add: ic_entry_def ic_valid_def mc_valid_def mc_entry_def fun_eq_iff)
    (simp_all add: mc_put_def ic_put_def)

text \<open>The global cache in front of the lookup.\<close>

definition looks_up :: "(u32 \<Rightarrow> u32) \<Rightarrow> nat \<Rightarrow> val \<Rightarrow> u32 \<Rightarrow> ('m, u32 option) seff \<Rightarrow> 'm st \<Rightarrow> bool" where
  "looks_up name n c i f h \<longleftrightarrow>
     snd (f h) = get_method n h c i \<and> caches_ok name n (fst (f h)) \<and>
     get_method n (fst (f h)) = get_method n h \<and> class_version (fst (f h)) = class_version h \<and>
     length (ic_table (fst (f h))) = length (ic_table h)"

lemma mc_miss:
  assumes "\<not> (case m_cache h (c, i) of Some e \<Rightarrow> mc_version e = class_version h | None \<Rightarrow> False)"
  shows "mc_get_method n (class_version h) c i h =
    (case get_method n h c i of
       Inr (Some m) \<Rightarrow> (mc_put (c, i) (class_version h, m) h, Inr (Some m))
     | r \<Rightarrow> (h, r))"
  using assms by (simp add: mc_get_method_def bind_def mc_get_entry_def mc_add_entry_put
      split: sum.split option.split)

lemma mc_get_method_ok:
  assumes "caches_ok name n h"
  shows "looks_up name n c i (mc_get_method n (class_version h) c i) h"
proof (cases "case m_cache h (c, i) of Some e \<Rightarrow> mc_version e = class_version h | None \<Rightarrow> False")
  case True
  then obtain e where e: "m_cache h (c, i) = Some e" "mc_version e = class_version h"
    by (auto split: option.splits)
  then have "mc_entry h (c, i) = Some (class_version h, mc_method e)" by (simp add: mc_entry_def)
  then have "mc_valid n h (c, i) (mc_method e)"
    using assms global_cache.hit unfolding caches_ok_def by blast
  then show ?thesis
    using e assms by (simp add: looks_up_def mc_get_method_def bind_def mc_get_entry_def mc_valid_def)
next
  case False
  note miss = mc_miss [OF False, of n]
  show ?thesis
  proof (cases "\<exists>m. get_method n h c i = Inr (Some m)")
    case True
    then obtain m where m: "get_method n h c i = Inr (Some m)" ..
    then have "mc_valid n h (c, i) m" by (simp add: mc_valid_def)
    then have "coherent class_version mc_entry (mc_valid n) (mc_put (c, i) (class_version h, m) h)"
      using assms global_cache.put_coherent unfolding caches_ok_def by blast
    moreover have "coherent class_version ic_entry (ic_valid name n)
        (mc_put (c, i) (class_version h, m) h)"
      by (rule inline_cache.frame_coherent [of name n h]) (use assms in \<open>simp_all add: caches_ok_def\<close>)
    ultimately show ?thesis using m by (simp add: looks_up_def miss caches_ok_def)
  next
    case False
    then have "mc_get_method n (class_version h) c i h = (h, get_method n h c i)"
      by (auto simp: miss split: sum.split option.split)
    then show ?thesis using assms by (simp add: looks_up_def)
  qed
qed

lemma ic_update_entry_put:
  "unat site < length (ic_table h) \<Longrightarrow>
     ic_update_entry site \<lparr>ic_version = v, ic_class = c, ic_method = m\<rparr> h =
     (ic_put site (v, c, m) h, Inr ())"
  by (simp add: ic_update_entry_def ic_put_def bind_def ic_get_entry_def)

text \<open>C18. The method caches are transparent: a lookup through an inline cache and the global cache
  answers what \<open>Module::get_method\<close> answers on the class hierarchy, and leaves both caches
  coherent and the hierarchy as it was.\<close>

theorem cached_lookup_exact:
  assumes "caches_ok name n h" "unat site < length (ic_table h)"
  shows "looks_up name n c (name site) (find_method_inline_cache n site c (name site)) h"
proof (cases "\<exists>m. ic_entry h site = Some (class_version h, c, m)")
  case True
  then obtain m where m: "ic_entry h site = Some (class_version h, c, m)" ..
  then have "ic_valid name n h site (c, m)"
    using assms inline_cache.hit unfolding caches_ok_def by blast
  with m assms show ?thesis
    by (auto simp: looks_up_def find_method_inline_cache_def bind_def ic_get_entry_def ic_entry_def
        ic_valid_def split: if_splits)
next
  case False
  let ?f = "mc_get_method n (class_version h) c (name site)"
  obtain h1 r where f: "?f h = (h1, r)" by fastforce
  have l: "r = get_method n h c (name site)" "caches_ok name n h1"
    "get_method n h1 = get_method n h" "class_version h1 = class_version h"
    "length (ic_table h1) = length (ic_table h)"
    using mc_get_method_ok [OF assms(1), of c "name site"] f by (simp_all add: looks_up_def)
  have miss: "find_method_inline_cache n site c (name site) h =
      (case r of Inr (Some m) \<Rightarrow> (ic_put site (class_version h, c, m) h1, Inr (Some m)) | _ \<Rightarrow> (h1, r))"
    using False assms(2) f l(5)
    by (auto simp: find_method_inline_cache_def bind_def ic_get_entry_def ic_entry_def
        ic_update_entry_put split: sum.split option.split)
  show ?thesis
  proof (cases "\<exists>m. r = Inr (Some m)")
    case True
    then obtain m where m: "r = Inr (Some m)" ..
    then have "ic_valid name n h1 site (c, m)" using l by (simp add: ic_valid_def)
    then have "coherent class_version ic_entry (ic_valid name n) (ic_put site (class_version h1, c, m) h1)"
      using l(2,5) assms(2) inline_cache.put_coherent unfolding caches_ok_def by metis
    moreover have "coherent class_version mc_entry (mc_valid n) (ic_put site (class_version h1, c, m) h1)"
      by (rule global_cache.frame_coherent [of n h1]) (use l(2) in \<open>simp_all add: caches_ok_def\<close>)
    moreover have "get_method n h c (name site) = Inr (Some m)" using l(1) m by simp
    moreover have "find_method_inline_cache n site c (name site) h =
        (ic_put site (class_version h1, c, m) h1, Inr (Some m))"
      using miss m l(4) by simp
    ultimately show ?thesis using l(3-5) by (simp add: looks_up_def caches_ok_def)
  next
    case False
    then have "find_method_inline_cache n site c (name site) h = (h1, r)"
      by (auto simp: miss split: sum.split option.split)
    then show ?thesis using l by (simp add: looks_up_def)
  qed
qed

lemma demo_caches: "caches_ok name n demo_store" "caches_ok name n (demo_store\<lparr>ic_table := [None]\<rparr>)"
  by (simp_all add: caches_ok_def coherent_def mc_entry_def ic_entry_def demo_store_def store_new_def
      heap.defs)

theorem cached_lookup_exact_witness:
  "looks_up (\<lambda>_. 50) 4 0x40040 50 (find_method_inline_cache 4 0 0x40040 50)
     (demo_store\<lparr>ic_table := [None]\<rparr>)"
  using cached_lookup_exact [where name = "\<lambda>_. 50" and site = 0 and n = 4 and c = "0x40040",
      OF demo_caches(2)] by simp

text \<open>The tables of the caches, and the operations that leave them alone.\<close>

definition tables :: "'m st \<Rightarrow> (val \<times> u32 \<Rightarrow> cache_entry option) \<times> inline_entry option list \<times> u32" where
  "tables h = (m_cache h, ic_table h, class_version h)"

lemma tables_simps [simp]:
  "tables (update_object f a h) = tables h" "tables (h\<lparr>ext_store := s\<rparr>) = tables h"
  "tables (h\<lparr>methods := ms\<rparr>) = tables h"
  by (simp_all add: tables_def update_object_def write_cell_def)

lemma tables_more: "heap.more h' = heap.more h \<Longrightarrow> tables h' = tables h"
  using more_tables [of h' h] by (simp add: tables_def)

lemma keeps_cinfo: "keeps tables (modify_cinfo f m)" "keeps tables (modify_ext g m)"
  unfolding modify_cinfo_def modify_ext_def get_cinfo_def by (intro keeps_intros; simp)+

lemma keeps_set:
  "keeps tables (set_upper m u)" "keeps tables (set_include m org)" "keeps tables (set_prepend m)"
  unfolding set_upper_def set_include_def set_prepend_def by (intro keeps_intros keeps_cinfo)+

lemma keeps_dup_kind: "(\<And>v. keeps tables (dup v)) \<Longrightarrow> keeps tables (dup_kind dup k)"
  unfolding dup_kind_def by (cases k; simp; intro keeps_intros)

lemma keeps_dup: "keeps tables (value_dup n v)"
proof (induction n arbitrary: v)
  case (Suc n)
  show ?case
    unfolding value_dup.simps
    by (intro keeps_intros keeps_dup_kind Suc) (rule tables_more [OF pack_more])
qed (simp add: keeps_def)

lemma keeps_generate: "keeps tables (generate_included n m)"
  unfolding generate_included_def by (intro keeps_intros keeps_dup keeps_set)

lemma keeps_append_loop: "keeps tables (append_loop n m im)"
proof (induction n arbitrary: m im)
  case (Suc n)
  show ?case unfolding append_loop.simps by (intro keeps_intros keeps_generate keeps_set Suc)
qed (simp add: keeps_def)

lemma keeps_append:
  "keeps tables (append_copies n self m)" "keeps tables (append_include_without_increment_version n self m)"
  unfolding append_copies_def append_include_without_increment_version_def get_cinfo_def
  by (intro keeps_intros keeps_generate keeps_set keeps_append_loop)+

lemma keeps_repo_add: "keeps tables (repo_add info)"
  unfolding repo_add_def by (intro keeps_intros) simp

lemma bump_caches:
  fixes h h' :: "'m st"
  assumes "caches_ok name n h" "class_version h \<noteq> - 1"
    "tables h' = (m_cache h, ic_table h, class_version h + 1)"
  shows "caches_ok name n h'"
proof -
  have t: "m_cache h' = m_cache h" "ic_table h' = ic_table h" "class_version h' = class_version h + 1"
    using assms(3) by (simp_all add: tables_def)
  have "mc_entry h' = mc_entry h" "ic_entry h' = ic_entry h"
    by (simp_all add: mc_entry_def ic_entry_def t fun_eq_iff)
  then show ?thesis
    using assms(1,2) t(3) global_cache.bump_coherent [of n h h'] inline_cache.bump_coherent [of name n h h']
    by (simp add: caches_ok_def)
qed

text \<open>An operation that, where it succeeds, makes the version one higher and keeps the tables.\<close>

definition bumps :: "('m, 'a) seff \<Rightarrow> bool" where
  "bumps f \<longleftrightarrow>
     (\<forall>h h' x. f h = (h', Inr x) \<longrightarrow> tables h' = (m_cache h, ic_table h, class_version h + 1))"

lemma bumpsD:
  "bumps f \<Longrightarrow> f h = (h', Inr x) \<Longrightarrow> tables h' = (m_cache h, ic_table h, class_version h + 1)"
  by (simp add: bumps_def)

lemma bumps_inc: "bumps inc_class_version"
  by (simp add: bumps_def inc_class_version_def tables_def)

lemma bumps_after: "keeps tables f \<Longrightarrow> (\<And>x. bumps (g x)) \<Longrightarrow> bumps (bind f g)"
  unfolding bumps_def by (fastforce simp: bind_ok_iff tables_def dest: keepsD)

lemma bumps_before: "bumps f \<Longrightarrow> (\<And>x. keeps tables (g x)) \<Longrightarrow> bumps (bind f g)"
  unfolding bumps_def by (fastforce simp: bind_ok_iff dest: keepsD)

lemma bumping:
  "bumps (add_method m i x)" "bumps (append_include k self m)" "bumps (append_prepend k self base m)"
proof -
  have "keeps tables (get_cinfo m)" for m by (simp add: get_cinfo_def keeps_intros)
  note keep = this keeps_intros keeps_append keeps_dup keeps_set keeps_cinfo
  show "bumps (add_method m i x)"
    unfolding add_method_def by (intro bumps_after bumps_before bumps_inc keep)
  show "bumps (append_include k self m)"
    unfolding append_include_def by (intro bumps_after bumps_inc keep)
  show "bumps (append_prepend k self base m)"
    unfolding append_prepend_def by (intro bumps_after bumps_inc keep)
qed

text \<open>C22. Defining a method, including and prepending a module keep the caches coherent, whatever the
  change does to the lookups, as long as the 32-bit class version does not wrap.\<close>

theorem class_change_keeps_caches:
  fixes h h' :: "'m st"
  assumes "caches_ok name n h" "class_version h \<noteq> - 1"
    and "add_method m i x h = (h', Inr r) \<or> append_include k self m h = (h', Inr u) \<or>
      append_prepend k self base m h = (h', Inr u)"
  shows "caches_ok name n h'"
proof (rule bump_caches [OF assms(1,2)])
  show "tables h' = (m_cache h, ic_table h, class_version h + 1)"
    using assms(3)
    by (elim disjE)
      (erule bumpsD [OF bumping(1)], erule bumpsD [OF bumping(2)], erule bumpsD [OF bumping(3)])
qed

theorem class_change_keeps_caches_witness:
  "\<exists>h'. add_method 0x40080 51 7 demo_store = (h', Inr None) \<and> caches_ok (\<lambda>_. 50) 4 h'"
proof -
  obtain h' where "add_method 0x40080 51 7 demo_store = (h', Inr None)" using demo_add by blast
  with class_change_keeps_caches [OF demo_caches(1), of "0x40080" 51 7 h' None] show ?thesis by auto
qed

end
