(* ===== verification/Inst.thy ===== *)
theory Inst
  imports Prelude
begin

text \<open>
  src/vm/vm_inst.rs: the opcodes of the bytecode, their names and their sizes. An opcode
  \<open>Inst::X\<close> of the code is \<open>I_X\<close> here. The disassembler's text (\<open>inst_info\<close>) is not modelled.
\<close>

definition I_PUSH_FIXNUM :: u8 where "I_PUSH_FIXNUM = 1"
definition I_PUSH_FLONUM :: u8 where "I_PUSH_FLONUM = 2"
definition I_PUSH_TRUE :: u8 where "I_PUSH_TRUE = 3"
definition I_PUSH_FALSE :: u8 where "I_PUSH_FALSE = 4"
definition I_PUSH_NIL :: u8 where "I_PUSH_NIL = 5"
definition I_PUSH_SYMBOL :: u8 where "I_PUSH_SYMBOL = 7"
definition I_PUSH_SELF :: u8 where "I_PUSH_SELF = 8"
definition I_CREATE_RANGE :: u8 where "I_CREATE_RANGE = 10"
definition I_CREATE_ARRAY :: u8 where "I_CREATE_ARRAY = 11"
definition I_CREATE_PROC :: u8 where "I_CREATE_PROC = 12"
definition I_CREATE_HASH :: u8 where "I_CREATE_HASH = 13"
definition I_CREATE_REGEXP :: u8 where "I_CREATE_REGEXP = 14"
definition I_CONST_VAL :: u8 where "I_CONST_VAL = 15"
definition I_SET_LOCAL :: u8 where "I_SET_LOCAL = 30"
definition I_GET_LOCAL :: u8 where "I_GET_LOCAL = 31"
definition I_SET_DYNLOCAL :: u8 where "I_SET_DYNLOCAL = 32"
definition I_GET_DYNLOCAL :: u8 where "I_GET_DYNLOCAL = 33"
definition I_GET_CONST :: u8 where "I_GET_CONST = 34"
definition I_SET_CONST :: u8 where "I_SET_CONST = 35"
definition I_GET_CONST_TOP :: u8 where "I_GET_CONST_TOP = 36"
definition I_GET_SCOPE :: u8 where "I_GET_SCOPE = 37"
definition I_GET_IVAR :: u8 where "I_GET_IVAR = 38"
definition I_SET_IVAR :: u8 where "I_SET_IVAR = 39"
definition I_GET_GVAR :: u8 where "I_GET_GVAR = 40"
definition I_SET_GVAR :: u8 where "I_SET_GVAR = 41"
definition I_GET_CVAR :: u8 where "I_GET_CVAR = 42"
definition I_SET_CVAR :: u8 where "I_SET_CVAR = 43"
definition I_GET_INDEX :: u8 where "I_GET_INDEX = 52"
definition I_SET_INDEX :: u8 where "I_SET_INDEX = 53"
definition I_GET_IDX_I :: u8 where "I_GET_IDX_I = 54"
definition I_SET_IDX_I :: u8 where "I_SET_IDX_I = 55"
definition I_CHECK_LOCAL :: u8 where "I_CHECK_LOCAL = 56"
definition I_CHECK_CONST :: u8 where "I_CHECK_CONST = 57"
definition I_CHECK_IVAR :: u8 where "I_CHECK_IVAR = 58"
definition I_CHECK_GVAR :: u8 where "I_CHECK_GVAR = 59"
definition I_SEND :: u8 where "I_SEND = 60"
definition I_SEND_SELF :: u8 where "I_SEND_SELF = 61"
definition I_OPT_SEND :: u8 where "I_OPT_SEND = 66"
definition I_OPT_SEND_SELF :: u8 where "I_OPT_SEND_SELF = 67"
definition I_OPT_NSEND :: u8 where "I_OPT_NSEND = 68"
definition I_OPT_NSEND_SELF :: u8 where "I_OPT_NSEND_SELF = 69"
definition I_FOR :: u8 where "I_FOR = 70"
definition I_POP :: u8 where "I_POP = 80"
definition I_DUP :: u8 where "I_DUP = 81"
definition I_TAKE :: u8 where "I_TAKE = 82"
definition I_SPLAT :: u8 where "I_SPLAT = 83"
definition I_CONCAT_STRING :: u8 where "I_CONCAT_STRING = 84"
definition I_TO_S :: u8 where "I_TO_S = 85"
definition I_SINKN :: u8 where "I_SINKN = 86"
definition I_TOPN :: u8 where "I_TOPN = 87"
definition I_REP_UNINIT :: u8 where "I_REP_UNINIT = 88"
definition I_DEF_CLASS :: u8 where "I_DEF_CLASS = 90"
definition I_DEF_SCLASS :: u8 where "I_DEF_SCLASS = 91"
definition I_DEF_METHOD :: u8 where "I_DEF_METHOD = 92"
definition I_DEF_SMETHOD :: u8 where "I_DEF_SMETHOD = 93"
definition I_JMP :: u8 where "I_JMP = 100"
definition I_JMP_BACK :: u8 where "I_JMP_BACK = 101"
definition I_JMP_F :: u8 where "I_JMP_F = 102"
definition I_JMP_T :: u8 where "I_JMP_T = 103"
definition I_RETURN :: u8 where "I_RETURN = 104"
definition I_BREAK :: u8 where "I_BREAK = 105"
definition I_OPT_CASE :: u8 where "I_OPT_CASE = 106"
definition I_MRETURN :: u8 where "I_MRETURN = 107"
definition I_YIELD :: u8 where "I_YIELD = 108"
definition I_RESCUE :: u8 where "I_RESCUE = 109"
definition I_THROW :: u8 where "I_THROW = 110"
definition I_OPT_CASE2 :: u8 where "I_OPT_CASE2 = 111"
definition I_ADD :: u8 where "I_ADD = 120"
definition I_SUB :: u8 where "I_SUB = 121"
definition I_MUL :: u8 where "I_MUL = 122"
definition I_DIV :: u8 where "I_DIV = 123"
definition I_REM :: u8 where "I_REM = 124"
definition I_EQ :: u8 where "I_EQ = 125"
definition I_NE :: u8 where "I_NE = 126"
definition I_TEQ :: u8 where "I_TEQ = 127"
definition I_GT :: u8 where "I_GT = 128"
definition I_GE :: u8 where "I_GE = 129"
definition I_LT :: u8 where "I_LT = 130"
definition I_LE :: u8 where "I_LE = 131"
definition I_NOT :: u8 where "I_NOT = 132"
definition I_SHR :: u8 where "I_SHR = 133"
definition I_SHL :: u8 where "I_SHL = 134"
definition I_BOR :: u8 where "I_BOR = 135"
definition I_BAND :: u8 where "I_BAND = 136"
definition I_BXOR :: u8 where "I_BXOR = 137"
definition I_BNOT :: u8 where "I_BNOT = 138"
definition I_POW :: u8 where "I_POW = 139"
definition I_CMP :: u8 where "I_CMP = 140"
definition I_NEG :: u8 where "I_NEG = 141"
definition I_ADDI :: u8 where "I_ADDI = 150"
definition I_SUBI :: u8 where "I_SUBI = 151"
definition I_EQI :: u8 where "I_EQI = 152"
definition I_NEI :: u8 where "I_NEI = 153"
definition I_GTI :: u8 where "I_GTI = 154"
definition I_GEI :: u8 where "I_GEI = 155"
definition I_LTI :: u8 where "I_LTI = 156"
definition I_LEI :: u8 where "I_LEI = 157"
definition I_B_ANDI :: u8 where "I_B_ANDI = 160"
definition I_B_ORI :: u8 where "I_B_ORI = 161"
definition I_IVAR_ADDI :: u8 where "I_IVAR_ADDI = 162"
definition I_LVAR_ADDI :: u8 where "I_LVAR_ADDI = 163"
definition I_JMP_F_EQ :: u8 where "I_JMP_F_EQ = 170"
definition I_JMP_F_NE :: u8 where "I_JMP_F_NE = 171"
definition I_JMP_F_GT :: u8 where "I_JMP_F_GT = 172"
definition I_JMP_F_GE :: u8 where "I_JMP_F_GE = 173"
definition I_JMP_F_LT :: u8 where "I_JMP_F_LT = 174"
definition I_JMP_F_LE :: u8 where "I_JMP_F_LE = 175"
definition I_JMP_F_EQI :: u8 where "I_JMP_F_EQI = 180"
definition I_JMP_F_NEI :: u8 where "I_JMP_F_NEI = 181"
definition I_JMP_F_GTI :: u8 where "I_JMP_F_GTI = 182"
definition I_JMP_F_GEI :: u8 where "I_JMP_F_GEI = 183"
definition I_JMP_F_LTI :: u8 where "I_JMP_F_LTI = 184"
definition I_JMP_F_LEI :: u8 where "I_JMP_F_LEI = 185"

lemmas opcode_defs =
  I_PUSH_FIXNUM_def I_PUSH_FLONUM_def I_PUSH_TRUE_def I_PUSH_FALSE_def I_PUSH_NIL_def
  I_PUSH_SYMBOL_def I_PUSH_SELF_def I_CREATE_RANGE_def I_CREATE_ARRAY_def
  I_CREATE_PROC_def I_CREATE_HASH_def I_CREATE_REGEXP_def I_CONST_VAL_def I_SET_LOCAL_def
  I_GET_LOCAL_def I_SET_DYNLOCAL_def I_GET_DYNLOCAL_def I_GET_CONST_def I_SET_CONST_def
  I_GET_CONST_TOP_def I_GET_SCOPE_def I_GET_IVAR_def I_SET_IVAR_def I_GET_GVAR_def
  I_SET_GVAR_def I_GET_CVAR_def I_SET_CVAR_def I_GET_INDEX_def I_SET_INDEX_def
  I_GET_IDX_I_def I_SET_IDX_I_def I_CHECK_LOCAL_def I_CHECK_CONST_def I_CHECK_IVAR_def
  I_CHECK_GVAR_def I_SEND_def I_SEND_SELF_def I_OPT_SEND_def I_OPT_SEND_SELF_def
  I_OPT_NSEND_def I_OPT_NSEND_SELF_def I_FOR_def I_POP_def I_DUP_def I_TAKE_def
  I_SPLAT_def I_CONCAT_STRING_def I_TO_S_def I_SINKN_def I_TOPN_def I_REP_UNINIT_def
  I_DEF_CLASS_def I_DEF_SCLASS_def I_DEF_METHOD_def I_DEF_SMETHOD_def I_JMP_def
  I_JMP_BACK_def I_JMP_F_def I_JMP_T_def I_RETURN_def I_BREAK_def I_OPT_CASE_def
  I_MRETURN_def I_YIELD_def I_RESCUE_def I_THROW_def I_OPT_CASE2_def I_ADD_def I_SUB_def
  I_MUL_def I_DIV_def I_REM_def I_EQ_def I_NE_def I_TEQ_def I_GT_def I_GE_def I_LT_def
  I_LE_def I_NOT_def I_SHR_def I_SHL_def I_BOR_def I_BAND_def I_BXOR_def I_BNOT_def
  I_POW_def I_CMP_def I_NEG_def I_ADDI_def I_SUBI_def I_EQI_def I_NEI_def I_GTI_def
  I_GEI_def I_LTI_def I_LEI_def I_B_ANDI_def I_B_ORI_def I_IVAR_ADDI_def I_LVAR_ADDI_def
  I_JMP_F_EQ_def I_JMP_F_NE_def I_JMP_F_GT_def I_JMP_F_GE_def I_JMP_F_LT_def
  I_JMP_F_LE_def I_JMP_F_EQI_def I_JMP_F_NEI_def I_JMP_F_GTI_def I_JMP_F_GEI_def
  I_JMP_F_LTI_def I_JMP_F_LEI_def

definition opcodes :: "u8 list" where
  "opcodes =
    [I_PUSH_FIXNUM, I_PUSH_FLONUM, I_PUSH_TRUE, I_PUSH_FALSE, I_PUSH_NIL, I_PUSH_SYMBOL,
     I_PUSH_SELF, I_CREATE_RANGE, I_CREATE_ARRAY, I_CREATE_PROC, I_CREATE_HASH,
     I_CREATE_REGEXP, I_CONST_VAL, I_SET_LOCAL, I_GET_LOCAL, I_SET_DYNLOCAL, I_GET_DYNLOCAL,
     I_GET_CONST, I_SET_CONST, I_GET_CONST_TOP, I_GET_SCOPE, I_GET_IVAR, I_SET_IVAR,
     I_GET_GVAR, I_SET_GVAR, I_GET_CVAR, I_SET_CVAR, I_GET_INDEX, I_SET_INDEX, I_GET_IDX_I,
     I_SET_IDX_I, I_CHECK_LOCAL, I_CHECK_CONST, I_CHECK_IVAR, I_CHECK_GVAR, I_SEND,
     I_SEND_SELF, I_OPT_SEND, I_OPT_SEND_SELF, I_OPT_NSEND, I_OPT_NSEND_SELF, I_FOR, I_POP,
     I_DUP, I_TAKE, I_SPLAT, I_CONCAT_STRING, I_TO_S, I_SINKN, I_TOPN, I_REP_UNINIT,
     I_DEF_CLASS, I_DEF_SCLASS, I_DEF_METHOD, I_DEF_SMETHOD, I_JMP, I_JMP_BACK, I_JMP_F,
     I_JMP_T, I_RETURN, I_BREAK, I_OPT_CASE, I_MRETURN, I_YIELD, I_RESCUE, I_THROW,
     I_OPT_CASE2, I_ADD, I_SUB, I_MUL, I_DIV, I_REM, I_EQ, I_NE, I_TEQ, I_GT, I_GE, I_LT, I_LE,
     I_NOT, I_SHR, I_SHL, I_BOR, I_BAND, I_BXOR, I_BNOT, I_POW, I_CMP, I_NEG, I_ADDI, I_SUBI,
     I_EQI, I_NEI, I_GTI, I_GEI, I_LTI, I_LEI, I_B_ANDI, I_B_ORI, I_IVAR_ADDI, I_LVAR_ADDI,
     I_JMP_F_EQ, I_JMP_F_NE, I_JMP_F_GT, I_JMP_F_GE, I_JMP_F_LT, I_JMP_F_LE, I_JMP_F_EQI,
     I_JMP_F_NEI, I_JMP_F_GTI, I_JMP_F_GEI, I_JMP_F_LTI, I_JMP_F_LEI]"

text \<open>\<open>inst_name\<close>; an unknown byte is reported with its number.\<close>

definition inst_names :: "(u8 \<times> string) list" where
  "inst_names =
    [(I_PUSH_FIXNUM, ''PUSH_FIXNUM''), (I_PUSH_FLONUM, ''PUSH_FLONUM''),
     (I_PUSH_TRUE, ''PUSH_TRUE''), (I_PUSH_FALSE, ''PUSH_FALSE''), (I_PUSH_NIL, ''PUSH_NIL''),
     (I_PUSH_SYMBOL, ''PUSH_SYMBOL''), (I_PUSH_SELF, ''PUSH_SELF''), (I_ADD, ''ADD''),
     (I_SUB, ''SUB''), (I_MUL, ''MUL''), (I_DIV, ''DIV''), (I_REM, ''REM''), (I_EQ, ''EQ''),
     (I_NE, ''NE''), (I_TEQ, ''TEQ''), (I_GT, ''GT''), (I_GE, ''GE''), (I_LT, ''LT''),
     (I_LE, ''LE''), (I_NOT, ''NOT''), (I_SHR, ''SHR''), (I_SHL, ''SHL''), (I_BOR, ''BIT_OR''),
     (I_BAND, ''BIT_AND''), (I_BXOR, ''BIT_XOR''), (I_BNOT, ''BIT_NOT''), (I_POW, ''POW''),
     (I_CMP, ''CMP''), (I_NEG, ''NEG''), (I_ADDI, ''ADDI''), (I_SUBI, ''SUBI''),
     (I_IVAR_ADDI, ''IVAR_ADDI''), (I_B_ANDI, ''B_ANDI''), (I_B_ORI, ''B_ORI''),
     (I_EQI, ''EQI''), (I_NEI, ''NEI''), (I_GTI, ''GTI''), (I_GEI, ''GEI''), (I_LTI, ''LTI''),
     (I_LEI, ''LEI''), (I_LVAR_ADDI, ''LVAR_ADDI''), (I_JMP_F_EQ, ''JMP_F_EQ''),
     (I_JMP_F_NE, ''JMP_F_NE''), (I_JMP_F_GT, ''JMP_F_GT''), (I_JMP_F_GE, ''JMP_F_GE''),
     (I_JMP_F_LT, ''JMP_F_LT''), (I_JMP_F_LE, ''JMP_F_LE''), (I_JMP_F_EQI, ''JMP_F_EQI''),
     (I_JMP_F_NEI, ''JMP_F_NEI''), (I_JMP_F_GTI, ''JMP_F_GTI''), (I_JMP_F_GEI, ''JMP_F_GEI''),
     (I_JMP_F_LTI, ''JMP_F_LTI''), (I_JMP_F_LEI, ''JMP_F_LEI''), (I_SET_LOCAL, ''SET_LOCAL''),
     (I_GET_LOCAL, ''GET_LOCAL''), (I_SET_DYNLOCAL, ''SET_DYNLOCAL''),
     (I_GET_DYNLOCAL, ''GET_DYNLOCAL''), (I_GET_CONST, ''GET_CONST''),
     (I_SET_CONST, ''SET_CONST''), (I_GET_CONST_TOP, ''GET_CONSTTOP''),
     (I_GET_SCOPE, ''GET_SCOPE''), (I_GET_IVAR, ''GET_IVAR''), (I_SET_IVAR, ''SET_IVAR''),
     (I_GET_CVAR, ''GET_CVAR''), (I_SET_CVAR, ''SET_CVAR''), (I_GET_GVAR, ''GET_GVAR''),
     (I_SET_GVAR, ''SET_GVAR''), (I_GET_INDEX, ''GET_INDEX''), (I_SET_INDEX, ''SET_INDEX''),
     (I_GET_IDX_I, ''GET_IDX_I''), (I_SET_IDX_I, ''SET_IDX_I''),
     (I_CHECK_LOCAL, ''CHECK_LOCAL''), (I_CHECK_CONST, ''CHECK_CONST''),
     (I_CHECK_IVAR, ''CHECK_IVAR''), (I_CHECK_GVAR, ''CHECK_GVAR''), (I_SEND, ''SEND''),
     (I_SEND_SELF, ''SEND_SLF''), (I_OPT_SEND, ''O_SEND_B''),
     (I_OPT_SEND_SELF, ''O_SEND_SLF_B''), (I_OPT_NSEND, ''O_NSEND_B''),
     (I_OPT_NSEND_SELF, ''O_NSEND_SLF_B''), (I_FOR, ''FOR''),
     (I_CREATE_RANGE, ''CREATE_RANGE''), (I_CREATE_ARRAY, ''CREATE_ARRAY''),
     (I_CREATE_PROC, ''CREATE_PROC''), (I_CREATE_HASH, ''CREATE_HASH''),
     (I_CREATE_REGEXP, ''CREATE_REGEX''), (I_CONST_VAL, ''CONST_VAL''), (I_POP, ''POP''),
     (I_DUP, ''DUP''), (I_TAKE, ''TAKE''), (I_SPLAT, ''SPLAT''),
     (I_CONCAT_STRING, ''CONCAT_STR''), (I_TO_S, ''TO_S''), (I_SINKN, ''SINKN''),
     (I_TOPN, ''TOPN''), (I_REP_UNINIT, ''REP_UNINIT''), (I_DEF_CLASS, ''DEF_CLASS''),
     (I_DEF_SCLASS, ''DEF_SCLASS''), (I_DEF_METHOD, ''DEF_METHOD''),
     (I_DEF_SMETHOD, ''DEF_CMETHOD''), (I_JMP, ''JMP''), (I_JMP_BACK, ''JMP_BACK''),
     (I_JMP_F, ''JMP_IF_F''), (I_JMP_T, ''JMP_IF_T''), (I_RETURN, ''RETURN''),
     (I_BREAK, ''BREAK''), (I_OPT_CASE, ''OPT_CASE''), (I_OPT_CASE2, ''OPT_CASE2''),
     (I_MRETURN, ''MRETURN''), (I_YIELD, ''YIELD''), (I_RESCUE, ''RESCUE''),
     (I_THROW, ''THROW'')]"

fun digits :: "nat \<Rightarrow> nat \<Rightarrow> string" where
  "digits 0 n = []"
| "digits (Suc k) n =
     (if n < 10 then [char_of (48 + n)] else digits k (n div 10) @ [char_of (48 + n mod 10)])"

definition inst_name :: "u8 \<Rightarrow> string" where
  "inst_name i =
     (case map_of inst_names i of
        Some s \<Rightarrow> s
      | None \<Rightarrow> ''undefined '' @ digits 3 (unat i))"

definition size_1 :: "u8 list" where
  "size_1 =
    [I_RETURN, I_PUSH_NIL, I_PUSH_TRUE, I_PUSH_FALSE, I_PUSH_SELF, I_ADD, I_SUB, I_MUL, I_DIV,
     I_REM, I_POW, I_TEQ, I_EQ, I_NE, I_GT, I_GE, I_LT, I_LE, I_CMP, I_NOT, I_SHL, I_SHR,
     I_NEG, I_BOR, I_BAND, I_BXOR, I_BNOT, I_CREATE_RANGE, I_CREATE_REGEXP, I_GET_INDEX,
     I_SET_INDEX, I_TO_S, I_SPLAT, I_POP, I_BREAK, I_MRETURN, I_THROW, I_REP_UNINIT]"

definition size_5 :: "u8 list" where
  "size_5 =
    [I_PUSH_SYMBOL, I_SET_LOCAL, I_GET_LOCAL, I_SET_CONST, I_CHECK_CONST, I_GET_CONST_TOP,
     I_GET_SCOPE, I_GET_IVAR, I_SET_IVAR, I_CHECK_IVAR, I_GET_GVAR, I_SET_GVAR, I_CHECK_GVAR,
     I_GET_CVAR, I_SET_CVAR, I_GET_IDX_I, I_SET_IDX_I, I_CREATE_ARRAY, I_CONST_VAL, I_JMP,
     I_JMP_BACK, I_JMP_F, I_JMP_T, I_JMP_F_EQ, I_JMP_F_NE, I_JMP_F_GT, I_JMP_F_GE, I_JMP_F_LT,
     I_JMP_F_LE, I_DUP, I_TAKE, I_CONCAT_STRING, I_SINKN, I_TOPN, I_ADDI, I_SUBI, I_B_ANDI,
     I_B_ORI, I_EQI, I_NEI, I_GTI, I_GEI, I_LTI, I_LEI, I_CREATE_PROC, I_DEF_SCLASS,
     I_CREATE_HASH, I_YIELD, I_RESCUE]"

definition size_9 :: "u8 list" where
  "size_9 =
    [I_PUSH_FIXNUM, I_PUSH_FLONUM, I_SET_DYNLOCAL, I_GET_DYNLOCAL, I_CHECK_LOCAL, I_GET_CONST,
     I_OPT_CASE, I_OPT_CASE2, I_IVAR_ADDI, I_LVAR_ADDI, I_JMP_F_EQI, I_JMP_F_NEI, I_JMP_F_GTI,
     I_JMP_F_GEI, I_JMP_F_LTI, I_JMP_F_LEI, I_FOR, I_DEF_METHOD, I_DEF_SMETHOD]"

definition size_10 :: "u8 list" where
  "size_10 =
    [I_DEF_CLASS]"

definition size_15 :: "u8 list" where
  "size_15 =
    [I_OPT_SEND, I_OPT_SEND_SELF, I_OPT_NSEND, I_OPT_NSEND_SELF]"

definition size_17 :: "u8 list" where
  "size_17 =
    [I_SEND, I_SEND_SELF]"

definition inst_size :: "u8 \<Rightarrow> nat res" where
  "inst_size i =
     (if i \<in> set size_1 then Inr 1
      else if i \<in> set size_5 then Inr 5
      else if i \<in> set size_9 then Inr 9
      else if i \<in> set size_10 then Inr 10
      else if i \<in> set size_15 then Inr 15
      else if i \<in> set size_17 then Inr 17
      else Inl Panic)"

lemmas size_lists = size_1_def size_5_def size_9_def size_10_def size_15_def size_17_def

text \<open>The opcodes are different bytes.\<close>

lemma opcodes_distinct: "distinct opcodes"
proof -
  have "successively (<) (map unat opcodes)"
    by (simp add: opcodes_def opcode_defs)
  then have "distinct (map unat opcodes)"
    by (simp add: successively_conv_sorted_wrt strict_sorted_iff)
  then show ?thesis by (simp add: distinct_map)
qed

section \<open>Properties\<close>

lemma set_eq_sorted:
  fixes xs ys :: "u8 list"
  assumes "sort (map unat xs) = sort (map unat ys)"
  shows "set xs = set ys"
proof -
  have "set (map unat xs) = set (map unat ys)" using assms by (metis set_sort)
  moreover have "inj (unat :: u8 \<Rightarrow> nat)" by (rule injI) (simp add: word_unat_eq_iff)
  ultimately show ?thesis by (simp add: inj_image_eq_iff)
qed

lemma named_opcodes: "set (map fst inst_names) = set opcodes"
  by (rule set_eq_sorted) (simp add: inst_names_def opcodes_def opcode_defs)

lemma sized_opcodes: "set (size_1 @ size_5 @ size_9 @ size_10 @ size_15 @ size_17) = set opcodes"
  by (rule set_eq_sorted) (simp add: size_lists opcodes_def opcode_defs)

lemma inst_size_ok: "is_ok (inst_size i) \<longleftrightarrow> i \<in> set opcodes"
  unfolding sized_opcodes [symmetric] by (auto simp: inst_size_def)

text \<open>C38. The opcodes are distinct bytes; \<open>inst_size\<close> and \<open>inst_name\<close> know exactly these: stepping
  over a byte panics, and its name is reported as undefined, just when it is no opcode.\<close>

theorem opcode_table:
  "distinct opcodes \<and> (is_ok (inst_size i) \<longleftrightarrow> i \<in> set opcodes) \<and>
   (map_of inst_names i \<noteq> None \<longleftrightarrow> i \<in> set opcodes)"
  using opcodes_distinct inst_size_ok named_opcodes by (simp add: map_of_eq_None_iff)

end
