(* ===== verification/ISeq.thy ===== *)
theory ISeq
  imports Inst
begin

text \<open>
  src/vm/iseq.rs: the bytecode of a method as a byte vector, the readers and writers of its
  operands, the generators of single instructions and the jump threading of \<open>optimize\<close>.

  A position is a \<open>nat\<close> (\<open>usize\<close>); adding a displacement wraps as the code's casts do. Operands
  are written least significant byte first and read in the machine's order, which is the same
  on the little-endian targets the crate supports. \<open>write32\<close>, whose body writes through a byte
  cast to a pointer, and the generators that allocate constants are not modelled.
\<close>

type_synonym code = "u8 list"

section \<open>Positions and displacements\<close>

definition pos_add :: "nat \<Rightarrow> int \<Rightarrow> nat" where
  "pos_add p d = nat ((int p + d) mod 2 ^ 64)"

text \<open>\<open>src - dest\<close> is the displacement from \<open>src\<close> to \<open>dest\<close>, cut to 32 bits.\<close>

definition pos_disp :: "nat \<Rightarrow> nat \<Rightarrow> i32" where
  "pos_disp src dest = word_of_int (int dest - int src)"

section \<open>Reading\<close>

fun from_bytes :: "u8 list \<Rightarrow> 'a::len word" where
  "from_bytes [] = 0"
| "from_bytes (b # bs) = ucast b OR push_bit 8 (from_bytes bs)"

definition read8 :: "code \<Rightarrow> nat \<Rightarrow> u8 res" where
  "read8 c pc = index_at c pc"

definition read16 :: "code \<Rightarrow> nat \<Rightarrow> u16 res" where
  "read16 c pc = rbind (vslice c pc (pc + 2)) (\<lambda>bs. Inr (from_bytes bs))"

definition read32 :: "code \<Rightarrow> nat \<Rightarrow> u32 res" where
  "read32 c pc = rbind (vslice c pc (pc + 4)) (\<lambda>bs. Inr (from_bytes bs))"

definition read64 :: "code \<Rightarrow> nat \<Rightarrow> u64 res" where
  "read64 c pc = rbind (vslice c pc (pc + 8)) (\<lambda>bs. Inr (from_bytes bs))"

definition read_usize :: "code \<Rightarrow> nat \<Rightarrow> nat res" where
  "read_usize c pc = rbind (read32 c pc) (\<lambda>w. Inr (unat w))"

definition read_disp :: "code \<Rightarrow> nat \<Rightarrow> int res" where
  "read_disp c pc = rbind (read32 c pc) (\<lambda>w. Inr (sint w))"

section \<open>Writing\<close>

definition byte :: "nat \<Rightarrow> 'a::len word \<Rightarrow> u8" where
  "byte k w = ucast (drop_bit (8 * k) w)"

definition push16 :: "u16 \<Rightarrow> code \<Rightarrow> code" where
  "push16 w c = c @ [byte 0 w, byte 1 w]"

definition push32 :: "u32 \<Rightarrow> code \<Rightarrow> code" where
  "push32 w c = c @ [byte 0 w, byte 1 w, byte 2 w, byte 3 w]"

definition push64 :: "u64 \<Rightarrow> code \<Rightarrow> code" where
  "push64 w c =
     c @ [byte 0 w, byte 1 w, byte 2 w, byte 3 w, byte 4 w, byte 5 w, byte 6 w, byte 7 w]"

definition push_method :: "u32 option \<Rightarrow> code \<Rightarrow> code" where
  "push_method b c = (case b of Some m \<Rightarrow> push32 m c | None \<Rightarrow> push32 0 c)"

definition set_byte :: "nat \<Rightarrow> u8 \<Rightarrow> code \<Rightarrow> code res" where
  "set_byte i b c = (if i < length c then Inr (c[i := b]) else Inl Panic)"

definition write_disp :: "nat \<Rightarrow> nat \<Rightarrow> code \<Rightarrow> code res" where
  "write_disp src dest c =
     (let num = pos_disp src dest in
      if src < 4 then Inl Panic
      else
        rbind (set_byte (src - 4) (byte 0 num) c) (\<lambda>c.
        rbind (set_byte (src - 3) (byte 1 num) c) (\<lambda>c.
        rbind (set_byte (src - 2) (byte 2 num) c) (\<lambda>c.
        set_byte (src - 1) (byte 3 num) c))))"

definition write_disp_from_cur :: "nat \<Rightarrow> code \<Rightarrow> code res" where
  "write_disp_from_cur src c = write_disp src (length c) c"

section \<open>Generators\<close>

definition gen_push_nil :: "code \<Rightarrow> code" where "gen_push_nil c = c @ [I_PUSH_NIL]"
definition gen_push_self :: "code \<Rightarrow> code" where "gen_push_self c = c @ [I_PUSH_SELF]"
definition gen_fixnum :: "i64 \<Rightarrow> code \<Rightarrow> code" where
  "gen_fixnum n c = push64 n (c @ [I_PUSH_FIXNUM])"
definition gen_const_val :: "nat \<Rightarrow> code \<Rightarrow> code res" where
  "gen_const_val i c =
     (if 2 ^ 32 - 1 < i then Inl Panic else Inr (push32 (of_nat i) (c @ [I_CONST_VAL])))"
definition gen_symbol :: "u32 \<Rightarrow> code \<Rightarrow> code" where
  "gen_symbol i c = push32 i (c @ [I_PUSH_SYMBOL])"
definition gen_subi :: "i32 \<Rightarrow> code \<Rightarrow> code" where
  "gen_subi i c = push32 i (c @ [I_SUBI])"
definition gen_create_array :: "nat \<Rightarrow> code \<Rightarrow> code" where
  "gen_create_array n c = push32 (of_nat n) (c @ [I_CREATE_ARRAY])"
definition gen_create_hash :: "nat \<Rightarrow> code \<Rightarrow> code" where
  "gen_create_hash n c = push32 (of_nat n) (c @ [I_CREATE_HASH])"
definition gen_create_regexp :: "code \<Rightarrow> code" where "gen_create_regexp c = c @ [I_CREATE_REGEXP]"
definition gen_set_array_elem :: "code \<Rightarrow> code" where "gen_set_array_elem c = c @ [I_SET_INDEX]"
definition gen_splat :: "code \<Rightarrow> code" where "gen_splat c = c @ [I_SPLAT]"
definition gen_jmp_if_f :: "code \<Rightarrow> code \<times> nat" where
  "gen_jmp_if_f c = (let c' = push32 0 (c @ [I_JMP_F]) in (c', length c'))"
definition gen_jmp_if_t :: "code \<Rightarrow> code \<times> nat" where
  "gen_jmp_if_t c = (let c' = push32 0 (c @ [I_JMP_T]) in (c', length c'))"
definition gen_jmp_back :: "nat \<Rightarrow> code \<Rightarrow> code" where
  "gen_jmp_back pos c = push32 (pos_disp (length c) pos - 5) (c @ [I_JMP_BACK])"
definition gen_jmp :: "code \<Rightarrow> code \<times> nat" where
  "gen_jmp c = (let c' = push32 0 (c @ [I_JMP]) in (c', length c'))"
definition gen_return :: "code \<Rightarrow> code" where "gen_return c = c @ [I_RETURN]"
definition gen_break :: "code \<Rightarrow> code" where "gen_break c = c @ [I_BREAK]"
definition gen_method_return :: "code \<Rightarrow> code" where "gen_method_return c = c @ [I_MRETURN]"
definition gen_opt_case :: "u32 \<Rightarrow> code \<Rightarrow> code \<times> nat" where
  "gen_opt_case m c = (let c' = push32 0 (push32 m (c @ [I_OPT_CASE])) in (c', length c'))"
definition gen_opt_case2 :: "u32 \<Rightarrow> code \<Rightarrow> code \<times> nat" where
  "gen_opt_case2 m c = (let c' = push32 0 (push32 m (c @ [I_OPT_CASE2])) in (c', length c'))"
definition gen_get_instance_var :: "u32 \<Rightarrow> code \<Rightarrow> code" where
  "gen_get_instance_var i c = push32 i (c @ [I_GET_IVAR])"
definition gen_set_instance_var :: "u32 \<Rightarrow> code \<Rightarrow> code" where
  "gen_set_instance_var i c = push32 i (c @ [I_SET_IVAR])"
definition gen_ivar_addi :: "u32 \<Rightarrow> u32 \<Rightarrow> bool \<Rightarrow> code \<Rightarrow> code" where
  "gen_ivar_addi i v use_value c =
     (let c' = push32 v (push32 i (c @ [I_IVAR_ADDI]))
      in if use_value then gen_get_instance_var i c' else c')"
definition gen_get_global_var :: "u32 \<Rightarrow> code \<Rightarrow> code" where
  "gen_get_global_var i c = push32 i (c @ [I_GET_GVAR])"
definition gen_set_global_var :: "u32 \<Rightarrow> code \<Rightarrow> code" where
  "gen_set_global_var i c = push32 i (c @ [I_SET_GVAR])"
definition gen_set_const :: "u32 \<Rightarrow> code \<Rightarrow> code" where
  "gen_set_const i c = push32 i (c @ [I_SET_CONST])"

section \<open>Jump threading\<close>

datatype dest_kind = Dest nat | InstK u8

definition jumps :: "u8 list" where "jumps = [I_JMP, I_JMP_BACK]"
definition cond_jumps :: "u8 list" where
  "cond_jumps =
    [I_JMP_T, I_JMP_F, I_JMP_F_EQ, I_JMP_F_NE, I_JMP_F_GT, I_JMP_F_GE, I_JMP_F_LT, I_JMP_F_LE,
     I_JMP_F_EQI, I_JMP_F_NEI, I_JMP_F_GTI, I_JMP_F_GEI, I_JMP_F_LTI, I_JMP_F_LEI]"
definition terminators :: "u8 list" where "terminators = [I_RETURN, I_BREAK, I_MRETURN]"

text \<open>
  \<open>chase\<close> follows unconditional jumps. A cycle of jumps makes the code recurse for ever; the
  fuel bounds the recursion, and running out is \<open>Inl Undef\<close>.
\<close>

fun chase :: "nat \<Rightarrow> code \<Rightarrow> nat \<Rightarrow> bool \<Rightarrow> dest_kind res" where
  "chase 0 c pos nc = Inl Undef"
| "chase (Suc fuel) c pos nc =
     rbind (index_at c pos) (\<lambda>inst.
       if inst \<in> set jumps then
         rbind (read_disp c (pos + 1)) (\<lambda>disp.
         rbind (inst_size inst) (\<lambda>sz. chase fuel c (pos_add (pos + sz) disp) nc))
       else if inst \<in> set terminators then Inr (if nc then InstK inst else Dest pos)
       else Inr (Dest pos))"

fun fill :: "nat \<Rightarrow> nat \<Rightarrow> u8 \<Rightarrow> code \<Rightarrow> code res" where
  "fill 0 pos b c = Inr c"
| "fill (Suc n) pos b c = rbind (set_byte pos b c) (fill n (pos + 1) b)"

definition jump_dest :: "code \<Rightarrow> nat \<Rightarrow> nat res" where
  "jump_dest c next_pos = rbind (read_disp c (next_pos - 4)) (\<lambda>d. Inr (pos_add next_pos d))"

definition optimize_inst :: "nat \<Rightarrow> code \<Rightarrow> nat \<Rightarrow> u8 \<Rightarrow> nat \<Rightarrow> code res" where
  "optimize_inst fuel c pos inst sz =
     (let next_pos = pos + sz in
      if inst \<in> set jumps then
        rbind (jump_dest c next_pos) (\<lambda>d.
        rbind (chase fuel c d True) (\<lambda>k.
          case k of Dest dest \<Rightarrow> write_disp next_pos dest c | InstK t \<Rightarrow> fill 5 pos t c))
      else if inst \<in> set cond_jumps then
        rbind (jump_dest c next_pos) (\<lambda>d.
        rbind (chase fuel c d False) (\<lambda>k.
          case k of Dest dest \<Rightarrow> write_disp next_pos dest c | InstK t \<Rightarrow> Inl Panic))
      else Inr c)"

text \<open>The loop of \<open>optimize\<close>: at most one round per byte of the code.\<close>

fun optimize_loop :: "nat \<Rightarrow> nat \<Rightarrow> code \<Rightarrow> nat \<Rightarrow> code res" where
  "optimize_loop fuel 0 c pos = Inr c"
| "optimize_loop fuel (Suc n) c pos =
     (if length c \<le> pos then Inr c
      else
        let inst = c ! pos in
        rbind (inst_size inst) (\<lambda>sz.
        rbind (optimize_inst fuel c pos inst sz) (\<lambda>c'.
        optimize_loop fuel n c' (pos + sz))))"

definition optimize :: "nat \<Rightarrow> code \<Rightarrow> code res" where
  "optimize fuel c = optimize_loop fuel (length c) c 0"

section \<open>Operands\<close>

lemma bit_from_bytes:
  "bit (from_bytes bs :: 'a::len word) n \<longleftrightarrow>
     n < LENGTH('a) \<and> n < 8 * length bs \<and> bit (bs ! (n div 8)) (n mod 8)"
proof (induction bs arbitrary: n)
  case (Cons b bs)
  show ?case
  proof (cases "n < 8")
    case True
    then show ?thesis by (auto simp: bit_or_iff bit_push_bit_iff bit_ucast_iff)
  next
    case False
    then obtain m where n: "n = m + 8" by (metis add.commute le_Suc_ex linorder_not_less)
    have "(m + 8) div 8 = Suc (m div 8)" by simp
    with n show ?thesis
      using Cons.IH [of m]
      by (auto simp: bit_or_iff bit_push_bit_iff bit_ucast_iff dest: bit_imp_le_length)
  qed
qed simp

lemma from_bytes_byte:
  fixes w :: "'a::len word"
  assumes "LENGTH('a) = 8 * n"
  shows "from_bytes (map (\<lambda>k. byte k w) [0..<n]) = w"
proof (rule bit_word_eqI)
  fix k assume k: "k < LENGTH('a)"
  then have "k div 8 < n" using assms by auto
  with k assms show "bit (from_bytes (map (\<lambda>k. byte k w) [0..<n]) :: 'a word) k = bit w k"
    by (simp add: bit_from_bytes byte_def bit_ucast_iff bit_drop_bit_eq)
qed

definition bytes :: "nat \<Rightarrow> 'a::len word \<Rightarrow> u8 list" where
  "bytes n w = map (\<lambda>k. byte k w) [0..<n]"

lemma length_bytes [simp]: "length (bytes n w) = n"
  by (simp add: bytes_def)

lemma nth_bytes [simp]: "k < n \<Longrightarrow> bytes n w ! k = byte k w"
  by (simp add: bytes_def)

lemma push_bytes: "push16 v c = c @ bytes 2 v" "push32 w c = c @ bytes 4 w" "push64 x c = c @ bytes 8 x"
  by (simp_all add: push16_def push32_def push64_def bytes_def upt_conv_Cons eval_nat_numeral)

lemma slice_append: "vslice (xs @ ys @ zs) (length xs) (length xs + length ys) = Inr ys"
  by (simp add: vslice_def)

lemma read_push16: "read16 (push16 v c @ rest) (length c) = Inr v"
  using slice_append [of c "bytes 2 v" rest] from_bytes_byte [of 2 v]
  by (simp add: read16_def push_bytes bytes_def [symmetric])

lemma read_push32: "read32 (push32 w c @ rest) (length c) = Inr w"
  using slice_append [of c "bytes 4 w" rest] from_bytes_byte [of 4 w]
  by (simp add: read32_def push_bytes bytes_def [symmetric])

lemma read_push64: "read64 (push64 x c @ rest) (length c) = Inr x"
  using slice_append [of c "bytes 8 x" rest] from_bytes_byte [of 8 x]
  by (simp add: read64_def push_bytes bytes_def [symmetric])

lemma write_disp_ok:
  assumes "4 \<le> src" "src \<le> length c"
  shows "write_disp src dest c =
    Inr (c[src - 4 := byte 0 (pos_disp src dest), src - 3 := byte 1 (pos_disp src dest),
           src - 2 := byte 2 (pos_disp src dest), src - 1 := byte 3 (pos_disp src dest)])"
proof -
  have "src - 4 < length c" "src - 3 < length c" "src - 2 < length c" "src - 1 < length c"
    using assms by linarith+
  then show ?thesis using assms(1) by (simp add: write_disp_def set_byte_def Let_def)
qed

text \<open>The bytes of the code after a displacement was written: only its four change.\<close>

lemma write_disp_spec:
  assumes "4 \<le> src" "src \<le> length c"
  obtains c' where "write_disp src dest c = Inr c'" "length c' = length c"
    "\<And>i. i < src - 4 \<or> src \<le> i \<Longrightarrow> c' ! i = c ! i"
    "\<And>k. k < 4 \<Longrightarrow> c' ! (src - 4 + k) = byte k (pos_disp src dest)"
proof -
  let ?d = "pos_disp src dest"
  let ?c = "c[src - 4 := byte 0 ?d, src - 3 := byte 1 ?d, src - 2 := byte 2 ?d, src - 1 := byte 3 ?d]"
  obtain s where s: "src = s + 4" using assms(1) by (metis add.commute le_Suc_ex)
  have 4: "?c ! (src - 4 + k) = byte k ?d" if "k < 4" for k
  proof -
    from that have "k = 0 \<or> k = 1 \<or> k = 2 \<or> k = 3" by auto
    then show ?thesis using assms by (elim disjE) (simp_all add: s add.commute [of 3])
  qed
  show ?thesis
    by (rule that [OF write_disp_ok [OF assms]]) (use assms 4 in \<open>auto simp: s\<close>)
qed

lemma slice_eqI:
  assumes "length ys = n" "a + n \<le> length c" "\<And>k. k < n \<Longrightarrow> c ! (a + k) = ys ! k"
  shows "vslice c a (a + n) = Inr ys"
proof -
  have "take n (drop a c) = ys"
    by (rule nth_equalityI) (use assms in auto)
  then show ?thesis using assms by (simp add: vslice_def)
qed

lemma read_write_disp:
  assumes "4 \<le> src" "src \<le> length c" "write_disp src dest c = Inr c'"
  shows "read32 c' (src - 4) = Inr (pos_disp src dest)"
proof -
  obtain c2 where c2: "write_disp src dest c = Inr c2" "length c2 = length c"
    "\<And>k. k < 4 \<Longrightarrow> c2 ! (src - 4 + k) = byte k (pos_disp src dest)"
    using write_disp_spec [OF assms(1,2)] by metis
  have "vslice c' (src - 4) (src - 4 + 4) = Inr (bytes 4 (pos_disp src dest))"
    using c2 assms by (intro slice_eqI) auto
  then show ?thesis
    using from_bytes_byte [of 4 "pos_disp src dest"]
    by (simp add: read32_def bytes_def [symmetric])
qed

lemma pos_add_disp:
  assumes "src < 2 ^ 31" "dest < 2 ^ 31"
  shows "pos_add src (sint (pos_disp src dest)) = dest"
proof -
  have "sint (pos_disp src dest) = int dest - int src"
  proof -
    have "signed_take_bit 31 (int dest - int src) = int dest - int src"
      using assms by (intro signed_take_bit_int_eq_self) simp_all
    then show ?thesis by (simp only: pos_disp_def signed_of_int) simp
  qed
  with assms show ?thesis by (simp add: pos_add_def)
qed

text \<open>A displacement that was written leads where it was meant to.\<close>

lemma jump_dest_write:
  assumes "4 \<le> src" "src \<le> length c" "length c < 2 ^ 31" "dest < 2 ^ 31"
    "write_disp src dest c = Inr c'"
  shows "jump_dest c' src = Inr dest"
  using read_write_disp [OF assms(1,2,5)] assms pos_add_disp [of src dest]
  by (simp add: jump_dest_def read_disp_def)

lemma gen_jmp_back_dest:
  assumes "pos \<le> length c" "length c < 2 ^ 31 - 5"
  shows "jump_dest (gen_jmp_back pos c @ rest) (length c + 5) = Inr pos"
proof -
  let ?d = "pos_disp (length c) pos - 5"
  have "?d = pos_disp (length c + 5) pos" by (simp add: pos_disp_def algebra_simps)
  moreover have "read32 (gen_jmp_back pos c @ rest) (length c + 1) = Inr ?d"
    using read_push32 [of ?d "c @ [I_JMP_BACK]" rest] by (simp add: gen_jmp_back_def)
  ultimately show ?thesis
    using pos_add_disp [of "length c + 5" pos] assms by (simp add: jump_dest_def read_disp_def)
qed

section \<open>Properties\<close>

text \<open>An operand that was emitted is read back, at every width the bytecode uses and whatever
  follows it.\<close>

theorem operand_round_trip:
  "read16 (push16 a c @ rest) (length c) = Inr a \<and>
   read32 (push32 b c @ rest) (length c) = Inr b \<and>
   read64 (push64 d c @ rest) (length c) = Inr d"
  by (simp add: read_push16 read_push32 read_push64)

text \<open>C37. Back-patching a jump: for code shorter than \<open>2 ^ 31\<close> bytes, \<open>write_disp\<close> makes the jump
  that ends at \<open>src\<close> lead to \<open>dest\<close> and changes no byte but the four of the displacement.\<close>

theorem write_disp_patches:
  assumes "4 \<le> src" "src \<le> length c" "length c < 2 ^ 31" "dest < 2 ^ 31"
  shows "\<exists>c'. write_disp src dest c = Inr c' \<and> jump_dest c' src = Inr dest \<and>
    length c' = length c \<and> (\<forall>i. i < src - 4 \<or> src \<le> i \<longrightarrow> c' ! i = c ! i)"
proof -
  obtain c' where c': "write_disp src dest c = Inr c'" "length c' = length c"
    "\<And>i. i < src - 4 \<or> src \<le> i \<Longrightarrow> c' ! i = c ! i"
    using write_disp_spec [OF assms(1,2)] by metis
  with jump_dest_write [OF assms c'(1)] show ?thesis by blast
qed

theorem write_disp_patches_witness:
  "\<exists>c'. write_disp 5 1 [I_JMP, 0, 0, 0, 0, I_RETURN] = Inr c' \<and> jump_dest c' 5 = Inr 1 \<and>
     c' = [I_JMP, 0xfc, 0xff, 0xff, 0xff, I_RETURN]"
proof -
  obtain c' where "write_disp 5 1 [I_JMP, 0, 0, 0, 0, I_RETURN] = Inr c'" "jump_dest c' 5 = Inr 1"
    using write_disp_patches [of 5 "[I_JMP, 0, 0, 0, 0, I_RETURN]" 1] by auto
  moreover have "write_disp 5 1 [I_JMP, 0, 0, 0, 0, I_RETURN] =
      Inr [I_JMP, 0xfc, 0xff, 0xff, 0xff, I_RETURN]"
    by code_simp
  ultimately show ?thesis by simp
qed

text \<open>The two ways a loop is generated agree with the reader of jumps: a backward jump leads to
  the position it was generated for, and a forward jump patched with \<open>write_disp_from_cur\<close> leads
  to the end of the code at that moment.\<close>

theorem generated_jumps:
  assumes "pos \<le> length c" "length c + length body < 2 ^ 31 - 5"
  shows "jump_dest (gen_jmp_back pos c @ rest) (length c + 5) = Inr pos \<and>
    (\<exists>c'. write_disp_from_cur (snd (gen_jmp_if_f c)) (fst (gen_jmp_if_f c) @ body) = Inr c' \<and>
      jump_dest c' (length c + 5) = Inr (length c + 5 + length body))"
proof -
  let ?c = "fst (gen_jmp_if_f c) @ body"
  have s: "snd (gen_jmp_if_f c) = length c + 5" "length ?c = length c + 5 + length body"
    by (simp_all add: gen_jmp_if_f_def push_bytes Let_def)
  have b: "4 \<le> length c + 5" "length c + 5 \<le> length ?c" "length ?c < 2 ^ 31"
    unfolding s(2) using assms by simp_all
  obtain c' where c': "write_disp (length c + 5) (length ?c) ?c = Inr c'"
    using write_disp_ok [OF b(1,2)] by blast
  with jump_dest_write [OF b b(3) c'] gen_jmp_back_dest [OF assms(1)] assms(2) s show ?thesis
    by (simp add: write_disp_from_cur_def)
qed

theorem generated_jumps_witness:
  "jump_dest (gen_jmp_back 1 [I_PUSH_NIL, I_PUSH_TRUE]) 7 = Inr 1"
  using generated_jumps [of 1 "[I_PUSH_NIL, I_PUSH_TRUE]" "[]" "[]"] by simp

end
