(* ===== verification/Machine.thy ===== *)
theory Machine
  imports MethodCache Arrays Hashes ISeq
begin

text \<open>
  The state of the virtual machine: src/vm/executor.rs (the struct \<open>VM\<close> with its stacks) and
  src/globals.rs (the struct \<open>Globals\<close>), over the method tables and the heap.

  A \<open>Context\<close>, the frame of a call, has an address whether it lives on the native stack or in a
  box: \<open>ctx_store\<close> maps the address to it, \<open>ctx_addr n\<close> is the \<open>n\<close>-th address given out. A frame on
  the native stack loses its address when the function that made it returns, so that a use after
  that is \<open>Undef\<close>. The field \<open>class_defined\<close> of a method's code, the only one that changes, is kept
  in the state by method number. There is one VM, that of the main fiber.

  \<open>menv\<close> holds what the machine reaches outside itself. Of the program these are the built-in
  functions (\<open>m_native\<close>, which are given the machine's way to run a context) and the texts of
  errors; of third-party crates and the standard library the position a hash index finds, the
  display of a float, the reading of bytes as text, a compiled regular expression. \<open>m_fuel\<close> bounds
  the walks along class chains and contexts and the depth of comparisons.
\<close>

record machine = store +
  ctx_store :: "u64 \<Rightarrow> ruby_context option"
  ctx_addr :: "nat \<Rightarrow> u64"
  ctxs_made :: nat
  class_defined :: "u32 \<Rightarrow> val list"
  vm :: vm_state
  global_var :: "(u32 \<times> val) list"
  const_version :: u32
  const_cache :: "(u32 \<times> val option) list"
  const_cache_id :: u32
  const_values :: "val list"
  case_dispatch :: "(val \<times> int) list list"
  case_dispatch2 :: "(i64 \<times> i64 \<times> int list) list"
  main_object :: val
  main_fiber :: bool

type_synonym 'm mach = "'m machine_scheme"
type_synonym ('m, 'a) meff = "('m mach, 'a) eff"

record 's menv = "'s env" +
  m_ec :: essential_class
  m_fuel :: nat
  m_native :: "(u64 \<Rightarrow> ('s, unit) eff) \<Rightarrow> native \<Rightarrow> val \<Rightarrow> args \<Rightarrow> ('s, val) eff"
  m_float_to_s :: "f64 \<Rightarrow> string"
  m_from_utf8 :: "u8 list \<Rightarrow> string"
  m_regexp :: "string \<Rightarrow> ('s, val) eff"
  m_message :: "ruby_error \<Rightarrow> string"
  m_locations :: "'s \<Rightarrow> string list"

text \<open>
  The lookups of a key of a hash, and of a value in the table of a \<open>case\<close>, with the hashing and the
  equality of the code, to the depth of the stack.
\<close>

definition find_key :: "'s menv \<Rightarrow> memory \<Rightarrow> finder" where
  "find_key M m = key_finder (e_index M) m (m_fuel M)"

definition find_value :: "'s menv \<Rightarrow> memory \<Rightarrow> finder" where
  "find_value M m =
     value_index (e_index M) (value_feed m (m_fuel M)) (value_eq (e_index M) m (m_fuel M))"

section \<open>The stacks\<close>

definition ask_vm :: "(vm_state \<Rightarrow> 'a) \<Rightarrow> ('m, 'a) meff" where
  "ask_vm f = asks (\<lambda>s. Inr (f (vm s)))"

definition mod_vm :: "(vm_state \<Rightarrow> vm_state) \<Rightarrow> ('m, unit) meff" where
  "mod_vm f = modify (\<lambda>s. s\<lparr>vm := f (vm s)\<rparr>)"

definition stack_push :: "val \<Rightarrow> ('m, unit) meff" where
  "stack_push v = mod_vm (\<lambda>w. w\<lparr>exec_stack := exec_stack w @ [v]\<rparr>)"

definition stack_top :: "('m, val) meff" where
  "stack_top = asks (\<lambda>s. if exec_stack (vm s) = [] then Inl Panic else Inr (last (exec_stack (vm s))))"

definition stack_pop :: "('m, val) meff" where
  "stack_pop =
     bind stack_top (\<lambda>v.
     bind (mod_vm (\<lambda>w. w\<lparr>exec_stack := butlast (exec_stack w)\<rparr>)) (\<lambda>_. ret v))"

definition stack_len :: "('m, nat) meff" where
  "stack_len = ask_vm (\<lambda>w. length (exec_stack w))"

definition set_stack_len :: "nat \<Rightarrow> ('m, unit) meff" where
  "set_stack_len len = mod_vm (\<lambda>w. w\<lparr>exec_stack := take len (exec_stack w)\<rparr>)"

definition temp_push :: "val \<Rightarrow> ('m, unit) meff" where
  "temp_push v = mod_vm (\<lambda>w. w\<lparr>temp_stack := temp_stack w @ [v]\<rparr>)"

definition temp_push_vec :: "val list \<Rightarrow> ('m, unit) meff" where
  "temp_push_vec vs = mod_vm (\<lambda>w. w\<lparr>temp_stack := temp_stack w @ vs\<rparr>)"

definition temp_push_args :: "args \<Rightarrow> ('m, unit) meff" where
  "temp_push_args a =
     temp_push_vec (elems a @ kw_arg a # (case a_block a of BProc v \<Rightarrow> [v] | _ \<Rightarrow> []))"

definition temp_pop_vec :: "nat \<Rightarrow> ('m, val list) meff" where
  "temp_pop_vec len =
     bind (ask_vm temp_stack) (\<lambda>t.
       if length t < len then raise Panic
       else bind (mod_vm (\<lambda>w. w\<lparr>temp_stack := take len t\<rparr>)) (\<lambda>_. ret (drop len t)))"

text \<open>The contexts and the classes that are open.\<close>

definition context_push :: "u64 \<Rightarrow> ('m, unit) meff" where
  "context_push ctx =
     mod_vm (\<lambda>w. case cur_context w of
       Some c \<Rightarrow> w\<lparr>exec_context := exec_context w @ [c], cur_context := Some ctx\<rparr>
     | None \<Rightarrow> w\<lparr>cur_context := Some ctx\<rparr>)"

definition context_pop :: "('m, u64 option) meff" where
  "context_pop =
     bind (ask_vm cur_context) (\<lambda>c.
       case c of
         None \<Rightarrow> ret None
       | Some a \<Rightarrow>
           bind (mod_vm (\<lambda>w.
             if exec_context w = [] then w\<lparr>cur_context := None\<rparr>
             else w\<lparr>cur_context := Some (last (exec_context w)),
                    exec_context := butlast (exec_context w)\<rparr>)) (\<lambda>_. ret (Some a)))"

definition class_push :: "val \<Rightarrow> ('m, unit) meff" where
  "class_push c = mod_vm (\<lambda>w. w\<lparr>class_context := class_context w @ [(c, False)]\<rparr>)"

definition class_pop :: "('m, unit) meff" where
  "class_pop =
     bind (ask_vm class_context) (\<lambda>cs.
       if cs = [] then raise Panic else mod_vm (\<lambda>w. w\<lparr>class_context := butlast cs\<rparr>))"

definition class_top :: "('m, val \<times> bool) meff" where
  "class_top =
     asks (\<lambda>s. if class_context (vm s) = [] then Inl Panic else Inr (last (class_context (vm s))))"

definition vm_class :: "('m, val) meff" where
  "vm_class = bind class_top (\<lambda>c. ret (fst c))"

definition define_mode :: "('m, bool) meff" where
  "define_mode = bind class_top (\<lambda>c. ret (snd c))"

definition module_function :: "bool \<Rightarrow> ('m, unit) meff" where
  "module_function flag =
     bind class_top (\<lambda>c.
     mod_vm (\<lambda>w. w\<lparr>class_context := butlast (class_context w) @ [(fst c, flag)]\<rparr>))"

definition get_class_defined :: "('m, val list) meff" where
  "get_class_defined = ask_vm (\<lambda>w. map fst (class_context w))"

section \<open>The program counter\<close>

definition add_pc :: "nat \<Rightarrow> ('m, unit) meff" where
  "add_pc n = mod_vm (\<lambda>w. w\<lparr>vm_pc := vm_pc w + n\<rparr>)"

definition jump_pc :: "nat \<Rightarrow> int \<Rightarrow> ('m, unit) meff" where
  "jump_pc inst_offset disp = mod_vm (\<lambda>w. w\<lparr>vm_pc := pos_add (vm_pc w + inst_offset) disp\<rparr>)"

definition jmp_cond :: "code \<Rightarrow> bool \<Rightarrow> nat \<Rightarrow> nat \<Rightarrow> ('m, unit) meff" where
  "jmp_cond iseq cond inst_offset dest_offset =
     (if cond then add_pc inst_offset
      else
        bind (asks (\<lambda>s. read_disp iseq (vm_pc (vm s) + dest_offset))) (jump_pc inst_offset))"

section \<open>Contexts\<close>

definition load_ctx :: "u64 \<Rightarrow> ('m, ruby_context) meff" where
  "load_ctx a = asks (\<lambda>s. load (ctx_store s) a)"

definition store_ctx :: "u64 \<Rightarrow> ruby_context \<Rightarrow> ('m, unit) meff" where
  "store_ctx a c = modify (\<lambda>s. s\<lparr>ctx_store := (ctx_store s)(a \<mapsto> c)\<rparr>)"

definition drop_ctx :: "u64 \<Rightarrow> ('m, unit) meff" where
  "drop_ctx a = modify (\<lambda>s. s\<lparr>ctx_store := (ctx_store s)(a := None)\<rparr>)"

text \<open>A new context gets an address: a box, or a place in the frame of a native function.\<close>

definition place_ctx :: "ruby_context \<Rightarrow> ('m, u64) meff" where
  "place_ctx c =
     bind (asks (\<lambda>s. Inr (ctx_addr s (ctxs_made s)))) (\<lambda>a.
     bind (modify (\<lambda>s. s\<lparr>ctx_store := (ctx_store s)(a \<mapsto> c), ctxs_made := Suc (ctxs_made s)\<rparr>))
       (\<lambda>_. ret a))"

definition current_addr :: "('m, u64) meff" where
  "current_addr = bind (ask_vm cur_context) (\<lambda>c. asks (\<lambda>_. or_panic c))"

definition current_ctx :: "('m, ruby_context) meff" where
  "current_ctx = bind current_addr load_ctx"

definition ctx_iseq :: "ruby_context \<Rightarrow> iseq_info res" where
  "ctx_iseq c = or_panic (iseq_ref c)"

definition current_iseq :: "('m, iseq_info) meff" where
  "current_iseq = bind current_ctx (\<lambda>c. asks (\<lambda>_. ctx_iseq c))"

definition in_method :: "('m, bool) meff" where
  "in_method = bind current_iseq (\<lambda>i. ret (is_method i))"

text \<open>\<open>get_method_context\<close>: the outermost context of the current one.\<close>

fun outermost :: "nat \<Rightarrow> u64 \<Rightarrow> ('m, u64) meff" where
  "outermost 0 a = raise Undef"
| "outermost (Suc n) a =
     bind (load_ctx a) (\<lambda>c. case outer c of Some b \<Rightarrow> outermost n b | None \<Rightarrow> ret a)"

definition get_method_context :: "nat \<Rightarrow> ('m, u64) meff" where
  "get_method_context n = bind current_addr (outermost n)"

definition get_method_iseq :: "nat \<Rightarrow> ('m, iseq_info) meff" where
  "get_method_iseq n =
     bind (get_method_context n) (\<lambda>a. bind (load_ctx a) (\<lambda>c. asks (\<lambda>_. ctx_iseq c)))"

text \<open>\<open>get_outer_context\<close>: so many scopes out.\<close>

fun scope_out :: "nat \<Rightarrow> u64 \<Rightarrow> ('m, u64) meff" where
  "scope_out 0 a = ret a"
| "scope_out (Suc n) a =
     bind (load_ctx a) (\<lambda>c. bind (asks (\<lambda>_. or_panic (outer c))) (scope_out n))"

definition get_outer_context :: "u32 \<Rightarrow> ('m, u64) meff" where
  "get_outer_context k = bind current_addr (scope_out (unat k))"

section \<open>Globals and constants\<close>

definition get_global_var :: "u32 \<Rightarrow> ('m, val option) meff" where
  "get_global_var i = asks (\<lambda>s. Inr (map_of (global_var s) i))"

definition set_global_var :: "u32 \<Rightarrow> val \<Rightarrow> ('m, unit) meff" where
  "set_global_var i v = modify (\<lambda>s. s\<lparr>global_var := AList.update i v (global_var s)\<rparr>)"

definition inc_const_version :: "('m, unit) meff" where
  "inc_const_version = modify (\<lambda>s. s\<lparr>const_version := const_version s + 1\<rparr>)"

definition set_const :: "'m mach menv \<Rightarrow> val \<Rightarrow> u32 \<Rightarrow> val \<Rightarrow> ('m, unit) meff" where
  "set_const M class_obj i v =
     bind (module_set_const (m_ec M) (e_name M) (m_fuel M) class_obj i v) (\<lambda>_. inc_const_version)"

definition set_toplevel_constant :: "'m mach menv \<Rightarrow> u32 \<Rightarrow> val \<Rightarrow> ('m, unit) meff" where
  "set_toplevel_constant M i v = set_const M (ec_object (m_ec M)) i v"

definition add_const_cache_entry :: "('m, u32) meff" where
  "add_const_cache_entry =
     bind (modify (\<lambda>s. s\<lparr>const_cache_id := const_cache_id s + 1,
                        const_cache := const_cache s @ [(0, None)]\<rparr>)) (\<lambda>_.
     asks (\<lambda>s. Inr (const_cache_id s - 1)))"

definition find_const_cache :: "u32 \<Rightarrow> ('m, val option) meff" where
  "find_const_cache slot =
     asks (\<lambda>s. rbind (index_at (const_cache s) (unat slot)) (\<lambda>e.
       Inr (if fst e = const_version s then snd e else None)))"

definition set_const_cache :: "u32 \<Rightarrow> val \<Rightarrow> ('m, unit) meff" where
  "set_const_cache i v =
     bind (asks (\<lambda>s. index_at (const_cache s) (unat i))) (\<lambda>_.
     modify (\<lambda>s. s\<lparr>const_cache := (const_cache s)[unat i := (const_version s, Some v)]\<rparr>))"

definition const_value_insert :: "val \<Rightarrow> ('m, nat) meff" where
  "const_value_insert v =
     bind (asks (\<lambda>s. Inr (length (const_values s)))) (\<lambda>i.
     bind (modify (\<lambda>s. s\<lparr>const_values := const_values s @ [v]\<rparr>)) (\<lambda>_. ret i))"

definition const_value_get :: "nat \<Rightarrow> nat \<Rightarrow> ('m, val) meff" where
  "const_value_get n i = bind (asks (\<lambda>s. index_at (const_values s) i)) (value_dup n)"

text \<open>Constant lookup: the lexical class stack of the method, without the outermost class.\<close>

fun first_const :: "'m mach \<Rightarrow> u32 \<Rightarrow> val list \<Rightarrow> val option res" where
  "first_const s i [] = Inr None"
| "first_const s i (c # cs) =
     rbind (module_get_const s i c) (\<lambda>r. if r = None then first_const s i cs else Inr r)"

definition get_env_const :: "nat \<Rightarrow> u32 \<Rightarrow> ('m, val option) meff" where
  "get_env_const n i =
     bind (get_method_iseq n) (\<lambda>iseq.
     asks (\<lambda>s.
       case class_defined s (imethod iseq) of
         [] \<Rightarrow> Inr None
       | [c] \<Rightarrow> module_get_const s i c
       | _ # cs \<Rightarrow> first_const s i (rev cs)))"

definition get_constant :: "'m mach menv \<Rightarrow> u32 \<Rightarrow> u32 \<Rightarrow> ('m, val) meff" where
  "get_constant M i slot =
     bind (find_const_cache slot) (\<lambda>r.
       case r of
         Some v \<Rightarrow> ret v
       | None \<Rightarrow>
           bind (get_env_const (m_fuel M) i) (\<lambda>r.
           bind (case r of
                   Some v \<Rightarrow> ret v
                 | None \<Rightarrow>
                     bind vm_class (\<lambda>c. asks (\<lambda>s. get_super_const (m_ec M) (m_fuel M) s c i))) (\<lambda>v.
           bind (set_const_cache slot v) (\<lambda>_. ret v))))"

text \<open>Class variables, of the class of \<open>self\<close>; not at the top level.\<close>

definition self_module :: "'m mach menv \<Rightarrow> ('m, val) meff" where
  "self_module M =
     bind (ask_vm exec_context) (\<lambda>cs.
       if cs = [] then raise (Raise (RuntimeErr Runtime))
       else
         bind current_ctx (\<lambda>c.
         asks (\<lambda>s. self_class (e_classes M) (m_fuel M) s (self_value c))))"

definition set_class_var :: "'m mach menv \<Rightarrow> u32 \<Rightarrow> val \<Rightarrow> ('m, unit) meff" where
  "set_class_var M i v = bind (self_module M) (\<lambda>c. set_class_var_from (m_fuel M) c i v)"

definition get_class_var :: "'m mach menv \<Rightarrow> u32 \<Rightarrow> ('m, val) meff" where
  "get_class_var M i = bind (self_module M) (\<lambda>c. asks (\<lambda>s. get_class_var_from (m_fuel M) s c i))"

section \<open>Garbage collection\<close>

text \<open>\<open>Globals::mark\<close>: the roots in the order the code marks them.\<close>

definition gc_roots :: "nat \<Rightarrow> 'm mach \<Rightarrow> val list res" where
  "gc_roots n s =
     rbind (if main_fiber s
            then vm_values \<lparr>contexts = ctx_store s, exts = ext_store s\<rparr> n (vm s) else Inr []) (\<lambda>vs.
     Inr (const_values s @ main_object s # map snd (global_var s) @
          map fst (concat (case_dispatch s)) @ vs))"

definition collect :: "nat \<Rightarrow> ('m, unit) meff" where
  "collect n =
     bind (asks (gc_roots n)) (\<lambda>roots.
     steps (\<lambda>s. rbind (gc (rvalue_values \<lparr>contexts = ctx_store s, exts = ext_store s\<rparr> n) s roots)
       (\<lambda>s'. Inr (s', ()))))"

definition vm_gc :: "nat \<Rightarrow> ('m, unit) meff" where
  "vm_gc n = bind (asks (\<lambda>s. Inr (alloc_flag s))) (\<lambda>b. if b then collect n else ret ())"

end
