(* ===== verification/Contexts.thy ===== *)
theory Contexts
  imports Machine
begin

text \<open>
  src/vm/context.rs: a new context, its local variables, and the binding of the arguments of a call
  to them; with the moves of contexts to the heap, of the same file and src/vm/executor.rs.

  The first four local variables are in an array, the others in a vector. The subtraction of
  lengths in \<open>fill_arguments\<close> wraps when there are fewer arguments than required ones at the end;
  the slice that is taken next panics then, and so does the model at the subtraction.
\<close>

definition context_new :: "val \<Rightarrow> block \<Rightarrow> iseq_info \<Rightarrow> u64 option \<Rightarrow> ruby_context" where
  "context_new self b iseq out =
     \<lparr>self_value = self, c_block = b, lvar_ary = replicate LVAR_ARRAY_SIZE UNINITIALIZED,
      lvar_vec = replicate (lvars iseq - LVAR_ARRAY_SIZE) UNINITIALIZED,
      iseq_ref = Some iseq, outer = out, moved_to_heap = None, on_stack = True, ckind = ikind iseq\<rparr>"

definition context_new_noiseq :: ruby_context where
  "context_new_noiseq =
     \<lparr>self_value = NIL_VALUE, c_block = BNone, lvar_ary = replicate LVAR_ARRAY_SIZE UNINITIALIZED,
      lvar_vec = [], iseq_ref = None, outer = None, moved_to_heap = None, on_stack = True,
      ckind = BlockK\<rparr>"

section \<open>Local variables\<close>

definition put_nth :: "'a list \<Rightarrow> nat \<Rightarrow> 'a \<Rightarrow> 'a list res" where
  "put_nth xs i v = (if i < length xs then Inr (xs[i := v]) else Inl Panic)"

definition ctx_set :: "ruby_context \<Rightarrow> nat \<Rightarrow> val \<Rightarrow> ruby_context res" where
  "ctx_set c i v =
     (if i < LVAR_ARRAY_SIZE
      then rbind (put_nth (lvar_ary c) i v) (\<lambda>xs. Inr (c\<lparr>lvar_ary := xs\<rparr>))
      else rbind (put_nth (lvar_vec c) (i - LVAR_ARRAY_SIZE) v) (\<lambda>xs. Inr (c\<lparr>lvar_vec := xs\<rparr>)))"

text \<open>\<open>xs[a..b].copy_from_slice(ys)\<close>\<close>

definition copy_slice :: "'a list \<Rightarrow> nat \<Rightarrow> nat \<Rightarrow> 'a list \<Rightarrow> 'a list res" where
  "copy_slice xs a b ys =
     (if a \<le> b \<and> b \<le> length xs \<and> length ys = b - a then Inr (take a xs @ ys @ drop b xs)
      else Inl Panic)"

definition copy_from_slice :: "ruby_context \<Rightarrow> nat \<Rightarrow> val list \<Rightarrow> ruby_context res" where
  "copy_from_slice c index vals =
     (let len = length vals; n = LVAR_ARRAY_SIZE in
      if index + len \<le> n then
        rbind (copy_slice (lvar_ary c) index (index + len) vals) (\<lambda>xs. Inr (c\<lparr>lvar_ary := xs\<rparr>))
      else if n \<le> index then
        rbind (copy_slice (lvar_vec c) (index - n) (index + len - n) vals) (\<lambda>xs.
          Inr (c\<lparr>lvar_vec := xs\<rparr>))
      else
        rbind (copy_slice (lvar_ary c) index n (take (n - index) vals)) (\<lambda>xs.
        rbind (copy_slice (lvar_vec c) 0 (index + len - n) (drop (n - index) vals)) (\<lambda>ys.
          Inr (c\<lparr>lvar_ary := xs, lvar_vec := ys\<rparr>))))"

definition copy_from_slice0 :: "ruby_context \<Rightarrow> val list \<Rightarrow> ruby_context res" where
  "copy_from_slice0 c vals =
     (let len = length vals; n = LVAR_ARRAY_SIZE in
      if len \<le> n then
        rbind (copy_slice (lvar_ary c) 0 len vals) (\<lambda>xs. Inr (c\<lparr>lvar_ary := xs\<rparr>))
      else
        rbind (copy_slice (lvar_ary c) 0 n (take n vals)) (\<lambda>xs.
        rbind (copy_slice (lvar_vec c) 0 (len - n) (drop n vals)) (\<lambda>ys.
          Inr (c\<lparr>lvar_ary := xs, lvar_vec := ys\<rparr>))))"

fun ctx_fill :: "ruby_context \<Rightarrow> nat list \<Rightarrow> val \<Rightarrow> ruby_context res" where
  "ctx_fill c [] v = Inr c"
| "ctx_fill c (i # js) v = rbind (ctx_set c i v) (\<lambda>c'. ctx_fill c' js v)"

section \<open>Binding of arguments\<close>

text \<open>\<open>fill_arguments_opt\<close>: required parameters only, the missing ones \<open>nil\<close>.\<close>

definition fill_arguments_opt :: "ruby_context \<Rightarrow> val list \<Rightarrow> nat \<Rightarrow> ruby_context res" where
  "fill_arguments_opt c args req_len =
     (let args_len = length args in
      if req_len \<le> args_len then copy_from_slice0 c (take req_len args)
      else rbind (copy_from_slice0 c args) (\<lambda>c'. ctx_fill c' [args_len..<req_len] NIL_VALUE))"

definition from_args_opt_block ::
    "memory \<Rightarrow> ruby_context \<Rightarrow> iseq_params \<Rightarrow> val list \<Rightarrow> ruby_context res" where
  "from_args_opt_block m c p args =
     (case args of
        [v] \<Rightarrow>
          (case as_kind (\<lambda>k. case k of Array xs \<Rightarrow> Some xs | _ \<Rightarrow> None) m v of
             Some xs \<Rightarrow> fill_arguments_opt c (if 1 < req p then xs else args) (req p)
           | None \<Rightarrow> fill_arguments_opt c args (req p))
      | _ \<Rightarrow> fill_arguments_opt c args (req p))"

text \<open>The three parts of \<open>fill_arguments\<close>: the required parameters at the end, those at the front with
  the optional ones, and the rest. The second component is what remains of \<open>kw_len\<close>.\<close>

definition fill_post ::
    "ruby_context \<Rightarrow> val list \<Rightarrow> nat \<Rightarrow> nat \<Rightarrow> nat \<Rightarrow> nat \<Rightarrow> val \<Rightarrow> (ruby_context \<times> nat) res" where
  "fill_post c args arg_len post_pos post_len kw_len kw_val =
     (if post_len = 0 then Inr (c, kw_len)
      else
        rbind (vslice args arg_len (length args)) (\<lambda>xs.
        rbind (copy_from_slice c post_pos xs) (\<lambda>c1.
          if kw_len = 1
          then rbind (ctx_set c1 (post_pos + post_len - 1) kw_val) (\<lambda>c2. Inr (c2, 0))
          else Inr (c1, kw_len))))"

definition fill_front ::
    "ruby_context \<Rightarrow> val list \<Rightarrow> nat \<Rightarrow> nat \<Rightarrow> nat \<Rightarrow> val \<Rightarrow> (ruby_context \<times> nat) res" where
  "fill_front c args req_opt req_len kw_len kw_val =
     (if req_opt = 0 then Inr (c, kw_len)
      else
        rbind (vslice args 0 (req_opt - kw_len)) (\<lambda>xs.
        rbind (copy_from_slice0 c xs) (\<lambda>c1.
        rbind (if kw_len = 1 then ctx_set c1 (req_opt - 1) kw_val else Inr c1) (\<lambda>c2.
        rbind (if req_opt < req_len then ctx_fill c2 [req_opt..<req_len] NIL_VALUE else Inr c2)
          (\<lambda>c3. Inr (c3, 0))))))"

definition rest_args ::
    "val list \<Rightarrow> nat \<Rightarrow> nat \<Rightarrow> nat \<Rightarrow> val \<Rightarrow> val list res" where
  "rest_args args optreq_len arg_len kw_len kw_val =
     (if arg_len \<le> optreq_len then Inr []
      else
        rbind (vslice args optreq_len (arg_len - kw_len)) (\<lambda>xs.
          Inr (if kw_len = 1 then xs @ [kw_val] else xs)))"

definition fill_arguments ::
    "builtin_class \<Rightarrow> ruby_context \<Rightarrow> val list \<Rightarrow> iseq_params \<Rightarrow> val \<Rightarrow> ('m, ruby_context) heff" where
  "fill_arguments bc c args p kw_val =
     (let kw_len = if is_nil kw_val then 0 else 1;
          rest_len = if rest p = Some True then 1 else 0;
          arg_len = length args + kw_len - post p;
          optreq_len = req p + opt p in
      if length args + kw_len < post p then raise Panic
      else
        bind (asks (\<lambda>_. fill_post c args arg_len (optreq_len + rest_len) (post p) kw_len kw_val))
          (\<lambda>(c1, kw1).
        bind (asks (\<lambda>_. fill_front c1 args (min optreq_len arg_len) (req p) kw1 kw_val)) (\<lambda>(c2, kw2).
          if rest_len = 1 then
            bind (asks (\<lambda>_. rest_args args optreq_len arg_len kw2 kw_val)) (\<lambda>xs.
            bind (new_array bc xs) (\<lambda>v. asks (\<lambda>_. ctx_set c2 optreq_len v)))
          else ret c2)))"

definition set_arguments ::
    "builtin_class \<Rightarrow> ruby_context \<Rightarrow> args \<Rightarrow> val \<Rightarrow> ('m, ruby_context) heff" where
  "set_arguments bc c a kw_val =
     bind (asks (\<lambda>_. ctx_iseq c)) (\<lambda>iseq.
     bind (asks (\<lambda>h. Inr (case elems a of
             [v] \<Rightarrow> as_kind (\<lambda>k. case k of Array xs \<Rightarrow> Some xs | _ \<Rightarrow> None) (mem h) v
           | _ \<Rightarrow> None))) (\<lambda>ary.
       let p = params iseq in
         case ary of
           Some xs \<Rightarrow>
             fill_arguments bc c (if is_block iseq \<and> 1 < req p + post p then xs else elems a) p kw_val
         | None \<Rightarrow> fill_arguments bc c (elems a) p kw_val))"

section \<open>Contexts on the heap\<close>

definition context_new_heap ::
    "val \<Rightarrow> block \<Rightarrow> iseq_info \<Rightarrow> u64 option \<Rightarrow> ('m, u64) meff" where
  "context_new_heap self b iseq out =
     bind (place_ctx ((context_new self b iseq out)\<lparr>on_stack := False\<rparr>)) (\<lambda>a.
     bind (load_ctx a) (\<lambda>c.
     bind (store_ctx a (c\<lparr>moved_to_heap := Some a\<rparr>)) (\<lambda>_. ret a)))"

definition move_to_heap :: "u64 \<Rightarrow> ('m, u64) meff" where
  "move_to_heap a =
     bind (load_ctx a) (\<lambda>c.
       if \<not> on_stack c then ret a
       else
         bind (place_ctx (c\<lparr>on_stack := False\<rparr>)) (\<lambda>b.
         bind (store_ctx b (c\<lparr>on_stack := False, moved_to_heap := Some b\<rparr>)) (\<lambda>_.
         bind (store_ctx a (c\<lparr>moved_to_heap := Some b\<rparr>)) (\<lambda>_. ret b))))"

text \<open>
  \<open>move_outer_to_heap\<close>. The iterator runs over the frames from the current one down; what it has
  passed is \<open>done\<close>, in the order of \<open>exec_context\<close> with the current context last.
\<close>

fun replace_frame :: "u64 \<Rightarrow> u64 \<Rightarrow> u64 list \<Rightarrow> (u64 list \<times> u64 list) option" where
  "replace_frame a b [] = None"
| "replace_frame a b (x # xs) =
     (if x = a then Some ([b], xs)
      else map_option (\<lambda>(ps, rest). (x # ps, rest)) (replace_frame a b xs))"

definition set_frames :: "u64 list \<Rightarrow> ('m, unit) meff" where
  "set_frames fs =
     mod_vm (\<lambda>w. w\<lparr>cur_context := (case fs of [] \<Rightarrow> None | f # _ \<Rightarrow> Some f),
                   exec_context := rev (tl fs)\<rparr>)"

definition link_outer :: "u64 option \<Rightarrow> u64 \<Rightarrow> ('m, unit) meff" where
  "link_outer prev b =
     (case prev of
        Some p \<Rightarrow> bind (load_ctx p) (\<lambda>c. store_ctx p (c\<lparr>outer := Some b\<rparr>))
      | None \<Rightarrow> ret ())"

fun move_frames :: "nat \<Rightarrow> u64 \<Rightarrow> u64 option \<Rightarrow> u64 list \<Rightarrow> u64 list \<Rightarrow> ('m, unit) meff" where
  "move_frames 0 a prev passed left = raise Undef"
| "move_frames (Suc n) a prev passed left =
     bind (load_ctx a) (\<lambda>c.
       if \<not> on_stack c then ret ()
       else
         bind (move_to_heap a) (\<lambda>b.
           case replace_frame a b left of
             None \<Rightarrow> raise Panic
           | Some (ps, left') \<Rightarrow>
               bind (set_frames (passed @ ps @ left')) (\<lambda>_.
               bind (link_outer prev b) (\<lambda>_.
               bind (load_ctx b) (\<lambda>hc.
                 case outer hc of
                   Some u \<Rightarrow> move_frames n u (Some b) (passed @ ps) left'
                 | None \<Rightarrow> ret ())))))"

definition move_outer_to_heap :: "nat \<Rightarrow> u64 \<Rightarrow> ('m, u64) meff" where
  "move_outer_to_heap n a =
     bind (ask_vm (\<lambda>w. case_option [] (\<lambda>c. [c]) (cur_context w) @ rev (exec_context w))) (\<lambda>fs.
     bind (move_frames n a None [] fs) (\<lambda>_.
     bind (load_ctx a) (\<lambda>c. asks (\<lambda>_. or_panic (moved_to_heap c)))))"

definition create_block_context :: "nat \<Rightarrow> u32 \<Rightarrow> u64 \<Rightarrow> ('m, u64) meff" where
  "create_block_context n method a =
     bind (move_outer_to_heap n a) (\<lambda>b.
     bind (as_iseq method) (\<lambda>iseq.
     bind (load_ctx b) (\<lambda>c. context_new_heap (self_value c) BNone iseq (Some b))))"

definition new_proc :: "'m mach menv \<Rightarrow> u64 \<Rightarrow> ('m, val) meff" where
  "new_proc M c = steps (\<lambda>s. procobj (e_classes M) alloc s c)"

definition create_proc :: "'m mach menv \<Rightarrow> block \<Rightarrow> ('m, val) meff" where
  "create_proc M b =
     (case b of
        BBlock method a \<Rightarrow> bind (create_block_context (m_fuel M) method a) (new_proc M)
      | BProc p \<Rightarrow> value_dup (m_fuel M) p
      | BNone \<Rightarrow> raise Panic)"

definition create_lambda :: "'m mach menv \<Rightarrow> block \<Rightarrow> ('m, val) meff" where
  "create_lambda M b =
     (case b of
        BBlock method a \<Rightarrow>
          bind (create_block_context (m_fuel M) method a) (\<lambda>b.
          bind (load_ctx b) (\<lambda>c.
          bind (store_ctx b (c\<lparr>ckind := MethodK None\<rparr>)) (\<lambda>_. new_proc M b)))
      | BProc p \<Rightarrow> value_dup (m_fuel M) p
      | BNone \<Rightarrow> raise Panic)"

section \<open>The context of a call\<close>

text \<open>Keyword arguments: known ones to their variables, the others into the keyword rest.\<close>

fun bind_keywords ::
    "'m mach menv \<Rightarrow> iseq_params \<Rightarrow> (val \<times> val) list \<Rightarrow> ruby_context \<Rightarrow> (val \<times> val) list \<Rightarrow>
     ('m, ruby_context \<times> (val \<times> val) list) meff" where
  "bind_keywords M p [] c others = ret (c, others)"
| "bind_keywords M p ((k, v) # kvs) c others =
     bind (asks (\<lambda>_. or_panic (as_symbol k))) (\<lambda>i.
       case map_of (keyword p) i of
         Some l \<Rightarrow> bind (asks (\<lambda>_. ctx_set c l v)) (\<lambda>c'. bind_keywords M p kvs c' others)
       | None \<Rightarrow>
           if kwrest p then
             bind (asks (\<lambda>s. table_insert (find_key M (mem s)) k v others)) (bind_keywords M p kvs c)
           else raise (Raise (RuntimeErr Argument)))"

definition new_hash :: "'m mach menv \<Rightarrow> (val \<times> val) list \<Rightarrow> ('m, val) meff" where
  "new_hash M t = steps (\<lambda>s. hash_from (e_classes M) alloc s (HMap t))"

definition check_arity :: "iseq_info \<Rightarrow> args \<Rightarrow> val \<Rightarrow> unit res" where
  "check_arity iseq a kw =
     (let p = params iseq; mn = req p + post p; k = if is_nil kw then 0 else 1 in
      if is_block iseq then Inr ()
      else if rest p \<noteq> None then (if k < mn then check_args_min a (mn - k) else Inr ())
      else check_args_range_ofs a k mn (mn + opt p))"

definition set_keywords ::
    "'m mach menv \<Rightarrow> iseq_info \<Rightarrow> args \<Rightarrow> bool \<Rightarrow> ruby_context \<Rightarrow> ('m, ruby_context) meff" where
  "set_keywords M iseq a keyword_flag c =
     (if \<not> kwrest (params iseq) \<and> \<not> keyword_flag then ret c
      else
        bind (if keyword_flag then
                bind (asks (\<lambda>s. rbind (or_panic (as_hash (mem s) (kw_arg a))) (\<lambda>h. Inr (hash_pairs h))))
                  (\<lambda>kvs. bind_keywords M (params iseq) kvs c [])
              else ret (c, [])) (\<lambda>(c1, others).
        case kwrest_param iseq of
          Some l \<Rightarrow> bind (new_hash M others) (\<lambda>v. asks (\<lambda>_. ctx_set c1 l v))
        | None \<Rightarrow> ret c1))"

definition set_block_param ::
    "'m mach menv \<Rightarrow> iseq_info \<Rightarrow> args \<Rightarrow> ruby_context \<Rightarrow> ('m, ruby_context) meff" where
  "set_block_param M iseq a c =
     (case block_param iseq of
        None \<Rightarrow> ret c
      | Some l \<Rightarrow>
          bind (case a_block a of
                  BBlock method ctx \<Rightarrow> bind (create_block_context (m_fuel M) method ctx) (new_proc M)
                | BProc p \<Rightarrow> ret p
                | BNone \<Rightarrow> ret NIL_VALUE) (\<lambda>v.
          asks (\<lambda>_. ctx_set c l v)))"

definition from_args_opt :: "iseq_info \<Rightarrow> args \<Rightarrow> ruby_context \<Rightarrow> ('m, ruby_context) meff" where
  "from_args_opt iseq a c =
     (if \<not> is_nil (kw_arg a) then raise (Raise (RuntimeErr Argument))
      else if is_block iseq then asks (\<lambda>s. from_args_opt_block (mem s) c (params iseq) (elems a))
      else
        asks (\<lambda>_. rbind (check_args_num a (req (params iseq))) (\<lambda>_. copy_from_slice0 c (elems a))))"

definition from_args ::
    "'m mach menv \<Rightarrow> val \<Rightarrow> iseq_info \<Rightarrow> args \<Rightarrow> u64 option \<Rightarrow> ('m, ruby_context) meff" where
  "from_args M self iseq a out =
     (let c = context_new self (a_block a) iseq out; p = params iseq in
      if opt_flag iseq then from_args_opt iseq a c
      else
        let plain = (keyword p = [] \<and> \<not> kwrest p);
            keyword_flag = (\<not> plain \<and> \<not> is_nil (kw_arg a));
            kw = if plain then kw_arg a else NIL_VALUE in
          bind (asks (\<lambda>_. check_arity iseq a kw)) (\<lambda>_.
          bind (set_arguments (e_classes M) c a kw) (\<lambda>c1.
          bind (set_keywords M iseq a keyword_flag c1) (set_block_param M iseq a))))"

end
