(* ===== verification/Calls.thy ===== *)
theory Calls
  imports Contexts
begin

text \<open>
  src/vm/executor.rs, the calls: sending a message, invoking a method, a block or a \<open>Proc\<close>, with the
  element accesses, class definitions and conversions that may call back; and
  \<open>RubyError::to_exception_val\<close> of src/error.rs.

  \<open>run\<close> runs the context at an address until it returns (\<open>VM::run_context\<close>). It is an argument
  here; theory Interp ties the knot.
\<close>

type_synonym 'm runner = "u64 \<Rightarrow> ('m, unit) meff"

section \<open>Invoking\<close>

text \<open>Run a context that lives in the frame of the native function that made it.\<close>

definition run_local :: "'m runner \<Rightarrow> ruby_context \<Rightarrow> ('m, unit) meff" where
  "run_local run c =
     bind (place_ctx c) (\<lambda>a s. case run a s of (s', r) \<Rightarrow> (fst (drop_ctx a s'), r))"

definition truncate_temp :: "nat \<Rightarrow> ('m, unit) meff" where
  "truncate_temp len = mod_vm (\<lambda>w. w\<lparr>temp_stack := take len (temp_stack w)\<rparr>)"

definition invoke_native ::
    "'m mach menv \<Rightarrow> 'm runner \<Rightarrow> native \<Rightarrow> val \<Rightarrow> args \<Rightarrow> ('m, val) meff" where
  "invoke_native M run func self a =
     bind (ask_vm (\<lambda>w. length (temp_stack w))) (\<lambda>len.
     bind (temp_push self) (\<lambda>_.
     bind (temp_push_args a) (\<lambda>_ s.
       case m_native M run func self a s of (s', r) \<Rightarrow> (fst (truncate_temp len s'), r))))"

definition invoke_getter :: "u32 \<Rightarrow> val \<Rightarrow> ('m, val) meff" where
  "invoke_getter i self =
     asks (\<lambda>s. Inr (case as_rvalue (mem s) self of
       Some r \<Rightarrow> (case get_var r i of Some v \<Rightarrow> v | None \<Rightarrow> NIL_VALUE)
     | None \<Rightarrow> NIL_VALUE))"

definition invoke_setter :: "u32 \<Rightarrow> val \<Rightarrow> val \<Rightarrow> ('m, val) meff" where
  "invoke_setter i self v =
     (if is_packed_value self then raise Panic
      else bind (modify (update_object (\<lambda>r. fst (set_var r i v)) self)) (\<lambda>_. ret v))"

definition current_of :: "u64 option \<Rightarrow> ('m, u64 option) meff" where
  "current_of out =
     (case out of
        Some a \<Rightarrow> bind (load_ctx a) (\<lambda>c. ret (Some (get_current a c)))
      | None \<Rightarrow> ret None)"

definition invoke_func ::
    "'m mach menv \<Rightarrow> 'm runner \<Rightarrow> u32 \<Rightarrow> val \<Rightarrow> u64 option \<Rightarrow> args \<Rightarrow> ('m, unit) meff" where
  "invoke_func M run method self out a =
     bind (current_of out) (\<lambda>outer'.
     bind (repo_get method) (\<lambda>info.
       case info of
         BuiltinFunc _ func \<Rightarrow> bind (invoke_native M run func self a) stack_push
       | AttrReader i \<Rightarrow>
           bind (asks (\<lambda>_. check_args_num a 0)) (\<lambda>_. bind (invoke_getter i self) stack_push)
       | AttrWriter i \<Rightarrow>
           bind (asks (\<lambda>_. check_args_num a 1)) (\<lambda>_.
           bind (invoke_setter i self (elems a ! 0)) stack_push)
       | RubyFunc iseq \<Rightarrow> bind (from_args M self iseq a outer') (run_local run)
       | VoidM \<Rightarrow> raise Panic))"

definition invoke_method ::
    "'m mach menv \<Rightarrow> 'm runner \<Rightarrow> u32 \<Rightarrow> val \<Rightarrow> args \<Rightarrow> ('m, unit) meff" where
  "invoke_method M run method self a = invoke_func M run method self None a"

definition eval_method ::
    "'m mach menv \<Rightarrow> 'm runner \<Rightarrow> u32 \<Rightarrow> val \<Rightarrow> args \<Rightarrow> ('m, val) meff" where
  "eval_method M run method self a =
     bind (invoke_func M run method self None a) (\<lambda>_. stack_pop)"

text \<open>The operators of theory Arith on this machine.\<close>

definition arith :: "'m mach menv \<Rightarrow> 'm runner \<Rightarrow> 'm mach env" where
  "arith M run =
     (env.truncate M)
       \<lparr>e_find_method := find_method (m_fuel M),
        e_eval_method := (\<lambda>m v vs. eval_method M run m v (args_from_slice vs))\<rparr>"

section \<open>Sending\<close>

definition send_method_missing ::
    "'m mach menv \<Rightarrow> 'm runner \<Rightarrow> u32 \<Rightarrow> val \<Rightarrow> args \<Rightarrow> ('m, unit) meff" where
  "send_method_missing M run method_id recv a =
     bind (find_method_from_receiver (e_classes M) (m_fuel M) recv METHOD_MISSING_ID) (\<lambda>m.
       case m of
         Some method \<Rightarrow>
           invoke_method M run method recv (args_from_slice (symbol method_id # elems a))
       | None \<Rightarrow> undefined_method recv)"

definition send :: "'m mach menv \<Rightarrow> 'm runner \<Rightarrow> u32 \<Rightarrow> val \<Rightarrow> args \<Rightarrow> ('m, val) meff" where
  "send M run method_id recv a =
     bind (find_method_from_receiver (e_classes M) (m_fuel M) recv method_id) (\<lambda>m.
       case m of
         Some method \<Rightarrow> eval_method M run method recv a
       | None \<Rightarrow> bind (send_method_missing M run method_id recv a) (\<lambda>_. stack_pop))"

definition send_icache ::
    "'m mach menv \<Rightarrow> 'm runner \<Rightarrow> u32 \<Rightarrow> u32 \<Rightarrow> val \<Rightarrow> args \<Rightarrow> ('m, unit) meff" where
  "send_icache M run cache method_id recv a =
     bind (asks (\<lambda>s. get_class_for_method (e_classes M) (mem s) recv)) (\<lambda>c.
     bind (find_method_inline_cache (m_fuel M) cache c method_id) (\<lambda>m.
       case m of
         Some method \<Rightarrow> invoke_method M run method recv a
       | None \<Rightarrow> send_method_missing M run method_id recv a))"

section \<open>Blocks and procs\<close>

definition proc_ctx :: "val \<Rightarrow> ('m, ruby_context) meff" where
  "proc_ctx p = bind (asks (\<lambda>s. or_panic (as_proc (mem s) p))) load_ctx"

definition eval_proc :: "'m mach menv \<Rightarrow> 'm runner \<Rightarrow> val \<Rightarrow> args \<Rightarrow> ('m, val) meff" where
  "eval_proc M run p a =
     bind (proc_ctx p) (\<lambda>c.
     bind (asks (\<lambda>_. ctx_iseq c)) (\<lambda>iseq.
     bind (from_args M (self_value c) iseq a (outer c)) (\<lambda>new.
     bind (run_local run new) (\<lambda>_. stack_pop))))"

definition block_self :: "u64 \<Rightarrow> ('m, val) meff" where
  "block_self a = bind (load_ctx a) (\<lambda>c. ret (self_value c))"

definition eval_block :: "'m mach menv \<Rightarrow> 'm runner \<Rightarrow> block \<Rightarrow> args \<Rightarrow> ('m, val) meff" where
  "eval_block M run b a =
     (case b of
        BBlock method ctx \<Rightarrow>
          bind (block_self ctx) (\<lambda>self.
          bind (invoke_func M run method self (Some ctx) a) (\<lambda>_. stack_pop))
      | BProc p \<Rightarrow> eval_proc M run p a
      | BNone \<Rightarrow> raise Panic)"

definition eval_block_self ::
    "'m mach menv \<Rightarrow> 'm runner \<Rightarrow> block \<Rightarrow> val \<Rightarrow> args \<Rightarrow> ('m, val) meff" where
  "eval_block_self M run b self a =
     bind (case b of
             BBlock method ctx \<Rightarrow> invoke_func M run method self (Some ctx) a
           | BProc p \<Rightarrow>
               bind (asks (\<lambda>s. case as_proc (mem s) p of Some c \<Rightarrow> Inr c | None \<Rightarrow> Inl (Raise Internal)))
                 (\<lambda>pa.
               bind (load_ctx pa) (\<lambda>c.
               bind (asks (\<lambda>_. ctx_iseq c)) (\<lambda>iseq.
               bind (from_args M self iseq a (outer c)) (run_local run))))
           | BNone \<Rightarrow> raise Panic) (\<lambda>_. stack_pop)"

definition eval_yield :: "'m mach menv \<Rightarrow> 'm runner \<Rightarrow> args \<Rightarrow> ('m, unit) meff" where
  "eval_yield M run a =
     bind (get_method_context (m_fuel M)) (\<lambda>ma.
     bind (load_ctx ma) (\<lambda>c.
       case c_block c of
         BBlock method ctx \<Rightarrow>
           bind (block_self ctx) (\<lambda>self. invoke_func M run method self (Some ctx) a)
       | BProc p \<Rightarrow> bind (eval_proc M run p a) stack_push
       | BNone \<Rightarrow> raise (Raise (RuntimeErr LocalJump))))"

section \<open>Elements\<close>

definition update_hash :: "val \<Rightarrow> hash_info \<Rightarrow> ('m, unit) meff" where
  "update_hash r h = modify (update_object (\<lambda>x. x\<lparr>kind := Hash h\<rparr>) r)"

definition hash_store :: "'m mach menv \<Rightarrow> val \<Rightarrow> hash_info \<Rightarrow> val \<Rightarrow> val \<Rightarrow> ('m, unit) meff" where
  "hash_store M r h k v =
     bind (asks (\<lambda>s. hash_insert (find_key M (mem s)) k v h)) (update_hash r)"

definition hash_fetch :: "'m mach menv \<Rightarrow> hash_info \<Rightarrow> val \<Rightarrow> ('m, val) meff" where
  "hash_fetch M h k =
     asks (\<lambda>s. rbind (hash_get (find_key M (mem s)) h k) (\<lambda>v.
       Inr (case v of Some v \<Rightarrow> v | None \<Rightarrow> NIL_VALUE)))"

definition object_kind :: "val \<Rightarrow> ('m, objkind option) meff" where
  "object_kind v = asks (\<lambda>s. Inr (map_option kind (as_rvalue (mem s) v)))"

definition set_index :: "'m mach menv \<Rightarrow> 'm runner \<Rightarrow> ('m, unit) meff" where
  "set_index M run =
     bind stack_pop (\<lambda>v. bind stack_pop (\<lambda>idx. bind stack_pop (\<lambda>recv.
     bind (object_kind recv) (\<lambda>k.
       case k of
         Some (Array _) \<Rightarrow> bind (set_elem1 recv idx v) (\<lambda>_. ret ())
       | Some (Hash h) \<Rightarrow> hash_store M recv h idx v
       | _ \<Rightarrow> bind (send M run INDEX_ASSIGN_ID recv (args_new2 idx v)) (\<lambda>_. ret ())))))"

definition index_value :: "'m mach menv \<Rightarrow> u32 \<Rightarrow> ('m, val) meff" where
  "index_value M idx = steps (\<lambda>s. integer (e_classes M) alloc s (ucast idx))"

definition set_index_imm :: "'m mach menv \<Rightarrow> 'm runner \<Rightarrow> u32 \<Rightarrow> ('m, unit) meff" where
  "set_index_imm M run idx =
     bind stack_pop (\<lambda>recv. bind stack_pop (\<lambda>v.
     bind (object_kind recv) (\<lambda>k.
       case k of
         Some (Array _) \<Rightarrow> set_elem_imm recv idx v
       | Some (Hash h) \<Rightarrow> bind (index_value M idx) (\<lambda>i. hash_store M recv h i v)
       | _ \<Rightarrow>
           bind (index_value M idx) (\<lambda>i.
           bind (send M run INDEX_ASSIGN_ID recv (args_new2 i v)) (\<lambda>_. ret ())))))"

definition get_index :: "'m mach menv \<Rightarrow> 'm runner \<Rightarrow> ('m, val) meff" where
  "get_index M run =
     bind stack_pop (\<lambda>idx. bind stack_top (\<lambda>recv.
     bind (object_kind recv) (\<lambda>k.
     bind (case k of
             Some (Array xs) \<Rightarrow> get_elem1 (e_classes M) xs idx
           | Some (Hash h) \<Rightarrow> hash_fetch M h idx
           | Some _ \<Rightarrow> send M run INDEX_ID recv (args_new1 idx)
           | None \<Rightarrow> fallback_for_binop (arith M run) INDEX_ID recv idx) (\<lambda>v.
     bind stack_pop (\<lambda>_. ret v)))))"

definition bit_of :: "i64 \<Rightarrow> u32 \<Rightarrow> i64" where
  "bit_of i idx = (if 63 < idx then 0 else i64_shr i (ucast idx) AND 1)"

definition get_index_imm :: "'m mach menv \<Rightarrow> 'm runner \<Rightarrow> u32 \<Rightarrow> ('m, val) meff" where
  "get_index_imm M run idx =
     bind stack_top (\<lambda>recv.
     bind (object_kind recv) (\<lambda>k.
     bind (case k of
             Some (Array xs) \<Rightarrow> ret (get_elem_imm xs idx)
           | Some (Hash h) \<Rightarrow> bind (index_value M idx) (hash_fetch M h)
           | Some (MethodObj mo) \<Rightarrow>
               bind (index_value M idx) (\<lambda>i.
                 eval_method M run (mmethod mo) (mreceiver mo) (args_new1 i))
           | Some _ \<Rightarrow> bind (index_value M idx) (\<lambda>i. send M run INDEX_ID recv (args_new1 i))
           | None \<Rightarrow>
               if is_packed_fixnum recv
               then steps (\<lambda>s. integer (e_classes M) alloc s (bit_of (as_packed_fixnum recv) idx))
               else bind (index_value M idx) (fallback_for_binop (arith M run) INDEX_ID recv)) (\<lambda>v.
     bind stack_pop (\<lambda>_. ret v))))"

section \<open>Taking arguments off the stack\<close>

definition stack_part :: "nat \<Rightarrow> ('m, val list) meff" where
  "stack_part n =
     bind (ask_vm exec_stack) (\<lambda>st.
       if length st < n then raise Panic else ret (drop (length st - n) st))"

text \<open>A splatted array or range is broken up into its elements.\<close>

fun push_ints :: "'m mach menv \<Rightarrow> int list \<Rightarrow> val list \<Rightarrow> ('m, val list) meff" where
  "push_ints M [] acc = ret acc"
| "push_ints M (i # js) acc =
     bind (steps (\<lambda>s. integer (e_classes M) alloc s (word_of_int i))) (\<lambda>v. push_ints M js (acc @ [v]))"

definition unwrapped_integer :: "val \<Rightarrow> ('m, i64) meff" where
  "unwrapped_integer v =
     asks (\<lambda>s. case expect_integer (mem s) v of Inl (Raise _) \<Rightarrow> Inl Panic | r \<Rightarrow> r)"

definition splat_arg :: "'m mach menv \<Rightarrow> val \<Rightarrow> val list \<Rightarrow> ('m, val list) meff" where
  "splat_arg M inner acc =
     bind (object_kind inner) (\<lambda>k.
       case k of
         Some (Array xs) \<Rightarrow> ret (acc @ xs)
       | Some (RangeK r) \<Rightarrow>
           bind (unwrapped_integer (rstart r)) (\<lambda>a.
           bind (unwrapped_integer (rend r)) (\<lambda>b.
             push_ints M [sint a..sint (b + (if exclude r then 0 else 1)) - 1] acc))
       | _ \<Rightarrow> ret (acc @ [inner]))"

fun splat_args :: "'m mach menv \<Rightarrow> val list \<Rightarrow> val list \<Rightarrow> ('m, val list) meff" where
  "splat_args M [] acc = ret acc"
| "splat_args M (v # vs) acc =
     bind (asks (\<lambda>s. Inr (as_splat (mem s) v))) (\<lambda>sp.
     bind (case sp of Some inner \<Rightarrow> splat_arg M inner acc | None \<Rightarrow> ret (acc @ [v])) (splat_args M vs))"

definition pop_args_to_args :: "'m mach menv \<Rightarrow> nat \<Rightarrow> ('m, args) meff" where
  "pop_args_to_args M arg_num =
     bind stack_len (\<lambda>len.
     bind (stack_part arg_num) (\<lambda>vs.
     bind (splat_args M vs []) (\<lambda>xs.
     bind (set_stack_len (len - arg_num)) (\<lambda>_. ret (args_from_slice xs)))))"

fun insert_pairs :: "'m mach menv \<Rightarrow> val list \<Rightarrow> (val \<times> val) list \<Rightarrow> ('m, (val \<times> val) list) meff" where
  "insert_pairs M (k # v # vs) t =
     bind (asks (\<lambda>s. table_insert (find_key M (mem s)) k v t)) (insert_pairs M vs)"
| "insert_pairs M _ t = ret t"

definition pop_key_value_pair :: "'m mach menv \<Rightarrow> nat \<Rightarrow> ('m, (val \<times> val) list) meff" where
  "pop_key_value_pair M arg_num =
     bind stack_len (\<lambda>len.
     bind (stack_part (arg_num * 2)) (\<lambda>vs.
     bind (insert_pairs M vs []) (\<lambda>t.
     bind (set_stack_len (len - arg_num * 2)) (\<lambda>_. ret t))))"

section \<open>Other helpers of the instructions\<close>

definition rstring_from :: "string \<Rightarrow> rstring" where
  "rstring_from cs = (if length cs \<le> 23 then SmallStr cs else Str cs)"

definition new_string :: "'m mach menv \<Rightarrow> string \<Rightarrow> ('m, val) meff" where
  "new_string M cs =
     steps (\<lambda>s. rvalue_pack alloc s (rvalue_new (bc_string (e_classes M)) (StringK (rstring_from cs))))"

definition as_str :: "val \<Rightarrow> ('m, string) meff" where
  "as_str v = asks (\<lambda>s. rbind (or_panic (as_rstring (mem s) v)) rstring_str)"

definition int_digits :: "int \<Rightarrow> string" where
  "int_digits i = (if i < 0 then CHR 0x2D # digits 20 (nat (- i)) else digits 20 (nat i))"

definition val_to_s :: "'m mach menv \<Rightarrow> 'm runner \<Rightarrow> val \<Rightarrow> ('m, string) meff" where
  "val_to_s M run v =
     bind (unpack_val v) (\<lambda>u.
       case u of
         UninitializedV \<Rightarrow> ret ''[Uninitialized]''
       | NilV \<Rightarrow> ret ''''
       | TrueV \<Rightarrow> ret ''true''
       | FalseV \<Rightarrow> ret ''false''
       | IntegerV i \<Rightarrow> ret (int_digits (sint i))
       | FloatV f \<Rightarrow> ret (m_float_to_s M f)
       | SymbolV i \<Rightarrow> ret (e_name M i)
       | ObjectV a \<Rightarrow>
           bind (asks (\<lambda>s. Inr (as_rstring (mem s) v))) (\<lambda>str.
             case str of
               Some (Str cs) \<Rightarrow> ret cs
             | Some (SmallStr cs) \<Rightarrow> ret cs
             | Some (Bytes bs) \<Rightarrow> ret (m_from_utf8 M bs)
             | None \<Rightarrow> bind (send0 (arith M run) TO_S_ID v) as_str))"

definition create_range :: "'m mach menv \<Rightarrow> 'm runner \<Rightarrow> val \<Rightarrow> val \<Rightarrow> bool \<Rightarrow> ('m, val) meff" where
  "create_range M run start ende excl =
     bind (eval_compare (arith M run) start ende) (\<lambda>c.
       if is_nil c then raise (Raise (RuntimeErr Argument))
       else steps (\<lambda>s. range_value (e_classes M) alloc s start ende excl))"

definition create_regexp :: "'m mach menv \<Rightarrow> val \<Rightarrow> ('m, val) meff" where
  "create_regexp M v =
     bind (asks (\<lambda>s. Inr (as_rstring (mem s) v))) (\<lambda>str.
       case str of
         None \<Rightarrow> raise (Raise (RuntimeErr Argument))
       | Some rs \<Rightarrow>
           bind (asks (\<lambda>_. rstring_str rs)) (\<lambda>cs.
             if cs = [] then raise Panic
             else
               let body = butlast cs; c = last cs in
                 if c = CHR ''i'' then m_regexp M (''(?mi)'' @ body)
                 else if c = CHR ''m'' then m_regexp M (''(?ms)'' @ body)
                 else if c = CHR ''x'' then m_regexp M (''(?mx)'' @ body)
                 else if c = CHR ''o'' then m_regexp M (''(?mo)'' @ body)
                 else if c = CHR ''-'' then m_regexp M (''(?m)'' @ body)
                 else raise (Raise Internal)))"

text \<open>\<open>class Name < Super ... end\<close>: the class of that name, or a new one.\<close>

definition reopen_class :: "'m mach menv \<Rightarrow> val \<Rightarrow> bool \<Rightarrow> val \<Rightarrow> ('m, val) meff" where
  "reopen_class M v is_mod super_val =
     bind (asks (\<lambda>s. is_module_flag s v)) (\<lambda>b.
       if b \<noteq> is_mod then raise (Raise (RuntimeErr Type))
       else
         bind (asks (\<lambda>s. superclass (m_fuel M) s v)) (\<lambda>sup.
           let val_super = (case sup of Some c \<Rightarrow> c | None \<Rightarrow> NIL_VALUE) in
             if \<not> is_nil super_val \<and> val_super \<noteq> super_val then raise (Raise (RuntimeErr Type))
             else ret v))"

definition create_class :: "'m mach menv \<Rightarrow> bool \<Rightarrow> val \<Rightarrow> ('m, val) meff" where
  "create_class M is_mod super_val =
     (if is_mod then
        (if is_nil super_val then new_module (m_ec M) else raise Panic)
      else
        bind (if is_nil super_val then ret (ec_object (m_ec M))
              else asks (\<lambda>s. expect_class (mem s) super_val)) (\<lambda>sup.
        new_class (m_ec M) (m_fuel M) (Some sup)))"

definition define_class :: "'m mach menv \<Rightarrow> val \<Rightarrow> u32 \<Rightarrow> bool \<Rightarrow> val \<Rightarrow> ('m, val) meff" where
  "define_class M base i is_mod super_val =
     bind (if is_nil base then vm_class else bind (get_cinfo base) (\<lambda>_. ret base)) (\<lambda>current.
     bind (asks (\<lambda>s. module_get_const s i current)) (\<lambda>r.
       case r of
         Some v \<Rightarrow> bind (get_cinfo v) (\<lambda>_. reopen_class M v is_mod super_val)
       | None \<Rightarrow>
           bind (create_class M is_mod super_val) (\<lambda>v.
           bind (set_const M current i v) (\<lambda>_. ret v))))"

section \<open>Exceptions\<close>

text \<open>The class an error of a kind has; \<open>None\<close> is \<open>StandardError\<close>.\<close>

definition error_class :: "runtime_err_kind \<Rightarrow> string option" where
  "error_class k =
     (case k of
        Type \<Rightarrow> Some ''TypeError''
      | Argument \<Rightarrow> Some ''ArgumentError''
      | NoMethod \<Rightarrow> Some ''NoMethodError''
      | Runtime \<Rightarrow> Some ''RuntimeError''
      | LoadError \<Rightarrow> Some ''LoadError''
      | StopIteration \<Rightarrow> Some ''StopIteration''
      | _ \<Rightarrow> None)"

fun new_strings :: "'m mach menv \<Rightarrow> string list \<Rightarrow> val list \<Rightarrow> ('m, val list) meff" where
  "new_strings M [] acc = ret acc"
| "new_strings M (x # xs) acc = bind (new_string M x) (\<lambda>v. new_strings M xs (acc @ [v]))"

definition new_exception :: "'m mach menv \<Rightarrow> val \<Rightarrow> ruby_error \<Rightarrow> ('m, val) meff" where
  "new_exception M c e =
     bind (new_string M (m_message M e)) (\<lambda>message.
     bind (asks (\<lambda>s. Inr (m_locations M s))) (\<lambda>locs.
     bind (new_strings M locs []) (\<lambda>bs.
     bind (new_array (e_classes M) bs) (\<lambda>backtrace.
     let r = rvalue_new c (Exception e);
         r1 = fst (set_var r (e_id M ''@message'') message);
         r2 = fst (set_var r1 (e_id M ''@backtrace'') backtrace)
     in steps (\<lambda>s. rvalue_pack alloc s r2)))))"

definition toplevel_class :: "'m mach menv \<Rightarrow> string \<Rightarrow> ('m, val) meff" where
  "toplevel_class M n =
     bind (asks (\<lambda>s. module_get_const s (e_id M n) (ec_object (m_ec M)))) (\<lambda>c. asks (\<lambda>_. or_panic c))"

definition to_exception_val :: "'m mach menv \<Rightarrow> ruby_error \<Rightarrow> ('m, val) meff" where
  "to_exception_val M e =
     (case e of
        ValueErr v \<Rightarrow> ret v
      | RuntimeErr k \<Rightarrow>
          bind (case error_class k of
                  Some n \<Rightarrow> toplevel_class M n
                | None \<Rightarrow> ret (bc_standard (e_classes M))) (\<lambda>c. new_exception M c e)
      | _ \<Rightarrow> new_exception M (bc_standard (e_classes M)) e)"

end
