(* ===== verification/Interp.thy ===== *)
theory Interp
  imports Calls
begin

text \<open>
  src/vm/executor/opt_core.rs, the interpreter loop, and \<open>VM::run_context\<close> of src/vm/executor.rs
  with its exception tables.

  The loop is a \<open>match\<close> on the opcode; here the arms are the entries of tables from opcodes to what
  they do. \<open>iseq\<close> and \<open>self\<close> are the code and the receiver that the code reads once, when the loop
  is entered. An instruction ends the loop with \<open>Leave\<close> or goes on with \<open>Next\<close>.

  The machine is fuelled where the code may not return: the instructions of a run, the exceptions
  rescued in it, and the depth of nested runs. Running out is \<open>Undef\<close>.
\<close>

datatype step_result = Next | Leave

type_synonym 'm handler = "('m, step_result) meff"

section \<open>Operands and results\<close>

definition operand :: "(code \<Rightarrow> nat \<Rightarrow> 'a res) \<Rightarrow> code \<Rightarrow> nat \<Rightarrow> ('m, 'a) meff" where
  "operand rd iseq k = asks (\<lambda>s. rd iseq (vm_pc (vm s) + k))"

definition read_method :: "code \<Rightarrow> nat \<Rightarrow> u32 res" where
  "read_method c pc = rbind (read32 c pc) method_id_new"

definition go_on :: "nat \<Rightarrow> 'm handler" where
  "go_on n = bind (add_pc n) (\<lambda>_. ret Next)"

definition push_next :: "nat \<Rightarrow> val \<Rightarrow> 'm handler" where
  "push_next n v = bind (stack_push v) (\<lambda>_. go_on n)"

text \<open>The macros \<open>try_push\<close> and \<open>try_no_push\<close>, with the advance of the program counter after them.\<close>

definition leave_method :: "'m handler" where
  "leave_method =
     bind in_method (\<lambda>b. if b then ret Leave else raise (Raise MethodReturn))"

definition try_push :: "nat \<Rightarrow> ('m, unit) meff \<Rightarrow> 'm handler" where
  "try_push n f s =
     (case f s of
        (s', Inr _) \<Rightarrow> go_on n s'
      | (s', Inl (Raise BlockReturn)) \<Rightarrow> go_on n s'
      | (s', Inl (Raise MethodReturn)) \<Rightarrow> leave_method s'
      | (s', Inl e) \<Rightarrow> (s', Inl e))"

definition try_no_push :: "nat \<Rightarrow> ('m, unit) meff \<Rightarrow> 'm handler" where
  "try_no_push n f s =
     (case f s of
        (s', Inr _) \<Rightarrow> bind stack_pop (\<lambda>_. go_on n) s'
      | (s', Inl (Raise BlockReturn)) \<Rightarrow> bind stack_pop (\<lambda>_. go_on n) s'
      | (s', Inl (Raise MethodReturn)) \<Rightarrow> leave_method s'
      | (s', Inl e) \<Rightarrow> (s', Inl e))"

text \<open>\<open>let res = f; g; res\<close>: what follows a call whose error is looked at later.\<close>

definition and_then :: "('m, 'a) meff \<Rightarrow> ('m, unit) meff \<Rightarrow> ('m, 'a) meff" where
  "and_then f g s =
     (case f s of
        (s', Inr x) \<Rightarrow> bind g (\<lambda>_. ret x) s'
      | (s', Inl (Raise e)) \<Rightarrow> bind g (\<lambda>_. raise (Raise e)) s'
      | (s', Inl e) \<Rightarrow> (s', Inl e))"

section \<open>Literals and operators\<close>

definition binary :: "(val \<Rightarrow> val \<Rightarrow> ('m, val) meff) \<Rightarrow> 'm handler" where
  "binary f =
     bind stack_pop (\<lambda>rhs. bind stack_pop (\<lambda>lhs. bind (f rhs lhs) (push_next 1)))"

definition immediate :: "code \<Rightarrow> (val \<Rightarrow> i32 \<Rightarrow> ('m, val) meff) \<Rightarrow> 'm handler" where
  "immediate iseq f =
     bind stack_pop (\<lambda>lhs. bind (operand read32 iseq 1) (\<lambda>i. bind (f lhs i) (push_next 5)))"

definition unary :: "(val \<Rightarrow> ('m, val) meff) \<Rightarrow> 'm handler" where
  "unary f = bind stack_pop (\<lambda>lhs. bind (f lhs) (push_next 1))"

definition truth :: "('m, bool) meff \<Rightarrow> ('m, val) meff" where
  "truth f = bind f (\<lambda>b. ret (bool_value b))"

definition falsity :: "('m, bool) meff \<Rightarrow> ('m, bool) meff" where
  "falsity f = bind f (\<lambda>b. ret (\<not> b))"

text \<open>\<open>EQ\<close> and \<open>NE\<close> take their operands in the other order than the rest.\<close>

definition swapped :: "(val \<Rightarrow> val \<Rightarrow> ('m, 'a) meff) \<Rightarrow> ('a \<Rightarrow> 'm handler) \<Rightarrow> 'm handler" where
  "swapped f k =
     bind stack_pop (\<lambda>lhs. bind stack_pop (\<lambda>rhs. bind (f rhs lhs) k))"

definition push_insts :: "'m mach menv \<Rightarrow> code \<Rightarrow> val \<Rightarrow> (u8 \<times> 'm handler) list" where
  "push_insts M iseq self =
     [(I_PUSH_NIL, push_next 1 NIL_VALUE),
      (I_PUSH_TRUE, push_next 1 TRUE_VALUE),
      (I_PUSH_FALSE, push_next 1 FALSE_VALUE),
      (I_PUSH_SELF, push_next 1 self),
      (I_PUSH_FIXNUM,
         bind (operand read64 iseq 1) (\<lambda>n.
         bind (steps (\<lambda>s. integer (e_classes M) alloc s n)) (push_next 9))),
      (I_PUSH_FLONUM,
         bind (operand read64 iseq 1) (\<lambda>f.
         bind (steps (\<lambda>s. float (e_classes M) alloc s f)) (push_next 9))),
      (I_PUSH_SYMBOL, bind (operand read32 iseq 1) (\<lambda>i. push_next 5 (symbol i)))]"

definition return_insts :: "(u8 \<times> 'm handler) list" where
  "return_insts =
     [(I_RETURN, ret Leave),
      (I_BREAK, raise (Raise BlockReturn)),
      (I_MRETURN, raise (Raise MethodReturn)),
      (I_THROW, bind stack_pop (\<lambda>v. raise (Raise (ValueErr v))))]"

definition arith_insts :: "'m mach env \<Rightarrow> code \<Rightarrow> (u8 \<times> 'm handler) list" where
  "arith_insts E iseq =
     [(I_ADD, binary (eval_add E)), (I_ADDI, immediate iseq (eval_addi E)),
      (I_SUB, binary (eval_sub E)), (I_SUBI, immediate iseq (eval_subi E)),
      (I_MUL, binary (eval_mul E)), (I_POW, binary (eval_exp E)),
      (I_DIV, binary (eval_div E)), (I_REM, binary (eval_rem E)),
      (I_SHR, binary (eval_shr E)), (I_SHL, binary (eval_shl E)),
      (I_NEG, unary (eval_neg E)),
      (I_BAND, binary (eval_bitand E)), (I_B_ANDI, immediate iseq (eval_bitandi E)),
      (I_BOR, binary (eval_bitor E)), (I_B_ORI, immediate iseq (eval_bitori E)),
      (I_BXOR, binary (eval_bitxor E)), (I_BNOT, unary (eval_bitnot E))]"

definition compare_insts :: "nat \<Rightarrow> 'm mach env \<Rightarrow> code \<Rightarrow> (u8 \<times> 'm handler) list" where
  "compare_insts n E iseq =
     [(I_EQ, swapped (eval_eq E n) (\<lambda>b. push_next 1 (bool_value b))),
      (I_EQI, immediate iseq (\<lambda>lhs i. ret (bool_value (eval_eqi lhs i)))),
      (I_NE, swapped (eval_eq E n) (\<lambda>b. push_next 1 (bool_value (\<not> b)))),
      (I_NEI, immediate iseq (\<lambda>lhs i. ret (bool_value (\<not> eval_eqi lhs i)))),
      (I_TEQ, binary (\<lambda>rhs lhs. truth (eval_teq E n rhs lhs))),
      (I_GT, binary (\<lambda>rhs lhs. truth (eval_gt E rhs lhs))),
      (I_GTI, immediate iseq (\<lambda>lhs i. truth (eval_gti E lhs i))),
      (I_GE, binary (\<lambda>rhs lhs. truth (eval_ge E rhs lhs))),
      (I_GEI, immediate iseq (\<lambda>lhs i. truth (eval_gei E lhs i))),
      (I_LT, binary (\<lambda>rhs lhs. truth (eval_lt E rhs lhs))),
      (I_LTI, immediate iseq (\<lambda>lhs i. truth (eval_lti E lhs i))),
      (I_LE, binary (\<lambda>rhs lhs. truth (eval_le E rhs lhs))),
      (I_LEI, immediate iseq (\<lambda>lhs i. truth (eval_lei E lhs i))),
      (I_CMP, binary (eval_compare E)),
      (I_NOT, unary (\<lambda>v. ret (bool_value (\<not> to_bool v))))]"

section \<open>Variables and constants\<close>

text \<open>\<open>self_value.get_var\<close> and \<open>set_var\<close> follow the pointer without looking at its tag.\<close>

definition self_object :: "val \<Rightarrow> ('m, rvalue) meff" where
  "self_object v = asks (\<lambda>s. if is_packed_value v then Inl Undef else Inr (mem s v))"

definition get_ivar :: "val \<Rightarrow> u32 \<Rightarrow> ('m, val option) meff" where
  "get_ivar self i = bind (self_object self) (\<lambda>r. ret (get_var r i))"

definition set_ivar :: "val \<Rightarrow> u32 \<Rightarrow> val \<Rightarrow> ('m, unit) meff" where
  "set_ivar self i v =
     bind (self_object self) (\<lambda>_. modify (update_object (\<lambda>r. fst (set_var r i v)) self))"

definition ivar_addi :: "'m mach env \<Rightarrow> val \<Rightarrow> u32 \<Rightarrow> i32 \<Rightarrow> ('m, unit) meff" where
  "ivar_addi E self i n =
     bind (get_ivar self i) (\<lambda>u.
     bind (case u of Some v \<Rightarrow> ret v | None \<Rightarrow> bind (set_ivar self i NIL_VALUE) (\<lambda>_. ret NIL_VALUE)) (\<lambda>v.
     bind (eval_addi E v n) (set_ivar self i)))"

definition get_lvar :: "u64 \<Rightarrow> nat \<Rightarrow> ('m, val) meff" where
  "get_lvar a i = bind (load_ctx a) (\<lambda>c. asks (\<lambda>_. ctx_get c i))"

definition set_lvar :: "u64 \<Rightarrow> nat \<Rightarrow> val \<Rightarrow> ('m, unit) meff" where
  "set_lvar a i v = bind (load_ctx a) (\<lambda>c. bind (asks (\<lambda>_. ctx_set c i v)) (store_ctx a))"

definition lvar_addi :: "'m mach env \<Rightarrow> nat \<Rightarrow> i32 \<Rightarrow> ('m, unit) meff" where
  "lvar_addi E i n =
     bind current_addr (\<lambda>a. bind (get_lvar a i) (\<lambda>v. bind (eval_addi E v n) (set_lvar a i)))"

definition local_insts :: "'m mach env \<Rightarrow> code \<Rightarrow> (u8 \<times> 'm handler) list" where
  "local_insts E iseq =
     [(I_SET_LOCAL,
         bind (operand read_usize iseq 1) (\<lambda>i. bind stack_pop (\<lambda>v.
         bind current_addr (\<lambda>a. bind (set_lvar a i v) (\<lambda>_. go_on 5))))),
      (I_GET_LOCAL,
         bind (operand read_usize iseq 1) (\<lambda>i.
         bind current_addr (\<lambda>a. bind (get_lvar a i) (push_next 5)))),
      (I_LVAR_ADDI,
         bind (operand read_usize iseq 1) (\<lambda>i. bind (operand read32 iseq 5) (\<lambda>n.
         bind (lvar_addi E i n) (\<lambda>_. go_on 9)))),
      (I_SET_DYNLOCAL,
         bind (operand read_usize iseq 1) (\<lambda>i. bind (operand read32 iseq 5) (\<lambda>k.
         bind stack_pop (\<lambda>v. bind (get_outer_context k) (\<lambda>a.
         bind (set_lvar a i v) (\<lambda>_. go_on 9)))))),
      (I_GET_DYNLOCAL,
         bind (operand read_usize iseq 1) (\<lambda>i. bind (operand read32 iseq 5) (\<lambda>k.
         bind (get_outer_context k) (\<lambda>a. bind (get_lvar a i) (push_next 9))))),
      (I_CHECK_LOCAL,
         bind (operand read_usize iseq 1) (\<lambda>i. bind (operand read32 iseq 5) (\<lambda>k.
         bind (get_outer_context k) (\<lambda>a. bind (get_lvar a i) (\<lambda>v.
         push_next 9 (bool_value (is_uninitialized v)))))))]"

definition const_parent :: "'m mach menv \<Rightarrow> val \<Rightarrow> ('m, val) meff" where
  "const_parent M v =
     (if is_nil v then
        bind (get_method_iseq (m_fuel M)) (\<lambda>iseq.
        asks (\<lambda>s. Inr (case class_defined s (imethod iseq) of
            [] \<Rightarrow> ec_object (m_ec M) | cs \<Rightarrow> last cs)))
      else asks (\<lambda>s. expect_mod_class (mem s) v))"

definition const_insts :: "'m mach menv \<Rightarrow> code \<Rightarrow> (u8 \<times> 'm handler) list" where
  "const_insts M iseq =
     [(I_SET_CONST,
         bind (operand read32 iseq 1) (\<lambda>i. bind stack_pop (\<lambda>p. bind (const_parent M p) (\<lambda>parent.
         bind stack_pop (\<lambda>v. bind (set_const M parent i v) (\<lambda>_. go_on 5)))))),
      (I_GET_CONST,
         bind (operand read32 iseq 1) (\<lambda>i. bind (operand read32 iseq 5) (\<lambda>slot.
         bind (get_constant M i slot) (push_next 9)))),
      (I_GET_CONST_TOP,
         bind (operand read32 iseq 1) (\<lambda>i.
         bind (asks (\<lambda>s. get_const s (ec_object (m_ec M)) i)) (push_next 5))),
      (I_GET_SCOPE,
         bind stack_pop (\<lambda>v. bind (asks (\<lambda>s. expect_mod_class (mem s) v)) (\<lambda>parent.
         bind (operand read32 iseq 1) (\<lambda>i.
         bind (asks (\<lambda>s. get_const s parent i)) (push_next 5)))))]"

definition check_value :: "val option \<Rightarrow> val" where
  "check_value r = (case r of Some _ \<Rightarrow> FALSE_VALUE | None \<Rightarrow> TRUE_VALUE)"

definition or_nil :: "val option \<Rightarrow> val" where
  "or_nil r = (case r of Some v \<Rightarrow> v | None \<Rightarrow> NIL_VALUE)"

definition ivar_insts :: "'m mach env \<Rightarrow> code \<Rightarrow> val \<Rightarrow> (u8 \<times> 'm handler) list" where
  "ivar_insts E iseq self =
     [(I_SET_IVAR,
         bind (operand read32 iseq 1) (\<lambda>i. bind stack_pop (\<lambda>v.
         bind (set_ivar self i v) (\<lambda>_. go_on 5)))),
      (I_GET_IVAR,
         bind (operand read32 iseq 1) (\<lambda>i. bind (get_ivar self i) (\<lambda>r. push_next 5 (or_nil r)))),
      (I_CHECK_IVAR,
         bind (operand read32 iseq 1) (\<lambda>i. bind (get_ivar self i) (\<lambda>r. push_next 5 (check_value r)))),
      (I_IVAR_ADDI,
         bind (operand read32 iseq 1) (\<lambda>i. bind (operand read32 iseq 5) (\<lambda>n.
         bind (ivar_addi E self i n) (\<lambda>_. go_on 9))))]"

definition global_insts :: "'m mach menv \<Rightarrow> code \<Rightarrow> (u8 \<times> 'm handler) list" where
  "global_insts M iseq =
     [(I_SET_GVAR,
         bind (operand read32 iseq 1) (\<lambda>i. bind stack_pop (\<lambda>v.
         bind (set_global_var i v) (\<lambda>_. go_on 5)))),
      (I_GET_GVAR,
         bind (operand read32 iseq 1) (\<lambda>i. bind (get_global_var i) (\<lambda>r. push_next 5 (or_nil r)))),
      (I_CHECK_GVAR,
         bind (operand read32 iseq 1) (\<lambda>i.
         bind (get_global_var i) (\<lambda>r. push_next 5 (check_value r)))),
      (I_SET_CVAR,
         bind (operand read32 iseq 1) (\<lambda>i. bind stack_pop (\<lambda>v.
         bind (set_class_var M i v) (\<lambda>_. go_on 5)))),
      (I_GET_CVAR,
         bind (operand read32 iseq 1) (\<lambda>i. bind (get_class_var M i) (push_next 5)))]"

section \<open>Elements, literals of objects and strings\<close>

definition index_insts ::
    "'m mach menv \<Rightarrow> 'm runner \<Rightarrow> code \<Rightarrow> (u8 \<times> 'm handler) list" where
  "index_insts M run iseq =
     [(I_SET_INDEX, bind (set_index M run) (\<lambda>_. go_on 1)),
      (I_GET_INDEX, bind (get_index M run) (push_next 1)),
      (I_SET_IDX_I,
         bind (operand read32 iseq 1) (\<lambda>i. bind (set_index_imm M run i) (\<lambda>_. go_on 5))),
      (I_GET_IDX_I,
         bind (operand read32 iseq 1) (\<lambda>i. bind (get_index_imm M run i) (push_next 5)))]"

text \<open>The slice \<open>exec_stack[stack_len - len ..]\<close> and the value under it.\<close>

definition rescue_inst :: "'m mach menv \<Rightarrow> nat \<Rightarrow> 'm handler" where
  "rescue_inst M len =
     bind (stack_part (len + 1)) (\<lambda>vs.
     bind (asks (\<lambda>s. eval_rescue (e_classes M) (m_fuel M) s (hd vs) (tl vs))) (\<lambda>b.
     bind stack_len (\<lambda>l.
     bind (set_stack_len (l - len - 1)) (\<lambda>_. push_next 5 (bool_value b)))))"

fun concat_strings :: "val list \<Rightarrow> string \<Rightarrow> ('m, string) meff" where
  "concat_strings [] acc = ret acc"
| "concat_strings (v # vs) acc = bind (as_str v) (\<lambda>cs. concat_strings vs (acc @ cs))"

definition concat_inst :: "'m mach menv \<Rightarrow> nat \<Rightarrow> 'm handler" where
  "concat_inst M num =
     bind (stack_part num) (\<lambda>vs.
     bind stack_len (\<lambda>l. bind (set_stack_len (l - num)) (\<lambda>_.
     bind (concat_strings vs []) (\<lambda>cs. bind (new_string M cs) (push_next 5)))))"

definition object_insts ::
    "'m mach menv \<Rightarrow> 'm runner \<Rightarrow> code \<Rightarrow> (u8 \<times> 'm handler) list" where
  "object_insts M run iseq =
     [(I_SPLAT,
         bind stack_pop (\<lambda>v.
         bind (steps (\<lambda>s. splat_value (e_classes M) alloc s v)) (push_next 1))),
      (I_CONST_VAL,
         bind (operand read_usize iseq 1) (\<lambda>i. bind (const_value_get (m_fuel M) i) (push_next 5))),
      (I_CREATE_RANGE,
         bind stack_pop (\<lambda>start. bind stack_pop (\<lambda>ende. bind stack_pop (\<lambda>excl.
         bind (create_range M run start ende (to_bool excl)) (push_next 1))))),
      (I_CREATE_ARRAY,
         bind (operand read_usize iseq 1) (\<lambda>n. bind (pop_args_to_args M n) (\<lambda>a.
         bind (new_array (e_classes M) (elems a)) (push_next 5)))),
      (I_CREATE_PROC,
         bind (operand read_method iseq 1) (\<lambda>m. bind current_addr (\<lambda>ctx.
         bind (create_proc M (BBlock m ctx)) (push_next 5)))),
      (I_CREATE_HASH,
         bind (operand read_usize iseq 1) (\<lambda>n. bind (pop_key_value_pair M n) (\<lambda>kvs.
         bind (new_hash M kvs) (push_next 5)))),
      (I_CREATE_REGEXP, bind stack_pop (\<lambda>v. bind (create_regexp M v) (push_next 1))),
      (I_RESCUE, bind (operand read_usize iseq 1) (rescue_inst M)),
      (I_CONCAT_STRING, bind (operand read_usize iseq 1) (concat_inst M)),
      (I_TO_S,
         bind stack_pop (\<lambda>v. bind (val_to_s M run v) (\<lambda>cs. bind (new_string M cs) (push_next 1))))]"

section \<open>Jumps\<close>

definition jump :: "nat \<Rightarrow> int \<Rightarrow> 'm handler" where
  "jump inst_offset disp = bind (jump_pc inst_offset disp) (\<lambda>_. ret Next)"

definition branch :: "code \<Rightarrow> nat \<Rightarrow> nat \<Rightarrow> bool \<Rightarrow> 'm handler" where
  "branch iseq inst_offset dest_offset b =
     bind (jmp_cond iseq b inst_offset dest_offset) (\<lambda>_. ret Next)"

definition branch_if :: "code \<Rightarrow> (val \<Rightarrow> val \<Rightarrow> ('m, bool) meff) \<Rightarrow> 'm handler" where
  "branch_if iseq f =
     bind stack_pop (\<lambda>rhs. bind stack_pop (\<lambda>lhs. bind (f rhs lhs) (branch iseq 5 1)))"

definition branch_if_imm :: "code \<Rightarrow> (val \<Rightarrow> i32 \<Rightarrow> ('m, bool) meff) \<Rightarrow> 'm handler" where
  "branch_if_imm iseq f =
     bind stack_pop (\<lambda>lhs. bind (operand read32 iseq 1) (\<lambda>i. bind (f lhs i) (branch iseq 9 5)))"

definition case_disp :: "'m mach menv \<Rightarrow> code \<Rightarrow> val \<Rightarrow> ('m, int) meff" where
  "case_disp M iseq v =
     bind (operand read32 iseq 1) (\<lambda>i.
     bind (asks (\<lambda>s. index_at (case_dispatch s) (unat i))) (\<lambda>table.
     bind (asks (\<lambda>s. find_value M (mem s) (map fst table) v)) (\<lambda>r.
       case r of
         Some k \<Rightarrow> asks (\<lambda>_. index_at (map snd table) k)
       | None \<Rightarrow> operand read_disp iseq 5)))"

definition case2_disp :: "code \<Rightarrow> val \<Rightarrow> ('m, int) meff" where
  "case2_disp iseq v =
     bind (asks (\<lambda>s. Inr (as_integer (mem s) v))) (\<lambda>r.
       case r of
         None \<Rightarrow> operand read_disp iseq 5
       | Some i \<Rightarrow>
           bind (operand read32 iseq 1) (\<lambda>k.
           bind (asks (\<lambda>s. index_at (case_dispatch2 s) (unat k))) (\<lambda>(lo, hi, table).
             if lo \<le>s i \<and> i \<le>s hi then asks (\<lambda>_. index_at table (unat (i - lo)))
             else operand read_disp iseq 5)))"

definition jump_insts :: "'m mach menv \<Rightarrow> 'm mach env \<Rightarrow> code \<Rightarrow> (u8 \<times> 'm handler) list" where
  "jump_insts M E iseq =
     [(I_JMP, bind (operand read_disp iseq 1) (jump 5)),
      (I_JMP_BACK,
         bind (operand read_disp iseq 1) (\<lambda>d. bind (vm_gc (m_fuel M)) (\<lambda>_. jump 5 d))),
      (I_JMP_F, bind stack_pop (\<lambda>v. branch iseq 5 1 (to_bool v))),
      (I_JMP_T, bind stack_pop (\<lambda>v. branch iseq 5 1 (\<not> to_bool v))),
      (I_JMP_F_EQ, swapped (eval_eq E (m_fuel M)) (branch iseq 5 1)),
      (I_JMP_F_NE, swapped (eval_eq E (m_fuel M)) (\<lambda>b. branch iseq 5 1 (\<not> b))),
      (I_JMP_F_GT, branch_if iseq (eval_gt E)),
      (I_JMP_F_GE, branch_if iseq (eval_ge E)),
      (I_JMP_F_LT, branch_if iseq (eval_lt E)),
      (I_JMP_F_LE, branch_if iseq (eval_le E)),
      (I_JMP_F_EQI, branch_if_imm iseq (\<lambda>lhs i. ret (eval_eqi lhs i))),
      (I_JMP_F_NEI, branch_if_imm iseq (\<lambda>lhs i. ret (\<not> eval_eqi lhs i))),
      (I_JMP_F_GTI, branch_if_imm iseq (eval_gti E)),
      (I_JMP_F_GEI, branch_if_imm iseq (eval_gei E)),
      (I_JMP_F_LTI, branch_if_imm iseq (eval_lti E)),
      (I_JMP_F_LEI, branch_if_imm iseq (eval_lei E)),
      (I_OPT_CASE, bind stack_pop (\<lambda>v. bind (case_disp M iseq v) (jump 9))),
      (I_OPT_CASE2, bind stack_pop (\<lambda>v. bind (case2_disp iseq v) (jump 9)))]"

section \<open>Moving values on the stack\<close>

definition push_all :: "val list \<Rightarrow> ('m, unit) meff" where
  "push_all vs = mod_vm (\<lambda>w. w\<lparr>exec_stack := exec_stack w @ vs\<rparr>)"

definition sink :: "nat \<Rightarrow> ('m, unit) meff" where
  "sink len =
     bind stack_pop (\<lambda>v.
     bind (ask_vm exec_stack) (\<lambda>st.
       if length st < len then raise Panic
       else
         let i = length st - len in
         mod_vm (\<lambda>w. w\<lparr>exec_stack := take i st @ v # drop i st\<rparr>)))"

definition take_top :: "nat \<Rightarrow> ('m, val) meff" where
  "take_top len =
     bind (ask_vm exec_stack) (\<lambda>st.
       if length st < len + 1 then raise Panic
       else
         let i = length st - 1 - len in
         bind (mod_vm (\<lambda>w. w\<lparr>exec_stack := take i st @ drop (i + 1) st\<rparr>)) (\<lambda>_. ret (st ! i)))"

definition taken :: "nat \<Rightarrow> val list \<Rightarrow> val list" where
  "taken len xs = take len xs @ replicate (len - length xs) NIL_VALUE"

definition take_inst :: "nat \<Rightarrow> ('m, unit) meff" where
  "take_inst len =
     bind stack_pop (\<lambda>v.
     bind (object_kind v) (\<lambda>k.
       case k of
         Some (Array xs) \<Rightarrow> push_all (taken len xs)
       | _ \<Rightarrow> if len = 0 then raise Panic else push_all (taken len [v])))"

definition stack_insts :: "code \<Rightarrow> (u8 \<times> 'm handler) list" where
  "stack_insts iseq =
     [(I_POP, bind stack_pop (\<lambda>_. go_on 1)),
      (I_DUP,
         bind (operand read_usize iseq 1) (\<lambda>n. bind (stack_part n) (\<lambda>vs.
         bind (push_all vs) (\<lambda>_. go_on 5)))),
      (I_SINKN, bind (operand read_usize iseq 1) (\<lambda>n. bind (sink n) (\<lambda>_. go_on 5))),
      (I_TOPN, bind (operand read_usize iseq 1) (\<lambda>n. bind (take_top n) (push_next 5))),
      (I_TAKE, bind (operand read_usize iseq 1) (\<lambda>n. bind (take_inst n) (\<lambda>_. go_on 5))),
      (I_REP_UNINIT,
         bind stack_pop (\<lambda>v. push_next 1 (if is_uninitialized v then NIL_VALUE else v)))]"

section \<open>Sending messages\<close>

fun pop_many :: "nat \<Rightarrow> ('m, val list) meff" where
  "pop_many 0 = ret []"
| "pop_many (Suc n) = bind stack_pop (\<lambda>v. bind (pop_many n) (\<lambda>vs. ret (v # vs)))"

definition hash_items :: "val \<Rightarrow> ('m, (val \<times> val) list) meff" where
  "hash_items v = asks (\<lambda>s. rbind (expect_hash (mem s) v) (\<lambda>h. Inr (hash_pairs h)))"

text \<open>Keyword arguments that are splatted: into the hash of the others, or into a new one.\<close>

fun merge_pairs :: "'m mach menv \<Rightarrow> val \<Rightarrow> (val \<times> val) list \<Rightarrow> ('m, unit) meff" where
  "merge_pairs M r [] = ret ()"
| "merge_pairs M r ((k, v) # kvs) =
     bind (asks (\<lambda>s. or_panic (as_hash (mem s) r))) (\<lambda>h.
     bind (hash_store M r h k v) (\<lambda>_. merge_pairs M r kvs))"

fun merge_hashes :: "'m mach menv \<Rightarrow> val \<Rightarrow> val list \<Rightarrow> ('m, unit) meff" where
  "merge_hashes M r [] = ret ()"
| "merge_hashes M r (h # hs) =
     bind (hash_items h) (\<lambda>kvs. bind (merge_pairs M r kvs) (\<lambda>_. merge_hashes M r hs))"

fun add_pairs :: "'m mach menv \<Rightarrow> (val \<times> val) list \<Rightarrow> (val \<times> val) list \<Rightarrow> ('m, (val \<times> val) list) meff" where
  "add_pairs M [] t = ret t"
| "add_pairs M ((k, v) # kvs) t =
     bind (asks (\<lambda>s. table_insert (find_key M (mem s)) k v t)) (add_pairs M kvs)"

fun collect_pairs :: "'m mach menv \<Rightarrow> val list \<Rightarrow> (val \<times> val) list \<Rightarrow> ('m, (val \<times> val) list) meff" where
  "collect_pairs M [] t = ret t"
| "collect_pairs M (h # hs) t =
     bind (hash_items h) (\<lambda>kvs. bind (add_pairs M kvs t) (collect_pairs M hs))"

definition keyword_args :: "'m mach menv \<Rightarrow> bool \<Rightarrow> val list \<Rightarrow> ('m, val) meff" where
  "keyword_args M has_keyword hs =
     (if has_keyword then
        bind stack_pop (\<lambda>v.
        bind (asks (\<lambda>s. or_panic (as_hash (mem s) v))) (\<lambda>_.
        bind (merge_hashes M v hs) (\<lambda>_. ret v)))
      else if hs = [] then ret NIL_VALUE
      else bind (collect_pairs M hs []) (new_hash M))"

definition block_of :: "u32 \<Rightarrow> ('m, block) meff" where
  "block_of b = (if b = 0 then ret BNone else bind current_addr (\<lambda>ctx. ret (BBlock b ctx)))"

definition block_arg :: "u32 \<Rightarrow> bool \<Rightarrow> ('m, block) meff" where
  "block_arg b has_block_arg =
     (if b \<noteq> 0 then block_of b
      else if has_block_arg then
        bind stack_pop (\<lambda>v.
          if is_nil v then ret BNone
          else
            bind (asks (\<lambda>s. Inr (as_proc (mem s) v))) (\<lambda>p.
              case p of None \<Rightarrow> raise (Raise Internal) | Some _ \<Rightarrow> ret (BProc v)))
      else ret BNone)"

definition vm_send :: "'m mach menv \<Rightarrow> 'm runner \<Rightarrow> code \<Rightarrow> val \<Rightarrow> ('m, unit) meff" where
  "vm_send M run iseq recv =
     bind (operand read32 iseq 1) (\<lambda>method_id.
     bind (operand read16 iseq 5) (\<lambda>args_num.
     bind (operand read8 iseq 7) (\<lambda>kw_rest_num.
     bind (operand read8 iseq 8) (\<lambda>flag.
     bind (operand read32 iseq 9) (\<lambda>b.
     bind (operand read32 iseq 13) (\<lambda>cache.
     bind (pop_many (unat kw_rest_num)) (\<lambda>hs.
     bind (keyword_args M (flag AND 1 = 1) hs) (\<lambda>kw.
     bind (block_arg b (flag AND 2 = 2)) (\<lambda>blk.
     bind (pop_args_to_args M (unat args_num)) (\<lambda>a.
       send_icache M run cache method_id recv (a\<lparr>a_block := blk, kw_arg := kw\<rparr>)))))))))))"

text \<open>\<open>vm_fast_send\<close>: the arguments are the top of the stack, as they are.\<close>

definition fast_args :: "u32 \<Rightarrow> nat \<Rightarrow> val list \<Rightarrow> ('m, args) meff" where
  "fast_args b args_num vs =
     bind (block_of b) (\<lambda>blk.
     bind stack_len (\<lambda>l. bind (set_stack_len (l - args_num)) (\<lambda>_.
     ret ((args_from_slice vs)\<lparr>a_block := blk\<rparr>))))"

definition fast_ruby ::
    "'m mach menv \<Rightarrow> 'm runner \<Rightarrow> iseq_info \<Rightarrow> u32 \<Rightarrow> nat \<Rightarrow> val list \<Rightarrow> val \<Rightarrow> ('m, unit) meff" where
  "fast_ruby M run info b args_num vs recv =
     (if opt_flag info then
        bind (block_of b) (\<lambda>blk.
          if args_num \<noteq> req (params info) then raise (Raise (RuntimeErr Argument))
          else
            bind (asks (\<lambda>_. copy_from_slice0 (context_new recv blk info None) vs)) (\<lambda>c.
            bind stack_len (\<lambda>l. bind (set_stack_len (l - args_num)) (\<lambda>_. run_local run c))))
      else
        bind (fast_args b args_num vs) (\<lambda>a.
        bind (from_args M recv info a None) (run_local run)))"

definition fast_invoke ::
    "'m mach menv \<Rightarrow> 'm runner \<Rightarrow> method_info \<Rightarrow> u32 \<Rightarrow> nat \<Rightarrow> val list \<Rightarrow> val \<Rightarrow> ('m, unit) meff" where
  "fast_invoke M run info b args_num vs recv =
     (case info of
        BuiltinFunc _ func \<Rightarrow>
          bind (fast_args b args_num vs) (\<lambda>a. bind (invoke_native M run func recv a) stack_push)
      | AttrReader i \<Rightarrow>
          if args_num \<noteq> 0 then raise (Raise (RuntimeErr Argument))
          else bind (invoke_getter i recv) stack_push
      | AttrWriter i \<Rightarrow>
          if args_num \<noteq> 1 then raise (Raise (RuntimeErr Argument))
          else bind stack_pop (\<lambda>v. bind (invoke_setter i recv v) stack_push)
      | RubyFunc iseq \<Rightarrow> fast_ruby M run iseq b args_num vs recv
      | VoidM \<Rightarrow> raise Panic)"

definition vm_fast_send :: "'m mach menv \<Rightarrow> 'm runner \<Rightarrow> code \<Rightarrow> val \<Rightarrow> ('m, unit) meff" where
  "vm_fast_send M run iseq recv =
     bind (operand read32 iseq 1) (\<lambda>method_id.
     bind (operand read16 iseq 5) (\<lambda>args_num.
     bind (operand read32 iseq 7) (\<lambda>b.
     bind (operand read32 iseq 11) (\<lambda>cache.
     bind (stack_part (unat args_num)) (\<lambda>vs.
     bind (asks (\<lambda>s. get_class_for_method (e_classes M) (mem s) recv)) (\<lambda>c.
     bind (find_method_inline_cache (m_fuel M) cache c method_id) (\<lambda>m.
       case m of
         Some method \<Rightarrow>
           bind (repo_get method) (\<lambda>info. fast_invoke M run info b (unat args_num) vs recv)
       | None \<Rightarrow>
           bind (fast_args b (unat args_num) vs) (send_method_missing M run method_id recv))))))))"

definition vm_for :: "'m mach menv \<Rightarrow> 'm runner \<Rightarrow> code \<Rightarrow> val \<Rightarrow> ('m, unit) meff" where
  "vm_for M run iseq recv =
     bind (operand read_method iseq 1) (\<lambda>b.
     bind current_addr (\<lambda>ctx.
     bind (operand read32 iseq 5) (\<lambda>cache.
     bind (asks (\<lambda>s. get_class_for_method (e_classes M) (mem s) recv)) (\<lambda>c.
     bind (find_method_inline_cache (m_fuel M) cache c EACH_ID) (\<lambda>m.
       let a = args_new0_block (BBlock b ctx) in
         case m of
           Some method \<Rightarrow>
             bind (repo_get method) (\<lambda>info.
               case info of
                 BuiltinFunc _ func \<Rightarrow> bind (invoke_native M run func recv a) stack_push
               | RubyFunc iseq' \<Rightarrow> bind (from_args M recv iseq' a None) (run_local run)
               | _ \<Rightarrow> raise Panic)
         | None \<Rightarrow> send_method_missing M run EACH_ID recv a)))))"

definition send_insts ::
    "'m mach menv \<Rightarrow> 'm runner \<Rightarrow> code \<Rightarrow> val \<Rightarrow> (u8 \<times> 'm handler) list" where
  "send_insts M run iseq self =
     [(I_SEND, bind stack_pop (\<lambda>r. try_push 17 (vm_send M run iseq r))),
      (I_SEND_SELF, try_push 17 (vm_send M run iseq self)),
      (I_OPT_SEND, bind stack_pop (\<lambda>r. try_push 15 (vm_fast_send M run iseq r))),
      (I_OPT_NSEND, bind stack_pop (\<lambda>r. try_no_push 15 (vm_fast_send M run iseq r))),
      (I_OPT_SEND_SELF, try_push 15 (vm_fast_send M run iseq self)),
      (I_OPT_NSEND_SELF, try_no_push 15 (vm_fast_send M run iseq self)),
      (I_FOR, bind stack_pop (\<lambda>r. try_push 9 (vm_for M run iseq r))),
      (I_YIELD,
         bind (operand read_usize iseq 1) (\<lambda>n. bind (pop_args_to_args M n) (\<lambda>a.
         try_push 5 (eval_yield M run a))))]"

section \<open>Definitions of classes and methods\<close>

definition set_class_defined :: "u32 \<Rightarrow> val list \<Rightarrow> ('m, unit) meff" where
  "set_class_defined method cs =
     bind (as_iseq method) (\<lambda>i.
     modify (\<lambda>s. s\<lparr>class_defined := (class_defined s)(imethod i := cs)\<rparr>))"

text \<open>The body of a class runs with the class on the stack of open classes.\<close>

definition class_body :: "'m mach menv \<Rightarrow> 'm runner \<Rightarrow> nat \<Rightarrow> u32 \<Rightarrow> val \<Rightarrow> 'm handler" where
  "class_body M run n method c =
     bind (class_push c) (\<lambda>_.
     bind get_class_defined (\<lambda>cs.
     bind (set_class_defined method cs) (\<lambda>_.
     try_push n (and_then (invoke_method M run method c args_new0) class_pop))))"

definition inherit_class_defined :: "'m mach menv \<Rightarrow> u32 \<Rightarrow> ('m, unit) meff" where
  "inherit_class_defined M method =
     bind (get_method_iseq (m_fuel M)) (\<lambda>i.
     bind (asks (\<lambda>s. Inr (class_defined s (imethod i)))) (set_class_defined method))"

definition def_insts ::
    "'m mach menv \<Rightarrow> 'm runner \<Rightarrow> code \<Rightarrow> val \<Rightarrow> (u8 \<times> 'm handler) list" where
  "def_insts M run iseq self =
     [(I_DEF_CLASS,
         bind (operand read8 iseq 1) (\<lambda>m. bind (operand read32 iseq 2) (\<lambda>i.
         bind (operand read_method iseq 6) (\<lambda>method.
         bind stack_pop (\<lambda>base. bind stack_pop (\<lambda>super_val.
         bind (define_class M base i (m = 1) super_val) (class_body M run 10 method))))))),
      (I_DEF_SCLASS,
         bind (operand read_method iseq 1) (\<lambda>method. bind stack_pop (\<lambda>v.
         bind (get_singleton_class (m_ec M) (m_fuel M) v) (class_body M run 5 method)))),
      (I_DEF_METHOD,
         bind (operand read32 iseq 1) (\<lambda>i. bind (operand read_method iseq 5) (\<lambda>method.
         bind (inherit_class_defined M method) (\<lambda>_.
         bind (define_method (e_classes M) (m_fuel M) self i method) (\<lambda>_.
         bind define_mode (\<lambda>b.
         bind (if b then define_singleton_method (m_ec M) (m_fuel M) self i method else ret ())
           (\<lambda>_. go_on 9))))))),
      (I_DEF_SMETHOD,
         bind (operand read32 iseq 1) (\<lambda>i. bind (operand read_method iseq 5) (\<lambda>method.
         bind (inherit_class_defined M method) (\<lambda>_.
         bind stack_pop (\<lambda>v.
         bind (define_singleton_method (m_ec M) (m_fuel M) v i method) (\<lambda>_.
         bind define_mode (\<lambda>b.
         bind (if b then define_method (e_classes M) (m_fuel M) v i method else ret ())
           (\<lambda>_. go_on 9))))))))]"

section \<open>The loop\<close>

definition handlers ::
    "'m mach menv \<Rightarrow> 'm runner \<Rightarrow> code \<Rightarrow> val \<Rightarrow> (u8 \<times> 'm handler) list" where
  "handlers M run iseq self =
     (let E = arith M run in
      return_insts @ push_insts M iseq self @ arith_insts E iseq @
      compare_insts (m_fuel M) E iseq @ local_insts E iseq @ const_insts M iseq @
      ivar_insts E iseq self @ global_insts M iseq @ index_insts M run iseq @
      object_insts M run iseq @ jump_insts M E iseq @ stack_insts iseq @
      send_insts M run iseq self @ def_insts M run iseq self)"

definition step :: "'m mach menv \<Rightarrow> 'm runner \<Rightarrow> code \<Rightarrow> val \<Rightarrow> 'm handler" where
  "step M run iseq self =
     bind (operand index_at iseq 0) (\<lambda>inst.
       case map_of (handlers M run iseq self) inst of
         Some f \<Rightarrow> f
       | None \<Rightarrow> raise (Raise Internal))"

fun exec_loop :: "nat \<Rightarrow> 'm handler \<Rightarrow> ('m, unit) meff" where
  "exec_loop 0 f = raise Undef"
| "exec_loop (Suc n) f = bind f (\<lambda>r. if r = Leave then ret () else exec_loop n f)"

text \<open>The variables of a \<open>for\<close> are in the scope around it: they are copied out of the block.\<close>

fun copy_forvars :: "(u32 \<times> u32) list \<Rightarrow> nat \<Rightarrow> ('m, unit) meff" where
  "copy_forvars [] i = ret ()"
| "copy_forvars ((k, l) # fs) i =
     bind (get_outer_context k) (\<lambda>a.
     bind current_addr (\<lambda>b.
     bind (get_lvar b i) (\<lambda>v.
     bind (set_lvar a (unat l) v) (\<lambda>_. copy_forvars fs (i + 1)))))"

definition run_context_main :: "nat \<Rightarrow> 'm mach menv \<Rightarrow> 'm runner \<Rightarrow> ('m, unit) meff" where
  "run_context_main n M run =
     bind current_ctx (\<lambda>c.
     bind (asks (\<lambda>_. ctx_iseq c)) (\<lambda>info.
     bind (vm_gc (m_fuel M)) (\<lambda>_.
     bind (copy_forvars (forvars info) 0) (\<lambda>_.
       exec_loop n (step M run (icode info) (self_value c))))))"

section \<open>Running a context\<close>

definition entry_includes :: "exception_entry \<Rightarrow> nat \<Rightarrow> bool" where
  "entry_includes e pc \<longleftrightarrow> ex_start e \<le> pc \<and> pc < ex_end e"

definition set_pc :: "nat \<Rightarrow> ('m, unit) meff" where
  "set_pc pc = mod_vm (\<lambda>w. w\<lparr>vm_pc := pc\<rparr>)"

definition pop_context :: "('m, unit) meff" where
  "pop_context = bind context_pop (\<lambda>c. asks (\<lambda>_. rbind (or_panic c) (\<lambda>_. Inr ())))"

definition finish :: "nat \<Rightarrow> ('m, unit) meff" where
  "finish pc = bind pop_context (\<lambda>_. set_pc pc)"

text \<open>A block or a method is left: the value that is returned stays on the stack.\<close>

definition unwind :: "nat \<Rightarrow> nat \<Rightarrow> ruby_error \<Rightarrow> ('m, unit) meff" where
  "unwind len pc e =
     bind pop_context (\<lambda>_. bind stack_pop (\<lambda>v. bind (set_stack_len len) (\<lambda>_.
     bind (stack_push v) (\<lambda>_. bind (set_pc pc) (\<lambda>_. raise (Raise e))))))"

definition find_handler :: "('m, exception_entry option) meff" where
  "find_handler =
     bind current_iseq (\<lambda>i. ask_vm (\<lambda>w. find (\<lambda>e. entry_includes e (vm_pc w)) (exception_table i)))"

text \<open>An exception in the range of a handler goes on there; any other leaves the context.\<close>

definition rescued :: "'m mach menv \<Rightarrow> nat \<Rightarrow> ruby_error \<Rightarrow> exception_entry \<Rightarrow> ('m, unit) meff" where
  "rescued M len e h =
     bind (set_pc (ex_dest h)) (\<lambda>_. bind (set_stack_len len) (\<lambda>_.
     bind (to_exception_val M e) stack_push))"

definition abandon :: "nat \<Rightarrow> nat \<Rightarrow> ruby_error \<Rightarrow> ('m, unit) meff" where
  "abandon len pc e =
     bind pop_context (\<lambda>_. bind (set_stack_len len) (\<lambda>_. bind (set_pc pc) (\<lambda>_. raise (Raise e))))"

fun run_loop ::
    "nat \<Rightarrow> 'm mach menv \<Rightarrow> ('m, unit) meff \<Rightarrow> nat \<Rightarrow> nat \<Rightarrow> ('m, unit) meff" where
  "run_loop 0 M main len pc = raise Undef"
| "run_loop (Suc n) M main len pc =
     (\<lambda>s. case main s of
        (s', Inr _) \<Rightarrow> finish pc s'
      | (s', Inl (Raise e)) \<Rightarrow>
          if e = BlockReturn \<or> e = MethodReturn then unwind len pc e s'
          else if e = Internal then raise Panic s'
          else
            bind find_handler (\<lambda>h.
              case h of
                Some h \<Rightarrow> bind (rescued M len e h) (\<lambda>_. run_loop n M main len pc)
              | None \<Rightarrow> abandon len pc e) s'
      | (s', Inl e) \<Rightarrow> (s', Inl e))"

fun run_context :: "nat \<Rightarrow> 'm mach menv \<Rightarrow> 'm runner" where
  "run_context 0 M a = raise Undef"
| "run_context (Suc n) M a =
     bind stack_len (\<lambda>len.
     bind (ask_vm vm_pc) (\<lambda>pc.
     bind (context_push a) (\<lambda>_.
     bind (set_pc 0) (\<lambda>_.
       run_loop n M (run_context_main n M (run_context n M)) len pc))))"

end
