(* ===== verification/Balance.thy ===== *)
theory Balance
  imports Interp "HOL-Library.Sublist"
begin

text \<open>
  Every instruction and every call leaves the machine balanced: an operation that returns or raises,
  rather than panic, has the same program counter, as many frames and as many open classes as
  before, and has only added to the tables of \<open>case\<close> dispatch. The built-in functions are assumed
  to do so when the runs they start do.
\<close>

named_theorems settling \<open>operations that leave the machine balanced\<close>

definition shape :: "vm_state \<Rightarrow> nat \<times> nat \<times> nat" where
  "shape w =
     (vm_pc w, length (exec_context w) + (if cur_context w = None then 0 else 1),
      length (class_context w))"

definition evolves :: "'m mach \<Rightarrow> 'm mach \<Rightarrow> bool" where
  "evolves s s' \<longleftrightarrow>
     shape (vm s') = shape (vm s) \<and> prefix (case_dispatch s) (case_dispatch s') \<and>
     prefix (case_dispatch2 s) (case_dispatch2 s')"

lemma evolves_refl [simp]: "evolves s s"
  by (simp add: evolves_def)

lemma evolves_trans [trans]: "evolves s s1 \<Longrightarrow> evolves s1 s2 \<Longrightarrow> evolves s s2"
  by (auto simp: evolves_def intro: prefix_order.trans)

definition stopped :: "'a res \<Rightarrow> bool" where
  "stopped r \<longleftrightarrow> r = Inl Panic \<or> r = Inl Undef"

lemma stopped_simps [simp]:
  "\<not> stopped (Inr x)" "\<not> stopped (Inl (Raise e))" "stopped (Inl Panic)" "stopped (Inl Undef)"
  by (simp_all add: stopped_def)

definition settles :: "('m, 'a) meff \<Rightarrow> bool" where
  "settles f \<longleftrightarrow> (\<forall>s s' r. f s = (s', r) \<longrightarrow> \<not> stopped r \<longrightarrow> evolves s s')"

lemma settlesI: "(\<And>s s' r. f s = (s', r) \<Longrightarrow> \<not> stopped r \<Longrightarrow> evolves s s') \<Longrightarrow> settles f"
  by (auto simp: settles_def)

lemma settlesD: "settles f \<Longrightarrow> f s = (s', r) \<Longrightarrow> \<not> stopped r \<Longrightarrow> evolves s s'"
  by (auto simp: settles_def)

section \<open>The calculus\<close>

lemma settles_basic [settling]:
  "settles (ret x)" "settles (raise e)" "settles (asks f)"
  "(\<And>s. evolves s (g s)) \<Longrightarrow> settles (modify g)"
  by (auto simp: settles_def)

lemma settles_bind [settling]:
  assumes "settles f" "\<And>x. settles (g x)"
  shows "settles (bind f g)"
proof (rule settlesI)
  fix s s' r
  assume r: "bind f g s = (s', r)" "\<not> stopped r"
  obtain s1 q where q: "f s = (s1, q)" by fastforce
  show "evolves s s'"
  proof (cases q)
    case (Inl e)
    with q r show ?thesis using settlesD [OF assms(1) q] by (auto simp: stopped_def)
  next
    case (Inr x)
    with q r have "g x s1 = (s', r)" by simp
    with settlesD [OF assms(2) this r(2)] settlesD [OF assms(1) q] Inr show ?thesis
      by (auto intro: evolves_trans)
  qed
qed

lemma settles_steps [settling]:
  "(\<And>s s' x. f s = Inr (s', x) \<Longrightarrow> evolves s s') \<Longrightarrow> settles (steps f)"
  by (auto simp: settles_def steps_def split: sum.splits prod.splits)

lemma settles_if [settling]:
  "(b \<Longrightarrow> settles f) \<Longrightarrow> (\<not> b \<Longrightarrow> settles g) \<Longrightarrow> settles (if b then f else g)"
  by simp

lemma settles_option [settling]:
  "settles f \<Longrightarrow> (\<And>x. settles (g x)) \<Longrightarrow> settles (case u of None \<Rightarrow> f | Some x \<Rightarrow> g x)"
  by (cases u) simp_all

lemma settles_prod [settling]:
  "(\<And>x y. settles (f x y)) \<Longrightarrow> settles (case p of (x, y) \<Rightarrow> f x y)"
  by (cases p) simp

lemma settles_list [settling]:
  "settles f \<Longrightarrow> (\<And>x xs. settles (g x xs)) \<Longrightarrow> settles (case l of [] \<Rightarrow> f | x # xs \<Rightarrow> g x xs)"
  by (cases l) simp_all

lemma settles_block [settling]:
  "(\<And>m c. settles (f m c)) \<Longrightarrow> (\<And>p. settles (g p)) \<Longrightarrow> settles h \<Longrightarrow>
   settles (case b of BBlock m c \<Rightarrow> f m c | BProc p \<Rightarrow> g p | BNone \<Rightarrow> h)"
  by (cases b) simp_all

lemma settles_rv [settling]:
  assumes "settles a" "settles b" "settles c" "settles d"
    "\<And>x. settles (e x)" "\<And>x. settles (f x)" "\<And>x. settles (g x)" "\<And>x. settles (h x)"
  shows "settles (case u of UninitializedV \<Rightarrow> a | NilV \<Rightarrow> b | TrueV \<Rightarrow> c | FalseV \<Rightarrow> d
    | IntegerV x \<Rightarrow> e x | FloatV x \<Rightarrow> f x | SymbolV x \<Rightarrow> g x | ObjectV x \<Rightarrow> h x)"
  using assms by (cases u) simp_all

text \<open>The heap, the classes and the method tables are not part of what is kept.\<close>

lemma evolves_more:
  fixes s s' :: "'m mach"
  assumes "heap.more s' = heap.more s"
  shows "evolves s s'"
  using assms by (cases s; cases s') (simp add: evolves_def)

lemma evolves_simps [simp]:
  "evolves s (update_object f a s)" "evolves s (s\<lparr>ext_store := es\<rparr>)"
  "evolves s (s\<lparr>ext_store := es, boxes_made := k\<rparr>)" "evolves s (s\<lparr>methods := ms\<rparr>)"
  "evolves s (s\<lparr>class_version := v\<rparr>)" "evolves s (s\<lparr>m_cache := mc\<rparr>)" "evolves s (s\<lparr>ic_table := ic\<rparr>)"
  "evolves s (s\<lparr>ctx_store := cs\<rparr>)" "evolves s (s\<lparr>ctx_store := cs, ctxs_made := k\<rparr>)"
  "evolves s (s\<lparr>class_defined := cd\<rparr>)" "evolves s (s\<lparr>global_var := gs\<rparr>)"
  "evolves s (s\<lparr>const_version := v'\<rparr>)" "evolves s (s\<lparr>const_cache := cc\<rparr>)"
  by (simp_all add: evolves_def update_object_def write_cell_def)

lemma rvalue_pack_evolves: "rvalue_pack alloc s r = Inr (s', x) \<Longrightarrow> evolves s s'"
  by (rule evolves_more) (rule pack_more)

lemma packs_evolve:
  "integer bc alloc s i = Inr (s', x) \<Longrightarrow> evolves s s'"
  "float bc alloc s f = Inr (s', x) \<Longrightarrow> evolves s s'"
  "array_from bc alloc s vs = Inr (s', x) \<Longrightarrow> evolves s s'"
  "splat_value bc alloc s v = Inr (s', x) \<Longrightarrow> evolves s s'"
  "hash_from bc alloc s h = Inr (s', x) \<Longrightarrow> evolves s s'"
  "procobj bc alloc s c = Inr (s', x) \<Longrightarrow> evolves s s'"
  "range_value bc alloc s a b e = Inr (s', x) \<Longrightarrow> evolves s s'"
  by (auto simp: integer_def float_def array_from_def splat_value_def hash_from_def procobj_def
      range_value_def Let_def rbind_Inr_iff dest: rvalue_pack_evolves split: if_splits)

section \<open>The operators\<close>

definition env_settles :: "'m mach env \<Rightarrow> bool" where
  "env_settles E \<longleftrightarrow>
     (\<forall>c m. settles (e_find_method E c m)) \<and> (\<forall>m v vs. settles (e_eval_method E m v vs)) \<and>
     (\<forall>re s. settles (e_find_one E re s))"

lemma settles_values [settling]:
  "settles (int_value E i)" "settles (float_value E f)" "settles (unpack_val v)"
  "settles (unpack2 v w)" "settles (class_for_method E v)" "settles (undefined_op v w)"
  "settles (undefined_method v)"
  unfolding int_value_def float_value_def unpack_val_def unpack2_def class_for_method_def
    undefined_op_def undefined_method_def
  by (intro settling; erule packs_evolve)+

lemma settles_fallback:
  assumes "env_settles E"
  shows "settles (fallback_for_binop E m v w)" "settles (send0 E m v)" "settles (binop_bool E m v w)"
  using assms
  unfolding fallback_for_binop_def send0_def binop_bool_def env_settles_def
  by (auto intro!: settling)

lemmas operator_defs =
  eval_add_def eval_sub_def eval_mul_def eval_addi_def eval_subi_def eval_div_def eval_op_def
  eval_op_i_def eval_rem_def eval_exp_def eval_neg_def eval_shl_def eval_shr_def eval_bitand_def
  eval_bitandi_def eval_bitor_def eval_bitori_def eval_bitxor_def eval_bitnot_def

lemma settles_push [settling]: "settles (modify (array_push a v))"
  by (rule settling) (simp add: array_push_def)

lemma settles_arith:
  assumes "env_settles E"
  shows "settles (eval_add E r l)" "settles (eval_sub E r l)" "settles (eval_mul E r l)"
    "settles (eval_addi E l i)" "settles (eval_subi E l i)" "settles (eval_div E r l)"
    "settles (eval_rem E r l)" "settles (eval_exp E r l)" "settles (eval_neg E l)"
    "settles (eval_shl E r l)" "settles (eval_shr E r l)"
  unfolding operator_defs by (intro settling settles_fallback assms)+

lemma settles_bitwise:
  assumes "env_settles E"
  shows "settles (eval_bitand E r l)" "settles (eval_bitandi E l i)" "settles (eval_bitor E r l)"
    "settles (eval_bitori E l i)" "settles (eval_bitxor E r l)" "settles (eval_bitnot E l)"
  unfolding operator_defs Let_def by (intro settling settles_fallback assms)+

lemma settles_compare:
  assumes "env_settles E"
  shows "settles (eval_gt E r l)" "settles (eval_ge E r l)" "settles (eval_lt E r l)"
    "settles (eval_le E r l)" "settles (eval_gti E l i)" "settles (eval_gei E l i)"
    "settles (eval_lti E l i)" "settles (eval_lei E l i)" "settles (eval_compare E r l)"
  unfolding eval_gt_def eval_ge_def eval_lt_def eval_le_def eval_gti_def eval_gei_def eval_lti_def
    eval_lei_def eval_compare_def eval_cmp_def eval_cmp_i_def ordering_value_def Let_def
  by (intro settling settles_fallback assms)+

lemma settles_eq_method:
  assumes "env_settles E"
  shows "settles (eq_method E v w)"
proof (rule settlesI)
  fix s s' r
  assume r: "eq_method E v w s = (s', r)" "\<not> stopped r"
  obtain s1 q where q: "fallback_for_binop E EQ_ID v w s = (s1, q)" by fastforce
  with r show "evolves s s'"
    using settlesD [OF settles_fallback(1) [OF assms] q]
    by (cases q) (auto simp: eq_method_def stopped_def split: fault.splits)
qed

lemma settles_eval_eq:
  assumes "env_settles E"
  shows "settles (eval_eq E n r l)"
proof (rule settlesI)
  fix s s' x
  assume "eval_eq E n r l s = (s', x)" "\<not> stopped x"
  then show "evolves s s'"
    using settlesD [OF settles_eq_method [OF assms], of l r s s' x]
    by (auto simp: eval_eq_def split: if_splits option.splits)
qed

lemma settles_teq:
  assumes "env_settles E"
  shows "settles (eval_teq E n r l)"
proof -
  have "settles (case k of Module _ \<Rightarrow> f | RegexpK re \<Rightarrow> g re | _ \<Rightarrow> h)"
    if "settles f" "\<And>re. settles (g re)" "settles h" for k f g h
    using that by (cases k) simp_all
  note split = this
  have one: "settles (e_find_one E re s)" for re s using assms by (simp add: env_settles_def)
  show ?thesis
    unfolding eval_teq_def
    by (intro settling split one settles_eval_eq settles_fallback assms)
qed

section \<open>Methods and classes\<close>

lemma settles_lookup [settling]:
  "settles (repo_get m)" "settles (as_iseq m)" "settles (inc_class_version)"
  "settles (mc_get_method n v c i)" "settles (find_method n c i)"
  "settles (find_method_from_receiver bc n r i)" "settles (find_method_inline_cache n site c i)"
  unfolding repo_get_def as_iseq_def inc_class_version_def mc_get_method_def find_method_def
    find_method_from_receiver_def find_method_inline_cache_def mc_add_entry_def ic_update_entry_def
  by (intro settling; simp)+

lemma settles_module [settling]:
  "settles (get_cinfo m)" "settles (modify_cinfo f m)" "settles (modify_ext g m)"
  "settles (set_name m s)" "settles (set_class v c)" "settles (add_method m i x)"
  "settles (write_var m i v)" "settles (class_info_new b super e)" "settles (pack_module c ci)"
  unfolding get_cinfo_def modify_cinfo_def modify_ext_def set_name_def set_class_def add_method_def
    inc_class_version_def write_var_def class_info_new_def pack_module_def
  by (intro settling; (erule rvalue_pack_evolves)?; simp)+

lemma settles_unwrapped [settling]:
  assumes "settles f"
  shows "settles (unwrapped f)"
proof (rule settlesI)
  fix s s' r
  assume "unwrapped f s = (s', r)" "\<not> stopped r"
  then show "evolves s s'"
    using settlesD [OF assms, of s s' r]
    by (auto simp: unwrapped_def split: prod.splits sum.splits fault.splits)
qed

lemma settles_dup [settling]: "settles (value_dup n v :: ('m, val) meff)"
proof (induction n arbitrary: v)
  case (Suc n)
  have kind: "settles (dup_kind (value_dup n) k :: ('m, objkind) meff)" for k
    unfolding dup_kind_def by (cases k; simp; intro settling Suc)
  show ?case
    unfolding value_dup.simps by (intro settling kind) (rule rvalue_pack_evolves)
qed (simp add: settling)

lemma settles_singleton_from [settling]: "settles (singleton_class_from EC super v)"
  unfolding singleton_class_from_def by (intro settling)

lemma settles_singleton [settling]: "settles (get_singleton_class EC n v)"
proof (induction n arbitrary: v)
  case (Suc n)
  have "settles (case k of Module ci \<Rightarrow> f ci | Invalid \<Rightarrow> g | _ \<Rightarrow> h)"
    if "\<And>ci. settles (f ci)" "settles g" "settles h" for k f g h
    using that by (cases k) simp_all
  note split = this
  show ?case unfolding get_singleton_class.simps by (intro settling split Suc)
qed (simp add: settling)

lemma settles_names [settling]:
  "settles (name_or_default m s)" "settles (keep_name m s)"
  unfolding name_or_default_def keep_name_def by (intro settling)+

lemma settles_op_name [settling]: "settles (op_name n m)"
proof (induction n arbitrary: m)
  case (Suc n)
  show ?case unfolding op_name.simps by (intro settling Suc)
qed (simp add: settling)

lemma settles_classes [settling]:
  "settles (new_class EC n super)" "settles (new_module EC)" "settles (name_for_const EC nm n self i m)"
  "settles (module_set_const EC nm n self i v)" "settles (set_class_var_from n c i v)"
  "settles (define_method bc n v i x)" "settles (define_singleton_method EC n v i x)"
  unfolding new_class_def new_module_def name_for_const_def module_set_const_def set_class_var_from_def
    define_method_def define_singleton_method_def
  by (intro settling)+

section \<open>Arrays and hashes\<close>

lemma settles_arrays [settling]:
  "settles (set_elements a xs)" "settles (new_array bc xs)" "settles (get_elem1 bc xs i)"
  "settles (set_elem1 a i v)" "settles (set_elem_imm a k v)"
  unfolding set_elements_def new_array_def get_elem1_def set_elem1_def set_elem_imm_def
  by (intro settling; (erule packs_evolve)?; simp)+

lemma settles_hashes [settling]:
  "settles (update_hash r h)" "settles (hash_store M r h k v)" "settles (hash_fetch M h k)"
  "settles (object_kind v)" "settles (index_value M idx)" "settles (new_hash M t)"
  unfolding update_hash_def hash_store_def hash_fetch_def object_kind_def index_value_def new_hash_def
  by (intro settling; (erule packs_evolve)?; simp)+

section \<open>A collection\<close>

lemma mark_ptr_more: "mark_ptr h a = Inr (h', b) \<Longrightarrow> heap.more h' = heap.more h"
  by (auto simp: mark_ptr_def Let_def rbind_Inr_iff split: if_splits)

lemma mark_all_more: "mark_all refs h vs = Inr h' \<Longrightarrow> heap.more h' = heap.more h"
proof (induction refs h vs rule: mark_all.induct)
  case (2 refs h v vs)
  consider "is_packed_value v"
    | h1 where "\<not> is_packed_value v" "from_inner v \<in> set (heap_pages h)" "mark_ptr h v = Inr (h1, True)"
    | h1 xs where "\<not> is_packed_value v" "from_inner v \<in> set (heap_pages h)"
        "mark_ptr h v = Inr (h1, False)" "refs (box_inner (cells h v)) = Inr xs"
    using "2.prems" by (fastforce simp: mark_all.simps(2) split: if_splits sum.splits prod.splits bool.splits)
  then show ?case
  proof cases
    case 1
    with "2.IH"(1) [OF 1] "2.prems" show ?thesis by (simp add: mark_all.simps(2))
  next
    case (2 h1)
    with "2.IH"(2) [OF 2(1) _ 2(3)] "2.prems" mark_ptr_more [OF 2(3)] show ?thesis
      by (simp add: mark_all.simps(2))
  next
    case (3 h1 xs)
    with "2.IH"(3) [OF 3(1) _ 3(3) _ _ 3(4)] "2.prems" mark_ptr_more [OF 3(3)] show ?thesis
      by (simp add: mark_all.simps(2))
  qed
qed simp

lemma dealloc_more: "heap.more (dealloc_pages i h) = heap.more h"
  by (induction i arbitrary: h) (simp_all add: free_page_def Let_def)

lemma clear_more: "heap.more (clear_mark h) = heap.more (h :: 'm heap_scheme)"
proof -
  have "heap.more (fold clear_bits ps h) = heap.more h" for ps and h :: "'m heap_scheme"
    by (induction ps arbitrary: h) (simp_all add: clear_bits_def)
  from this [of "pages h" "clear_bits (current h) h"] show ?thesis
    by (simp add: clear_mark_def Let_def clear_bits_def [of "current h"])
qed

lemma sweep_more: "sweep h = Inr h' \<Longrightarrow> heap.more h' = heap.more h"
  by (auto simp: sweep_def Let_def rbind_Inr_iff split: if_splits prod.splits)

lemma gc_evolves:
  assumes "gc refs s roots = Inr s'"
  shows "evolves s s'"
proof (rule evolves_more)
  show "heap.more s' = heap.more s"
    using assms
    by (auto simp: gc_def rbind_Inr_iff dealloc_empty_pages_def dealloc_more clear_more
        dest!: mark_all_more sweep_more)
qed

lemma settles_gc [settling]: "settles (collect n)" "settles (vm_gc n)"
  unfolding collect_def vm_gc_def
  by (intro settling; auto simp: rbind_Inr_iff intro: gc_evolves)+

section \<open>The machine\<close>

lemma evolves_vm:
  fixes s :: "'m mach"
  shows "shape (f (vm s)) = shape (vm s) \<Longrightarrow> evolves s (s\<lparr>vm := f (vm s)\<rparr>)"
  by (simp add: evolves_def)

lemma settles_mod_vm: "(\<And>w. shape (f w) = shape w) \<Longrightarrow> settles (mod_vm f)"
  unfolding mod_vm_def by (intro settling evolves_vm)

lemma settles_stack [settling]:
  "settles (ask_vm g)" "settles (stack_push v)" "settles stack_top" "settles stack_pop"
  "settles stack_len" "settles (set_stack_len k)" "settles (temp_push v)" "settles (temp_push_vec vs)"
  "settles (temp_push_args a)" "settles (temp_pop_vec k)" "settles (truncate_temp k)"
  unfolding ask_vm_def stack_push_def stack_top_def stack_pop_def stack_len_def set_stack_len_def
    temp_push_def temp_push_vec_def temp_push_args_def temp_pop_vec_def truncate_temp_def
  by (intro settling settles_mod_vm; simp add: shape_def)+

lemma settles_context [settling]:
  "settles (load_ctx a)" "settles (store_ctx a c)" "settles (drop_ctx a)" "settles (place_ctx c)"
  "settles current_addr" "settles current_ctx" "settles current_iseq" "settles in_method"
  "settles get_class_defined" "settles class_top" "settles vm_class" "settles define_mode"
  unfolding load_ctx_def store_ctx_def drop_ctx_def place_ctx_def current_addr_def current_ctx_def
    current_iseq_def in_method_def get_class_defined_def class_top_def vm_class_def define_mode_def
  by (intro settling; simp)+

lemma settles_outermost [settling]: "settles (outermost n a)"
proof (induction n arbitrary: a)
  case (Suc n)
  show ?case unfolding outermost.simps by (intro settling Suc)
qed (simp add: settling)

lemma settles_scope_out [settling]: "settles (scope_out n a)"
proof (induction n arbitrary: a)
  case (Suc n)
  show ?case unfolding scope_out.simps by (intro settling Suc)
qed (simp add: settling)

lemma settles_outer [settling]:
  "settles (get_method_context n)" "settles (get_method_iseq n)" "settles (get_outer_context k)"
  unfolding get_method_context_def get_method_iseq_def get_outer_context_def by (intro settling)+

lemma settles_globals [settling]:
  "settles (get_global_var i)" "settles (set_global_var i v)" "settles inc_const_version"
  "settles (set_const M c i v)" "settles (find_const_cache k)" "settles (set_const_cache k v)"
  "settles (const_value_get n j)" "settles (get_env_const n i)" "settles (get_constant M i k)"
  "settles (self_module M)" "settles (set_class_var M i v)" "settles (get_class_var M i)"
  unfolding get_global_var_def set_global_var_def inc_const_version_def set_const_def find_const_cache_def
    set_const_cache_def const_value_get_def get_env_const_def get_constant_def self_module_def
    set_class_var_def get_class_var_def
  by (intro settling; simp)+

section \<open>Contexts\<close>

lemma settles_fill [settling]:
  "settles (fill_arguments bc c vs p kw)" "settles (set_arguments bc c a kw)"
  unfolding fill_arguments_def set_arguments_def Let_def by (intro settling)+

lemma settles_heap_context [settling]:
  "settles (context_new_heap v b i out)" "settles (move_to_heap a)" "settles (link_outer prev a)"
  unfolding context_new_heap_def move_to_heap_def link_outer_def by (intro settling)+

definition frames :: "vm_state \<Rightarrow> nat" where
  "frames w = length (exec_context w) + (if cur_context w = None then 0 else 1)"

lemma evolves_frames: "evolves s s' \<Longrightarrow> frames (vm s') = frames (vm s)"
  by (simp add: evolves_def shape_def frames_def)

text \<open>The same for operations that are balanced when there are \<open>k\<close> frames.\<close>

definition settles_at :: "nat \<Rightarrow> ('m, 'a) meff \<Rightarrow> bool" where
  "settles_at k f \<longleftrightarrow>
     (\<forall>s s' r. frames (vm s) = k \<longrightarrow> f s = (s', r) \<longrightarrow> \<not> stopped r \<longrightarrow> evolves s s')"

lemma settles_at: "settles f \<Longrightarrow> settles_at k f"
  by (simp add: settles_def settles_at_def)

lemma settles_atD: "(\<And>k. settles_at k f) \<Longrightarrow> settles f"
  by (simp add: settles_def settles_at_def)

lemma settles_at_bind:
  assumes "settles_at k f" "\<And>x. settles_at k (g x)"
  shows "settles_at k (bind f g)"
  unfolding settles_at_def
proof (intro allI impI)
  fix s s' r
  assume k: "frames (vm s) = k" and r: "bind f g s = (s', r)" "\<not> stopped r"
  obtain s1 q where q: "f s = (s1, q)" by fastforce
  show "evolves s s'"
  proof (cases q)
    case (Inl e)
    with q r k assms(1) show ?thesis by (auto simp: settles_at_def stopped_def)
  next
    case (Inr x)
    with q r have g: "g x s1 = (s', r)" by simp
    have "evolves s s1" using assms(1) k q Inr unfolding settles_at_def by fastforce
    with g r(2) k assms(2) [of x] evolves_frames [OF this] show ?thesis
      unfolding settles_at_def by (blast intro: evolves_trans)
  qed
qed

lemma settles_at_set_frames:
  assumes "length fs = k"
  shows "settles_at k (set_frames fs)"
  unfolding settles_at_def
proof (intro allI impI)
  fix s s' :: "'m mach" and r
  assume k: "frames (vm s) = k" and r: "set_frames fs s = (s', r)"
  then have "s' = s\<lparr>vm := (vm s)\<lparr>cur_context := (case fs of [] \<Rightarrow> None | f # _ \<Rightarrow> Some f),
      exec_context := rev (tl fs)\<rparr>\<rparr>"
    by (simp add: set_frames_def mod_vm_def)
  then show "evolves s s'"
    using assms k by (cases fs) (simp_all add: evolves_def shape_def frames_def split: if_splits)
qed

lemma replace_frame_length:
  "replace_frame a b xs = Some (ps, ys) \<Longrightarrow> length ps + length ys = length xs"
  by (induction a b xs arbitrary: ps ys rule: replace_frame.induct) (auto split: if_splits)

lemma settles_at_move_frames:
  "length passed + length left = k \<Longrightarrow> settles_at k (move_frames n a prev passed left :: ('m, unit) meff)"
proof (induction n arbitrary: a prev passed left)
  case (Suc n)
  have moved: "settles_at k ((case replace_frame a b left of None \<Rightarrow> raise Panic
      | Some (ps, left') \<Rightarrow>
          bind (set_frames (passed @ ps @ left')) (\<lambda>_. bind (link_outer prev b) (\<lambda>_.
          bind (load_ctx b) (\<lambda>hc. case outer hc of
              Some u \<Rightarrow> move_frames n u (Some b) (passed @ ps) left' | None \<Rightarrow> ret ())))) :: ('m, unit) meff)" for b
  proof (cases "replace_frame a b left")
    case (Some q)
    then obtain ps left' where q: "replace_frame a b left = Some (ps, left')" by (cases q) auto
    have len: "length (passed @ ps @ left') = k" "length (passed @ ps) + length left' = k"
      using Suc.prems replace_frame_length [OF q] by simp_all
    have "settles_at k ((case outer hc of
        Some u \<Rightarrow> move_frames n u (Some b) (passed @ ps) left' | None \<Rightarrow> ret ()) :: ('m, unit) meff)" for hc :: ruby_context
      using Suc.IH [OF len(2)] by (simp add: settles_at settling split: option.split)
    then show ?thesis
      by (auto simp: q intro!: settles_at_bind settles_at_set_frames len(1) intro: settles_at settling)
  qed (simp add: settles_at settling)
  show ?case
    unfolding move_frames.simps
    by (simp add: settles_at_bind settles_at settling moved)
qed (simp add: settles_at settling)

lemma settles_move_outer [settling]: "settles (move_outer_to_heap n a :: ('m, u64) meff)"
proof (rule settles_atD)
  fix k
  show "settles_at k (move_outer_to_heap n a :: ('m, u64) meff)"
    unfolding move_outer_to_heap_def settles_at_def
  proof (intro allI impI)
    fix s s' :: "'m mach" and r
    let ?fs = "case_option [] (\<lambda>c. [c]) (cur_context (vm s)) @ rev (exec_context (vm s))"
    assume k: "frames (vm s) = k" and nr: "\<not> stopped r"
      and r: "bind (ask_vm (\<lambda>w. case_option [] (\<lambda>c. [c]) (cur_context w) @ rev (exec_context w))) (\<lambda>fs.
        bind (move_frames n a None [] fs) (\<lambda>_.
        bind (load_ctx a) (\<lambda>c. asks (\<lambda>_. or_panic (moved_to_heap c))))) s = (s', r)"
    have "settles_at k (bind (move_frames n a None [] ?fs) (\<lambda>_.
        bind (load_ctx a) (\<lambda>c. asks (\<lambda>_. or_panic (moved_to_heap c)))))"
      by (intro settles_at_bind settles_at_move_frames settles_at settling)
        (use k in \<open>auto simp: frames_def split: option.split\<close>)
    moreover have "bind (move_frames n a None [] ?fs) (\<lambda>_.
        bind (load_ctx a) (\<lambda>c. asks (\<lambda>_. or_panic (moved_to_heap c)))) s = (s', r)"
      using r by (simp add: ask_vm_def)
    ultimately show "evolves s s'" using k nr unfolding settles_at_def by blast
  qed
qed

lemma settles_block_context [settling]:
  "settles (create_block_context n m a)" "settles (new_proc M c)" "settles (create_proc M b)"
  unfolding create_block_context_def new_proc_def create_proc_def
  by (intro settling; (erule packs_evolve)?)+

lemma settles_keywords [settling]: "settles (bind_keywords M p kvs c t)"
proof (induction M p kvs c t rule: bind_keywords.induct)
  case (2 M p k v kvs c others)
  then show ?case
    unfolding bind_keywords.simps
    by (auto intro!: settles_bind settles_basic split: option.split)
next
  case (1 M p c others)
  show ?case unfolding bind_keywords.simps by (rule settles_basic)
qed

lemma settles_from_args [settling]:
  "settles (set_keywords M iseq a f c)" "settles (set_block_param M iseq a c)"
  "settles (from_args_opt iseq a c)" "settles (from_args M v iseq a out)"
  unfolding set_keywords_def set_block_param_def from_args_opt_def from_args_def Let_def
  by (intro settling)+

section \<open>Calls\<close>

text \<open>What the built-in functions are relied on for: balanced when the runs they start are.\<close>

definition natives_settle :: "'m mach menv \<Rightarrow> bool" where
  "natives_settle M \<longleftrightarrow>
     (\<forall>run f v a. (\<forall>x. settles (run x)) \<longrightarrow> settles (m_native M run f v a)) \<and>
     (\<forall>cs. settles (m_regexp M cs)) \<and> (\<forall>re s. settles (e_find_one M re s))"

lemma settles_always:
  assumes "settles f" "\<And>s. evolves s (fst (g s))"
  shows "settles (\<lambda>s. case f s of (s', r) \<Rightarrow> (fst (g s'), r))"
proof (rule settlesI)
  fix s s' r
  assume r: "(case f s of (s', r) \<Rightarrow> (fst (g s'), r)) = (s', r)" "\<not> stopped r"
  obtain s1 q where q: "f s = (s1, q)" by fastforce
  with r have "evolves s s1" "s' = fst (g s1)" using settlesD [OF assms(1) q] by auto
  with assms(2) [of s1] show "evolves s s'" by (auto intro: evolves_trans)
qed

lemma settles_run_local:
  assumes "\<forall>x. settles (run x)"
  shows "settles (run_local run c)"
  unfolding run_local_def
  by (intro settling settles_always) (use assms in \<open>auto simp: drop_ctx_def\<close>)

lemma settles_native:
  assumes "\<forall>x. settles (run x)" "natives_settle M"
  shows "settles (invoke_native M run f v a)"
  unfolding invoke_native_def
  by (intro settling settles_always)
    (use assms in \<open>auto simp: natives_settle_def truncate_temp_def mod_vm_def evolves_def shape_def\<close>)

lemma settles_accessors [settling]:
  "settles (invoke_getter i v)" "settles (invoke_setter i v w)" "settles (current_of out)"
  unfolding invoke_getter_def invoke_setter_def current_of_def by (intro settling; simp)+

lemma settles_method_info:
  assumes "\<And>i f. settles (b i f)" "\<And>i. settles (g i)" "\<And>i. settles (w i)" "\<And>s. settles (r s)"
    "settles v"
  shows "settles (case info of BuiltinFunc i f \<Rightarrow> b i f | AttrReader i \<Rightarrow> g i | AttrWriter i \<Rightarrow> w i
    | RubyFunc s \<Rightarrow> r s | VoidM \<Rightarrow> v)"
  using assms by (cases info) simp_all

lemma settles_invoke:
  assumes "\<forall>x. settles (run x)" "natives_settle M"
  shows "settles (invoke_func M run m v out a)" "settles (invoke_method M run m v a)"
    "settles (eval_method M run m v a)"
  unfolding invoke_func_def invoke_method_def eval_method_def
  by (intro settling settles_method_info settles_native settles_run_local assms)+

lemma settles_env:
  assumes "\<forall>x. settles (run x)" "natives_settle M"
  shows "env_settles (arith M run)"
  using settles_invoke(3) [OF assms] assms(2)
  by (auto simp: env_settles_def arith_def env.defs natives_settle_def settling)

lemma settles_send:
  assumes "\<forall>x. settles (run x)" "natives_settle M"
  shows "settles (send_method_missing M run i v a)" "settles (send M run i v a)"
    "settles (send_icache M run k i v a)"
  unfolding send_method_missing_def send_def send_icache_def
  by (intro settling settles_invoke assms)+

lemma settles_proc_ctx [settling]: "settles (proc_ctx p)" "settles (block_self b)"
  unfolding proc_ctx_def block_self_def by (intro settling)+

lemma settles_yield:
  assumes "\<forall>x. settles (run x)" "natives_settle M"
  shows "settles (eval_proc M run p a)" "settles (eval_yield M run a)"
  unfolding eval_yield_def eval_proc_def
  by (intro settling settles_invoke settles_run_local assms)+

lemma settles_kind:
  assumes "\<And>xs. settles (arr xs)" "\<And>h. settles (hash h)" "\<And>r. settles (rng r)"
    "\<And>m. settles (meth m)" "settles other"
  shows "settles (case k of Array xs \<Rightarrow> arr xs | Hash h \<Rightarrow> hash h | _ \<Rightarrow> other)"
    "settles (case k of Array xs \<Rightarrow> arr xs | RangeK r \<Rightarrow> rng r | _ \<Rightarrow> other)"
    "settles (case k of Array xs \<Rightarrow> arr xs | _ \<Rightarrow> other)"
    "settles (case k of Array xs \<Rightarrow> arr xs | Hash h \<Rightarrow> hash h | MethodObj m \<Rightarrow> meth m | _ \<Rightarrow> other)"
  using assms by (cases k; simp)+

lemmas settles_kinds =
  settles_kind(1) [OF _ _ settles_basic(1) settles_basic(1)]
  settles_kind(2) [OF _ settles_basic(1) _ settles_basic(1)]
  settles_kind(3) [OF _ settles_basic(1) settles_basic(1) settles_basic(1)]
  settles_kind(4) [OF _ _ settles_basic(1) _]

lemma settles_index:
  assumes "\<forall>x. settles (run x)" "natives_settle M"
  shows "settles (set_index M run)" "settles (set_index_imm M run k)" "settles (get_index M run)"
    "settles (get_index_imm M run k)"
  unfolding set_index_def set_index_imm_def get_index_def get_index_imm_def
  by (intro settling settles_kinds settles_send settles_invoke settles_fallback settles_env assms;
      (erule packs_evolve)?)+

section \<open>The helpers of the instructions\<close>

lemma settles_strings [settling]: "settles (new_string M cs)" "settles (as_str v)"
  unfolding new_string_def as_str_def by (intro settling; (erule rvalue_pack_evolves)?)+

lemma settles_loops [settling]:
  "settles (push_ints M js acc)" "settles (insert_pairs M vs t)" "settles (new_strings M xs acc)"
  "settles (concat_strings vs cs)" "settles (pop_many n)"
proof -
  show "settles (push_ints M js acc)"
    by (induction M js acc rule: push_ints.induct)
      (auto intro!: settles_bind settles_basic settles_steps dest: packs_evolve simp del: eff_simps)
  show "settles (insert_pairs M vs t)"
    by (induction M vs t rule: insert_pairs.induct) (auto intro!: settles_bind settles_basic simp del: eff_simps)
  show "settles (new_strings M xs acc)"
    by (induction M xs acc rule: new_strings.induct)
      (auto intro!: settles_bind settles_basic settles_strings simp del: eff_simps)
  show "settles (concat_strings vs cs)"
    by (induction vs cs rule: concat_strings.induct)
      (auto intro!: settles_bind settles_basic settles_strings simp del: eff_simps)
  show "settles (pop_many n)"
    by (induction n) (auto intro!: settles_bind settles_basic settles_stack simp del: eff_simps)
qed

lemma settles_splat [settling]:
  "settles (stack_part n)" "settles (unwrapped_integer v)" "settles (splat_arg M v acc)"
  unfolding stack_part_def unwrapped_integer_def splat_arg_def
  by (intro settling settles_kinds)+

lemma settles_splat_args [settling]: "settles (splat_args M vs acc)"
  by (induction M vs acc rule: splat_args.induct)
    (auto intro!: settles_bind settles_basic settles_splat split: option.split simp del: eff_simps)

lemma settles_pop_args [settling]:
  "settles (pop_args_to_args M n)" "settles (pop_key_value_pair M n)"
  unfolding pop_args_to_args_def pop_key_value_pair_def by (intro settling)+

lemma settles_rstring:
  "(\<And>x. settles (f x)) \<Longrightarrow> (\<And>x. settles (g x)) \<Longrightarrow> (\<And>x. settles (h x)) \<Longrightarrow>
   settles (case u of Str x \<Rightarrow> f x | SmallStr x \<Rightarrow> g x | Bytes x \<Rightarrow> h x)"
  by (cases u) simp_all

lemma settles_to_s:
  assumes "\<forall>x. settles (run x)" "natives_settle M"
  shows "settles (val_to_s M run v)" "settles (create_range M run a b e)" "settles (create_regexp M v)"
proof -
  have re: "settles (m_regexp M cs)" for cs using assms(2) by (simp add: natives_settle_def)
  show "settles (val_to_s M run v)" "settles (create_range M run a b e)" "settles (create_regexp M v)"
    unfolding val_to_s_def create_range_def create_regexp_def Let_def
    by (intro settling settles_rstring settles_fallback settles_compare settles_env assms re;
        (erule packs_evolve)?)+
qed

lemma settles_define_class [settling]:
  "settles (reopen_class M v b sv)" "settles (create_class M b sv)" "settles (define_class M base i b sv)"
  unfolding reopen_class_def create_class_def define_class_def Let_def by (intro settling)+

lemma settles_exception [settling]:
  "settles (new_exception M c e)" "settles (toplevel_class M n)" "settles (to_exception_val M e)"
proof -
  show ne: "settles (new_exception M c e)" for c e
    unfolding new_exception_def Let_def by (intro settling) (rule rvalue_pack_evolves)
  show tc: "settles (toplevel_class M n)" for n
    unfolding toplevel_class_def by (intro settling)
  show "settles (to_exception_val M e)"
    unfolding to_exception_val_def
    by (cases e) (auto intro!: settles_bind settles_basic settles_option ne tc simp del: eff_simps)
qed

end
