(* ===== verification/JumpThread.thy ===== *)
theory JumpThread
  imports ISeq
begin

text \<open>
  The jump threading of src/vm/iseq.rs keeps the control flow: from every instruction, following
  unconditional jumps ends at the same place before and after \<open>optimize\<close>, and every conditional
  jump still leads to the same place.
\<close>

section \<open>Where control ends up\<close>

text \<open>
  \<open>lands c p x\<close>: from \<open>p\<close>, over unconditional jumps, control reaches an instruction that is no
  jump: a terminator \<open>Inl i\<close>, or another one at position \<open>q\<close>, \<open>Inr q\<close>.
\<close>

definition place :: "u8 \<Rightarrow> nat \<Rightarrow> u8 + nat" where
  "place i p = (if i \<in> set terminators then Inl i else Inr p)"

inductive lands :: "code \<Rightarrow> nat \<Rightarrow> u8 + nat \<Rightarrow> bool" for c where
  stop: "p < length c \<Longrightarrow> c ! p \<notin> set jumps \<Longrightarrow> lands c p (place (c ! p) p)"
| jump: "p < length c \<Longrightarrow> c ! p \<in> set jumps \<Longrightarrow> jump_dest c (p + 5) = Inr t \<Longrightarrow> lands c t x \<Longrightarrow>
    lands c p x"

inductive_cases landsE: "lands c p x"

lemma lands_stop_iff:
  "p < length c \<Longrightarrow> c ! p \<notin> set jumps \<Longrightarrow> lands c p x \<longleftrightarrow> x = place (c ! p) p"
  by (auto elim: landsE intro: lands.stop)

lemma lands_jump_iff:
  "p < length c \<Longrightarrow> c ! p \<in> set jumps \<Longrightarrow> jump_dest c (p + 5) = Inr t \<Longrightarrow>
   lands c p x \<longleftrightarrow> lands c t x"
  by (auto elim: landsE intro: lands.jump)

lemma lands_det: "lands c p x \<Longrightarrow> lands c p y \<Longrightarrow> x = y"
proof (induction rule: lands.induct)
  case (stop p)
  then show ?case using lands_stop_iff [OF stop(1,2), of y] by simp
next
  case (jump p t x)
  then show ?case using lands_jump_iff [OF jump(1-3), of y] by simp
qed

text \<open>The starts of the instructions from \<open>p\<close> on, for code that parses to its end.\<close>

fun starts :: "nat \<Rightarrow> code \<Rightarrow> nat \<Rightarrow> nat list option" where
  "starts 0 c p = (if length c = p then Some [] else None)"
| "starts (Suc n) c p =
     (if length c < p then None
      else if length c = p then Some []
      else
        case inst_size (c ! p) of
          Inl _ \<Rightarrow> None
        | Inr sz \<Rightarrow> (case starts n c (p + sz) of None \<Rightarrow> None | Some ps \<Rightarrow> Some (p # ps)))"

lemma jump_size_table:
  "list_all (\<lambda>i. inst_size i = Inr 5) jumps"
  "list_all (\<lambda>i. (inst_size i = Inr 5 \<or> inst_size i = Inr 9) \<and> i \<notin> set jumps) cond_jumps"
  "list_all (\<lambda>i. i \<notin> set jumps \<and> i \<notin> set cond_jumps \<and> inst_size i = Inr 1) terminators"
  by code_simp+

lemma jump_sizes:
  "i \<in> set jumps \<Longrightarrow> inst_size i = Inr 5"
  "i \<in> set cond_jumps \<Longrightarrow> inst_size i = Inr 5 \<or> inst_size i = Inr 9"
  "i \<in> set cond_jumps \<Longrightarrow> i \<notin> set jumps"
  "i \<in> set terminators \<Longrightarrow> i \<notin> set jumps \<and> i \<notin> set cond_jumps \<and> inst_size i = Inr 1"
  using jump_size_table by (auto simp: list_all_iff)

section \<open>Well-formed code\<close>

text \<open>
  \<open>S\<close> is the set of instruction starts: instructions do not overlap, and every jump leads to
  the start of an instruction.
\<close>

definition wf_code :: "code \<Rightarrow> nat set \<Rightarrow> bool" where
  "wf_code c S \<longleftrightarrow>
     length c < 2 ^ 31 \<and>
     (\<forall>q \<in> S. \<exists>sz. inst_size (c ! q) = Inr sz \<and> 0 < sz \<and> q + sz \<le> length c \<and>
        (\<forall>r \<in> S. q < r \<longrightarrow> q + sz \<le> r) \<and>
        (c ! q \<in> set jumps \<union> set cond_jumps \<longrightarrow> (\<exists>t \<in> S. jump_dest c (q + sz) = Inr t)))"

lemma wf_codeD:
  assumes "wf_code c S" "q \<in> S" "inst_size (c ! q) = Inr sz"
  shows "0 < sz" "q + sz \<le> length c" "q < length c" "r \<in> S \<Longrightarrow> q < r \<Longrightarrow> q + sz \<le> r"
    "c ! q \<in> set jumps \<union> set cond_jumps \<Longrightarrow> \<exists>t \<in> S. jump_dest c (q + sz) = Inr t"
  using assms by (force simp: wf_code_def)+

lemma jump_dest_cong:
  assumes "length c' = length c" "4 \<le> n" "\<And>i. n - 4 \<le> i \<Longrightarrow> i < n \<Longrightarrow> c' ! i = c ! i"
  shows "jump_dest c' n = jump_dest c n"
proof -
  have "take 4 (drop (n - 4) c') = take 4 (drop (n - 4) c)" if "n \<le> length c"
    using assms that by (intro nth_equalityI) auto
  then have "vslice c' (n - 4) (n - 4 + 4) = vslice c (n - 4) (n - 4 + 4)"
    using assms by (auto simp: vslice_def)
  then show ?thesis by (simp add: jump_dest_def read_disp_def read32_def)
qed

text \<open>Where \<open>chase\<close> stops.\<close>

lemma chase_lands:
  assumes "wf_code c S" "t \<in> S" "chase fuel c t nc = Inr k"
  obtains d where "d \<in> S" "c ! d \<notin> set jumps" "\<And>x. lands c t x \<longleftrightarrow> lands c d x"
    "k = (if nc \<and> c ! d \<in> set terminators then InstK (c ! d) else Dest d)"
proof -
  have "\<exists>d \<in> S. c ! d \<notin> set jumps \<and> (\<forall>x. lands c t x \<longleftrightarrow> lands c d x) \<and>
      k = (if nc \<and> c ! d \<in> set terminators then InstK (c ! d) else Dest d)"
    using assms(2,3)
  proof (induction fuel arbitrary: t)
    case (Suc fuel)
    have t: "t < length c" using Suc.prems assms(1) by (force simp: wf_code_def)
    show ?case
    proof (cases "c ! t \<in> set jumps")
      case True
      note sz = jump_sizes(1) [OF True]
      obtain u where u: "u \<in> S" "jump_dest c (t + 5) = Inr u"
        using wf_codeD(5) [OF assms(1) Suc.prems(1) sz] True by blast
      then have "chase fuel c u nc = Inr k"
        using Suc.prems(2) True t sz by (auto simp: jump_dest_def rbind_Inr_iff)
      with Suc.IH u(1) obtain d where d: "d \<in> S" "c ! d \<notin> set jumps"
          "\<And>x. lands c u x \<longleftrightarrow> lands c d x"
          "k = (if nc \<and> c ! d \<in> set terminators then InstK (c ! d) else Dest d)"
        by blast
      then show ?thesis using lands_jump_iff [OF t True u(2)] by blast
    next
      case False
      with Suc.prems t show ?thesis by (auto split: if_splits)
    qed
  qed simp
  then show ?thesis using that by blast
qed

section \<open>One rewritten instruction\<close>

definition retargets :: "code \<Rightarrow> code \<Rightarrow> nat set \<Rightarrow> nat \<Rightarrow> nat \<Rightarrow> bool" where
  "retargets c c' S p sz \<longleftrightarrow>
     c' ! p = c ! p \<and> (\<forall>k < sz - 4. c' ! (p + k) = c ! (p + k)) \<and>
     (\<exists>t d. t \<in> S \<and> d \<in> S \<and> jump_dest c (p + sz) = Inr t \<and> jump_dest c' (p + sz) = Inr d \<and>
        c ! d \<notin> set jumps \<and> (\<forall>x. lands c t x \<longleftrightarrow> lands c d x))"

definition rewritten :: "code \<Rightarrow> code \<Rightarrow> nat set \<Rightarrow> nat \<Rightarrow> nat \<Rightarrow> bool" where
  "rewritten c c' S p sz \<longleftrightarrow>
     length c' = length c \<and> (\<forall>i. i < p \<or> p + sz \<le> i \<longrightarrow> c' ! i = c ! i) \<and>
     (if c ! p \<in> set jumps then
        retargets c c' S p sz \<or> (c' ! p \<in> set terminators \<and> lands c p (Inl (c' ! p)))
      else if c ! p \<in> set cond_jumps then retargets c c' S p sz
      else c' = c)"

lemma fill_spec:
  "p + n \<le> length c \<Longrightarrow> \<exists>c'. fill n p b c = Inr c' \<and> length c' = length c \<and>
     (\<forall>i. i < p \<or> p + n \<le> i \<longrightarrow> c' ! i = c ! i) \<and> (\<forall>k < n. c' ! (p + k) = b)"
proof (induction n arbitrary: p c)
  case (Suc n)
  obtain c' where c': "fill n (p + 1) b (c[p := b]) = Inr c'" "length c' = length c"
      "\<forall>i. i < p + 1 \<or> p + 1 + n \<le> i \<longrightarrow> c' ! i = c[p := b] ! i" "\<forall>k < n. c' ! (p + 1 + k) = b"
    using Suc.IH [of "p + 1" "c[p := b]"] Suc.prems by auto
  have "c' ! (p + k) = b" if "k < Suc n" for k
    using c'(3,4) that Suc.prems by (cases k) auto
  with c' Suc.prems show ?case by (auto simp: set_byte_def)
qed simp

lemma write_disp_retargets:
  assumes wf: "wf_code c S" and p: "p \<in> S" and sz: "inst_size (c ! p) = Inr sz" "5 \<le> sz"
    and d: "d \<in> S" "c ! d \<notin> set jumps" and t: "t \<in> S" "jump_dest c (p + sz) = Inr t"
    and eq: "\<And>x. lands c t x \<longleftrightarrow> lands c d x"
    and w: "write_disp (p + sz) d c = Inr c'"
  shows "length c' = length c" "\<And>i. i < p \<or> p + sz \<le> i \<Longrightarrow> c' ! i = c ! i" "retargets c c' S p sz"
proof -
  note f = wf_codeD [OF wf p sz(1)]
  have len: "length c < 2 ^ 31" using wf by (simp add: wf_code_def)
  have 4: "4 \<le> p + sz" "p + sz \<le> length c" using f sz by auto
  obtain c2 where c2: "write_disp (p + sz) d c = Inr c2" "length c2 = length c"
      "\<And>i. i < p + sz - 4 \<or> p + sz \<le> i \<Longrightarrow> c2 ! i = c ! i"
    using write_disp_spec [OF 4] by metis
  with w show len': "length c' = length c" and oth: "\<And>i. i < p \<or> p + sz \<le> i \<Longrightarrow> c' ! i = c ! i"
    using sz by auto
  have "d < length c" using wf d(1) by (force simp: wf_code_def)
  then have "jump_dest c' (p + sz) = Inr d"
    using jump_dest_write [OF 4 len _ w] len by simp
  moreover have "c' ! (p + k) = c ! (p + k)" if "k < sz - 4" for k
  proof -
    have "p + k < p + sz - 4" using that by linarith
    with c2(3) [of "p + k"] c2(1) w show ?thesis by simp
  qed
  moreover from this [of 0] have "c' ! p = c ! p" using sz by simp
  ultimately show "retargets c c' S p sz" using d t eq unfolding retargets_def by blast
qed

lemma optimize_inst_rewrites:
  assumes wf: "wf_code c S" and p: "p \<in> S" and sz: "inst_size (c ! p) = Inr sz"
    and opt: "optimize_inst fuel c p (c ! p) sz = Inr c'"
  shows "rewritten c c' S p sz"
proof (cases "c ! p \<in> set jumps")
  case True
  note f = wf_codeD [OF wf p sz]
  have 5: "sz = 5" using jump_sizes(1) [OF True] sz by simp
  obtain t where t: "t \<in> S" "jump_dest c (p + sz) = Inr t" using f(5) True by blast
  with opt True obtain k where k: "chase fuel c t True = Inr k"
      "(case k of Dest dest \<Rightarrow> write_disp (p + sz) dest c | InstK i \<Rightarrow> fill 5 p i c) = Inr c'"
    by (auto simp: optimize_inst_def Let_def rbind_Inr_iff)
  obtain d where d: "d \<in> S" "c ! d \<notin> set jumps" "\<And>x. lands c t x \<longleftrightarrow> lands c d x"
      "k = (if c ! d \<in> set terminators then InstK (c ! d) else Dest d)"
    using chase_lands [OF wf t(1) k(1)] by auto
  show ?thesis
  proof (cases "c ! d \<in> set terminators")
    case trm: True
    with k d have w: "fill 5 p (c ! d) c = Inr c'" by simp
    obtain c2 where c2: "fill 5 p (c ! d) c = Inr c2" "length c2 = length c"
        "\<forall>i. i < p \<or> p + 5 \<le> i \<longrightarrow> c2 ! i = c ! i" "\<forall>k < 5. c2 ! (p + k) = c ! d"
      using fill_spec [of p 5 c "c ! d"] f 5 by auto
    have "d < length c" using wf d(1) by (force simp: wf_code_def)
    then have "lands c d (Inl (c ! d))" using d(2) trm lands_stop_iff by (simp add: place_def)
    then have "lands c p (Inl (c ! d))" using lands_jump_iff [OF f(3) True] t d 5 by simp
    moreover have "c2 ! p = c ! d" using c2(4)[rule_format, of 0] by simp
    ultimately show ?thesis using c2 w True trm 5 by (simp add: rewritten_def)
  next
    case False
    with k d have w: "write_disp (p + sz) d c = Inr c'" by simp
    from write_disp_retargets [OF wf p sz _ d(1,2) t d(3) w] 5 True show ?thesis
      by (simp add: rewritten_def)
  qed
next
  case False
  show ?thesis
  proof (cases "c ! p \<in> set cond_jumps")
    case True
    note f = wf_codeD [OF wf p sz]
    have 5: "5 \<le> sz" using jump_sizes(2) [OF True] sz by auto
    obtain t where t: "t \<in> S" "jump_dest c (p + sz) = Inr t" using f(5) True by blast
    with opt True False obtain k where k: "chase fuel c t False = Inr k"
        "(case k of Dest dest \<Rightarrow> write_disp (p + sz) dest c | InstK i \<Rightarrow> Inl Panic) = Inr c'"
      by (auto simp: optimize_inst_def Let_def rbind_Inr_iff)
    obtain d where d: "d \<in> S" "c ! d \<notin> set jumps" "\<And>x. lands c t x \<longleftrightarrow> lands c d x" "k = Dest d"
      using chase_lands [OF wf t(1) k(1)] by auto
    with k have w: "write_disp (p + sz) d c = Inr c'" by simp
    from write_disp_retargets [OF wf p sz 5 d(1,2) t d(3) w] True False show ?thesis
      by (simp add: rewritten_def)
  next
    case nc: False
    with opt False have "c' = c" by (simp add: optimize_inst_def)
    with False nc show ?thesis by (simp add: rewritten_def)
  qed
qed

section \<open>The whole pass\<close>

lemma rewritten_other:
  assumes wf: "wf_code c S" and r: "rewritten c c' S p sz" and p: "p \<in> S" "inst_size (c ! p) = Inr sz"
    and q: "q \<in> S" "q \<noteq> p" "inst_size (c ! q) = Inr sq"
  shows "\<And>k. k < sq \<Longrightarrow> c' ! (q + k) = c ! (q + k)" "c' ! q = c ! q"
    "4 \<le> sq \<Longrightarrow> jump_dest c' (q + sq) = jump_dest c (q + sq)"
proof -
  have sep: "q + sq \<le> p \<or> p + sz \<le> q"
    using wf_codeD(4) [OF wf q(1,3) p(1)] wf_codeD(4) [OF wf p q(1)] q(2) by linarith
  have b: "\<And>i. i < p \<or> p + sz \<le> i \<Longrightarrow> c' ! i = c ! i" and len: "length c' = length c"
    using r unfolding rewritten_def by blast+
  show k: "c' ! (q + k) = c ! (q + k)" if "k < sq" for k using sep that by (intro b) auto
  show "c' ! q = c ! q" using k [of 0] wf_codeD(1) [OF wf q(1,3)] by simp
  show "jump_dest c' (q + sq) = jump_dest c (q + sq)" if "4 \<le> sq"
  proof (rule jump_dest_cong [OF len])
    fix i assume "q + sq - 4 \<le> i" "i < q + sq"
    with sep that have "i < p \<or> p + sz \<le> i" by linarith
    then show "c' ! i = c ! i" by (rule b)
  qed (use that in simp)
qed

text \<open>The instruction at \<open>p\<close> itself.\<close>

lemma rewritten_self:
  assumes wf: "wf_code c S" and r: "rewritten c c' S p sz" and p: "p \<in> S" "inst_size (c ! p) = Inr sz"
  shows "c' ! p = c ! p \<or> c ! p \<in> set jumps \<and> c' ! p \<in> set terminators \<and> lands c p (Inl (c' ! p))"
    "c' ! p \<in> set jumps \<union> set cond_jumps \<Longrightarrow> retargets c c' S p sz"
proof -
  show "c' ! p = c ! p \<or> c ! p \<in> set jumps \<and> c' ! p \<in> set terminators \<and> lands c p (Inl (c' ! p))"
    using r by (auto simp: rewritten_def retargets_def split: if_splits)
  show "retargets c c' S p sz" if "c' ! p \<in> set jumps \<union> set cond_jumps"
    using r that jump_sizes(4) by (auto simp: rewritten_def split: if_splits)
qed

lemma rewritten_wf:
  assumes wf: "wf_code c S" and r: "rewritten c c' S p sz" and p: "p \<in> S" "inst_size (c ! p) = Inr sz"
  shows "wf_code c' S"
  unfolding wf_code_def
proof (intro conjI ballI)
  have len: "length c' = length c" using r by (simp add: rewritten_def)
  then show "length c' < 2 ^ 31" using wf by (simp add: wf_code_def)
  fix q assume q: "q \<in> S"
  then obtain sq where sq: "inst_size (c ! q) = Inr sq" using wf by (auto simp: wf_code_def)
  note f = wf_codeD [OF wf q sq]
  show "\<exists>sz. inst_size (c' ! q) = Inr sz \<and> 0 < sz \<and> q + sz \<le> length c' \<and>
        (\<forall>r \<in> S. q < r \<longrightarrow> q + sz \<le> r) \<and>
        (c' ! q \<in> set jumps \<union> set cond_jumps \<longrightarrow> (\<exists>t \<in> S. jump_dest c' (q + sz) = Inr t))"
    (is "\<exists>sz. ?ok sz")
  proof (cases "q = p")
    case False
    note o = rewritten_other [OF wf r p q False sq]
    have "jump_dest c' (q + sq) = jump_dest c (q + sq)" if "c ! q \<in> set jumps \<union> set cond_jumps"
      using that jump_sizes(1,2) [of "c ! q"] sq by (intro o(3)) auto
    then have "?ok sq" using f o(2) sq len by auto
    then show ?thesis ..
  next
    case True
    then have sz: "sq = sz" using sq p(2) by simp
    note s = rewritten_self [OF wf r p]
    show ?thesis
    proof (cases "c' ! p = c ! p")
      case same: True
      have "?ok sq" using same f sq len s(2) True sz by (auto simp: retargets_def)
      then show ?thesis ..
    next
      case False
      with s(1) have t: "c ! p \<in> set jumps" "c' ! p \<in> set terminators" by auto
      have "sq = 5" using jump_sizes(1) [OF t(1)] sq True by simp
      then have "?ok 1" using jump_sizes(4) [OF t(2)] f True len by force
      then show ?thesis ..
    qed
  qed
qed

lemma lands_in:
  assumes wf: "wf_code c S" and q: "q \<in> S" and j: "c ! q \<in> set jumps"
  obtains t where "t \<in> S" "jump_dest c (q + 5) = Inr t" "\<And>x. lands c q x \<longleftrightarrow> lands c t x"
proof -
  note sz = jump_sizes(1) [OF j]
  obtain t where t: "t \<in> S" "jump_dest c (q + 5) = Inr t" using wf_codeD(5) [OF wf q sz] j by blast
  with lands_jump_iff [OF wf_codeD(3) [OF wf q sz] j t(2)] that show ?thesis by blast
qed

lemma lands_at:
  assumes "wf_code c S" "q \<in> S" "c ! q \<notin> set jumps"
  shows "lands c q x \<longleftrightarrow> x = place (c ! q) q"
  using assms by (intro lands_stop_iff) (force simp: wf_code_def)+

text \<open>An instruction that is no jump is the same in the rewritten code.\<close>

lemma rewritten_stop:
  assumes "wf_code c S" "rewritten c c' S p sz" "p \<in> S" "inst_size (c ! p) = Inr sz"
    "d \<in> S" "c ! d \<notin> set jumps"
  shows "c' ! d = c ! d" "lands c' d x \<longleftrightarrow> lands c d x"
proof -
  obtain sd where sd: "inst_size (c ! d) = Inr sd" using assms(1,5) by (auto simp: wf_code_def)
  show d: "c' ! d = c ! d"
    using rewritten_other(2) [OF assms(1-5) _ sd] rewritten_self(1) [OF assms(1-4)] assms(6) by auto
  have wf': "wf_code c' S" by (rule rewritten_wf [OF assms(1-4)])
  from lands_at [OF wf' assms(5)] lands_at [OF assms(1,5,6)] d assms(6)
  show "lands c' d x \<longleftrightarrow> lands c d x" by simp
qed

lemma rewritten_forward:
  assumes wf: "wf_code c S" and r: "rewritten c c' S p sz" and p: "p \<in> S" "inst_size (c ! p) = Inr sz"
  shows "lands c q x \<Longrightarrow> q \<in> S \<Longrightarrow> lands c' q x"
proof (induction rule: lands.induct)
  case (stop q)
  have "lands c q (place (c ! q) q)" using stop by (intro lands.stop)
  with rewritten_stop(2) [OF wf r p stop(3,2)] show ?case by blast
next
  case (jump q t x)
  note wf' = rewritten_wf [OF wf r p]
  have sz5: "inst_size (c ! q) = Inr 5" using jump_sizes(1) jump(2) .
  obtain u where u: "u \<in> S" "jump_dest c (q + 5) = Inr u" using lands_in [OF wf jump(6,2)] by metis
  with jump(3) have t: "t \<in> S" by simp
  with jump.IH have t': "lands c' t x" by blast
  have len': "q < length c'" using jump(1) r by (simp add: rewritten_def)
  show ?case
  proof (cases "q = p")
    case False
    note o = rewritten_other [OF wf r p jump(6) False sz5]
    from o(3) jump(3) have "jump_dest c' (q + 5) = Inr t" by simp
    with len' o(2) jump(2) t' show ?thesis by (auto intro: lands.jump)
  next
    case qp: True
    then have sz: "sz = 5" using sz5 p(2) by simp
    show ?thesis
    proof (cases "c' ! q \<in> set jumps")
      case j: True
      with qp sz jump(3) obtain d where d: "d \<in> S" "jump_dest c' (q + 5) = Inr d" "c ! d \<notin> set jumps"
          "\<And>x. lands c t x \<longleftrightarrow> lands c d x"
        using rewritten_self(2) [OF wf r p] by (auto simp: retargets_def)
      have "lands c d x" using d(4) jump(4) by simp
      then have "lands c' d x" unfolding rewritten_stop(2) [OF wf r p d(1,3)] .
      with len' j d(2) show ?thesis by (rule lands.jump)
    next
      case nj: False
      then have trm: "c' ! p \<in> set terminators" "lands c p (Inl (c' ! p))"
        using rewritten_self(1) [OF wf r p] qp jump(2) by auto
      have "lands c p x" unfolding qp [symmetric] using jump(1-4) by (rule lands.jump)
      with trm(2) have "x = Inl (c' ! p)" by (rule lands_det [rotated])
      with trm(1) have x: "x = place (c' ! q) q" using qp by (simp add: place_def)
      show ?thesis unfolding x using len' nj by (rule lands.stop)
    qed
  qed
qed

lemma rewritten_backward:
  assumes wf: "wf_code c S" and r: "rewritten c c' S p sz" and p: "p \<in> S" "inst_size (c ! p) = Inr sz"
  shows "lands c' q x \<Longrightarrow> q \<in> S \<Longrightarrow> lands c q x"
proof (induction rule: lands.induct)
  case (stop q)
  show ?case
  proof (cases "c ! q \<in> set jumps")
    case False
    from rewritten_stop(1) [OF wf r p stop(3) False] lands_at [OF wf stop(3) False]
    show ?thesis by simp
  next
    case True
    have "q = p"
      using rewritten_other(2) [OF wf r p stop(3) _ jump_sizes(1) [OF True]] True stop(2) by metis
    moreover from this have "c' ! p \<in> set terminators" "lands c p (Inl (c' ! p))"
      using rewritten_self(1) [OF wf r p] True stop(2) by auto
    ultimately show ?thesis by (simp add: place_def)
  qed
next
  case (jump q d x)
  have "c' ! q = c ! q"
    using rewritten_self(1) [OF wf r p] jump(2) jump_sizes(4) rewritten_other(2) [OF wf r p jump(6)] wf jump(6)
    by (cases "q = p") (auto simp: wf_code_def)
  with jump(2) have j: "c ! q \<in> set jumps" by simp
  obtain t where t: "t \<in> S" "jump_dest c (q + 5) = Inr t" "\<And>x. lands c q x \<longleftrightarrow> lands c t x"
    using lands_in [OF wf jump(6) j] by metis
  show ?case
  proof (cases "q = p")
    case False
    note o = rewritten_other [OF wf r p jump(6) False jump_sizes(1) [OF j]]
    with jump(3) t(2) have "d = t" by simp
    with jump.IH t show ?thesis by blast
  next
    case True
    then have sz: "sz = 5" using jump_sizes(1) [OF j] p(2) by simp
    then obtain e where "e \<in> S" "jump_dest c' (q + 5) = Inr e" "\<And>x. lands c t x \<longleftrightarrow> lands c e x"
      using rewritten_self(2) [OF wf r p] True jump(2) t(2) by (auto simp: retargets_def)
    with jump(3) jump.IH t(3) show ?thesis by auto
  qed
qed

text \<open>
  The same control flow: from every instruction control lands at the same place, an instruction
  that is no jump is unchanged, and a conditional jump keeps its condition and leads to the same
  place.
\<close>

definition inst_eq :: "code \<Rightarrow> code \<Rightarrow> nat set \<Rightarrow> nat \<Rightarrow> nat \<Rightarrow> bool" where
  "inst_eq c c' S q sz \<longleftrightarrow>
     c ! q \<in> set jumps \<and> c' ! q \<in> set jumps \<union> set terminators \<or>
     c' ! q = c ! q \<and>
     (if c ! q \<in> set cond_jumps then
        (\<forall>k < sz - 4. c' ! (q + k) = c ! (q + k)) \<and>
        (\<exists>t \<in> S. \<exists>t' \<in> S. jump_dest c (q + sz) = Inr t \<and> jump_dest c' (q + sz) = Inr t' \<and>
           (\<forall>x. lands c t x \<longleftrightarrow> lands c' t' x))
      else \<forall>k < sz. c' ! (q + k) = c ! (q + k))"

definition flow_eq :: "code \<Rightarrow> code \<Rightarrow> nat set \<Rightarrow> bool" where
  "flow_eq c c' S \<longleftrightarrow>
     length c' = length c \<and> (\<forall>q \<in> S. \<forall>x. lands c q x \<longleftrightarrow> lands c' q x) \<and>
     (\<forall>q \<in> S. \<forall>sz. inst_size (c ! q) = Inr sz \<longrightarrow> inst_eq c c' S q sz)"

lemma flow_eq_refl: "wf_code c S \<Longrightarrow> flow_eq c c S"
  by (auto simp: flow_eq_def inst_eq_def dest: wf_codeD(5))

lemma inst_eq_trans:
  assumes "inst_eq c1 c2 S q sz" "inst_eq c2 c3 S q sz" "c1 ! q \<notin> set jumps"
  shows "inst_eq c1 c3 S q sz"
  using assms unfolding inst_eq_def by (cases "c1 ! q \<in> set cond_jumps") auto

lemma flow_eq_trans:
  assumes "flow_eq c1 c2 S" "flow_eq c2 c3 S"
  shows "flow_eq c1 c3 S"
proof -
  have "inst_eq c1 c3 S q sz" if q: "q \<in> S" "inst_size (c1 ! q) = Inr sz" for q sz
  proof (cases "c1 ! q \<in> set jumps")
    case False
    have 1: "inst_eq c1 c2 S q sz" using assms(1) q by (simp add: flow_eq_def)
    with False have "c2 ! q = c1 ! q" by (auto simp: inst_eq_def)
    then have "inst_eq c2 c3 S q sz" using assms(2) q by (simp add: flow_eq_def)
    from inst_eq_trans [OF 1 this False] show ?thesis .
  next
    case True
    have 1: "inst_eq c1 c2 S q sz" using assms(1) q by (simp add: flow_eq_def)
    with True have j: "c2 ! q \<in> set jumps \<union> set terminators" by (auto simp: inst_eq_def)
    then obtain sz' where "inst_size (c2 ! q) = Inr sz'" using jump_sizes(1,4) by blast
    then have "inst_eq c2 c3 S q sz'" using assms(2) q(1) by (simp add: flow_eq_def)
    with j have "c3 ! q \<in> set jumps \<union> set terminators" by (auto simp: inst_eq_def)
    with True show ?thesis by (simp add: inst_eq_def)
  qed
  with assms show ?thesis by (simp add: flow_eq_def)
qed

lemma rewritten_flow_eq:
  assumes wf: "wf_code c S" and r: "rewritten c c' S p sz" and p: "p \<in> S" "inst_size (c ! p) = Inr sz"
  shows "flow_eq c c' S"
  unfolding flow_eq_def
proof (intro conjI ballI allI impI)
  show "length c' = length c" using r by (simp add: rewritten_def)
  have l: "lands c q x \<longleftrightarrow> lands c' q x" if "q \<in> S" for q x
    using rewritten_forward [OF wf r p] rewritten_backward [OF wf r p] that by blast
  then show "lands c q x \<longleftrightarrow> lands c' q x" if "q \<in> S" for q x using that .
  fix q sq assume q: "q \<in> S" and sq: "inst_size (c ! q) = Inr sq"
  show "inst_eq c c' S q sq"
  proof (cases "q = p")
    case False
    note o = rewritten_other [OF wf r p q False sq]
    show ?thesis
    proof (cases "c ! q \<in> set cond_jumps")
      case True
      obtain t where t: "t \<in> S" "jump_dest c (q + sq) = Inr t"
        using wf_codeD(5) [OF wf q sq] True by blast
      moreover have "4 \<le> sq" using jump_sizes(2) [OF True] sq by auto
      ultimately show ?thesis using o l [OF t(1)] by (auto simp: inst_eq_def)
    qed (use o in \<open>auto simp: inst_eq_def\<close>)
  next
    case True
    then have sz: "sq = sz" using sq p(2) by simp
    show ?thesis
    proof (cases "c ! p \<in> set jumps \<or> c ! p \<notin> set cond_jumps")
      case True
      note b = True
      show ?thesis
      proof (cases "c ! p \<in> set jumps")
        case True
        with rewritten_self(1) [OF wf r p] \<open>q = p\<close> show ?thesis by (auto simp: inst_eq_def)
      next
        case False
        with b r have "c' = c" by (simp add: rewritten_def)
        with False b \<open>q = p\<close> show ?thesis by (simp add: inst_eq_def)
      qed
    next
      case False
      then have rt: "retargets c c' S p sz" using r by (simp add: rewritten_def)
      then obtain t d where d: "t \<in> S" "d \<in> S" "jump_dest c (p + sz) = Inr t"
          "jump_dest c' (p + sz) = Inr d" "c ! d \<notin> set jumps" "\<And>x. lands c t x \<longleftrightarrow> lands c d x"
        by (auto simp: retargets_def)
      have "lands c t x \<longleftrightarrow> lands c' d x" for x using d(6) l [OF d(2)] by blast
      with d(1-4) rt False sz True show ?thesis by (auto simp: inst_eq_def retargets_def)
    qed
  qed
qed

text \<open>The loop visits the starts of the original code, which it has not changed ahead of it.\<close>

lemma starts_cong:
  "length c' = length c \<Longrightarrow> (\<And>i. p \<le> i \<Longrightarrow> c' ! i = c ! i) \<Longrightarrow> starts n c' p = starts n c p"
proof (induction n arbitrary: p)
  case (Suc n)
  have "starts n c' (p + sz) = starts n c (p + sz)" for sz
    using Suc.prems by (intro Suc.IH) auto
  with Suc.prems show ?case by (simp split: sum.splits)
qed simp

lemma optimize_loop_flow:
  assumes "wf_code c S" "starts n c p = Some ps" "set ps \<subseteq> S" "optimize_loop fuel n c p = Inr c'"
  shows "wf_code c' S \<and> flow_eq c c' S"
  using assms
proof (induction n arbitrary: c p ps)
  case 0
  then show ?case by (simp add: flow_eq_refl)
next
  case (Suc n)
  show ?case
  proof (cases "length c \<le> p")
    case True
    with Suc.prems show ?thesis by (simp add: flow_eq_refl)
  next
    case False
    with Suc.prems(2) obtain sz qs where sz: "inst_size (c ! p) = Inr sz"
        "starts n c (p + sz) = Some qs" "ps = p # qs"
      by (auto split: sum.splits option.splits)
    with False Suc.prems obtain c1 where c1: "optimize_inst fuel c p (c ! p) sz = Inr c1"
        "optimize_loop fuel n c1 (p + sz) = Inr c'"
      by (auto simp: Let_def rbind_Inr_iff)
    have p: "p \<in> S" "set qs \<subseteq> S" using Suc.prems(3) sz(3) by auto
    have r: "rewritten c c1 S p sz" by (rule optimize_inst_rewrites [OF Suc.prems(1) p(1) sz(1) c1(1)])
    have "starts n c1 (p + sz) = starts n c (p + sz)"
      using r by (intro starts_cong) (auto simp: rewritten_def)
    then have "wf_code c' S \<and> flow_eq c1 c' S"
      using Suc.IH [OF rewritten_wf [OF Suc.prems(1) r p(1) sz(1)] _ p(2) c1(2)] sz(2) by simp
    with rewritten_flow_eq [OF Suc.prems(1) r p(1) sz(1)] show ?thesis
      by (blast intro: flow_eq_trans)
  qed
qed

text \<open>The instruction starts of a piece of code, and whether it is well-formed over them.\<close>

definition code_starts :: "code \<Rightarrow> nat list option" where
  "code_starts c = starts (length c) c 0"

definition check_code :: "code \<Rightarrow> bool" where
  "check_code c \<longleftrightarrow>
     length c < 2 ^ 31 \<and>
     (case code_starts c of
        None \<Rightarrow> False
      | Some ps \<Rightarrow> list_all (\<lambda>q.
          c ! q \<in> set jumps \<union> set cond_jumps \<longrightarrow>
            (case inst_size (c ! q) of
               Inl _ \<Rightarrow> False
             | Inr sz \<Rightarrow> (case jump_dest c (q + sz) of Inl _ \<Rightarrow> False | Inr t \<Rightarrow> t \<in> set ps))) ps)"

lemma starts_bounds:
  "starts n c p = Some ps \<Longrightarrow> q \<in> set ps \<Longrightarrow>
     p \<le> q \<and> (\<exists>sz. inst_size (c ! q) = Inr sz \<and> 0 < sz \<and> q + sz \<le> length c \<and>
       (\<forall>r \<in> set ps. q < r \<longrightarrow> q + sz \<le> r))"
proof (induction n arbitrary: p ps q)
  case (Suc n)
  show ?case
  proof (cases "p < length c")
    case True
    with Suc.prems obtain sz qs where sz: "inst_size (c ! p) = Inr sz"
        "starts n c (p + sz) = Some qs" "ps = p # qs"
      by (auto split: sum.splits option.splits if_splits)
    have pos: "0 < sz" using sz(1) by (auto simp: inst_size_def split: if_splits)
    have le: "p + sz \<le> r" if "r \<in> set qs" for r using Suc.IH [OF sz(2) that] by simp
    show ?thesis
    proof (cases "q = p")
      case True
      have "p + sz \<le> length c"
        using sz(2) by (cases n) (auto split: if_splits)
      with True sz(1,3) pos le show ?thesis by auto
    next
      case False
      with Suc.prems(2) sz(3) have "q \<in> set qs" by simp
      from Suc.IH [OF sz(2) this] sz(3) le [OF this] show ?thesis by auto
    qed
  qed (use Suc.prems in \<open>auto split: if_splits\<close>)
qed (auto split: if_splits)

lemma check_code_wf:
  assumes "check_code c" "code_starts c = Some ps"
  shows "wf_code c (set ps)"
  unfolding wf_code_def
proof (intro conjI ballI)
  show "length c < 2 ^ 31" using assms(1) by (simp add: check_code_def)
  fix q assume q: "q \<in> set ps"
  from starts_bounds [OF assms(2)[unfolded code_starts_def] q] obtain sz where
    sz: "inst_size (c ! q) = Inr sz" "0 < sz" "q + sz \<le> length c" "\<forall>r \<in> set ps. q < r \<longrightarrow> q + sz \<le> r"
    by blast
  have "\<exists>t \<in> set ps. jump_dest c (q + sz) = Inr t" if "c ! q \<in> set jumps \<union> set cond_jumps"
  proof -
    have "list_all (\<lambda>q. c ! q \<in> set jumps \<union> set cond_jumps \<longrightarrow>
            (case inst_size (c ! q) of
               Inl _ \<Rightarrow> False
             | Inr sz \<Rightarrow> (case jump_dest c (q + sz) of Inl _ \<Rightarrow> False | Inr t \<Rightarrow> t \<in> set ps))) ps"
      using assms by (simp add: check_code_def)
    with q that have "case inst_size (c ! q) of Inl _ \<Rightarrow> False
        | Inr sz \<Rightarrow> (case jump_dest c (q + sz) of Inl _ \<Rightarrow> False | Inr t \<Rightarrow> t \<in> set ps)"
      unfolding list_all_iff by blast
    with sz(1) show ?thesis by (simp split: sum.splits)
  qed
  with sz show "\<exists>sz. inst_size (c ! q) = Inr sz \<and> 0 < sz \<and> q + sz \<le> length c \<and>
      (\<forall>r \<in> set ps. q < r \<longrightarrow> q + sz \<le> r) \<and>
      (c ! q \<in> set jumps \<union> set cond_jumps \<longrightarrow> (\<exists>t \<in> set ps. jump_dest c (q + sz) = Inr t))"
    by blast
qed

section \<open>Termination\<close>

text \<open>Where control lands somewhere, \<open>chase\<close> returns, the same from some fuel on.\<close>

lemma chase_total:
  assumes "lands c t x" "wf_code c S" "t \<in> S"
  shows "\<exists>k f0. \<forall>fuel \<ge> f0. chase fuel c t nc = Inr k"
  using assms
proof (induction rule: lands.induct)
  case (stop p)
  then have "chase (Suc f) c p nc = chase (Suc 0) c p nc " for f
    by auto
  then have "chase f c p nc = chase (Suc 0) c p nc" if "Suc 0 \<le> f" for f
    using that by (cases f) auto
  moreover obtain k where "chase (Suc 0) c p nc = Inr k"
    using stop by (cases "c ! p \<in> set terminators") auto
  ultimately show ?case by metis
next
  case (jump p u x)
  note sz = jump_sizes(1) [OF jump(2)]
  obtain v where "v \<in> S" "jump_dest c (p + 5) = Inr v"
    using wf_codeD(5) [OF jump.prems(1,2) sz] jump(2) by blast
  with jump obtain k f0 where k: "\<And>fuel. f0 \<le> fuel \<Longrightarrow> chase fuel c u nc = Inr k" by auto
  have "chase f c p nc = Inr k" if "Suc f0 \<le> f" for f
  proof -
    note le = that
    obtain g where g: "f = Suc g" "f0 \<le> g" using le by (cases f) auto
    with k [OF g(2)] jump(1-3) sz show ?thesis by (auto simp: jump_dest_def rbind_Inr_iff)
  qed
  then show ?case by blast
qed

lemma optimize_inst_total:
  assumes wf: "wf_code c S" and l: "\<And>q. q \<in> S \<Longrightarrow> \<exists>x. lands c q x"
    and p: "p \<in> S" and sz: "inst_size (c ! p) = Inr sz"
  shows "\<exists>c' f0. \<forall>fuel \<ge> f0. optimize_inst fuel c p (c ! p) sz = Inr c'"
proof (cases "c ! p \<in> set jumps \<union> set cond_jumps")
  case True
  note f = wf_codeD [OF wf p sz]
  have sz5: "5 \<le> sz" "c ! p \<in> set jumps \<Longrightarrow> sz = 5"
    using jump_sizes(1) [of "c ! p"] jump_sizes(2) [of "c ! p"] sz True by auto
  obtain t where t: "t \<in> S" "jump_dest c (p + sz) = Inr t" using f(5) True by blast
  define nc where "nc \<longleftrightarrow> c ! p \<in> set jumps"
  obtain x where "lands c t x" using l t(1) by blast
  from chase_total [OF this wf t(1), of nc] obtain k f0 where
    k: "\<And>fuel. f0 \<le> fuel \<Longrightarrow> chase fuel c t nc = Inr k" by blast
  then obtain d where d: "k = (if nc \<and> c ! d \<in> set terminators then InstK (c ! d) else Dest d)"
    using chase_lands [OF wf t(1)] by (metis order_refl)
  have "\<exists>c'. (case k of Dest dest \<Rightarrow> write_disp (p + sz) dest c
      | InstK i \<Rightarrow> if nc then fill 5 p i c else Inl Panic) = Inr c'"
  proof (cases k)
    case (Dest q)
    then show ?thesis using write_disp_ok [of "p + sz" c q] f(2) sz5 by simp
  next
    case (InstK i)
    then show ?thesis using fill_spec [of p 5 c i] f(2) sz5 d nc_def by (auto split: if_splits)
  qed
  then obtain c' where c': "(case k of Dest dest \<Rightarrow> write_disp (p + sz) dest c
      | InstK i \<Rightarrow> if nc then fill 5 p i c else Inl Panic) = Inr c'" by blast
  have "optimize_inst fuel c p (c ! p) sz = Inr c'" if "f0 \<le> fuel" for fuel
    using k [OF that] c' t(2) True
    by (cases k; cases nc) (auto simp: optimize_inst_def Let_def nc_def jump_sizes(3))
  then show ?thesis by blast
qed (auto simp: optimize_inst_def)

lemma optimize_loop_total:
  assumes "wf_code c S" "\<And>q. q \<in> S \<Longrightarrow> \<exists>x. lands c q x"
    "starts n c p = Some ps" "set ps \<subseteq> S"
  shows "\<exists>c' f0. \<forall>fuel \<ge> f0. optimize_loop fuel n c p = Inr c'"
  using assms
proof (induction n arbitrary: c p ps)
  case (Suc n)
  show ?case
  proof (cases "length c \<le> p")
    case False
    with Suc.prems(3) obtain sz qs where sz: "inst_size (c ! p) = Inr sz"
        "starts n c (p + sz) = Some qs" "ps = p # qs"
      by (auto split: sum.splits option.splits)
    have p: "p \<in> S" "set qs \<subseteq> S" using Suc.prems(4) sz(3) by auto
    from optimize_inst_total [OF Suc.prems(1,2) p(1) sz(1)] obtain c1 f1 where
      c1: "\<And>fuel. f1 \<le> fuel \<Longrightarrow> optimize_inst fuel c p (c ! p) sz = Inr c1" by blast
    have r: "rewritten c c1 S p sz"
      by (rule optimize_inst_rewrites [OF Suc.prems(1) p(1) sz(1) c1 [OF order_refl]])
    have s1: "starts n c1 (p + sz) = Some qs"
      using r sz(2) starts_cong [of c1 c "p + sz" n] by (simp add: rewritten_def)
    have "\<exists>x. lands c1 q x" if "q \<in> S" for q
      using rewritten_flow_eq [OF Suc.prems(1) r p(1) sz(1)] Suc.prems(2) [OF that] that
      unfolding flow_eq_def by blast
    from Suc.IH [OF rewritten_wf [OF Suc.prems(1) r p(1) sz(1)] this s1 p(2)] obtain c' f0 where
      c': "\<And>fuel. f0 \<le> fuel \<Longrightarrow> optimize_loop fuel n c1 (p + sz) = Inr c'" by blast
    have "optimize_loop fuel (Suc n) c p = Inr c'" if "max f0 f1 \<le> fuel" for fuel
      using c1 [of fuel] c' [of fuel] that False sz(1) by simp
    then show ?thesis by blast
  qed simp
qed simp

text \<open>Both, for code that was checked.\<close>

lemma optimize_flow:
  "check_code c \<Longrightarrow> code_starts c = Some ps \<Longrightarrow> optimize fuel c = Inr c' \<Longrightarrow>
     wf_code c' (set ps) \<and> flow_eq c c' (set ps)"
  unfolding optimize_def
  by (rule optimize_loop_flow [OF check_code_wf]) (auto simp: code_starts_def)

lemma optimize_total:
  "check_code c \<Longrightarrow> code_starts c = Some ps \<Longrightarrow> \<forall>q \<in> set ps. \<exists>x. lands c q x \<Longrightarrow>
     \<exists>c' f0. \<forall>fuel \<ge> f0. optimize fuel c = Inr c'"
  unfolding optimize_def
  by (rule optimize_loop_total [OF check_code_wf]) (auto simp: code_starts_def)

section \<open>The instructions of the optimized code\<close>

text \<open>The optimized code parses to its end too, through all starts of the original instructions: a
  jump that became a return is five instructions of one byte.\<close>

lemma starts_mono: "starts n c p = Some ps \<Longrightarrow> n \<le> m \<Longrightarrow> starts m c p = Some ps"
proof (induction n arbitrary: p ps m)
  case 0
  then show ?case by (cases m) (auto split: if_splits)
next
  case (Suc n)
  then obtain k where m: "m = Suc k" "n \<le> k" by (cases m) auto
  show ?case
  proof (cases "p < length c")
    case True
    with Suc.prems(1) obtain sz qs where "inst_size (c ! p) = Inr sz" "starts n c (p + sz) = Some qs"
        "ps = p # qs"
      by (auto split: sum.splits option.splits if_splits)
    with Suc.IH [of "p + sz" qs k] m True show ?thesis by simp
  qed (use Suc.prems(1) m in \<open>auto split: if_splits\<close>)
qed

lemma starts_length: "starts n c p = Some ps \<Longrightarrow> starts (length c - p) c p = Some ps"
proof (induction n arbitrary: p ps)
  case 0
  then show ?case by (auto split: if_splits)
next
  case (Suc n)
  show ?case
  proof (cases "p < length c")
    case True
    with Suc.prems obtain sz qs where sz: "inst_size (c ! p) = Inr sz" "starts n c (p + sz) = Some qs"
        "ps = p # qs"
      by (auto split: sum.splits option.splits if_splits)
    have "0 < sz" using sz(1) by (auto simp: inst_size_def split: if_splits)
    with True have l: "length c - p = Suc (length c - p - 1)" "length c - (p + sz) \<le> length c - p - 1"
      by linarith+
    from starts_mono [OF Suc.IH [OF sz(2)] l(2)] sz(1,3) True show ?thesis by (subst l(1)) simp
  qed (use Suc.prems in \<open>auto split: if_splits\<close>)
qed

lemma starts_ones:
  "\<lbrakk>\<forall>k < d. inst_size (c ! (p + k)) = Inr 1; p + d \<le> length c; starts n c (p + d) = Some qs\<rbrakk> \<Longrightarrow>
   \<exists>qs'. starts (d + n) c p = Some qs' \<and> set qs \<subseteq> set qs' \<and> (0 < d \<longrightarrow> p \<in> set qs')"
proof (induction d arbitrary: p)
  case (Suc d)
  have "\<forall>k < d. inst_size (c ! (Suc p + k)) = Inr 1"
  proof (intro allI impI)
    fix k assume "k < d"
    then show "inst_size (c ! (Suc p + k)) = Inr 1" using Suc.prems(1)[rule_format, of "Suc k"] by simp
  qed
  with Suc.IH [of "Suc p"] Suc.prems(2,3) obtain qs' where
    "starts (d + n) c (Suc p) = Some qs'" "set qs \<subseteq> set qs'" by auto
  with Suc.prems(1)[rule_format, of 0] Suc.prems(2) show ?case by auto
qed auto

lemma optimize_inst_parses:
  assumes wf: "wf_code c S" and p: "p \<in> S" and sz: "inst_size (c ! p) = Inr sz"
    and o: "optimize_inst fuel c p (c ! p) sz = Inr c'"
  shows "inst_size (c' ! p) = Inr sz \<or> (\<forall>k < sz. inst_size (c' ! (p + k)) = Inr 1)"
proof (cases "c' ! p = c ! p")
  case False
  have r: "rewritten c c' S p sz" by (rule optimize_inst_rewrites [OF wf p sz o])
  with False have j: "c ! p \<in> set jumps" and t: "c' ! p \<in> set terminators"
    by (auto simp: rewritten_def retargets_def split: if_splits)
  have 5: "sz = 5" using jump_sizes(1) [OF j] sz by simp
  have le: "p + 5 \<le> length c" using wf_codeD(2) [OF wf p sz] 5 by simp
  obtain k where k: "(case k of Dest dest \<Rightarrow> write_disp (p + sz) dest c | InstK t \<Rightarrow> fill 5 p t c) = Inr c'"
    using o j by (auto simp: optimize_inst_def Let_def rbind_Inr_iff)
  show ?thesis
  proof (cases k)
    case (Dest dest)
    obtain c2 where "write_disp (p + 5) dest c = Inr c2" "\<And>i. i < p + 5 - 4 \<or> p + 5 \<le> i \<Longrightarrow> c2 ! i = c ! i"
      by (rule write_disp_spec [of "p + 5" c dest]) (use le in simp_all)
    with k Dest False 5 show ?thesis by auto
  next
    case (InstK b)
    obtain c2 where "fill 5 p b c = Inr c2" "\<forall>k < 5. c2 ! (p + k) = b" using fill_spec [OF le] by metis
    with k InstK 5 have b: "\<forall>k < 5. c' ! (p + k) = b" by simp
    from b[rule_format, of 0] t have "inst_size b = Inr 1" using jump_sizes(4) by simp
    with b 5 show ?thesis by simp
  qed
qed (use sz in simp)

lemma optimize_loop_starts:
  "\<lbrakk>wf_code c S; starts n c p = Some ps; set ps \<subseteq> S; optimize_loop fuel n c p = Inr c'\<rbrakk> \<Longrightarrow>
   length c' = length c \<and> (\<forall>i < p. c' ! i = c ! i) \<and> (\<exists>m qs. starts m c' p = Some qs \<and> set ps \<subseteq> set qs)"
proof (induction n arbitrary: c p ps)
  case 0
  then show ?case by (auto intro!: exI [of _ 0])
next
  case (Suc n)
  show ?case
  proof (cases "length c \<le> p")
    case True
    with Suc.prems show ?thesis by (auto intro!: exI [of _ "Suc n"] split: if_splits)
  next
    case False
    with Suc.prems(2) obtain sz qs where sz: "inst_size (c ! p) = Inr sz"
        "starts n c (p + sz) = Some qs" "ps = p # qs"
      by (auto split: sum.splits option.splits)
    with False Suc.prems obtain c1 where c1: "optimize_inst fuel c p (c ! p) sz = Inr c1"
        "optimize_loop fuel n c1 (p + sz) = Inr c'"
      by (auto simp: Let_def rbind_Inr_iff)
    have p: "p \<in> S" "set qs \<subseteq> S" using Suc.prems(3) sz(3) by auto
    have r: "rewritten c c1 S p sz" by (rule optimize_inst_rewrites [OF Suc.prems(1) p(1) sz(1) c1(1)])
    have st: "starts n c1 (p + sz) = Some qs"
      using r sz(2) starts_cong [of c1 c "p + sz" n] by (auto simp: rewritten_def)
    from Suc.IH [OF rewritten_wf [OF Suc.prems(1) r p(1) sz(1)] st p(2) c1(2)]
    obtain m qs' where IH: "length c' = length c1" "\<forall>i < p + sz. c' ! i = c1 ! i"
      "starts m c' (p + sz) = Some qs'" "set qs \<subseteq> set qs'" by blast
    have len: "length c' = length c" "\<forall>i < p. c' ! i = c ! i" using IH(1,2) r by (auto simp: rewritten_def)
    have pos: "0 < sz" "p + sz \<le> length c" using wf_codeD(1,2) [OF Suc.prems(1) p(1) sz(1)] by auto
    consider "inst_size (c' ! p) = Inr sz" | "\<forall>k < sz. inst_size (c' ! (p + k)) = Inr 1"
      using optimize_inst_parses [OF Suc.prems(1) p(1) sz(1) c1(1)] IH(2) pos(1) by auto
    then have "\<exists>m qs. starts m c' p = Some qs \<and> set ps \<subseteq> set qs"
    proof cases
      case 1
      then have "starts (Suc m) c' p = Some (p # qs')" using False IH(3) len(1) by simp
      then show ?thesis using IH(4) sz(3) by (intro exI [of _ "Suc m"] exI [of _ "p # qs'"]) auto
    next
      case 2
      from starts_ones [OF 2 _ IH(3)] pos len(1) IH(4) sz(3) show ?thesis by fastforce
    qed
    with len show ?thesis by blast
  qed
qed

lemma optimize_starts:
  assumes "check_code c" "code_starts c = Some ps" "optimize fuel c = Inr c'"
  obtains qs where "code_starts c' = Some qs" "set ps \<subseteq> set qs"
proof -
  obtain m qs where "length c' = length c" "starts m c' 0 = Some qs" "set ps \<subseteq> set qs"
    using optimize_loop_starts [OF check_code_wf [OF assms(1,2)] assms(2)[unfolded code_starts_def] order_refl
        assms(3)[unfolded optimize_def]] by blast
  with starts_length [of m c' 0 qs] that show thesis by (simp add: code_starts_def)
qed

section \<open>Properties\<close>

text \<open>C8. Jump threading preserves the control flow: on code whose instructions parse to its end and
  whose jumps lead to instructions, the result of \<open>optimize\<close> has the same length, its instructions
  are where they were, from each of them control lands at the same place, and everything but the
  destinations of jumps (and jumps to a return, which become the return) is unchanged.\<close>

theorem optimize_preserves_flow:
  assumes "check_code c" "code_starts c = Some ps" "optimize fuel c = Inr c'"
  shows "wf_code c' (set ps) \<and> flow_eq c c' (set ps)"
  using assms by (rule optimize_flow)

text \<open>A jump to a jump to a return.\<close>

definition jump_chain :: code where
  "jump_chain = [I_JMP_F, 1, 0, 0, 0, I_PUSH_NIL, I_JMP, 0, 0, 0, 0, I_RETURN]"

lemma chain_sizes:
  "inst_size I_JMP_F = Inr 5" "inst_size I_PUSH_NIL = Inr 1" "inst_size I_JMP = Inr 5"
  "inst_size I_RETURN = Inr 1"
  by code_simp+

lemma chain_kinds:
  "I_JMP \<in> set jumps" "I_JMP_F \<notin> set jumps" "I_PUSH_NIL \<notin> set jumps" "I_RETURN \<notin> set jumps"
  "I_JMP_F \<in> set cond_jumps" "I_PUSH_NIL \<notin> set cond_jumps" "I_RETURN \<notin> set cond_jumps"
  "I_RETURN \<in> set terminators"
  by code_simp+

lemma chain_dests: "jump_dest jump_chain 5 = Inr 6" "jump_dest jump_chain 11 = Inr 11"
  by code_simp+

lemma jump_chain_nth:
  "jump_chain ! 0 = I_JMP_F" "jump_chain ! 5 = I_PUSH_NIL" "jump_chain ! 6 = I_JMP"
  "jump_chain ! 11 = I_RETURN" "length jump_chain = 12"
  by (simp_all add: jump_chain_def)

lemma jump_chain_starts: "code_starts jump_chain = Some [0, 5, 6, 11]"
  by code_simp

lemma jump_chain_check: "check_code jump_chain"
  by (simp add: check_code_def jump_chain_starts jump_chain_nth chain_sizes chain_kinds chain_dests)

theorem optimize_preserves_flow_witness:
  "\<exists>c'. optimize 12 jump_chain = Inr c' \<and> c' ! 6 = I_RETURN \<and>
     flow_eq jump_chain c' {0, 5, 6, 11}"
proof -
  have "optimize 12 jump_chain = Inr [I_JMP_F, 6, 0, 0, 0, I_PUSH_NIL,
      I_RETURN, I_RETURN, I_RETURN, I_RETURN, I_RETURN, I_RETURN]"
    by code_simp
  with optimize_preserves_flow [OF jump_chain_check jump_chain_starts] show ?thesis by simp
qed

text \<open>C9. The optimized code is still a sequence of whole instructions: it parses to its end, through the
  starts of all instructions of the original code. A jump that became a return is five returns of one
  byte, so what follows it is where it was.\<close>

theorem optimized_code_parses:
  assumes "check_code c" "code_starts c = Some ps" "optimize fuel c = Inr c'"
  shows "\<exists>qs. code_starts c' = Some qs \<and> set ps \<subseteq> set qs"
  by (rule optimize_starts [OF assms]) blast

theorem optimized_code_parses_witness:
  "\<exists>c' qs. optimize 12 jump_chain = Inr c' \<and> code_starts c' = Some qs \<and> {0, 5, 6, 11} \<subseteq> set qs"
proof -
  have "optimize 12 jump_chain = Inr [I_JMP_F, 6, 0, 0, 0, I_PUSH_NIL,
      I_RETURN, I_RETURN, I_RETURN, I_RETURN, I_RETURN, I_RETURN]"
    by code_simp
  with optimized_code_parses [OF jump_chain_check jump_chain_starts this] show ?thesis by auto
qed

text \<open>C25. The optimizer returns: when from every instruction control reaches one that is no jump (no
  cycle of jumps only, on which \<open>chase\<close> recurses for ever), some fuel gives a result and all more
  fuel gives the same.\<close>

theorem optimize_terminates:
  assumes "check_code c" "code_starts c = Some ps" "\<forall>q \<in> set ps. \<exists>x. lands c q x"
  shows "\<exists>c' f0. \<forall>fuel \<ge> f0. optimize fuel c = Inr c'"
  using assms by (rule optimize_total)

lemma jump_chain_lands: "q \<in> set [0, 5, 6, 11] \<Longrightarrow> \<exists>x. lands jump_chain q x"
proof -
  have s: "\<exists>x. lands jump_chain q x" if "q \<in> {0, 5, 11}" for q
    using that lands.stop [of q jump_chain] by (auto simp: jump_chain_nth chain_kinds)
  then obtain x where "lands jump_chain 11 x" by auto
  then have "lands jump_chain 6 x"
    by (intro lands.jump [of 6 jump_chain 11]) (simp_all add: jump_chain_nth chain_kinds chain_dests)
  with s show "q \<in> set [0, 5, 6, 11] \<Longrightarrow> \<exists>x. lands jump_chain q x" by auto
qed

theorem optimize_terminates_witness:
  "\<exists>c' f0. \<forall>fuel \<ge> f0. optimize fuel jump_chain = Inr c'"
  using optimize_terminates [OF jump_chain_check jump_chain_starts] jump_chain_lands by blast

end
