(* ===== verification/Flow.thy ===== *)
theory Flow
  imports Balance JumpThread
begin

text \<open>
  Where an instruction of the interpreter goes: the advance of the program counter agrees with the
  sizes of theory Inst and the jumps with theory JumpThread, so that execution stays on the
  boundaries of instructions. With it, running a context leaves the machine balanced.
\<close>

section \<open>Where a handler goes\<close>

type_synonym dispatch = "(val \<times> int) list list \<times> (i64 \<times> i64 \<times> int list) list"

definition here :: "nat \<Rightarrow> dispatch \<Rightarrow> 'm mach \<Rightarrow> bool" where
  "here p ts s \<longleftrightarrow>
     vm_pc (vm s) = p \<and> prefix (fst ts) (case_dispatch s) \<and> prefix (snd ts) (case_dispatch2 s)"

definition at_pc :: "nat \<Rightarrow> 'm mach \<Rightarrow> 'm mach" where
  "at_pc q s = s\<lparr>vm := (vm s)\<lparr>vm_pc := q\<rparr>\<rparr>"

text \<open>A handler run at \<open>p\<close> that goes on does so at a place of \<open>Q\<close>; any other outcome leaves the
  program counter where it was.\<close>

definition goes :: "nat \<Rightarrow> dispatch \<Rightarrow> nat set \<Rightarrow> 'm handler \<Rightarrow> bool" where
  "goes p ts Q f \<longleftrightarrow>
     (\<forall>s s' r. here p ts s \<longrightarrow> f s = (s', r) \<longrightarrow> \<not> stopped r \<longrightarrow>
        (if r = Inr Next then \<exists>q \<in> Q. evolves (at_pc q s) s' else evolves s s'))"

named_theorems going \<open>where handlers go\<close>

lemma evolves_here: "evolves s s' \<Longrightarrow> here p ts s \<Longrightarrow> here p ts s'"
  by (auto simp: evolves_def here_def shape_def intro: prefix_order.trans)

lemma evolves_at: "evolves s s' \<Longrightarrow> evolves (at_pc q s) (at_pc q s')"
  by (auto simp: evolves_def at_pc_def shape_def)

lemma evolves_at_trans: "evolves s s1 \<Longrightarrow> evolves (at_pc q s1) s' \<Longrightarrow> evolves (at_pc q s) s'"
  using evolves_at evolves_trans by blast

lemma evolves_at_self: "vm_pc (vm s) = q \<Longrightarrow> at_pc q s = s"
  by (simp add: at_pc_def)

lemma goes_bind [going]:
  assumes "settles f" "\<And>x. goes p ts Q (g x)"
  shows "goes p ts Q (bind f g)"
  unfolding goes_def
proof (intro allI impI)
  fix s s' r
  assume h: "here p ts s" and r: "bind f g s = (s', r)" "\<not> stopped r"
  obtain s1 q where q: "f s = (s1, q)" by fastforce
  show "if r = Inr Next then \<exists>q \<in> Q. evolves (at_pc q s) s' else evolves s s'"
  proof (cases q)
    case (Inl e)
    with q r settlesD [OF assms(1) q] show ?thesis by (auto simp: stopped_def)
  next
    case (Inr x)
    with q settlesD [OF assms(1) q] have e: "evolves s s1" by simp
    from q r Inr have "g x s1 = (s', r)" by simp
    with assms(2) [of x] evolves_here [OF e h] r(2) have
      "if r = Inr Next then \<exists>q \<in> Q. evolves (at_pc q s1) s' else evolves s1 s'"
      unfolding goes_def by blast
    with e show ?thesis by (auto split: if_splits intro: evolves_trans evolves_at_trans)
  qed
qed

lemma goes_operand [going]:
  assumes "\<And>x. rd c (p + k) = Inr x \<Longrightarrow> goes p ts Q (g x)"
  shows "goes p ts Q (bind (operand rd c k) g)"
  unfolding goes_def
proof (intro allI impI)
  fix s s' r
  assume h: "here p ts s" and r: "bind (operand rd c k) g s = (s', r)" "\<not> stopped r"
  show "if r = Inr Next then \<exists>q \<in> Q. evolves (at_pc q s) s' else evolves s s'"
  proof (cases "rd c (p + k)")
    case (Inl e)
    with h r show ?thesis by (auto simp: operand_def here_def bind_def)
  next
    case (Inr x)
    with h r have "g x s = (s', r)" by (simp add: operand_def here_def bind_def)
    with assms [OF Inr] h r(2) show ?thesis unfolding goes_def by blast
  qed
qed

lemma goes_on [going]: "p + k \<in> Q \<Longrightarrow> goes p ts Q (go_on k)"
  by (auto simp: goes_def go_on_def add_pc_def mod_vm_def here_def at_pc_def bind_def
      intro!: bexI [of _ "p + k"])

lemma goes_end [going]: "goes p ts Q (ret Leave)" "goes p ts Q (raise e)"
  by (auto simp: goes_def)

lemma goes_push_next [going]: "p + k \<in> Q \<Longrightarrow> goes p ts Q (push_next k v)"
  unfolding push_next_def by (intro going settling)

lemma goes_if [going]:
  "(b \<Longrightarrow> goes p ts Q f) \<Longrightarrow> (\<not> b \<Longrightarrow> goes p ts Q g) \<Longrightarrow> goes p ts Q (if b then f else g)"
  by simp

lemma goes_leave [going]: "goes p ts Q leave_method"
  unfolding leave_method_def by (intro going settling)

lemma goes_after:
  assumes "settles f" "f s = (s1, r1)" "\<not> stopped r1" "goes p ts Q g" "here p ts s" "g s1 = (s', r)"
    "\<not> stopped r"
  shows "if r = Inr Next then \<exists>q \<in> Q. evolves (at_pc q s) s' else evolves s s'"
proof -
  have e: "evolves s s1" by (rule settlesD [OF assms(1,2,3)])
  with assms(4-7) have "if r = Inr Next then \<exists>q \<in> Q. evolves (at_pc q s1) s' else evolves s1 s'"
    unfolding goes_def using evolves_here by blast
  with e show ?thesis by (auto split: if_splits intro: evolves_trans evolves_at_trans)
qed

lemma goes_try [going]:
  assumes "settles f" "p + k \<in> Q"
  shows "goes p ts Q (try_push k f)" "goes p ts Q (try_no_push k f)"
proof -
  have g: "goes p ts Q (go_on k)" "goes p ts Q (bind stack_pop (\<lambda>_. go_on k))"
    using assms(2) by (intro going settling; simp)+
  show "goes p ts Q (try_push k f)" "goes p ts Q (try_no_push k f)"
    unfolding goes_def try_push_def try_no_push_def
    by (auto split: prod.splits sum.splits fault.splits ruby_error.splits
        dest: settlesD [OF assms(1)] goes_after [OF assms(1) _ _ g(1)] goes_after [OF assms(1) _ _ g(2)]
          goes_after [OF assms(1) _ _ goes_leave])
qed

section \<open>The instructions\<close>

definition isize :: "u8 \<Rightarrow> nat" where
  "isize i = unwrap_or (inst_size i) 0"

lemma isizes:
  "isize I_PUSH_NIL = 1" "isize I_PUSH_TRUE = 1" "isize I_PUSH_FALSE = 1" "isize I_PUSH_SELF = 1"
  "isize I_PUSH_FIXNUM = 9" "isize I_PUSH_FLONUM = 9" "isize I_PUSH_SYMBOL = 5"
  "isize I_ADD = 1" "isize I_ADDI = 5" "isize I_SUB = 1" "isize I_SUBI = 5" "isize I_MUL = 1"
  "isize I_POW = 1" "isize I_DIV = 1" "isize I_REM = 1" "isize I_SHR = 1" "isize I_SHL = 1"
  "isize I_NEG = 1" "isize I_BAND = 1" "isize I_B_ANDI = 5" "isize I_BOR = 1" "isize I_B_ORI = 5"
  "isize I_BXOR = 1" "isize I_BNOT = 1" "isize I_EQ = 1" "isize I_EQI = 5" "isize I_NE = 1"
  "isize I_NEI = 5" "isize I_TEQ = 1" "isize I_GT = 1" "isize I_GTI = 5" "isize I_GE = 1"
  "isize I_GEI = 5" "isize I_LT = 1" "isize I_LTI = 5" "isize I_LE = 1" "isize I_LEI = 5"
  "isize I_CMP = 1" "isize I_NOT = 1"
  by code_simp+

lemma isizes2:
  "isize I_SET_LOCAL = 5" "isize I_GET_LOCAL = 5" "isize I_LVAR_ADDI = 9" "isize I_SET_DYNLOCAL = 9"
  "isize I_GET_DYNLOCAL = 9" "isize I_CHECK_LOCAL = 9" "isize I_SET_CONST = 5" "isize I_GET_CONST = 9"
  "isize I_GET_CONST_TOP = 5" "isize I_GET_SCOPE = 5" "isize I_SET_IVAR = 5" "isize I_GET_IVAR = 5"
  "isize I_CHECK_IVAR = 5" "isize I_IVAR_ADDI = 9" "isize I_SET_GVAR = 5" "isize I_GET_GVAR = 5"
  "isize I_CHECK_GVAR = 5" "isize I_SET_CVAR = 5" "isize I_GET_CVAR = 5" "isize I_SET_INDEX = 1"
  "isize I_GET_INDEX = 1" "isize I_SET_IDX_I = 5" "isize I_GET_IDX_I = 5" "isize I_SPLAT = 1"
  "isize I_CONST_VAL = 5" "isize I_CREATE_RANGE = 1" "isize I_CREATE_ARRAY = 5"
  "isize I_CREATE_PROC = 5" "isize I_CREATE_HASH = 5" "isize I_CREATE_REGEXP = 1"
  "isize I_RESCUE = 5" "isize I_CONCAT_STRING = 5" "isize I_TO_S = 1" "isize I_POP = 1"
  "isize I_DUP = 5" "isize I_SINKN = 5" "isize I_TOPN = 5" "isize I_TAKE = 5" "isize I_REP_UNINIT = 1"
  "isize I_SEND = 17" "isize I_SEND_SELF = 17" "isize I_OPT_SEND = 15" "isize I_OPT_NSEND = 15"
  "isize I_OPT_SEND_SELF = 15" "isize I_OPT_NSEND_SELF = 15" "isize I_FOR = 9" "isize I_YIELD = 5"
  "isize I_DEF_CLASS = 10" "isize I_DEF_SCLASS = 5" "isize I_DEF_METHOD = 9" "isize I_DEF_SMETHOD = 9"
  by code_simp+

text \<open>A table of handlers each of which goes on to the next instruction.\<close>

definition plain :: "(u8 \<times> 'm handler) list \<Rightarrow> bool" where
  "plain hs \<longleftrightarrow> (\<forall>(i, f) \<in> set hs. \<forall>p ts Q. p + isize i \<in> Q \<longrightarrow> goes p ts Q f)"

lemma plain_simps [simp]:
  "plain []" "plain ((i, f) # hs) \<longleftrightarrow> (\<forall>p ts Q. p + isize i \<in> Q \<longrightarrow> goes p ts Q f) \<and> plain hs"
  by (simp_all add: plain_def)

lemma goes_operators [going]:
  "(\<And>v w. settles (f v w)) \<Longrightarrow> p + 1 \<in> Q \<Longrightarrow> goes p ts Q (binary f)"
  "(\<And>v. settles (g v)) \<Longrightarrow> p + 1 \<in> Q \<Longrightarrow> goes p ts Q (unary g)"
  unfolding binary_def unary_def by (intro going settling; simp)+

lemma goes_immediate [going]:
  "(\<And>v i. settles (h v i)) \<Longrightarrow> p + 5 \<in> Q \<Longrightarrow> goes p ts Q (immediate c h)"
  unfolding immediate_def by (intro going settling; simp)

lemma goes_swapped [going]:
  "(\<And>v w. settles (f v w)) \<Longrightarrow> (\<And>x. goes p ts Q (k x)) \<Longrightarrow> goes p ts Q (swapped f k)"
  unfolding swapped_def by (intro going settling)

lemma settles_truth [settling]: "settles f \<Longrightarrow> settles (truth f)"
  unfolding truth_def by (intro settling)

lemma plain_push: "plain (push_insts M c v)"
  unfolding push_insts_def
  by (simp add: isizes, intro conjI allI impI; intro going settling; (erule packs_evolve)?; simp)

lemma plain_arith:
  assumes "env_settles E"
  shows "plain (arith_insts E c)"
  unfolding arith_insts_def
  by (simp add: isizes, intro conjI allI impI;
      intro going settles_arith settles_bitwise assms; simp)

lemma plain_compare:
  assumes "env_settles E"
  shows "plain (compare_insts n E c)"
  unfolding compare_insts_def
  by (simp add: isizes, intro conjI allI impI;
      intro going settling settles_compare settles_eval_eq settles_teq assms; simp)

lemma settles_variables [settling]:
  "settles (get_ivar v i)" "settles (set_ivar v i w)" "settles (get_lvar a k)" "settles (set_lvar a k w)"
  "settles (const_parent M v)"
  unfolding get_ivar_def set_ivar_def self_object_def get_lvar_def set_lvar_def const_parent_def
  by (intro settling; simp)+

lemma settles_addi:
  assumes "env_settles E"
  shows "settles (ivar_addi E v i n)" "settles (lvar_addi E k n)"
  unfolding ivar_addi_def lvar_addi_def by (intro settling settles_arith assms)+

lemma plain_local:
  assumes "env_settles E"
  shows "plain (local_insts E c)" "plain (ivar_insts E c v)"
  unfolding local_insts_def ivar_insts_def
  by (simp add: isizes2, intro conjI allI impI; intro going settling settles_addi assms; simp)+

lemma plain_const: "plain (const_insts M c)" "plain (global_insts M c)"
  unfolding const_insts_def global_insts_def
  by (simp add: isizes2, intro conjI allI impI; intro going settling; simp)+

lemma plain_index:
  assumes "\<forall>x. settles (run x)" "natives_settle M"
  shows "plain (index_insts M run c)"
  unfolding index_insts_def
  by (simp add: isizes2, intro conjI allI impI; intro going settles_index assms; simp)

lemma goes_string_insts [going]:
  "p + 5 \<in> Q \<Longrightarrow> goes p ts Q (rescue_inst M n)" "p + 5 \<in> Q \<Longrightarrow> goes p ts Q (concat_inst M n)"
  unfolding rescue_inst_def concat_inst_def by (intro going settling; simp)+

lemma plain_object:
  assumes "\<forall>x. settles (run x)" "natives_settle M"
  shows "plain (object_insts M run c)"
  unfolding object_insts_def
  by (simp add: isizes2, intro conjI allI impI;
      intro going settling settles_to_s(1,2) settles_to_s(3) [where run = run] assms;
      (erule packs_evolve)?; simp)

lemma settles_moves [settling]:
  "settles (push_all vs)" "settles (sink n)" "settles (take_top n)" "settles (take_inst n)"
  unfolding push_all_def sink_def take_top_def take_inst_def Let_def
  by (intro settling settles_mod_vm settles_kinds; simp add: shape_def)+

lemma plain_stack: "plain (stack_insts c)"
  unfolding stack_insts_def
  by (simp add: isizes2, intro conjI allI impI; intro going settling; simp)

section \<open>Sending\<close>

lemma settles_operand [settling]: "settles (operand rd c k)"
  unfolding operand_def by (intro settling)

lemma settles_pairs [settling]:
  "settles (hash_items v)" "settles (merge_pairs M r kvs)" "settles (merge_hashes M r hs)"
  "settles (add_pairs M kvs t)" "settles (collect_pairs M hs t)"
proof -
  show h: "settles (hash_items v)" for v
    unfolding hash_items_def by (intro settling)
  show m: "settles (merge_pairs M r kvs)" for kvs
    by (induction M r kvs rule: merge_pairs.induct)
      (auto intro!: settles_bind settles_basic settles_hashes simp del: eff_simps)
  show "settles (merge_hashes M r hs)"
    by (induction hs) (auto intro!: settles_bind settles_basic h m simp del: eff_simps)
  show a: "settles (add_pairs M kvs t)" for kvs t
    by (induction M kvs t rule: add_pairs.induct)
      (auto intro!: settles_bind settles_basic simp del: eff_simps)
  show "settles (collect_pairs M hs t)"
    by (induction hs arbitrary: t) (auto intro!: settles_bind settles_basic h a simp del: eff_simps)
qed

lemma settles_send_parts [settling]:
  "settles (keyword_args M b hs)" "settles (block_of k)" "settles (block_arg k b)"
  "settles (fast_args k n vs)"
  unfolding keyword_args_def block_of_def block_arg_def fast_args_def by (intro settling)+

lemma settles_sends:
  assumes "\<forall>x. settles (run x)" "natives_settle M"
  shows "settles (vm_send M run c v)" "settles (fast_ruby M run info k n vs v)"
    "settles (fast_invoke M run mi k n vs v)" "settles (vm_fast_send M run c v)"
    "settles (vm_for M run c v)"
  unfolding vm_send_def fast_ruby_def fast_invoke_def vm_fast_send_def vm_for_def Let_def
  by (intro settling settles_send settles_method_info settles_native settles_run_local assms)+

lemma plain_send:
  assumes "\<forall>x. settles (run x)" "natives_settle M"
  shows "plain (send_insts M run c v)"
  unfolding send_insts_def
  by (simp add: isizes2, intro conjI allI impI; intro going settling settles_sends settles_yield assms; simp)

section \<open>Definitions\<close>

lemma settles_define_info [settling]:
  "settles (set_class_defined mi cs)" "settles (inherit_class_defined M mi)"
proof -
  show s: "settles (set_class_defined mi cs)" for cs
    unfolding set_class_defined_def by (intro settling; simp)
  show "settles (inherit_class_defined M mi)"
    unfolding inherit_class_defined_def by (intro settling s)
qed

lemma set_class_defined_ok:
  "set_class_defined mi cs s = (s', Inl e) \<Longrightarrow> stopped (Inl e)"
  by (auto simp: set_class_defined_def as_iseq_def repo_get_def bind_def asks_def modify_def ret_def
      index_at_def info_as_iseq_def or_panic_def stopped_def
      split: sum.splits if_splits method_info.splits option.splits)

lemma class_pop_ok:
  "class_context (vm s) \<noteq> [] \<Longrightarrow> class_pop s =
     (s\<lparr>vm := (vm s)\<lparr>class_context := butlast (class_context (vm s))\<rparr>\<rparr>, Inr ())"
  by (simp add: class_pop_def mod_vm_def bind_def ask_vm_def asks_def modify_def)

text \<open>The stack of open classes is one longer while the body runs.\<close>

lemma class_body_call:
  assumes "settles f" "evolves (s\<lparr>vm := (vm s)\<lparr>class_context := class_context (vm s) @ [x]\<rparr>\<rparr>) s2"
    "and_then f class_pop s2 = (s4, r)" "\<not> stopped r"
  shows "evolves s s4"
proof -
  obtain s3 q where q: "f s2 = (s3, q)" by fastforce
  with assms(3,4) have "\<not> stopped q" by (auto simp: and_then_def stopped_def)
  with settlesD [OF assms(1) q] assms(2) have e:
    "evolves (s\<lparr>vm := (vm s)\<lparr>class_context := class_context (vm s) @ [x]\<rparr>\<rparr>) s3"
    by (blast intro: evolves_trans)
  then have "class_context (vm s3) \<noteq> []" by (auto simp: evolves_def shape_def)
  note pop = class_pop_ok [OF this]
  have "s4 = s3\<lparr>vm := (vm s3)\<lparr>class_context := butlast (class_context (vm s3))\<rparr>\<rparr>"
  proof (cases q)
    case (Inl e)
    with \<open>\<not> stopped q\<close> obtain e' where "q = Inl (Raise e')"
      by (cases e) (auto simp: stopped_def)
    with q assms(3) pop show ?thesis by (simp add: and_then_def bind_def raise_def)
  next
    case (Inr y)
    with q assms(3) pop show ?thesis by (simp add: and_then_def bind_def ret_def)
  qed
  with e show ?thesis by (simp add: evolves_def shape_def)
qed

lemma goes_class_body:
  assumes "\<forall>x. settles (run x)" "natives_settle M" "p + n \<in> Q"
  shows "goes p ts Q (class_body M run n mi c)"
  unfolding goes_def
proof (intro allI impI)
  fix s s' r
  assume h: "here p ts s" and r: "class_body M run n mi c s = (s', r)" "\<not> stopped r"
  let ?s1 = "s\<lparr>vm := (vm s)\<lparr>class_context := class_context (vm s) @ [(c, False)]\<rparr>\<rparr>"
  let ?g = "and_then (invoke_method M run mi c args_new0) class_pop"
  let ?cs = "map fst (class_context (vm ?s1))"
  obtain s2 q where q: "set_class_defined mi ?cs ?s1 = (s2, q)" by fastforce
  obtain s4 r4 where g: "?g s2 = (s4, r4)" by fastforce
  have body: "class_body M run n mi c s =
      bind (set_class_defined mi ?cs) (\<lambda>_. try_push n ?g) ?s1"
    by (simp add: class_body_def class_push_def get_class_defined_def mod_vm_def bind_def
        ask_vm_def asks_def modify_def ret_def)
  have ok: "q = Inr ()"
  proof (cases q)
    case (Inl e)
    with r q set_class_defined_ok [of mi ?cs ?s1 s2 e] body show ?thesis
      by (auto simp: bind_def stopped_def)
  qed simp
  with q settlesD [OF settles_define_info(1) q] have e2: "evolves ?s1 s2" by simp
  have t: "try_push n ?g s2 = (s', r)" using body r(1) q ok by (simp add: bind_def)
  define f where "f x = (if x = s then (s4, r4) else (x, Inl Panic))" for x
  have "settles f"
    using class_body_call [OF settles_invoke(2) [OF assms(1,2)] e2 g]
    by (auto simp: settles_def f_def split: if_splits)
  moreover have "try_push n f s = (s', r)" using t g by (simp add: try_push_def f_def)
  ultimately show "if r = Inr Next then \<exists>q \<in> Q. evolves (at_pc q s) s' else evolves s s'"
    using goes_try(1) [of f p n Q ts] assms(3) h r(2) unfolding goes_def by blast
qed

lemma plain_def_insts:
  assumes "\<forall>x. settles (run x)" "natives_settle M"
  shows "plain (def_insts M run c v)"
  unfolding def_insts_def
  by (simp add: isizes2, intro conjI allI impI; intro going settling goes_class_body assms; simp)

section \<open>Jumps\<close>

definition leaving :: "u8 list" where
  "leaving = [I_RETURN, I_BREAK, I_MRETURN, I_THROW]"

definition case_jumps :: "u8 list" where
  "case_jumps = [I_OPT_CASE, I_OPT_CASE2]"

text \<open>The displacements in the dispatch table of a \<open>case\<close>, and whether there is such a table.\<close>

definition table_disps :: "code \<Rightarrow> dispatch \<Rightarrow> nat \<Rightarrow> int list" where
  "table_disps c ts p =
     (case read32 c (p + 1) of
        Inl _ \<Rightarrow> []
      | Inr k \<Rightarrow>
          if c ! p = I_OPT_CASE then map snd (fst ts ! unat k)
          else if c ! p = I_OPT_CASE2 then snd (snd (snd ts ! unat k))
          else [])"

definition known :: "code \<Rightarrow> dispatch \<Rightarrow> nat \<Rightarrow> bool" where
  "known c ts p \<longleftrightarrow>
     (case read32 c (p + 1) of
        Inl _ \<Rightarrow> True
      | Inr k \<Rightarrow>
          (c ! p = I_OPT_CASE \<longrightarrow> unat k < length (fst ts)) \<and>
          (c ! p = I_OPT_CASE2 \<longrightarrow> unat k < length (snd ts)))"

text \<open>The places an instruction may go to.\<close>

definition succs :: "code \<Rightarrow> dispatch \<Rightarrow> nat \<Rightarrow> nat list" where
  "succs c ts p =
     (let i = c ! p; n = p + isize i in
      (if i \<in> set (jumps @ leaving @ case_jumps) then [] else [n]) @
      (if i \<in> set (jumps @ cond_jumps @ case_jumps)
       then (case jump_dest c n of Inl _ \<Rightarrow> [] | Inr t \<Rightarrow> [t]) else []) @
      map (pos_add n) (table_disps c ts p))"

definition allowed :: "code \<Rightarrow> dispatch \<Rightarrow> nat \<Rightarrow> nat set \<Rightarrow> bool" where
  "allowed c ts p Q \<longleftrightarrow> set (succs c ts p) \<subseteq> Q \<and> (Q = UNIV \<or> known c ts p)"

lemma allowed_next:
  assumes "allowed c ts p Q" "c ! p \<notin> set (jumps @ leaving @ case_jumps)"
  shows "p + isize (c ! p) \<in> Q"
proof -
  from assms(2) have "p + isize (c ! p) \<in> set (succs c ts p)"
    unfolding succs_def Let_def if_not_P [OF assms(2)] set_append by (intro UnI1) simp
  with assms(1) show ?thesis unfolding allowed_def by blast
qed

lemma allowed_dest:
  assumes "allowed c ts p Q" "c ! p \<in> set (jumps @ cond_jumps @ case_jumps)" "isize (c ! p) = k + 4"
    "read_disp c (p + k) = Inr d"
  shows "pos_add (p + (k + 4)) d \<in> Q"
proof -
  have "jump_dest c (p + isize (c ! p)) = Inr (pos_add (p + (k + 4)) d)"
    using assms(3,4) by (simp add: jump_dest_def)
  with assms(2) have "pos_add (p + (k + 4)) d \<in> set (succs c ts p)"
    unfolding succs_def Let_def by (simp only: if_True set_append) simp
  with assms(1) show ?thesis unfolding allowed_def by blast
qed

lemma allowed_table:
  assumes "allowed c ts p Q" "d \<in> set (table_disps c ts p)"
  shows "pos_add (p + isize (c ! p)) d \<in> Q"
proof -
  from assms(2) have "pos_add (p + isize (c ! p)) d \<in> set (succs c ts p)"
    unfolding succs_def Let_def set_append set_map by blast
  with assms(1) show ?thesis unfolding allowed_def by blast
qed

lemma goes_bind_at:
  assumes "settles f" "\<And>s s' x. here p ts s \<Longrightarrow> f s = (s', Inr x) \<Longrightarrow> goes p ts Q (g x)"
  shows "goes p ts Q (bind f g)"
proof -
  define g' where "g' x = (if \<exists>s s'. here p ts s \<and> f s = (s', Inr x) then g x else raise Panic)" for x
  have "goes p ts Q (g' x)" for x
    using assms(2) by (auto simp: g'_def intro: going)
  with assms(1) have "goes p ts Q (bind f g')" by (rule goes_bind)
  moreover have "bind f g s = bind f g' s" if "here p ts s" for s
    using that by (auto simp: bind_def g'_def split: prod.splits sum.splits)
  ultimately show ?thesis by (simp add: goes_def)
qed

lemma goes_jump [going]: "pos_add (p + k) d \<in> Q \<Longrightarrow> goes p ts Q (jump k d)"
  by (auto simp: goes_def jump_def jump_pc_def mod_vm_def here_def at_pc_def bind_def modify_def ret_def
      intro!: bexI [of _ "pos_add (p + k) d"])

lemma goes_branch:
  assumes "p + k \<in> Q" "\<And>d. read_disp c (p + j) = Inr d \<Longrightarrow> pos_add (p + k) d \<in> Q"
  shows "goes p ts Q (branch c k j b :: 'm handler)"
proof (cases b)
  case True
  then have "(branch c k j b :: 'm handler) = go_on k" by (simp add: branch_def jmp_cond_def go_on_def)
  with goes_on [OF assms(1), of ts] show ?thesis by (simp only:)
next
  case False
  have "(branch c k j b :: 'm handler) = bind (operand read_disp c j) (jump k)"
    using False by (simp add: branch_def jmp_cond_def operand_def jump_def fun_eq_iff bind_def
        split: prod.splits sum.splits)
  moreover have "goes p ts Q (bind (operand read_disp c j) (jump k) :: 'm handler)"
    by (intro going assms(2))
  ultimately show ?thesis by simp
qed

lemma goes_branch_if:
  assumes "p + 5 \<in> Q" "\<And>d. read_disp c (p + 1) = Inr d \<Longrightarrow> pos_add (p + 5) d \<in> Q"
    "\<And>v w. settles (f v w)"
  shows "goes p ts Q (branch_if c f)"
  unfolding branch_if_def by (intro going settling goes_branch assms)

lemma goes_branch_if_imm:
  assumes "p + 9 \<in> Q" "\<And>d. read_disp c (p + 5) = Inr d \<Longrightarrow> pos_add (p + 9) d \<in> Q"
    "\<And>v i. settles (f v i)"
  shows "goes p ts Q (branch_if_imm c f)"
  unfolding branch_if_imm_def by (intro going settling goes_branch assms)

lemma index_map_mem: "index_at (map f xs) k = Inr y \<Longrightarrow> y \<in> set (map f xs)"
  by (auto simp: index_at_def split: if_splits)

lemma prefix_index: "prefix xs ys \<Longrightarrow> k < length xs \<Longrightarrow> index_at ys k = Inr (xs ! k)"
  by (auto simp: prefix_def index_at_def nth_append)

lemma settles_case_disp [settling]: "settles (case_disp M c v)" "settles (case2_disp c v)"
  unfolding case_disp_def case2_disp_def by (intro settling settles_operand)+

lemma case_disp_known:
  assumes "here p ts s" "case_disp M c v s = (s', Inr d)" "c ! p = I_OPT_CASE" "known c ts p"
  shows "d \<in> set (table_disps c ts p) \<or> read_disp c (p + 5) = Inr d"
proof -
  obtain k where k: "read32 c (p + 1) = Inr k"
    using assms(1,2) by (cases "read32 c (p + 1)") (auto simp: case_disp_def operand_def here_def bind_def)
  with assms(3,4) have l: "unat k < length (fst ts)" by (simp add: known_def)
  with k assms(1,2) prefix_index [OF _ l, of "case_dispatch s"]
  have "bind (asks (\<lambda>s. find_value M (mem s) (map fst (fst ts ! unat k)) v)) (\<lambda>r.
      case r of Some j \<Rightarrow> asks (\<lambda>_. index_at (map snd (fst ts ! unat k)) j)
      | None \<Rightarrow> asks (\<lambda>s. read_disp c (vm_pc (vm s) + 5))) s = (s', Inr d)"
    by (simp add: case_disp_def operand_def here_def bind_def asks_def)
  with k assms(1,3) show ?thesis
    by (auto simp: bind_def asks_def operand_def here_def table_disps_def
        dest: index_map_mem split: sum.splits option.splits)
qed

lemma case2_disp_known:
  assumes "here p ts s" "case2_disp c v s = (s', Inr d)" "c ! p = I_OPT_CASE2" "known c ts p"
  shows "d \<in> set (table_disps c ts p) \<or> read_disp c (p + 5) = Inr d"
proof (cases "as_integer (mem s) v")
  case None
  with assms(1,2) show ?thesis by (simp add: case2_disp_def operand_def here_def bind_def asks_def split: sum.splits)
next
  case (Some i)
  obtain k where k: "read32 c (p + 1) = Inr k"
    using assms(1,2) Some
    by (cases "read32 c (p + 1)") (auto simp: case2_disp_def operand_def here_def bind_def asks_def)
  with assms(3,4) have l: "unat k < length (snd ts)" by (simp add: known_def)
  obtain lo hi t where t: "snd ts ! unat k = (lo, hi, t)" by (cases "snd ts ! unat k") auto
  have ne: "I_OPT_CASE2 \<noteq> I_OPT_CASE" by (simp add: opcode_defs)
  from k t assms(1,2) Some prefix_index [OF _ l, of "case_dispatch2 s"]
  have "(if lo \<le>s i \<and> i \<le>s hi then asks (\<lambda>_. index_at t (unat (i - lo)))
      else operand read_disp c 5) s = (s', Inr d)"
    by (simp add: case2_disp_def operand_def here_def bind_def asks_def)
  with k t ne assms(1,3) show ?thesis
    using index_map_mem [where f = "\<lambda>x. x"]
    by (auto simp: asks_def operand_def here_def table_disps_def split: if_splits sum.splits)
qed

lemma isizes3:
  "isize I_JMP = 5" "isize I_JMP_BACK = 5" "isize I_JMP_F = 5" "isize I_JMP_T = 5"
  "isize I_JMP_F_EQ = 5" "isize I_JMP_F_NE = 5" "isize I_JMP_F_GT = 5" "isize I_JMP_F_GE = 5"
  "isize I_JMP_F_LT = 5" "isize I_JMP_F_LE = 5" "isize I_JMP_F_EQI = 9" "isize I_JMP_F_NEI = 9"
  "isize I_JMP_F_GTI = 9" "isize I_JMP_F_GEI = 9" "isize I_JMP_F_LTI = 9" "isize I_JMP_F_LEI = 9"
  "isize I_OPT_CASE = 9" "isize I_OPT_CASE2 = 9"
  by code_simp+

lemma goes_case:
  assumes "allowed c ts p Q" "c ! p = I_OPT_CASE"
  shows "goes p ts Q (bind stack_pop (\<lambda>v. bind (case_disp M c v) (jump 9)) :: 'm handler)"
proof (rule goes_bind [OF settles_stack(4)], rule goes_bind_at [OF settles_case_disp(1)], rule goes_jump)
  fix v d and s s' :: "'m mach"
  assume "here p ts s" "case_disp M c v s = (s', Inr d)"
  moreover have "c ! p \<in> set (jumps @ cond_jumps @ case_jumps)"
    using assms(2) by (simp add: case_jumps_def)
  ultimately show "pos_add (p + 9) d \<in> Q"
    using case_disp_known [of p ts s M c v s' d] assms isizes3(17)
      allowed_table [OF assms(1)] allowed_dest [OF assms(1), of 5 d]
    by (cases "Q = UNIV") (auto simp: allowed_def)
qed

lemma goes_case2:
  assumes "allowed c ts p Q" "c ! p = I_OPT_CASE2"
  shows "goes p ts Q (bind stack_pop (\<lambda>v. bind (case2_disp c v) (jump 9)) :: 'm handler)"
proof (rule goes_bind [OF settles_stack(4)], rule goes_bind_at [OF settles_case_disp(2)], rule goes_jump)
  fix v d and s s' :: "'m mach"
  assume "here p ts s" "case2_disp c v s = (s', Inr d)"
  moreover have "c ! p \<in> set (jumps @ cond_jumps @ case_jumps)"
    using assms(2) by (simp add: case_jumps_def)
  ultimately show "pos_add (p + 9) d \<in> Q"
    using case2_disp_known [of p ts s c v s' d] assms isizes3(18)
      allowed_table [OF assms(1)] allowed_dest [OF assms(1), of 5 d]
    by (cases "Q = UNIV") (auto simp: allowed_def)
qed

section \<open>One step\<close>

definition jumping :: "code \<Rightarrow> (u8 \<times> 'm handler) list \<Rightarrow> bool" where
  "jumping c hs \<longleftrightarrow>
     (\<forall>(i, f) \<in> set hs. \<forall>p ts Q. c ! p = i \<longrightarrow> allowed c ts p Q \<longrightarrow> goes p ts Q f)"

lemma jumping_simps:
  "jumping c []"
  "jumping c ((i, f) # hs) \<longleftrightarrow>
     (\<forall>p ts Q. c ! p = i \<longrightarrow> allowed c ts p Q \<longrightarrow> goes p ts Q f) \<and> jumping c hs"
  "jumping c (hs @ hs') \<longleftrightarrow> jumping c hs \<and> jumping c hs'"
  unfolding jumping_def set_append ball_Un by simp_all

definition short_branches :: "u8 list" where
  "short_branches =
     [I_JMP_F, I_JMP_T, I_JMP_F_EQ, I_JMP_F_NE, I_JMP_F_GT, I_JMP_F_GE, I_JMP_F_LT, I_JMP_F_LE]"

definition long_branches :: "u8 list" where
  "long_branches = [I_JMP_F_EQI, I_JMP_F_NEI, I_JMP_F_GTI, I_JMP_F_GEI, I_JMP_F_LTI, I_JMP_F_LEI]"

lemma branch_table:
  "list_all (\<lambda>i. i \<in> set cond_jumps \<and> i \<notin> set (jumps @ leaving @ case_jumps) \<and> isize i = 5) short_branches"
  "list_all (\<lambda>i. i \<in> set cond_jumps \<and> i \<notin> set (jumps @ leaving @ case_jumps) \<and> isize i = 9) long_branches"
  by code_simp+

lemma allowed_branch:
  assumes "allowed c ts p Q"
  shows "c ! p \<in> set short_branches \<Longrightarrow> p + 5 \<in> Q"
    "c ! p \<in> set short_branches \<Longrightarrow> read_disp c (p + 1) = Inr d \<Longrightarrow> pos_add (p + 5) d \<in> Q"
    "c ! p \<in> set long_branches \<Longrightarrow> p + 9 \<in> Q"
    "c ! p \<in> set long_branches \<Longrightarrow> read_disp c (p + 5) = Inr d \<Longrightarrow> pos_add (p + 9) d \<in> Q"
    "c ! p \<in> set jumps \<Longrightarrow> read_disp c (p + 1) = Inr d \<Longrightarrow> pos_add (p + 5) d \<in> Q"
proof -
  show "p + 5 \<in> Q" if "c ! p \<in> set short_branches"
    using allowed_next [OF assms] branch_table(1) that by (simp add: list_all_iff)
  show "p + 9 \<in> Q" if "c ! p \<in> set long_branches"
    using allowed_next [OF assms] branch_table(2) that by (simp add: list_all_iff)
  show "pos_add (p + 5) d \<in> Q" if "c ! p \<in> set short_branches" "read_disp c (p + 1) = Inr d"
    using allowed_dest [OF assms, of 1 d] branch_table(1) that by (simp add: list_all_iff)
  show "pos_add (p + 9) d \<in> Q" if "c ! p \<in> set long_branches" "read_disp c (p + 5) = Inr d"
    using allowed_dest [OF assms, of 5 d] branch_table(2) that by (simp add: list_all_iff)
  show "pos_add (p + 5) d \<in> Q" if "c ! p \<in> set jumps" "read_disp c (p + 1) = Inr d"
  proof -
    have "isize (c ! p) = 1 + 4" using jump_sizes(1) [OF that(1)] by (simp add: isize_def unwrap_or_def)
    then show ?thesis using allowed_dest [OF assms, of 1 d] that by simp
  qed
qed

lemma jumping_jump_insts:
  assumes "env_settles E"
  shows "jumping c (jump_insts M E c)"
  unfolding jump_insts_def jumping_simps
  by (intro conjI allI impI jumping_simps(1);
      ((rule goes_case goes_case2; assumption)
       | (intro going settling goes_branch goes_branch_if goes_branch_if_imm settles_compare
            settles_eval_eq assms;
          (erule allowed_branch)?; simp add: short_branches_def long_branches_def jumps_def)))

lemma jumping_return_insts: "jumping c return_insts"
  unfolding return_insts_def jumping_simps by (intro conjI allI impI jumping_simps(1) going settling)

text \<open>The tables whose instructions go on to the next one hold no jump.\<close>

lemma plain_jumping:
  assumes "plain hs" "list_all (\<lambda>i. i \<notin> set (jumps @ leaving @ case_jumps)) (map fst hs)"
  shows "jumping c hs"
  unfolding jumping_def
proof (intro ballI, clarify)
  fix f p and ts :: dispatch and Q
  assume f: "(c ! p, f) \<in> set hs" and a: "allowed c ts p Q"
  then have "c ! p \<notin> set (jumps @ leaving @ case_jumps)"
    using assms(2) by (auto simp: list_all_iff)
  from allowed_next [OF a this] f assms(1) show "goes p ts Q f" unfolding plain_def by blast
qed

lemma jumping_handlers:
  assumes "\<forall>x. settles (run x)" "natives_settle M"
  shows "jumping c (handlers M run c v)"
proof -
  note e = settles_env [OF assms]
  note tables = push_insts_def arith_insts_def compare_insts_def local_insts_def const_insts_def
    ivar_insts_def global_insts_def index_insts_def object_insts_def stack_insts_def
    send_insts_def def_insts_def
  show ?thesis
    unfolding handlers_def Let_def jumping_simps
    by (intro conjI jumping_return_insts jumping_jump_insts e plain_jumping plain_push plain_arith
        plain_compare plain_local plain_const plain_index plain_object plain_stack plain_send
        plain_def_insts assms; simp add: tables jumps_def leaving_def case_jumps_def opcode_defs)
qed

lemma goes_step:
  assumes "\<forall>x. settles (run x)" "natives_settle M" "allowed c ts p Q"
  shows "goes p ts Q (step M run c v)"
proof -
  have "goes p ts Q (case map_of (handlers M run c v) i of Some f \<Rightarrow> f | None \<Rightarrow> raise (Raise Internal))"
    if "index_at c (p + 0) = Inr i" for i
  proof (cases "map_of (handlers M run c v) i")
    case None
    then show ?thesis by (simp add: going)
  next
    case (Some f)
    from that have "c ! p = i" by (auto simp: index_at_def split: if_splits)
    with map_of_SomeD [OF Some] jumping_handlers [OF assms(1,2), of c v] assms(3)
    have "goes p ts Q f" unfolding jumping_def by blast
    with Some show ?thesis by simp
  qed
  then show ?thesis unfolding step_def by (rule goes_operand)
qed

end
