(* ===== verification/Runs.thy ===== *)
theory Runs
  imports Flow
begin

text \<open>
  Running a context: \<open>run_context\<close> of src/vm/executor.rs leaves the machine balanced, whatever the
  code it runs, the exceptions it rescues and the contexts it runs inside. Then execution stays on
  the boundaries of instructions.
\<close>

section \<open>Runs are balanced\<close>

text \<open>As \<open>evolves\<close>, with \<open>k\<close> frames more and any program counter.\<close>

definition level :: "nat \<Rightarrow> 'm mach \<Rightarrow> 'm mach \<Rightarrow> bool" where
  "level k s s' \<longleftrightarrow>
     frames (vm s') = frames (vm s) + k \<and>
     length (class_context (vm s')) = length (class_context (vm s)) \<and>
     prefix (case_dispatch s) (case_dispatch s') \<and> prefix (case_dispatch2 s) (case_dispatch2 s')"

lemma evolves_level: "evolves s s' \<longleftrightarrow> level 0 s s' \<and> vm_pc (vm s') = vm_pc (vm s)"
  by (auto simp: evolves_def level_def shape_def frames_def)

lemma level_trans: "level k s s1 \<Longrightarrow> level 0 s1 s' \<Longrightarrow> level k s s'"
  by (auto simp: level_def intro: prefix_order.trans)

lemma level_at_pc: "level k (at_pc q s) s' \<longleftrightarrow> level k s s'" "level k s (at_pc q s') \<longleftrightarrow> level k s s'"
  by (simp_all add: level_def at_pc_def frames_def)

definition drifts :: "('m, 'a) meff \<Rightarrow> bool" where
  "drifts f \<longleftrightarrow> (\<forall>s s' r. f s = (s', r) \<longrightarrow> \<not> stopped r \<longrightarrow> level 0 s s')"

lemma driftsD: "drifts f \<Longrightarrow> f s = (s', r) \<Longrightarrow> \<not> stopped r \<Longrightarrow> level 0 s s'"
  by (auto simp: drifts_def)

lemma settles_drifts: "settles f \<Longrightarrow> drifts f"
  by (auto simp: settles_def drifts_def evolves_level)

lemma drifts_bind:
  assumes "drifts f" "\<And>x. drifts (g x)"
  shows "drifts (bind f g)"
  unfolding drifts_def
proof (intro allI impI)
  fix s s' r
  assume r: "bind f g s = (s', r)" "\<not> stopped r"
  obtain s1 q where q: "f s = (s1, q)" by fastforce
  show "level 0 s s'"
  proof (cases q)
    case (Inl e)
    with q r driftsD [OF assms(1) q] show ?thesis by (auto simp: stopped_def)
  next
    case (Inr x)
    with q r have "g x s1 = (s', r)" by simp
    with driftsD [OF assms(2) this r(2)] driftsD [OF assms(1) q] Inr show ?thesis
      by (auto intro: level_trans)
  qed
qed

lemma drifts_set_pc: "drifts (set_pc pc)"
  by (auto simp: drifts_def set_pc_def mod_vm_def modify_def level_def frames_def)

lemma goes_drifts: "(\<And>p. goes p ([], []) UNIV f) \<Longrightarrow> drifts f"
  unfolding drifts_def
proof (intro allI impI)
  fix s s' r
  assume g: "\<And>p. goes p ([], []) UNIV f" and r: "f s = (s', r)" "\<not> stopped r"
  have "here (vm_pc (vm s)) ([], []) s" by (simp add: here_def)
  with g r have "if r = Inr Next then \<exists>q \<in> UNIV. evolves (at_pc q s) s' else evolves s s'"
    unfolding goes_def by blast
  then show "level 0 s s'" by (auto simp: evolves_level level_at_pc split: if_splits)
qed

lemma drifts_exec_loop: "drifts f \<Longrightarrow> drifts (exec_loop n f)"
proof (induction n)
  case (Suc n)
  have "drifts (if r = Leave then ret () else exec_loop n f)" for r
    using Suc by (simp add: settles_drifts settles_basic)
  with Suc.prems show ?case by (simp add: drifts_bind)
qed (simp add: settles_drifts settles_basic)

lemma settles_copy_forvars [settling]: "settles (copy_forvars fs i)"
  by (induction fs i rule: copy_forvars.induct)
    (auto intro!: settles_bind settles_basic settles_outer settles_context settles_variables
      simp del: eff_simps)

lemma drifts_main:
  assumes "\<forall>x. settles (run x)" "natives_settle M"
  shows "drifts (run_context_main n M run)"
proof -
  have "drifts (step M run c v)" for c v
    by (rule goes_drifts) (rule goes_step [OF assms], simp add: allowed_def)
  note loop = drifts_exec_loop [OF this]
  show ?thesis
    unfolding run_context_main_def
    by (intro drifts_bind loop; (rule settles_drifts, intro settling))
qed

lemma settles_find_handler [settling]: "settles find_handler"
  unfolding find_handler_def by (intro settling)

lemma drifts_rescued: "drifts (rescued M len e h)"
  unfolding rescued_def
  by (intro drifts_bind drifts_set_pc; (rule settles_drifts, intro settling))

text \<open>The context that was pushed is popped, whatever the run did to it.\<close>

lemma pop_context_level:
  assumes "level 1 s0 s" "pop_context s = (s', r)"
  shows "stopped r \<or> (r = Inr () \<and> level 0 s0 s')"
proof (cases "cur_context (vm s)")
  case None
  with assms(2) show ?thesis
    by (auto simp: pop_context_def context_pop_def ask_vm_def asks_def ret_def bind_def or_panic_def)
next
  case (Some a)
  define w where "w = (if exec_context (vm s) = [] then (vm s)\<lparr>cur_context := None\<rparr>
      else (vm s)\<lparr>cur_context := Some (last (exec_context (vm s))),
        exec_context := butlast (exec_context (vm s))\<rparr>)"
  have "context_pop s = (s\<lparr>vm := w\<rparr>, Inr (Some a))"
    using Some by (simp add: context_pop_def ask_vm_def asks_def ret_def bind_def mod_vm_def
        modify_def w_def)
  then have "s' = s\<lparr>vm := w\<rparr>" "r = Inr ()"
    using assms(2) by (simp_all add: pop_context_def bind_def asks_def or_panic_def)
  moreover have "frames w + 1 = frames (vm s)" "class_context w = class_context (vm s)"
    using Some by (auto simp: w_def frames_def)
  ultimately show ?thesis using assms(1) by (simp add: level_def)
qed

lemma level_set_pc:
  "level 0 s0 s \<Longrightarrow> set_pc (vm_pc (vm s0)) s = (s', r) \<Longrightarrow> evolves s0 s'"
  by (auto simp: set_pc_def mod_vm_def modify_def evolves_level level_def frames_def)

text \<open>What ends a run: the context is popped, then \<open>f\<close> puts the program counter back.\<close>

lemma pop_then:
  assumes "level 1 s0 s" "bind pop_context (\<lambda>_. f) s = (s', r)" "\<not> stopped r"
    "\<And>s1. level 0 s0 s1 \<Longrightarrow> f s1 = (s', r) \<Longrightarrow> evolves s0 s'"
  shows "evolves s0 s'"
proof -
  obtain s1 q where q: "pop_context s = (s1, q)" by fastforce
  from pop_context_level [OF assms(1) q] show ?thesis
  proof
    assume "stopped q"
    with q assms(2,3) show ?thesis by (auto simp: stopped_def)
  next
    assume "q = Inr () \<and> level 0 s0 s1"
    with q assms(2) show ?thesis by (intro assms(4)) simp_all
  qed
qed

lemma finish_balanced:
  assumes "level 1 s0 s" "finish (vm_pc (vm s0)) s = (s', r)" "\<not> stopped r"
  shows "evolves s0 s'"
  using assms unfolding finish_def by (rule pop_then) (auto dest: level_set_pc)

text \<open>Operations that return or stop the program, but never raise a Ruby error.\<close>

named_theorems calming \<open>results and operations that raise no Ruby error\<close>

definition calm :: "'a res \<Rightarrow> bool" where
  "calm r \<longleftrightarrow> (\<forall>e. r \<noteq> Inl (Raise e))"

definition sure :: "('m, 'a) meff \<Rightarrow> bool" where
  "sure f \<longleftrightarrow> (\<forall>s. calm (snd (f s)))"

lemma calm_results [calming]:
  "calm (Inr x)" "calm (Inl Panic)" "calm (Inl Undef)" "calm (or_panic u)" "calm (load m a)"
  "calm (index_at xs i)" "calm (value_from v)"
  by (auto simp: calm_def or_panic_def load_def index_at_def value_from_def split: option.splits)

lemma calm_rbind [calming]: "calm r \<Longrightarrow> (\<And>x. calm (f x)) \<Longrightarrow> calm (rbind r f)"
  by (cases r) (auto simp: calm_def)

lemma calm_if [calming]: "calm r \<Longrightarrow> calm q \<Longrightarrow> calm (if b then r else q)"
  by simp

lemma calm_prod [calming]: "(\<And>x y. calm (f x y)) \<Longrightarrow> calm (case p of (x, y) \<Rightarrow> f x y)"
  by (cases p) simp

lemma sure_basic [calming]: "sure (ret x)" "sure (modify g)" "sure (ask_vm h)"
  by (simp_all add: sure_def ret_def modify_def ask_vm_def asks_def calm_def)

lemma sure_asks [calming]: "(\<And>s. calm (f s)) \<Longrightarrow> sure (asks f)"
  by (simp add: sure_def asks_def)

lemma sure_steps [calming]: "(\<And>s. calm (f s)) \<Longrightarrow> sure (steps f)"
  by (auto simp: sure_def steps_def calm_def split: sum.splits prod.splits)

lemma sure_bind [calming]: "sure f \<Longrightarrow> (\<And>x. sure (g x)) \<Longrightarrow> sure (bind f g)"
  by (auto simp: sure_def bind_def calm_def split: prod.splits sum.splits)
     (metis snd_conv)+

lemma sure_option [calming]:
  "sure f \<Longrightarrow> (\<And>x. sure (g x)) \<Longrightarrow> sure (case u of None \<Rightarrow> f | Some x \<Rightarrow> g x)"
  by (cases u) simp_all

definition ends_at :: "nat \<Rightarrow> ('m, 'a) meff \<Rightarrow> bool" where
  "ends_at pc f \<longleftrightarrow> (\<forall>s0 s s' r. level 0 s0 s \<longrightarrow> vm_pc (vm s0) = pc \<longrightarrow> f s = (s', r) \<longrightarrow>
     \<not> stopped r \<longrightarrow> evolves s0 s')"

lemma ends_set_pc: "ends_at pc (set_pc pc)" "ends_at pc (bind (set_pc pc) (\<lambda>_. raise e))"
  using level_set_pc
  by (fastforce simp: ends_at_def set_pc_def mod_vm_def modify_def bind_def raise_def)+

lemma ends_bind:
  assumes "drifts f" "sure f" "\<And>x. ends_at pc (g x)"
  shows "ends_at pc (bind f g)"
  unfolding ends_at_def
proof (intro allI impI)
  fix s0 s s' r
  assume l: "level 0 s0 s" "vm_pc (vm s0) = pc" and r: "bind f g s = (s', r)" "\<not> stopped r"
  obtain s1 q where q: "f s = (s1, q)" by fastforce
  show "evolves s0 s'"
  proof (cases q)
    case (Inl e)
    with q r assms(2) have "calm r" by (auto simp: sure_def calm_def bind_def) (metis snd_conv)
    moreover have "r = Inl e" using Inl q r(1) by (simp add: bind_def)
    ultimately show ?thesis using r(2) by (cases e) (auto simp: calm_def stopped_def)
  next
    case (Inr x)
    with q r have "g x s1 = (s', r)" by simp
    moreover from driftsD [OF assms(1) q] Inr l(1) have "level 0 s0 s1" by (auto intro: level_trans)
    ultimately show ?thesis using assms(3) l(2) r(2) unfolding ends_at_def by blast
  qed
qed

lemma popped:
  assumes "level 1 s0 s" "ends_at (vm_pc (vm s0)) f" "bind pop_context (\<lambda>_. f) s = (s', r)"
    "\<not> stopped r"
  shows "evolves s0 s'"
  using assms(1,3,4) by (rule pop_then) (use assms(2,4) in \<open>auto simp: ends_at_def\<close>)

lemma sure_stack [calming]:
  "sure (stack_push v)" "sure stack_pop" "sure (set_stack_len k)" "sure (set_pc pc)"
  "sure current_iseq" "sure find_handler"
proof -
  show p: "sure (stack_push v)" "sure (set_stack_len k)" "sure (set_pc pc)" for v k pc
    unfolding stack_push_def set_stack_len_def set_pc_def mod_vm_def by (intro calming)+
  show "sure stack_pop"
    unfolding stack_pop_def stack_top_def mod_vm_def by (intro calming)
  show i: "sure current_iseq"
    unfolding current_iseq_def current_ctx_def current_addr_def load_ctx_def ctx_iseq_def
    by (intro calming)
  show "sure find_handler" unfolding find_handler_def by (intro calming i)
qed

lemma calm_pack [calming]: "calm (rvalue_pack alloc h r)"
  unfolding rvalue_pack_def alloc_def alloc_bump_def pop_free_page_def alloc_page_def Let_def
  by (intro calming calm_rbind; auto intro: calming split: option.splits)

lemma sure_exception [calming]: "sure (to_exception_val M e)"
proof -
  have t: "sure (toplevel_class M n)" for n
    unfolding toplevel_class_def module_get_const_def ext_of_def cinfo_def as_class_def
    by (intro calming)
  have s: "sure (new_strings M xs acc)" for xs acc
    by (induction xs arbitrary: acc) (auto simp: new_string_def intro!: calming simp del: eff_simps)
  have n: "sure (new_exception M c e)" for c e
    unfolding new_exception_def Let_def new_string_def new_array_def array_from_def
    by (intro calming s)
  show ?thesis
    unfolding to_exception_val_def
    by (cases e) (auto intro!: calming n t simp del: eff_simps)
qed

lemma sure_rescued: "sure (rescued M len e h)"
  unfolding rescued_def by (intro calming)

lemma ends_parts:
  "ends_at pc (bind stack_pop (\<lambda>v. bind (set_stack_len len) (\<lambda>_. bind (stack_push v) (\<lambda>_.
     bind (set_pc pc) (\<lambda>_. raise e)))))"
  "ends_at pc (bind (set_stack_len len) (\<lambda>_. bind (set_pc pc) (\<lambda>_. raise e)))"
  by (intro ends_bind ends_set_pc settles_drifts settles_stack sure_stack)+

lemma sure_then:
  assumes "sure f" "drifts f" "level 1 s0 s" "bind f g s = (s', r)" "\<not> stopped r"
    "\<And>x s1. level 1 s0 s1 \<Longrightarrow> g x s1 = (s', r) \<Longrightarrow> evolves s0 s'"
  shows "evolves s0 s'"
proof -
  obtain s1 q where q: "f s = (s1, q)" by fastforce
  show ?thesis
  proof (cases q)
    case (Inl e)
    then have "r = Inl e" using q assms(4) by (simp add: bind_def)
    moreover have "calm q" using assms(1) q by (auto simp: sure_def) (metis snd_conv)
    ultimately show ?thesis using Inl assms(5) by (cases e) (auto simp: calm_def)
  next
    case (Inr x)
    with driftsD [OF assms(2) q] assms(3) have "level 1 s0 s1" by (auto intro: level_trans)
    moreover have "g x s1 = (s', r)" using Inr q assms(4) by simp
    ultimately show ?thesis by (rule assms(6))
  qed
qed

lemma run_loop_balanced:
  assumes "drifts main" "level 1 s0 s" "run_loop n M main len (vm_pc (vm s0)) s = (s', r)"
    "\<not> stopped r"
  shows "evolves s0 s'"
  using assms(2,3)
proof (induction n arbitrary: s)
  case 0
  then show ?case using assms(4) by (auto simp: raise_def)
next
  case (Suc n)
  obtain s1 q where q: "main s = (s1, q)" by fastforce
  note run = Suc.prems(2) [simplified, unfolded q, simplified]
  have l: "level 1 s0 s1" if "\<not> stopped q"
    using driftsD [OF assms(1) q that] Suc.prems(1) by (rule level_trans [rotated])
  show ?case
  proof (cases q)
    case (Inr x)
    with run l assms(4) show ?thesis by (auto intro: finish_balanced)
  next
    case (Inl f)
    show ?thesis
    proof (cases f)
      case (Raise e)
      then have l: "level 1 s0 s1" using l Inl by simp
      note run = run [unfolded Inl Raise, simplified]
      consider "e = BlockReturn \<or> e = MethodReturn" | "e = Internal"
        | "\<not> (e = BlockReturn \<or> e = MethodReturn)" "e \<noteq> Internal" by blast
      then show ?thesis
      proof cases
        case 1
        with run have "unwind len (vm_pc (vm s0)) e s1 = (s', r)" by auto
        then show ?thesis using popped [OF l ends_parts(1)] assms(4) unfolding unwind_def by blast
      next
        case 2
        with run assms(4) show ?thesis by (auto simp: raise_def)
      next
        case 3
        with run have h: "bind find_handler (\<lambda>h. case h of
            Some h \<Rightarrow> bind (rescued M len e h) (\<lambda>_. run_loop n M main len (vm_pc (vm s0)))
          | None \<Rightarrow> abandon len (vm_pc (vm s0)) e) s1 = (s', r)" by simp
        show ?thesis
        proof (rule sure_then [OF sure_stack(6) settles_drifts [OF settles_find_handler] l h assms(4)])
          fix h s2
          assume l2: "level 1 s0 s2" and g: "(case h of
              Some h \<Rightarrow> bind (rescued M len e h) (\<lambda>_. run_loop n M main len (vm_pc (vm s0)))
            | None \<Rightarrow> abandon len (vm_pc (vm s0)) e) s2 = (s', r)"
          show "evolves s0 s'"
          proof (cases h)
            case None
            with g have "abandon len (vm_pc (vm s0)) e s2 = (s', r)" by simp
            then show ?thesis using popped [OF l2 ends_parts(2)] assms(4) unfolding abandon_def by blast
          next
            case (Some x)
            with g have "bind (rescued M len e x) (\<lambda>_. run_loop n M main len (vm_pc (vm s0))) s2 = (s', r)"
              by simp
            from sure_then [OF sure_rescued drifts_rescued l2 this assms(4)] Suc.IH show ?thesis by blast
          qed
        qed
      qed
    qed (use run Inl assms(4) in auto)
  qed
qed

lemma run_context_settles:
  assumes "natives_settle M"
  shows "settles (run_context n M a)"
proof (induction n arbitrary: a)
  case (Suc n)
  show ?case
  proof (rule settlesI)
    fix s s' r
    assume r: "run_context (Suc n) M a s = (s', r)" "\<not> stopped r"
    define s2 where "s2 = s\<lparr>vm := (case cur_context (vm s) of
       Some c \<Rightarrow> (vm s)\<lparr>exec_context := exec_context (vm s) @ [c], cur_context := Some a\<rparr>
     | None \<Rightarrow> (vm s)\<lparr>cur_context := Some a\<rparr>)\<lparr>vm_pc := 0\<rparr>\<rparr>"
    have "level 1 s s2"
      by (simp add: level_def s2_def frames_def split: option.splits)
    moreover have "run_loop n M (run_context_main n M (run_context n M)) (length (exec_stack (vm s)))
        (vm_pc (vm s)) s2 = (s', r)"
      using r(1) by (simp add: s2_def stack_len_def ask_vm_def asks_def context_push_def set_pc_def
          mod_vm_def modify_def bind_def)
    ultimately show "evolves s s'"
      using run_loop_balanced [OF drifts_main [OF _ assms]] Suc.IH r(2) by blast
  qed
qed (simp add: settles_basic)

end
