(* ===== verification/ContextFacts.thy ===== *)
theory ContextFacts
  imports Contexts
begin

text \<open>
  Facts about contexts: the two parts of the local variables are one list, and what the binding of
  arguments puts where.
\<close>

section \<open>The local variables as one list\<close>

definition locals :: "ruby_context \<Rightarrow> val list" where
  "locals c = lvar_ary c @ lvar_vec c"

definition wf_frame :: "ruby_context \<Rightarrow> bool" where
  "wf_frame c \<longleftrightarrow> length (lvar_ary c) = LVAR_ARRAY_SIZE"

lemma wf_context_new: "wf_frame (context_new self b iseq out)"
  by (simp add: wf_frame_def context_new_def)

lemma locals_context_new:
  "locals (context_new self b iseq out) = replicate (max LVAR_ARRAY_SIZE (lvars iseq)) UNINITIALIZED"
  by (simp add: locals_def context_new_def replicate_add [symmetric])

lemma ctx_get_locals: "wf_frame c \<Longrightarrow> ctx_get c i = index_at (locals c) i"
  by (auto simp: ctx_get_def index_at_def locals_def wf_frame_def nth_append)

lemma ctx_set_locals:
  assumes "wf_frame c"
  shows "map_sum id locals (ctx_set c i v) = put_nth (locals c) i v"
    and "ctx_set c i v = Inr c' \<Longrightarrow> wf_frame c'"
  using assms
  by (auto simp: ctx_set_def put_nth_def locals_def wf_frame_def list_update_append split: if_splits)

lemma copy_split:
  assumes "length xs = n" "a < n" "n < a + length vs"
  shows "rbind (copy_slice xs a n (take (n - a) vs)) (\<lambda>p.
           rbind (copy_slice ys 0 (a + length vs - n) (drop (n - a) vs)) (\<lambda>q. Inr (p @ q))) =
         copy_slice (xs @ ys) a (a + length vs) vs"
  using assms by (auto simp: copy_slice_def)

lemma copy_from_slice_locals:
  assumes "wf_frame c"
  shows "map_sum id locals (copy_from_slice c i vs) = copy_slice (locals c) i (i + length vs) vs"
    and "copy_from_slice c i vs = Inr c' \<Longrightarrow> wf_frame c'"
proof -
  let ?n = LVAR_ARRAY_SIZE
  show "copy_from_slice c i vs = Inr c' \<Longrightarrow> wf_frame c'"
    using assms
    by (auto simp: copy_from_slice_def copy_slice_def wf_frame_def Let_def rbind_Inr_iff split: if_splits)
  consider "i + length vs \<le> ?n" | "?n < i + length vs" "?n \<le> i" | "?n < i + length vs" "i < ?n"
    by linarith
  then show "map_sum id locals (copy_from_slice c i vs) = copy_slice (locals c) i (i + length vs) vs"
  proof cases
    case 1
    with assms show ?thesis
      by (auto simp: copy_from_slice_def copy_slice_def locals_def wf_frame_def Let_def)
  next
    case 2
    with assms show ?thesis
      by (auto simp: copy_from_slice_def copy_slice_def locals_def wf_frame_def Let_def)
  next
    case 3
    with assms copy_split [of "lvar_ary c" ?n i vs "lvar_vec c"] show ?thesis
      by (auto simp: copy_from_slice_def copy_slice_def locals_def wf_frame_def Let_def split: if_splits)
  qed
qed

lemma copy_from_slice0_locals:
  assumes "wf_frame c"
  shows "map_sum id locals (copy_from_slice0 c vs) = copy_slice (locals c) 0 (length vs) vs"
    and "copy_from_slice0 c vs = Inr c' \<Longrightarrow> wf_frame c'"
  using assms
  by (auto simp: copy_from_slice0_def copy_slice_def locals_def wf_frame_def Let_def rbind_Inr_iff
      split: if_splits)

text \<open>What an update of the locals does, position by position.\<close>

definition writes :: "ruby_context \<Rightarrow> (nat \<Rightarrow> val option) \<Rightarrow> ruby_context \<Rightarrow> bool" where
  "writes c f c' \<longleftrightarrow>
     wf_frame c' \<and> length (locals c') = length (locals c) \<and>
     (\<forall>k < length (locals c). locals c' ! k = (case f k of Some v \<Rightarrow> v | None \<Rightarrow> locals c ! k))"

lemma writes_same: "wf_frame c \<Longrightarrow> (\<And>k. f k = None) \<Longrightarrow> writes c f c"
  by (simp add: writes_def)

lemma writes_cong: "writes c f c' \<Longrightarrow> (\<And>k. g k = f k) \<Longrightarrow> writes c g c'"
  by (simp add: writes_def)

lemma writes_trans:
  "writes c f c1 \<Longrightarrow> writes c1 g c2 \<Longrightarrow> writes c (f ++ g) c2"
  by (auto simp: writes_def map_add_def split: option.splits)

lemma map_sum_InrD: "map_sum id f r = Inr y \<Longrightarrow> \<exists>x. r = Inr x \<and> f x = y"
  by (cases r) auto

lemma ctx_set_writes:
  assumes "wf_frame c" "i < length (locals c)"
  shows "\<exists>c'. ctx_set c i v = Inr c' \<and> writes c [i \<mapsto> v] c'"
proof -
  have "map_sum id locals (ctx_set c i v) = Inr ((locals c)[i := v])"
    using assms by (simp add: ctx_set_locals(1) put_nth_def)
  from map_sum_InrD [OF this] obtain c' where "ctx_set c i v = Inr c'" "locals c' = (locals c)[i := v]"
    by blast
  with ctx_set_locals(2) [OF assms(1)] show ?thesis by (auto simp: writes_def nth_list_update)
qed

lemma copy_from_slice_writes:
  assumes "wf_frame c" "i + length vs \<le> length (locals c)"
  shows "\<exists>c'. copy_from_slice c i vs = Inr c' \<and>
    writes c (\<lambda>k. if i \<le> k \<and> k < i + length vs then Some (vs ! (k - i)) else None) c'"
proof -
  have "map_sum id locals (copy_from_slice c i vs) =
      Inr (take i (locals c) @ vs @ drop (i + length vs) (locals c))"
    using assms by (simp add: copy_from_slice_locals(1) copy_slice_def)
  from map_sum_InrD [OF this] obtain c' where c': "copy_from_slice c i vs = Inr c'"
    "locals c' = take i (locals c) @ vs @ drop (i + length vs) (locals c)" by blast
  with assms copy_from_slice_locals(2) [OF assms(1) c'(1)] show ?thesis
    by (auto simp: writes_def nth_append min_def)
qed

lemma copy_from_slice0_writes:
  assumes "wf_frame c" "length vs \<le> length (locals c)"
  shows "\<exists>c'. copy_from_slice0 c vs = Inr c' \<and>
    writes c (\<lambda>k. if k < length vs then Some (vs ! k) else None) c'"
proof -
  have "map_sum id locals (copy_from_slice0 c vs) = Inr (vs @ drop (length vs) (locals c))"
    using assms by (simp add: copy_from_slice0_locals(1) copy_slice_def)
  from map_sum_InrD [OF this] obtain c' where c': "copy_from_slice0 c vs = Inr c'"
    "locals c' = vs @ drop (length vs) (locals c)" by blast
  with assms copy_from_slice0_locals(2) [OF assms(1) c'(1)] show ?thesis
    by (auto simp: writes_def nth_append)
qed

lemma ctx_fill_writes:
  assumes "wf_frame c" "b \<le> length (locals c)"
  shows "\<exists>c'. ctx_fill c [a..<b] v = Inr c' \<and>
    writes c (\<lambda>k. if a \<le> k \<and> k < b then Some v else None) c'"
  using assms
proof (induction "b - a" arbitrary: a c)
  case 0
  then show ?case by (auto simp: writes_def)
next
  case (Suc n)
  then have ab: "a < b" by simp
  then obtain c1 where c1: "ctx_set c a v = Inr c1" "writes c [a \<mapsto> v] c1"
    using ctx_set_writes [OF Suc.prems(1), of a v] Suc.prems(2) by auto
  have step: "n = b - Suc a" "wf_frame c1" "b \<le> length (locals c1)"
    using Suc.hyps(2) Suc.prems c1(2) by (auto simp: writes_def)
  obtain c2 where c2: "ctx_fill c1 [Suc a..<b] v = Inr c2"
    "writes c1 (\<lambda>k. if Suc a \<le> k \<and> k < b then Some v else None) c2"
    using Suc.hyps(1) [OF step] by blast
  have "[a \<mapsto> v] ++ (\<lambda>k. if Suc a \<le> k \<and> k < b then Some v else None) =
      (\<lambda>k. if a \<le> k \<and> k < b then Some v else None)"
    using ab by (auto simp: map_add_def fun_eq_iff)
  with writes_trans [OF c1(2) c2(2)] c1(1) c2(1) ab show ?case by (auto simp: upt_conv_Cons)
qed

section \<open>Binding positional arguments\<close>

text \<open>
  Ruby's rules, for a count of arguments that the parameters accept. The required parameters at the
  front and at the end are served first; of the arguments in between as many as can go to the
  optional parameters, and the others to the rest. \<open>None\<close> is an optional parameter without an
  argument: the code of the method assigns its default.
\<close>

definition accepts :: "iseq_params \<Rightarrow> nat \<Rightarrow> bool" where
  "accepts p n \<longleftrightarrow>
     req p + post p \<le> n \<and> (rest p = None \<longrightarrow> n \<le> req p + opt p + post p)"

definition ruby_binding :: "iseq_params \<Rightarrow> val list \<Rightarrow> val \<Rightarrow> val option list" where
  "ruby_binding p args rv =
     (let between = drop (req p) (take (length args - post p) args);
          given = min (opt p) (length between)
      in map Some (take (req p) args) @
         map Some (take given between) @ replicate (opt p - given) None @
         (if rest p = Some True then [Some rv] else []) @
         map Some (drop (length args - post p) args))"

definition slot_value :: "'a option list \<Rightarrow> nat \<Rightarrow> 'a option" where
  "slot_value bs k = (if k < length bs then bs ! k else None)"

text \<open>What the code does, also when there are fewer arguments.\<close>

definition bound :: "iseq_params \<Rightarrow> val list \<Rightarrow> val \<Rightarrow> nat \<Rightarrow> val option" where
  "bound p args rv k =
     (let n = length args - post p; m = req p + opt p; r = if rest p = Some True then 1 else 0 in
      if k < min m n then Some (args ! k)
      else if k < req p \<and> 0 < n then Some NIL_VALUE
      else if k < m then None
      else if k < m + r then Some rv
      else if k < m + r + post p then Some (args ! (n + (k - m - r)))
      else None)"

definition rest_values :: "iseq_params \<Rightarrow> val list \<Rightarrow> val list" where
  "rest_values p args = drop (req p + opt p) (take (length args - post p) args)"

lemma slot_value_append: "slot_value (xs @ ys) k = (if k < length xs then xs ! k else slot_value ys (k - length xs))"
  by (auto simp: slot_value_def nth_append)

lemma slot_value_some: "slot_value (map Some xs) k = (if k < length xs then Some (xs ! k) else None)"
  by (simp add: slot_value_def)

lemma bound_ruby:
  assumes "accepts p (length args)"
  shows "bound p args rv = slot_value (ruby_binding p args rv)"
proof
  fix k
  let ?n = "length args - post p" and ?r = "if rest p = Some True then 1 else 0 :: nat"
  let ?g = "min (opt p) (?n - req p)" and ?m = "req p + opt p"
  have n: "req p \<le> ?n" "?n \<le> length args" "post p \<le> length args" using assms by (auto simp: accepts_def)
  have sv: "slot_value (ruby_binding p args rv) k =
      (if k < req p then Some (args ! k)
       else if k < req p + ?g then Some (args ! k)
       else if k < ?m then None
       else if k < ?m + ?r then Some rv
       else if k < ?m + ?r + post p then Some (args ! (?n + (k - ?m - ?r)))
       else None)"
  proof -
    consider "k < req p" | "req p \<le> k" "k < req p + ?g" | "req p + ?g \<le> k" "k < ?m"
      | "?m \<le> k" "k < ?m + ?r" | "?m + ?r \<le> k" by linarith
    then show ?thesis
    proof cases
      case 1
      with n show ?thesis by (simp add: ruby_binding_def Let_def slot_value_append)
    next
      case 2
      then have "k - req p < opt p" "k - req p < length args - (post p + req p)" "\<not> k < req p" by linarith+
      with 2 n show ?thesis by (simp add: ruby_binding_def Let_def slot_value_append)
    next
      case 3
      then have "\<not> k < req p" "\<not> k - req p < ?g" "k - req p - ?g < opt p - ?g" by linarith+
      with 3 n show ?thesis by (simp add: ruby_binding_def Let_def slot_value_append)
    next
      case 4
      then have k: "k = ?m" "rest p = Some True" by (auto split: if_splits)
      have "slot_value (Some rv # bs) 0 = Some rv" for bs by (simp add: slot_value_def)
      with n show ?thesis unfolding k(1) by (simp add: ruby_binding_def Let_def slot_value_append k(2))
    next
      case 5
      let ?b = "drop (req p) (take ?n args)"
      let ?A = "map Some (take (req p) args) @ map Some (take (min (opt p) (length ?b)) ?b) @
        replicate (opt p - min (opt p) (length ?b)) None @ (if rest p = Some True then [Some rv] else [])"
      have A: "length ?A = ?m + ?r" using n by simp
      have "ruby_binding p args rv = ?A @ map Some (drop ?n args)" by (simp add: ruby_binding_def Let_def)
      then have "slot_value (ruby_binding p args rv) k = slot_value (map Some (drop ?n args)) (k - (?m + ?r))"
        using 5 A by (simp only: slot_value_append) simp
      also have "\<dots> = (if k < ?m + ?r + post p then Some (args ! (?n + (k - ?m - ?r))) else None)"
        using n 5 by (simp only: slot_value_some length_drop) auto
      finally have e: "slot_value (ruby_binding p args rv) k =
        (if k < ?m + ?r + post p then Some (args ! (?n + (k - ?m - ?r))) else None)" .
      have "\<not> k < req p" "\<not> k < req p + ?g" "\<not> k < ?m" "\<not> k < ?m + ?r" using 5 by linarith+
      then show ?thesis unfolding e by (simp only: if_False)
    qed
  qed
  have "min ?m ?n = req p + ?g" using n(1) by linarith
  moreover have "k < req p \<Longrightarrow> k < req p + ?g" by simp
  ultimately show "bound p args rv k = slot_value (ruby_binding p args rv) k"
    unfolding sv bound_def Let_def by (simp split del: if_split) (simp split: if_split)
qed

lemma rest_ruby:
  "rest_values p args = drop (opt p) (drop (req p) (take (length args - post p) args))"
  by (simp add: rest_values_def add.commute)

lemma fill_post_positional:
  assumes "wf_frame c" "post p \<le> length args" "pos + post p \<le> length (locals c)"
  shows "\<exists>c'. fill_post c args (length args - post p) pos (post p) 0 v = Inr (c', 0) \<and>
    writes c (\<lambda>k. if pos \<le> k \<and> k < pos + post p then Some (args ! (length args - post p + (k - pos)))
                  else None) c'"
proof (cases "post p = 0")
  case True
  then show ?thesis by (auto simp: fill_post_def intro!: writes_same assms(1))
next
  case False
  let ?vs = "drop (length args - post p) args"
  have "length ?vs = post p" using assms(2) by simp
  then obtain c' where c': "copy_from_slice c pos ?vs = Inr c'"
    "writes c (\<lambda>k. if pos \<le> k \<and> k < pos + post p then Some (?vs ! (k - pos)) else None) c'"
    using copy_from_slice_writes [OF assms(1), of pos ?vs] assms(3) by auto
  moreover have "(\<lambda>k. if pos \<le> k \<and> k < pos + post p then Some (?vs ! (k - pos)) else None) =
      (\<lambda>k. if pos \<le> k \<and> k < pos + post p then Some (args ! (length args - post p + (k - pos))) else None)"
    using assms(2) by (auto simp: fun_eq_iff)
  ultimately show ?thesis using False by (auto simp: fill_post_def vslice_def)
qed

lemma fill_front_positional:
  assumes "wf_frame c" "m \<le> length args" "max m r \<le> length (locals c)"
  shows "\<exists>c'. fill_front c args m r 0 v = Inr (c', 0) \<and>
    writes c (\<lambda>k. if k < m then Some (args ! k)
                  else if k < r \<and> 0 < m then Some NIL_VALUE else None) c'"
proof (cases "m = 0")
  case True
  then show ?thesis by (auto simp: fill_front_def intro!: writes_same assms(1))
next
  case False
  obtain c1 where c1: "copy_from_slice0 c (take m args) = Inr c1"
    "writes c (\<lambda>k. if k < m then Some (args ! k) else None) c1"
    using copy_from_slice0_writes [OF assms(1), of "take m args"] assms(2,3)
    by (auto simp: min_def cong: if_cong)
  obtain c2 where c2: "ctx_fill c1 [m..<r] NIL_VALUE = Inr c2"
    "writes c1 (\<lambda>k. if m \<le> k \<and> k < r then Some NIL_VALUE else None) c2"
    using ctx_fill_writes [of c1 r m NIL_VALUE] c1(2) assms(3) by (auto simp: writes_def)
  have "(\<lambda>k. if k < m then Some (args ! k) else None) ++
        (\<lambda>k. if m \<le> k \<and> k < r then Some NIL_VALUE else None) =
      (\<lambda>k. if k < m then Some (args ! k) else if k < r \<and> 0 < m then Some NIL_VALUE else None)"
    using False by (auto simp: map_add_def fun_eq_iff)
  with writes_trans [OF c1(2) c2(2)] have w: "writes c
      (\<lambda>k. if k < m then Some (args ! k) else if k < r \<and> 0 < m then Some NIL_VALUE else None) c2"
    by simp
  show ?thesis
  proof (cases "m < r")
    case True
    with False c1(1) c2(1) w assms(2) show ?thesis by (auto simp: fill_front_def vslice_def)
  next
    case m: False
    with c2(1) have "c2 = c1" by simp
    with m False c1(1) w assms(2) show ?thesis by (auto simp: fill_front_def vslice_def)
  qed
qed

lemma rest_args_positional:
  "rest_args args (req p + opt p) (length args - post p) 0 v = Inr (rest_values p args)"
  by (auto simp: rest_args_def rest_values_def vslice_def take_drop)

lemma is_nil_nil [simp]: "is_nil NIL_VALUE"
  by (simp add: is_nil_def)

lemma fill_arguments_parts:
  assumes "post p \<le> length args"
    "fill_post c args (length args - post p) (req p + opt p + (if rest p = Some True then 1 else 0))
       (post p) 0 NIL_VALUE = Inr (c1, 0)"
    "fill_front c1 args (min (req p + opt p) (length args - post p)) (req p) 0 NIL_VALUE = Inr (c2, 0)"
  shows "fill_arguments bc c args p NIL_VALUE =
    (if rest p = Some True
     then bind (new_array bc (rest_values p args)) (\<lambda>v. asks (\<lambda>_. ctx_set c2 (req p + opt p) v))
     else ret c2)"
proof
  fix h :: "'h hs"
  have r: "rest_args args (req p + opt p) (length args - post p) 0 NIL_VALUE = Inr (rest_values p args)"
    by (rule rest_args_positional)
  show "fill_arguments bc c args p NIL_VALUE h =
    (if rest p = Some True
     then bind (new_array bc (rest_values p args)) (\<lambda>v. asks (\<lambda>_. ctx_set c2 (req p + opt p) v))
     else ret c2) h"
    using assms r by (auto simp: fill_arguments_def Let_def bind_def split: prod.split sum.split)
qed

lemma fill_arguments_bound:
  assumes "wf_frame c" "post p \<le> length args"
    and "req p + opt p + (if rest p = Some True then 1 else 0) + post p \<le> length (locals c)"
    and "rest p = Some True \<longrightarrow> new_array bc (rest_values p args) h = (h', Inr rv)"
    and "rest p \<noteq> Some True \<longrightarrow> h' = h"
  shows "\<exists>c'. fill_arguments bc c args p NIL_VALUE h = (h', Inr c') \<and> writes c (bound p args rv) c'"
proof -
  let ?m = "req p + opt p" and ?n = "length args - post p" and ?r = "if rest p = Some True then 1 else 0"
  let ?f = "\<lambda>k. if ?m + ?r \<le> k \<and> k < ?m + ?r + post p then Some (args ! (?n + (k - (?m + ?r)))) else None"
  let ?g = "\<lambda>k. if k < min ?m ?n then Some (args ! k)
     else if k < req p \<and> 0 < min ?m ?n then Some NIL_VALUE else None"
  obtain c1 where c1: "fill_post c args ?n (?m + ?r) (post p) 0 NIL_VALUE = Inr (c1, 0)" "writes c ?f c1"
    using fill_post_positional [OF assms(1,2), of "?m + ?r"] assms(3) by blast
  have "wf_frame c1" "max (min ?m ?n) (req p) \<le> length (locals c1)"
    using c1(2) assms(3) by (auto simp: writes_def)
  then obtain c2 where c2: "fill_front c1 args (min ?m ?n) (req p) 0 NIL_VALUE = Inr (c2, 0)"
    "writes c1 ?g c2"
    using fill_front_positional [of c1 "min ?m ?n" args "req p"] by fastforce
  note w = writes_trans [OF c1(2) c2(2)]
  note parts = fill_arguments_parts [OF assms(2) c1(1) c2(1)]
  show ?thesis
  proof (cases "rest p = Some True")
    case True
    obtain c3 where c3: "ctx_set c2 ?m rv = Inr c3" "writes c2 [?m \<mapsto> rv] c3"
      using ctx_set_writes [of c2 ?m rv] w True assms(3) by (auto simp: writes_def)
    have "writes c (bound p args rv) c3"
      by (rule writes_cong [OF writes_trans [OF w c3(2)]])
        (use True in \<open>auto simp: bound_def map_add_def Let_def\<close>)
    with True assms(4) c3(1) show ?thesis by (auto simp: parts)
  next
    case False
    have "writes c (bound p args rv) c2"
      by (rule writes_cong [OF w]) (use False in \<open>auto simp: bound_def map_add_def Let_def\<close>)
    with False assms(5) show ?thesis by (auto simp: parts)
  qed
qed

text \<open>C13. Arguments are bound by position, as in Ruby. When their count is one that the parameters
  accept and the frame has a variable for each parameter, the binding of arguments without keywords
  puts into every variable the argument that Ruby's rules give to its parameter, the rest being a
  new array of the arguments that are left over, and leaves the other variables (those of optional
  parameters without an argument among them) as they were. (A block is not checked for the count of
  its arguments; what it does with others is not claimed.)\<close>

theorem bind_positional:
  assumes "wf_frame c" "accepts p (length args)"
    and "length (ruby_binding p args rv) \<le> length (locals c)"
    and "rest p = Some True \<longrightarrow>
      new_array bc (drop (opt p) (drop (req p) (take (length args - post p) args))) h = (h', Inr rv)"
    and "rest p \<noteq> Some True \<longrightarrow> h' = h"
  shows "\<exists>c'. fill_arguments bc c args p NIL_VALUE h = (h', Inr c') \<and>
    writes c (slot_value (ruby_binding p args rv)) c'"
proof -
  have "length (ruby_binding p args rv) =
      req p + opt p + (if rest p = Some True then 1 else 0) + post p"
    using assms(2) by (auto simp: ruby_binding_def Let_def accepts_def)
  with fill_arguments_bound [of c p args bc h h' rv] assms show ?thesis
    by (simp add: bound_ruby [symmetric] rest_ruby accepts_def)
qed

definition demo_params :: iseq_params where
  "demo_params = \<lparr>req = 1, opt = 1, rest = Some True, post = 1, has_block = False, keyword = [],
     kwrest = False\<rparr>"

definition demo_frame :: ruby_context where
  "demo_frame = context_new_noiseq"

lemma demo_new_array: "\<exists>h' v. new_array demo_classes xs demo_heap = (h', Inr v)"
proof -
  obtain h' a where "alloc demo_heap (rvalue_new (bc_array demo_classes) (Array xs)) = Inr (h', a)"
    using demo_alloc by (metis obj_sumE prod.exhaust)
  from store.pack_total [OF demo_heap_ok this] show ?thesis
    by (auto simp: new_array_def array_from_def steps_def)
qed

theorem bind_positional_witness:
  "\<exists>h' rv c'. new_array demo_classes [5, 7] demo_heap = (h', Inr rv) \<and>
     fill_arguments demo_classes demo_frame [1, 3, 5, 7, 9] demo_params NIL_VALUE demo_heap =
       (h', Inr c') \<and> locals c' = [1, 3, rv, 9]"
proof -
  have v: "drop (opt demo_params) (drop (req demo_params) (take (5 - post demo_params) [1, 3, 5, 7, 9 :: val]))
      = [5, 7]"
    and b: "ruby_binding demo_params [1, 3, 5, 7, 9] rv = [Some 1, Some 3, Some rv, Some 9]" for rv
    by (simp_all add: ruby_binding_def demo_params_def Let_def)
  obtain h' rv where a: "new_array demo_classes [5, 7] demo_heap = (h', Inr rv)"
    using demo_new_array by blast
  have f: "wf_frame demo_frame" "locals demo_frame = replicate 4 UNINITIALIZED"
    by (simp_all add: wf_frame_def locals_def demo_frame_def context_new_noiseq_def LVAR_ARRAY_SIZE_def)
  have "\<exists>c'. fill_arguments demo_classes demo_frame [1, 3, 5, 7, 9] demo_params NIL_VALUE demo_heap =
      (h', Inr c') \<and> writes demo_frame (slot_value (ruby_binding demo_params [1, 3, 5, 7, 9] rv)) c'"
    by (rule bind_positional) (use a v b f in \<open>auto simp: accepts_def demo_params_def\<close>)
  then obtain c' where c': "fill_arguments demo_classes demo_frame [1, 3, 5, 7, 9] demo_params NIL_VALUE
      demo_heap = (h', Inr c')" "writes demo_frame (slot_value (ruby_binding demo_params [1, 3, 5, 7, 9] rv)) c'"
    by blast
  have "length (locals c') = 4"
    "locals c' ! 0 = 1" "locals c' ! 1 = 3" "locals c' ! 2 = rv" "locals c' ! 3 = 9"
    using c'(2) f(2) by (simp_all add: writes_def slot_value_def b)
  then have "locals c' = [1, 3, rv, 9]"
    by (simp add: list_eq_iff_nth_eq All_less_Suc numeral_nat)
  with a c'(1) show ?thesis by blast
qed

section \<open>Arguments that cannot be bound\<close>

definition panics_only :: "'a res \<Rightarrow> bool" where
  "panics_only r \<longleftrightarrow> (\<forall>e. r = Inl e \<longrightarrow> e = Panic)"

lemma panics_only_simps [simp]: "panics_only (Inr x)" "panics_only (Inl Panic)"
  by (simp_all add: panics_only_def)

lemma panics_only_bind: "panics_only r \<Longrightarrow> (\<And>x. panics_only (f x)) \<Longrightarrow> panics_only (rbind r f)"
  by (cases r) (auto simp: panics_only_def)

lemma panics_only_slices:
  "panics_only (vslice xs a b)" "panics_only (copy_slice xs a b ys)" "panics_only (put_nth xs i v)"
  by (simp_all add: vslice_def copy_slice_def put_nth_def)

lemma panics_only_ctx:
  "panics_only (copy_from_slice0 c vs)" "panics_only (ctx_set c i v)" "panics_only (ctx_fill c js v)"
proof -
  show s: "panics_only (ctx_set c i v)" for c i v
    by (simp add: ctx_set_def panics_only_bind panics_only_slices)
  show "panics_only (ctx_fill c js v)"
    by (induction js arbitrary: c) (simp_all add: panics_only_bind s)
  show "panics_only (copy_from_slice0 c vs)"
    by (simp add: copy_from_slice0_def Let_def panics_only_bind panics_only_slices)
qed

lemma panics_only_front: "panics_only (fill_front c args m r k v)"
  by (simp add: fill_front_def panics_only_bind panics_only_slices panics_only_ctx)

text \<open>C17. Two calls whose binding ends in a panic, not in an error the program could rescue. Keywords
  given to a method without keyword parameters that has a rest parameter, at least one required or
  optional parameter before it and none after it, when there are at least as many arguments as
  those before, as in \<open>f(1, 2, k: 3)\<close> for \<open>def f(a, *r)\<close>: the count of the keywords is cleared
  before the rest is cut out. (With nothing before the rest, \<open>f(k: 3)\<close> for \<open>def f(*r)\<close>, the count is
  still there and the binding succeeds.) And fewer arguments, the keywords counted as one, than
  parameters after the rest, which a block does not check.\<close>

theorem binding_panics:
  "(rest p = Some True \<and> post p = 0 \<and> 0 < req p + opt p \<and> req p + opt p \<le> length args \<and> \<not> is_nil kw \<longrightarrow>
      snd (fill_arguments bc c args p kw h) = Inl Panic) \<and>
   (length args + (if is_nil kw then 0 else 1) < post p \<longrightarrow>
      snd (fill_arguments bc c args p kw h) = Inl Panic)"
proof (intro conjI impI)
  assume "length args + (if is_nil kw then 0 else 1) < post p"
  then show "snd (fill_arguments bc c args p kw h) = Inl Panic"
    by (auto simp: fill_arguments_def Let_def)
next
  assume a: "rest p = Some True \<and> post p = 0 \<and> 0 < req p + opt p \<and> req p + opt p \<le> length args \<and> \<not> is_nil kw"
  let ?m = "req p + opt p" and ?n = "length args + 1"
  have rest: "rest_args args ?m ?n 0 kw = Inl Panic"
    using a by (simp add: rest_args_def vslice_def)
  show "snd (fill_arguments bc c args p kw h) = Inl Panic"
  proof (cases "fill_front c args ?m (req p) 1 kw")
    case (Inl e)
    with panics_only_front [of c args ?m "req p" 1 kw] a show ?thesis
      by (simp add: fill_arguments_def Let_def fill_post_def min_def panics_only_def)
  next
    case (Inr q)
    then obtain c2 where "q = (c2, 0)"
      using a by (auto simp: fill_front_def rbind_Inr_iff)
    with Inr a rest show ?thesis
      by (simp add: fill_arguments_def Let_def fill_post_def min_def bind_assoc)
  qed
qed

theorem binding_panics_witness:
  "snd (fill_arguments demo_classes demo_frame [3, 5] (demo_params\<lparr>opt := 0, post := 0\<rparr>) 0x40000 demo_heap)
     = Inl Panic"
  using binding_panics [of "demo_params\<lparr>opt := 0, post := 0\<rparr>" "[3, 5]" "0x40000" demo_classes demo_frame
      demo_heap]
  by (simp add: demo_params_def is_nil_def NIL_VALUE_def)

text \<open>C16. The two parts of the local variables implement one list: reading, writing and the two bulk
  copies of a frame are those of the list, out-of-range panics included.\<close>

theorem locals_refine:
  assumes "wf_frame c"
  shows "ctx_get c i = index_at (locals c) i \<and>
    map_sum id locals (ctx_set c i v) = put_nth (locals c) i v \<and>
    map_sum id locals (copy_from_slice c i vs) = copy_slice (locals c) i (i + length vs) vs \<and>
    map_sum id locals (copy_from_slice0 c vs) = copy_slice (locals c) 0 (length vs) vs"
  using assms
  by (simp add: ctx_get_locals ctx_set_locals(1) copy_from_slice_locals(1) copy_from_slice0_locals(1))

theorem locals_refine_witness:
  "\<exists>c. locals c = [0, 0, 0, 0, 0, 0] \<and>
     map_sum id locals (copy_from_slice c 3 [1, 3, 5]) = Inr [0, 0, 0, 1, 3, 5]"
proof -
  let ?c = "demo_frame\<lparr>lvar_ary := [0, 0, 0, 0], lvar_vec := [0, 0]\<rparr>"
  have "wf_frame ?c" "locals ?c = [0, 0, 0, 0, 0, 0]"
    by (simp_all add: wf_frame_def locals_def LVAR_ARRAY_SIZE_def)
  with locals_refine [of ?c 3 0 "[1, 3, 5]"] show ?thesis
    by (intro exI [of _ ?c]) (simp add: copy_slice_def numeral_3_eq_3)
qed

end
