(* ===== verification/InterpFacts.thy ===== *)
theory InterpFacts
  imports Runs ContextFacts ArithFacts
begin

text \<open>
  What the interpreter loop of src/vm/executor.rs and src/vm/executor/opt_core.rs does: a run of a
  context is balanced, stays on the boundaries of instructions, and ends for code without backward
  jumps; how exceptions and returns from blocks leave it.
\<close>

section \<open>A machine\<close>

text \<open>Built-in functions that do nothing, over the heap of theory \<open>ArithFacts\<close>.\<close>

definition demo_menv :: "'s menv" where
  "demo_menv =
     \<lparr>e_classes = demo_classes, e_id = \<lambda>_. 0, e_name = \<lambda>_. [], e_find_method = \<lambda>_ _. ret None,
      e_eval_method = \<lambda>_ _ _. raise Panic,
      e_rem_floor = \<lambda>a b. if b = 0 then Inl Panic else Inr (word_of_int (sint a mod sint b)),
      e_powf = \<lambda>x _. x, e_find_one = \<lambda>_ _. ret False, e_index = demo_lookups,
      m_ec = \<lparr>ec_class = 0x40000, ec_module = 0x40000, ec_object = 0x40000\<rparr>, m_fuel = 10,
      m_native = \<lambda>_ _ _ _. ret NIL_VALUE, m_float_to_s = \<lambda>_. [],
      m_from_utf8 = \<lambda>_. [], m_regexp = \<lambda>_. ret NIL_VALUE, m_message = \<lambda>_. [],
      m_locations = \<lambda>_. []\<rparr>"

definition demo_iseq :: "code \<Rightarrow> exception_entry list \<Rightarrow> iseq_kind \<Rightarrow> iseq_info" where
  "demo_iseq c es k =
     \<lparr>imethod = 1, icode = c, exception_table = es, forvars = [], params = demo_params, lvars = 4,
      ikind = k, opt_flag = True, kwrest_param = None, block_param = None\<rparr>"

text \<open>Two frames, at 64 and 128; the machine runs neither.\<close>

definition demo_machine :: "iseq_info \<Rightarrow> machine" where
  "demo_machine i =
     store.extend (store_new (\<lambda>n. of_nat (8 * n + 8)) demo_heap)
       (machine.fields [64 \<mapsto> demo_frame\<lparr>iseq_ref := Some i\<rparr>] (\<lambda>n. of_nat (64 * n + 64)) 1 (\<lambda>_. [])
          \<lparr>cur_context = None, exec_context = [], class_context = [(0x40000, False)],
           exec_stack = [1], temp_stack = [], vm_pc = 7\<rparr>
          [] 0 [] 0 [] [] [] NIL_VALUE True)"

lemmas handler_tables =
  return_insts_def push_insts_def arith_insts_def compare_insts_def local_insts_def const_insts_def
  ivar_insts_def global_insts_def index_insts_def object_insts_def jump_insts_def stack_insts_def
  send_insts_def def_insts_def

lemma find_handlers:
  "map_of (handlers M run c v) I_PUSH_NIL = Some (push_next 1 NIL_VALUE)"
  "map_of (handlers M run c v) I_PUSH_FIXNUM = Some (bind (operand read64 c 1) (\<lambda>n.
     bind (steps (\<lambda>s. integer (e_classes M) alloc s n)) (push_next 9)))"
  "map_of (handlers M run c v) I_THROW = Some (bind stack_pop (\<lambda>v. raise (Raise (ValueErr v))))"
  "map_of (handlers M run c v) I_RETURN = Some (ret Leave)"
  by (simp_all add: handlers_def Let_def handler_tables opcode_defs)

definition demo_start :: machine where
  "demo_start = demo_machine (demo_iseq [I_PUSH_NIL, I_THROW, I_RETURN]
     [\<lparr>ex_start = 1, ex_end = 2, ex_dest = 2\<rparr>] BlockK)"

lemma demo_machine_fields [simp]:
  "vm (demo_machine i) = \<lparr>cur_context = None, exec_context = [], class_context = [(0x40000, False)],
     exec_stack = [1], temp_stack = [], vm_pc = 7\<rparr>"
  "\<not> alloc_flag (demo_machine i)"
  "ctx_store (demo_machine i) = [64 \<mapsto> demo_frame\<lparr>iseq_ref := Some i\<rparr>]"
  "case_dispatch (demo_machine i) = []" "case_dispatch2 (demo_machine i) = []"
  by (simp_all add: demo_machine_def machine.defs store.defs heap.defs demo_heap_def store_new_def)

lemma step_at:
  "vm_pc (vm s) < length c \<Longrightarrow> map_of (handlers M run c v) (c ! vm_pc (vm s)) = Some f \<Longrightarrow>
   step M run c v s = f s"
  by (simp add: step_def operand_def asks_def bind_def index_at_def)

lemma exec_loop_Suc:
  "f s = (s', Inr Next) \<Longrightarrow> exec_loop (Suc n) f s = exec_loop n f s'"
  "f s = (s', Inr Leave) \<Longrightarrow> exec_loop (Suc n) f s = (s', Inr ())"
  "f s = (s', Inl e) \<Longrightarrow> exec_loop (Suc n) f s = (s', Inl e)"
  by (simp_all add: bind_def ret_def)

lemma step_push_nil:
  "vm_pc (vm s) < length c \<Longrightarrow> c ! vm_pc (vm s) = I_PUSH_NIL \<Longrightarrow>
   step M run c v s = (s\<lparr>vm := (vm s)\<lparr>vm_pc := vm_pc (vm s) + 1,
     exec_stack := exec_stack (vm s) @ [NIL_VALUE]\<rparr>\<rparr>, Inr Next)"
  using step_at [of s c M run v] find_handlers(1) [of M run c v]
  by (simp add: push_next_def go_on_def add_pc_def stack_push_def mod_vm_def modify_def bind_def ret_def)

section \<open>Staying on the boundaries of instructions\<close>

text \<open>Each position has an opcode, with all its successors among the positions.\<close>

definition closed_code :: "code \<Rightarrow> dispatch \<Rightarrow> nat list \<Rightarrow> bool" where
  "closed_code c ts ps \<longleftrightarrow>
     list_all (\<lambda>p. p < length c \<and> is_ok (inst_size (c ! p)) \<and> known c ts p \<and>
       list_all (\<lambda>q. q \<in> set ps) (succs c ts p)) ps"

lemma closed_allowed: "closed_code c ts ps \<Longrightarrow> p \<in> set ps \<Longrightarrow> allowed c ts p (set ps)"
  by (auto simp: closed_code_def allowed_def list_all_iff)

lemma kinds_disjoint:
  "i \<in> set jumps \<Longrightarrow> i \<noteq> I_OPT_CASE \<and> i \<noteq> I_OPT_CASE2 \<and> i \<notin> set leaving"
  "i \<in> set cond_jumps \<Longrightarrow> i \<noteq> I_OPT_CASE \<and> i \<noteq> I_OPT_CASE2 \<and> i \<notin> set jumps \<and> i \<notin> set leaving"
  "i \<in> set terminators \<Longrightarrow> i \<in> set leaving \<and> i \<notin> set jumps \<and> i \<notin> set cond_jumps \<and>
     i \<noteq> I_OPT_CASE \<and> i \<noteq> I_OPT_CASE2"
  "i \<in> set case_jumps \<longleftrightarrow> i = I_OPT_CASE \<or> i = I_OPT_CASE2"
proof -
  have "list_all (\<lambda>i. i \<noteq> I_OPT_CASE \<and> i \<noteq> I_OPT_CASE2 \<and> i \<notin> set leaving) jumps"
    "list_all (\<lambda>i. i \<noteq> I_OPT_CASE \<and> i \<noteq> I_OPT_CASE2 \<and> i \<notin> set jumps \<and> i \<notin> set leaving) cond_jumps"
    "list_all (\<lambda>i. i \<in> set leaving \<and> i \<notin> set jumps \<and> i \<notin> set cond_jumps \<and>
       i \<noteq> I_OPT_CASE \<and> i \<noteq> I_OPT_CASE2) terminators"
    by code_simp+
  then show "i \<in> set jumps \<Longrightarrow> i \<noteq> I_OPT_CASE \<and> i \<noteq> I_OPT_CASE2 \<and> i \<notin> set leaving"
    "i \<in> set cond_jumps \<Longrightarrow> i \<noteq> I_OPT_CASE \<and> i \<noteq> I_OPT_CASE2 \<and> i \<notin> set jumps \<and> i \<notin> set leaving"
    "i \<in> set terminators \<Longrightarrow> i \<in> set leaving \<and> i \<notin> set jumps \<and> i \<notin> set cond_jumps \<and>
       i \<noteq> I_OPT_CASE \<and> i \<noteq> I_OPT_CASE2"
    by (auto simp: list_all_iff)
  show "i \<in> set case_jumps \<longleftrightarrow> i = I_OPT_CASE \<or> i = I_OPT_CASE2" by (simp add: case_jumps_def)
qed

lemma no_case:
  assumes "c ! p \<noteq> I_OPT_CASE" "c ! p \<noteq> I_OPT_CASE2"
  shows "known c ts p" "table_disps c ts p = []"
  using assms by (simp_all add: known_def table_disps_def split: sum.splits)

lemma read32_cong:
  assumes "length c' = length c" "\<And>i. p \<le> i \<Longrightarrow> i < p + 4 \<Longrightarrow> c' ! i = c ! i"
  shows "read32 c' p = read32 c p"
proof -
  have "take 4 (drop p c') = take 4 (drop p c)" if "p + 4 \<le> length c"
    using assms that by (intro nth_equalityI) auto
  then have "vslice c' p (p + 4) = vslice c p (p + 4)" using assms(1) by (auto simp: vslice_def)
  then show ?thesis by (simp add: read32_def)
qed

text \<open>The successors in optimized code are starts of the original code.\<close>

lemma optimized_succs:
  assumes wf': "wf_code c' (set ps)" and fl: "flow_eq c c' (set ps)" and p: "p \<in> set ps"
    and cl: "closed_code c ts ps" and sz: "inst_size (c ! p) = Inr sz"
  shows "known c' ts p \<and> set (succs c' ts p) \<subseteq> set ps"
proof -
  have i: "inst_eq c c' (set ps) p sz" and len: "length c' = length c"
    using fl p sz by (auto simp: flow_eq_def)
  have old: "known c ts p" "set (succs c ts p) \<subseteq> set ps"
    using cl p by (auto simp: closed_code_def list_all_iff)
  obtain sz' where sz': "inst_size (c' ! p) = Inr sz'" using wf' p by (auto simp: wf_code_def)
  have is': "isize (c' ! p) = sz'" using sz' by (simp add: isize_def unwrap_or_def)
  have dest: "set (case jump_dest c' (p + sz') of Inl _ \<Rightarrow> [] | Inr t \<Rightarrow> [t]) \<subseteq> set ps"
    if "c' ! p \<in> set jumps \<union> set cond_jumps"
    using wf_codeD(5) [OF wf' p sz' that] by auto
  show ?thesis
  proof (cases "c' ! p \<in> set jumps \<union> set terminators")
    case True
    with kinds_disjoint(1,3) [of "c' ! p"] no_case [of c' p ts] have n:
      "known c' ts p" "table_disps c' ts p = []" by auto
    have l: "c' ! p \<in> set (jumps @ leaving @ case_jumps)"
      using True kinds_disjoint(3) [of "c' ! p"] by auto
    have j: "c' ! p \<in> set (jumps @ cond_jumps @ case_jumps) \<longleftrightarrow> c' ! p \<in> set jumps"
      using True kinds_disjoint(1,3,4) [of "c' ! p"] by auto
    have "succs c' ts p = (if c' ! p \<in> set jumps
        then (case jump_dest c' (p + sz') of Inl _ \<Rightarrow> [] | Inr t \<Rightarrow> [t]) else [])"
      unfolding succs_def Let_def n(2) is' j if_P [OF l] by simp
    with n(1) dest show ?thesis by (cases "c' ! p \<in> set jumps") simp_all
  next
    case False
    with i have same: "c' ! p = c ! p" by (auto simp: inst_eq_def)
    then have szs: "sz' = sz" using sz sz' by simp
    have nx: "p + sz \<in> set ps" if "c ! p \<notin> set (jumps @ leaving @ case_jumps)"
      using allowed_next [OF closed_allowed [OF cl p] that] is' same szs by simp
    show ?thesis
    proof (cases "c ! p \<in> set cond_jumps")
      case True
      with kinds_disjoint(2,4) [of "c ! p"] no_case [of c' p ts] same have n:
        "known c' ts p" "table_disps c' ts p = []" "c ! p \<notin> set (jumps @ leaving @ case_jumps)"
        by auto
      with nx dest same szs is' True show ?thesis by (auto simp: succs_def Let_def)
    next
      case nc: False
      have nj: "c ! p \<notin> set jumps" using False same by auto
      with nc i have bytes: "\<And>k. k < sz \<Longrightarrow> c' ! (p + k) = c ! (p + k)" by (simp add: inst_eq_def)
      show ?thesis
      proof (cases "c ! p \<in> set case_jumps")
        case True
        then have 9: "sz = 9"
          using sz isizes3(17,18) kinds_disjoint(4) by (auto simp: isize_def unwrap_or_def)
        have bs: "c' ! i = c ! i" if "p \<le> i" "i < p + 9" for i
          using bytes [of "i - p"] that 9 by simp
        have r: "read32 c' (p + 1) = read32 c (p + 1)" "jump_dest c' (p + 9) = jump_dest c (p + 9)"
          by (intro read32_cong jump_dest_cong len bs; simp)+
        then have "known c' ts p \<longleftrightarrow> known c ts p" "succs c' ts p = succs c ts p"
          using is' unfolding known_def succs_def table_disps_def Let_def same szs 9
          by (simp_all only: r)
        with old show ?thesis by simp
      next
        case False
        with kinds_disjoint(4) no_case [of c' p ts] same have n:
          "known c' ts p" "table_disps c' ts p = []" by auto
        with nx same szs is' nj nc False show ?thesis by (auto simp: succs_def Let_def)
      qed
    qed
  qed
qed

definition guarded :: "nat list \<Rightarrow> 'm handler \<Rightarrow> 'm handler" where
  "guarded ps f s = (if vm_pc (vm s) \<in> set ps then f s else (s, Inl Undef))"

lemma closed_loop:
  assumes "\<forall>x. settles (run x)" "natives_settle M"
    and al: "\<forall>p \<in> set ps. allowed c ts p (set ps)"
    and s: "vm_pc (vm s) \<in> set ps" "prefix (fst ts) (case_dispatch s)" "prefix (snd ts) (case_dispatch2 s)"
  shows "exec_loop k (step M run c v) s = exec_loop k (guarded ps (step M run c v)) s"
  using s
proof (induction k arbitrary: s)
  case (Suc k)
  let ?f = "step M run c v"
  obtain s' r where r: "?f s = (s', r)" by fastforce
  have g: "guarded ps ?f s = (s', r)" using Suc.prems(1) r by (simp add: guarded_def)
  show ?case
  proof (cases "r = Inr Next")
    case True
    have "here (vm_pc (vm s)) ts s" using Suc.prems by (simp add: here_def)
    with goes_step [OF assms(1,2) bspec [OF al Suc.prems(1)], of v] r True
    obtain q where q: "q \<in> set ps" "evolves (at_pc q s) s'"
      unfolding goes_def by (metis stopped_simps(1))
    then have "vm_pc (vm s') \<in> set ps" "prefix (fst ts) (case_dispatch s')"
      "prefix (snd ts) (case_dispatch2 s')"
      using Suc.prems(2,3) by (auto simp: evolves_def shape_def at_pc_def intro: prefix_order.trans)
    from Suc.IH [OF this] r g True show ?thesis by (simp add: bind_def)
  next
    case False
    then consider "r = Inr Leave" | e where "r = Inl e"
      by (metis step_result.exhaust sum.exhaust)
    then show ?thesis using r g by cases (simp_all add: bind_def)
  qed
qed simp

text \<open>C5. The interpreter executes whole instructions only. For code whose instructions parse to its end
  and all whose successors (the next instruction, the target of a jump, the targets in the tables of
  a \<open>case\<close>) are starts of instructions, the loop over the optimized code is the loop that stops with
  undefined behaviour as soon as the program counter is not at the start of an instruction of the
  original code: neither the sizes by which the handlers advance, nor the jumps, nor what the calls
  do to the program counter ever lead inside an instruction.\<close>

theorem optimized_loop_on_starts:
  assumes "natives_settle M" "check_code c" "code_starts c = Some ps" "optimize fuel c = Inr c'"
    "closed_code c (case_dispatch s, case_dispatch2 s) ps" "vm_pc (vm s) \<in> set ps"
  shows "exec_loop k (step M (run_context n M) c' v) s =
    exec_loop k (guarded ps (step M (run_context n M) c' v)) s"
proof (rule closed_loop [where ts = "(case_dispatch s, case_dispatch2 s)"])
  note o = optimize_flow [OF assms(2-4)]
  show "\<forall>p \<in> set ps. allowed c' (case_dispatch s, case_dispatch2 s) p (set ps)"
  proof
    fix p assume p: "p \<in> set ps"
    then obtain sz where "inst_size (c ! p) = Inr sz"
      using check_code_wf [OF assms(2,3)] by (auto simp: wf_code_def)
    with optimized_succs [of c' ps c p "(case_dispatch s, case_dispatch2 s)" sz] o assms(5) p
    show "allowed c' (case_dispatch s, case_dispatch2 s) p (set ps)" by (simp add: allowed_def)
  qed
qed (use assms run_context_settles in auto)

lemma demo_natives: "natives_settle demo_menv"
  by (simp add: natives_settle_def demo_menv_def settles_basic)

text \<open>The jump to a return of theory \<open>JumpThread\<close>, entered at its second instruction.\<close>

definition at_five :: machine where
  "at_five = at_pc 5 demo_start"

lemma jump_chain_closed: "closed_code jump_chain ([], []) [0, 5, 6, 11]"
  by code_simp

lemma jump_chain_optimized:
  "optimize 12 jump_chain = Inr [I_JMP_F, 6, 0, 0, 0, I_PUSH_NIL,
      I_RETURN, I_RETURN, I_RETURN, I_RETURN, I_RETURN, I_RETURN]"
  by code_simp

lemma at_five_fields:
  "case_dispatch at_five = []" "case_dispatch2 at_five = []" "vm_pc (vm at_five) = 5"
  by (simp_all add: at_five_def at_pc_def demo_start_def)

theorem optimized_loop_on_starts_witness:
  "\<exists>c'. optimize 12 jump_chain = Inr c' \<and>
     exec_loop 3 (step demo_menv (run_context 2 demo_menv) c' 3) at_five =
     exec_loop 3 (guarded [0, 5, 6, 11] (step demo_menv (run_context 2 demo_menv) c' 3)) at_five"
  using optimized_loop_on_starts [OF demo_natives jump_chain_check jump_chain_starts
      jump_chain_optimized, of at_five 3 2 3] jump_chain_closed jump_chain_optimized
  by (auto simp: at_five_fields)

text \<open>C14. An instruction that goes on goes where the code says: after a step from \<open>p\<close> the program
  counter is at one of the successors of \<open>p\<close> (past the operands, at the target of the jump, or at a
  target of the dispatch table), with as many frames and open classes as before, even when the
  instruction called a method, a block or a built-in function.\<close>

theorem step_successors:
  assumes "natives_settle M" "known c (case_dispatch s, case_dispatch2 s) (vm_pc (vm s))"
    "step M (run_context n M) c v s = (s', Inr Next)"
  shows "vm_pc (vm s') \<in> set (succs c (case_dispatch s, case_dispatch2 s) (vm_pc (vm s))) \<and>
    frames (vm s') = frames (vm s) \<and>
    length (class_context (vm s')) = length (class_context (vm s))"
proof -
  let ?ts = "(case_dispatch s, case_dispatch2 s)" and ?p = "vm_pc (vm s)"
  have "here ?p ?ts s" by (simp add: here_def)
  moreover have "goes ?p ?ts (set (succs c ?ts ?p)) (step M (run_context n M) c v)"
    using assms(1,2) run_context_settles by (intro goes_step) (auto simp: allowed_def)
  ultimately obtain q where "q \<in> set (succs c ?ts ?p)" "evolves (at_pc q s) s'"
    using assms(3) unfolding goes_def by (metis stopped_simps(1))
  then show ?thesis by (auto simp: evolves_level level_def at_pc_def frames_def)
qed

lemma jump_chain_known: "known jump_chain ([], []) 5" "succs jump_chain ([], []) 5 = [6]"
  by code_simp+

theorem step_successors_witness:
  "\<exists>s'. step demo_menv (run_context 2 demo_menv) jump_chain 3 at_five = (s', Inr Next) \<and>
     vm_pc (vm s') = 6"
proof -
  obtain s' where s': "step demo_menv (run_context 2 demo_menv) jump_chain 3 at_five = (s', Inr Next)"
    using step_push_nil [of at_five jump_chain demo_menv "run_context 2 demo_menv" 3]
    by (auto simp: at_five_fields jump_chain_nth)
  with step_successors [OF demo_natives _ s'] jump_chain_known show ?thesis
    by (auto simp: at_five_fields)
qed

text \<open>C2. A run of a context is balanced: however it ends, by a return, an error, a \<open>break\<close> or a
  return from a block, after any exceptions it rescued and any calls it made, the program counter,
  the number of frames and the number of open classes are what they were.\<close>

theorem run_balanced:
  assumes "natives_settle M" "run_context n M a s = (s', r)" "r \<noteq> Inl Panic" "r \<noteq> Inl Undef"
  shows "vm_pc (vm s') = vm_pc (vm s) \<and> frames (vm s') = frames (vm s) \<and>
    length (class_context (vm s')) = length (class_context (vm s))"
  using settlesD [OF run_context_settles [OF assms(1)] assms(2)] assms(3,4)
  by (simp add: stopped_def evolves_level level_def)

text \<open>The code of \<open>demo_start\<close> raises \<open>nil\<close> and rescues it.\<close>

lemma step_throw_return:
  "vm_pc (vm s) < length c \<Longrightarrow> c ! vm_pc (vm s) = I_THROW \<Longrightarrow> exec_stack (vm s) \<noteq> [] \<Longrightarrow>
   step M run c v s = (s\<lparr>vm := (vm s)\<lparr>exec_stack := butlast (exec_stack (vm s))\<rparr>\<rparr>,
     Inl (Raise (ValueErr (last (exec_stack (vm s))))))"
  "vm_pc (vm s) < length c \<Longrightarrow> c ! vm_pc (vm s) = I_RETURN \<Longrightarrow> step M run c v s = (s, Inr Leave)"
  using step_at [of s c M run v] find_handlers(3,4) [of M run c v]
  by (simp_all add: stack_pop_def stack_top_def mod_vm_def modify_def bind_def ret_def raise_def asks_def)

lemmas effs = bind_def ret_def raise_def asks_def modify_def ask_vm_def mod_vm_def

definition rescuing :: iseq_info where
  "rescuing = demo_iseq [I_PUSH_NIL, I_THROW, I_RETURN] [\<lparr>ex_start = 1, ex_end = 2, ex_dest = 2\<rparr>] BlockK"

lemma rescuing_simps [simp]:
  "icode rescuing = [I_PUSH_NIL, I_THROW, I_RETURN]" "forvars rescuing = []"
  "exception_table rescuing = [\<lparr>ex_start = 1, ex_end = 2, ex_dest = 2\<rparr>]"
  by (simp_all add: rescuing_def demo_iseq_def)

definition demo_at :: "nat \<Rightarrow> val list \<Rightarrow> machine" where
  "demo_at pc st =
     demo_start\<lparr>vm := (vm demo_start)\<lparr>cur_context := Some 64, vm_pc := pc, exec_stack := st\<rparr>\<rparr>"

lemma demo_at_fields [simp]:
  "vm (demo_at pc st) = \<lparr>cur_context = Some 64, exec_context = [],
     class_context = [(0x40000, False)], exec_stack = st, temp_stack = [], vm_pc = pc\<rparr>"
  "\<not> alloc_flag (demo_at pc st)"
  "ctx_store (demo_at pc st) = [64 \<mapsto> demo_frame\<lparr>iseq_ref := Some rescuing\<rparr>]"
  by (simp_all add: demo_at_def demo_start_def rescuing_def)

lemma demo_main:
  "run_context_main n M run (demo_at pc st) =
     exec_loop n (step M run (icode rescuing) (self_value demo_frame)) (demo_at pc st)"
  by (simp add: run_context_main_def current_ctx_def current_addr_def load_ctx_def load_def ctx_iseq_def
      or_panic_def vm_gc_def effs)

lemma demo_raises:
  "run_context_main (Suc n) M run (demo_at 1 (st @ [v])) = (demo_at 1 st, Inl (Raise (ValueErr v)))"
  "run_context_main (Suc (Suc n)) M run (demo_at 0 st) = (demo_at 1 st, Inl (Raise (ValueErr NIL_VALUE)))"
  "run_context_main (Suc n) M run (demo_at 2 st) = (demo_at 2 st, Inr ())"
proof -
  let ?f = "step M run (icode rescuing) (self_value demo_frame)"
  have "demo_at 0 st\<lparr>vm := (vm (demo_at 0 st))\<lparr>vm_pc := 1, exec_stack := st @ [NIL_VALUE]\<rparr>\<rparr> =
      demo_at 1 (st @ [NIL_VALUE])"
    "demo_at 1 (st @ [w])\<lparr>vm := (vm (demo_at 1 (st @ [w])))\<lparr>exec_stack := st\<rparr>\<rparr> = demo_at 1 st" for w
    by (simp_all add: demo_at_def)
  then have f: "?f (demo_at 0 st) = (demo_at 1 (st @ [NIL_VALUE]), Inr Next)"
    "?f (demo_at 1 (st @ [w])) = (demo_at 1 st, Inl (Raise (ValueErr w)))"
    "?f (demo_at 2 st) = (demo_at 2 st, Inr Leave)" for w
    using step_push_nil [of "demo_at 0 st" "icode rescuing" M run "self_value demo_frame"]
      step_throw_return(1) [of "demo_at 1 (st @ [w])" "icode rescuing" M run "self_value demo_frame"]
      step_throw_return(2) [of "demo_at 2 st" "icode rescuing" M run "self_value demo_frame"]
    by simp_all
  then show "run_context_main (Suc n) M run (demo_at 1 (st @ [v])) =
      (demo_at 1 st, Inl (Raise (ValueErr v)))"
    "run_context_main (Suc (Suc n)) M run (demo_at 0 st) =
      (demo_at 1 st, Inl (Raise (ValueErr NIL_VALUE)))"
    "run_context_main (Suc n) M run (demo_at 2 st) = (demo_at 2 st, Inr ())"
    by (simp_all add: demo_main bind_def ret_def)
qed

lemma demo_handler:
  "find_handler (demo_at 1 st) = (demo_at 1 st, Inr (Some \<lparr>ex_start = 1, ex_end = 2, ex_dest = 2\<rparr>))"
  by (simp add: find_handler_def current_iseq_def current_ctx_def current_addr_def load_ctx_def load_def
      ctx_iseq_def or_panic_def effs entry_includes_def)

lemma run_loop_rescues:
  assumes "main s = (s1, Inl (Raise (ValueErr v)))" "find_handler s1 = (s1, Inr (Some h))"
  shows "run_loop (Suc n) M main len pc s = run_loop n M main len pc (s1\<lparr>vm := (vm s1)
    \<lparr>vm_pc := ex_dest h, exec_stack := take len (exec_stack (vm s1)) @ [v]\<rparr>\<rparr>)"
  using assms
  by (simp add: rescued_def set_pc_def set_stack_len_def to_exception_val_def stack_push_def effs)

lemma demo_rescued:
  "demo_at 1 st\<lparr>vm := (vm (demo_at 1 st))\<lparr>vm_pc := 2, exec_stack := st'\<rparr>\<rparr> = demo_at 2 st'"
  by (simp add: demo_at_def)

lemma demo_run:
  "\<exists>s'. run_context 5 demo_menv 64 demo_start = (s', Inr ()) \<and> exec_stack (vm s') = [1, NIL_VALUE]"
proof -
  let ?M = "demo_menv :: machine menv"
  let ?main = "run_context_main 4 ?M (run_context 4 ?M)"
  have "run_context 5 ?M 64 demo_start = run_loop 4 ?M ?main 1 7 (demo_at 0 [1])"
    by (simp add: eval_nat_numeral stack_len_def context_push_def set_pc_def demo_at_def demo_start_def effs
        del: run_loop.simps)
  also have "\<dots> = run_loop 3 ?M ?main 1 7 (demo_at 2 [1, NIL_VALUE])"
    using run_loop_rescues [of ?main "demo_at 0 [1]" "demo_at 1 [1]" NIL_VALUE _ 3 ?M 1 7]
      demo_raises(2) [of 2 ?M "run_context 4 ?M" "[1]"] demo_handler [of "[1]"]
    by (simp add: demo_rescued [simplified] del: run_loop.simps)
  also have "\<dots> = finish 7 (demo_at 2 [1, NIL_VALUE])"
    using demo_raises(3) [of 3 ?M "run_context 4 ?M" "[1, NIL_VALUE]"] by (simp add: eval_nat_numeral)
  finally show ?thesis
    by (simp add: finish_def pop_context_def context_pop_def set_pc_def effs or_panic_def)
qed

theorem run_balanced_witness:
  "\<exists>s'. run_context 5 demo_menv 64 demo_start = (s', Inr ()) \<and> vm_pc (vm s') = 7 \<and>
     frames (vm s') = 0"
proof -
  obtain s' where s': "run_context 5 demo_menv 64 demo_start = (s', Inr ())" using demo_run by blast
  from run_balanced [OF demo_natives s'] s' show ?thesis
    by (auto simp: demo_start_def frames_def)
qed

section \<open>Code without backward jumps\<close>

text \<open>The state after \<open>j\<close> instructions that all went on.\<close>

fun walk_on :: "nat \<Rightarrow> 'm handler \<Rightarrow> 'm mach \<Rightarrow> 'm mach option" where
  "walk_on 0 f s = Some s"
| "walk_on (Suc j) f s =
     (case f s of (s1, r) \<Rightarrow> if r = Inr Next then walk_on j f s1 else None)"

definition forward_code :: "code \<Rightarrow> dispatch \<Rightarrow> nat list \<Rightarrow> bool" where
  "forward_code c ts ps \<longleftrightarrow> list_all (\<lambda>p. list_all (\<lambda>q. p < q) (succs c ts p)) ps"

lemma forward_loop:
  fixes n v
  assumes "natives_settle M" "closed_code c ts ps" "forward_code c ts ps"
    and s: "vm_pc (vm s) \<in> set ps" "prefix (fst ts) (case_dispatch s)" "prefix (snd ts) (case_dispatch2 s)"
      "length c - vm_pc (vm s) \<le> k"
  defines "f \<equiv> step M (run_context n M) c v"
  shows "\<exists>j t. j < k \<and> walk_on j f s = Some t \<and> vm_pc (vm t) \<in> set ps \<and> snd (f t) \<noteq> Inr Next \<and>
    (\<forall>i > j. exec_loop i f s = (fst (f t), rbind (snd (f t)) (\<lambda>_. Inr ())))"
  using s
proof (induction k arbitrary: s)
  case 0
  then show ?case using assms(2) by (auto simp: closed_code_def list_all_iff)
next
  case (Suc k)
  let ?p = "vm_pc (vm s)"
  obtain s1 q where q: "f s = (s1, q)" by fastforce
  show ?case
  proof (cases "q = Inr Next")
    case True
    have "here ?p ts s" using Suc.prems by (simp add: here_def)
    moreover have "goes ?p ts (set (succs c ts ?p)) f"
      using assms(1,2) Suc.prems(1) run_context_settles unfolding f_def
      by (intro goes_step) (auto simp: allowed_def closed_code_def list_all_iff)
    ultimately obtain p' where p': "p' \<in> set (succs c ts ?p)" "evolves (at_pc p' s) s1"
      using q True unfolding goes_def by (metis stopped_simps(1))
    then have pc: "vm_pc (vm s1) = p'" "prefix (fst ts) (case_dispatch s1)"
      "prefix (snd ts) (case_dispatch2 s1)"
      using Suc.prems(2,3) by (auto simp: evolves_def shape_def at_pc_def intro: prefix_order.trans)
    moreover have "p' \<in> set ps" "?p < p'" "?p < length c"
      using p'(1) Suc.prems(1) assms(2,3) by (auto simp: closed_code_def forward_code_def list_all_iff)
    moreover from this have "length c - p' \<le> k" using Suc.prems(4) by linarith
    ultimately obtain j t where IH: "j < k" "walk_on j f s1 = Some t" "vm_pc (vm t) \<in> set ps"
      "snd (f t) \<noteq> Inr Next" "\<forall>i > j. exec_loop i f s1 = (fst (f t), rbind (snd (f t)) (\<lambda>_. Inr ()))"
      using Suc.IH [of s1] by auto
    have "exec_loop i f s = (fst (f t), rbind (snd (f t)) (\<lambda>_. Inr ()))" if "Suc j < i" for i
      using that IH(5) q True by (cases i) (auto simp: bind_def)
    with IH(1-4) q True show ?thesis by (intro exI [of _ "Suc j"] exI [of _ t]) simp
  next
    case False
    have "exec_loop i f s = (s1, rbind q (\<lambda>_. Inr ()))" if "0 < i" for i
      using that q False by (cases i; cases q) (auto simp: bind_def ret_def intro: step_result.exhaust)
    with q False Suc.prems(1) show ?thesis by (intro exI [of _ 0] exI [of _ s]) simp
  qed
qed

text \<open>C15. In code all whose successors are further on, the loop executes fewer instructions than the
  code has bytes. There is one instruction, reached after \<open>j\<close> others that went on, at which the loop
  ends with what that instruction does: leave the code, or an error (of the instruction itself or
  of a run it started; nothing is said about whether that run returns). More fuel for the loop
  changes nothing.\<close>

theorem forward_code_ends:
  assumes "natives_settle M" "closed_code c (case_dispatch s, case_dispatch2 s) ps"
    "forward_code c (case_dispatch s, case_dispatch2 s) ps" "vm_pc (vm s) \<in> set ps"
  shows "\<exists>j t. j < length c \<and> walk_on j (step M (run_context n M) c v) s = Some t \<and>
    vm_pc (vm t) \<in> set ps \<and> snd (step M (run_context n M) c v t) \<noteq> Inr Next \<and>
    (\<forall>k > j. exec_loop k (step M (run_context n M) c v) s =
       (fst (step M (run_context n M) c v t),
        rbind (snd (step M (run_context n M) c v t)) (\<lambda>_. Inr ())))"
  using forward_loop [OF assms(1-4), of "length c" n v] by simp

theorem forward_code_ends_witness:
  "\<exists>j t. j < 12 \<and> walk_on j (step demo_menv (run_context 2 demo_menv) jump_chain 3) at_five = Some t \<and>
     vm_pc (vm t) \<in> {0, 5, 6, 11} \<and>
     snd (step demo_menv (run_context 2 demo_menv) jump_chain 3 t) \<noteq> Inr Next \<and>
     exec_loop 12 (step demo_menv (run_context 2 demo_menv) jump_chain 3) at_five =
       (fst (step demo_menv (run_context 2 demo_menv) jump_chain 3 t),
        rbind (snd (step demo_menv (run_context 2 demo_menv) jump_chain 3 t)) (\<lambda>_. Inr ()))"
proof -
  have "forward_code jump_chain ([], []) [0, 5, 6, 11]" by code_simp
  moreover have "length jump_chain = 12" by code_simp
  ultimately show ?thesis
    using forward_code_ends [OF demo_natives, of jump_chain at_five "[0, 5, 6, 11]" 2 3] jump_chain_closed
    by (auto simp: at_five_fields)
qed

end
