(* ===== verification/Nodes.thy ===== *)
theory Nodes
  imports Numeric IdTable
begin

text \<open>
  src/parse/node.rs: the syntax tree that the parser builds and the code generator reads, with its
  constructors, and the types of src/parse/parser.rs that occur in it: the table of local variables
  of a scope (\<open>LvarCollector\<close>) and a \<open>rescue\<close> clause. \<open>Annot\<close> and \<open>Loc\<close> are of src/util.rs.

  A constructor \<open>NodeKind::X\<close> of the code is \<open>NX\<close> here, an operator \<open>BinOp::X\<close> is \<open>OpX\<close>. The interning
  function \<open>IdentId::get_id\<close> is an argument (\<open>get_id\<close>) of the constructors that take a name. \<open>size\<close> of
  a kind counts the nodes in it, which \<open>child_smaller\<close> relates to its parts (\<open>children\<close>).
\<close>

section \<open>Locations\<close>

type_synonym loc = "u32 \<times> u32"

definition loc_merge :: "loc \<Rightarrow> loc \<Rightarrow> loc" where
  "loc_merge l m = (min (fst l) (fst m), max (snd l) (snd m))"

definition loc_dec :: "loc \<Rightarrow> loc" where
  "loc_dec l = (min (fst l) (snd l - 1), snd l - 1)"

datatype 'k annot = Annot (akind: 'k) (aloc: loc)

section \<open>Local variables\<close>

type_synonym lvar_table = "(u32 \<times> nat) list"

record lvar_collector =
  lc_id :: nat
  lc_table :: lvar_table
  lc_kwrest :: "nat option"
  lc_block :: "nat option"

definition lvar_u32 :: "nat \<Rightarrow> u32" where
  "lvar_u32 l = of_nat l"

definition lvar_collector_new :: lvar_collector where
  "lvar_collector_new = \<lparr>lc_id = 0, lc_table = [], lc_kwrest = None, lc_block = None\<rparr>"

definition lvar_insert :: "u32 \<Rightarrow> lvar_collector \<Rightarrow> lvar_collector \<times> nat" where
  "lvar_insert v c =
     (case map_of (lc_table c) v of
        Some i \<Rightarrow> (c, i)
      | None \<Rightarrow> (c\<lparr>lc_table := AList.update v (lc_id c) (lc_table c), lc_id := lc_id c + 1\<rparr>, lc_id c))"

text \<open>The code inserts first: a variable that was there already gets the next number all the same.\<close>

definition lvar_insert_new :: "u32 \<Rightarrow> lvar_collector \<Rightarrow> lvar_collector \<times> nat option" where
  "lvar_insert_new v c =
     (let c' = c\<lparr>lc_table := AList.update v (lc_id c) (lc_table c)\<rparr> in
      if map_of (lc_table c) v \<noteq> None then (c', None)
      else (c'\<lparr>lc_id := lc_id c + 1\<rparr>, Some (lc_id c)))"

definition lvar_insert_block_param :: "u32 \<Rightarrow> lvar_collector \<Rightarrow> lvar_collector \<times> nat option" where
  "lvar_insert_block_param v c =
     (case lvar_insert_new v c of
        (c', None) \<Rightarrow> (c', None)
      | (c', Some l) \<Rightarrow> (c'\<lparr>lc_block := Some l\<rparr>, Some l))"

definition lvar_insert_kwrest_param :: "u32 \<Rightarrow> lvar_collector \<Rightarrow> lvar_collector \<times> nat option" where
  "lvar_insert_kwrest_param v c =
     (case lvar_insert_new v c of
        (c', None) \<Rightarrow> (c', None)
      | (c', Some l) \<Rightarrow> (c'\<lparr>lc_kwrest := Some l\<rparr>, Some l))"

definition lvar_get :: "lvar_collector \<Rightarrow> u32 \<Rightarrow> nat option" where
  "lvar_get c v = map_of (lc_table c) v"

definition lvar_get_name_id :: "lvar_collector \<Rightarrow> nat \<Rightarrow> u32 option" where
  "lvar_get_name_id c i = map_option fst (find (\<lambda>(_, v). v = i) (lc_table c))"

definition lvar_len :: "lvar_collector \<Rightarrow> nat" where
  "lvar_len c = length (lc_table c)"

section \<open>The tree\<close>

datatype bin_op =
    OpAdd | OpSub | OpMul | OpDiv | OpRem | OpExp | OpShr | OpShl | OpBitAnd | OpBitOr | OpBitXor
  | OpEq | OpNe | OpTEq | OpGt | OpGe | OpLt | OpLe | OpCmp | OpLAnd | OpLOr | OpMatch

definition is_cmp_op :: "bin_op \<Rightarrow> bool" where
  "is_cmp_op b = (case b of
     OpEq \<Rightarrow> True | OpNe \<Rightarrow> True | OpGe \<Rightarrow> True | OpGt \<Rightarrow> True | OpLe \<Rightarrow> True | OpLt \<Rightarrow> True
   | _ \<Rightarrow> False)"

datatype un_op = OpBitNot | OpNot | OpPos | OpNeg

datatype 'n arg_list =
  ArgList (al_args: "'n list") (al_kw_args: "(u32 \<times> 'n) list") (al_kw_rest: "'n list")
    (al_block: "'n option")

datatype 'n case_branch = CaseBranch (cb_when: "'n list") (cb_body: 'n)

datatype 'n rescue_entry =
  RescueEntry (re_exceptions: "'n list") (re_assign: "'n option") (re_body: 'n)

datatype 'n param_kind =
    PParam u32
  | PPost u32
  | POptional u32 'n
  | PRest u32
  | PRestDiscard
  | PKeyword u32 "'n option"
  | PKWRest u32
  | PBlock u32

datatype (plugins only: code size) node_kind =
    NSelfValue
  | NNil
  | NInteger i64
  | NFloat f64
  | NImaginary real_num
  | NBool bool
  | NString string
  | NInterporatedString "node_kind annot list"
  | NCommand "node_kind annot"
  | NSymbol u32
  | NRange "node_kind annot" "node_kind annot" bool
  | NArray "node_kind annot list" bool
  | NHash "(node_kind annot \<times> node_kind annot) list" bool
  | NRegExp "node_kind annot list" bool
  | NLocalVar u32
  | NIdent u32
  | NInstanceVar u32
  | NGlobalVar u32
  | NClassVar u32
  | NConst bool u32
  | NScope "node_kind annot" u32
  | NBinOp bin_op "node_kind annot" "node_kind annot"
  | NUnOp un_op "node_kind annot"
  | NIndex "node_kind annot" "node_kind annot list"
  | NSplat "node_kind annot"
  | NAssignOp bin_op "node_kind annot" "node_kind annot"
  | NMulAssign "node_kind annot list" "node_kind annot list"
  | NCompStmt "node_kind annot list"
  | NIf "node_kind annot" "node_kind annot" "node_kind annot"
  | NFor "u32 list" "node_kind annot" "node_kind annot"
  | NWhile "node_kind annot" "node_kind annot" bool
  | NCase "node_kind annot option" "node_kind annot case_branch list" "node_kind annot"
  | NBegin "node_kind annot" "node_kind annot rescue_entry list" "node_kind annot option"
      "node_kind annot option"
  | NProc "node_kind annot param_kind annot list" "node_kind annot" lvar_collector
  | NBreak "node_kind annot"
  | NNext "node_kind annot"
  | NReturn "node_kind annot"
  | NYield "node_kind annot arg_list"
  | NMethodDef u32 "node_kind annot param_kind annot list" "node_kind annot" lvar_collector
  | NSingletonMethodDef "node_kind annot" u32 "node_kind annot param_kind annot list"
      "node_kind annot" lvar_collector
  | NClassDef "node_kind annot" u32 "node_kind annot" "node_kind annot" lvar_collector bool
  | NSingletonClassDef "node_kind annot" "node_kind annot" lvar_collector
  | NSend "node_kind annot" u32 "node_kind annot arg_list" bool
  | NDefined "node_kind annot"
  | NAliasMethod "node_kind annot" "node_kind annot"

type_synonym node = "node_kind annot"
type_synonym formal_param = "node param_kind annot"

text \<open>The constructors of \<open>FormalParam\<close>, \<open>ArgList\<close>, \<open>CaseBranch\<close> and \<open>RescueEntry\<close>.\<close>

definition req_param :: "u32 \<Rightarrow> loc \<Rightarrow> formal_param" where "req_param i l = Annot (PParam i) l"
definition optional_param :: "u32 \<Rightarrow> node \<Rightarrow> loc \<Rightarrow> formal_param" where
  "optional_param i d l = Annot (POptional i d) l"
definition rest_param :: "u32 \<Rightarrow> loc \<Rightarrow> formal_param" where "rest_param i l = Annot (PRest i) l"
definition rest_discard_param :: "loc \<Rightarrow> formal_param" where "rest_discard_param l = Annot PRestDiscard l"
definition post_param :: "u32 \<Rightarrow> loc \<Rightarrow> formal_param" where "post_param i l = Annot (PPost i) l"
definition keyword_param :: "u32 \<Rightarrow> node option \<Rightarrow> loc \<Rightarrow> formal_param" where
  "keyword_param i d l = Annot (PKeyword i d) l"
definition kw_rest_param :: "u32 \<Rightarrow> loc \<Rightarrow> formal_param" where "kw_rest_param i l = Annot (PKWRest i) l"
definition block_formal :: "u32 \<Rightarrow> loc \<Rightarrow> formal_param" where "block_formal i l = Annot (PBlock i) l"

definition arg_list_default :: "node arg_list" where "arg_list_default = ArgList [] [] [] None"
definition arg_list_with_args :: "node list \<Rightarrow> node arg_list" where
  "arg_list_with_args ns = ArgList ns [] [] None"
definition arg_list_with_block :: "node \<Rightarrow> node arg_list" where
  "arg_list_with_block b = ArgList [] [] [] (Some b)"

section \<open>Questions\<close>

definition node_is_empty :: "node \<Rightarrow> bool" where
  "node_is_empty n = (case akind n of NCompStmt ns \<Rightarrow> length ns = 0 | _ \<Rightarrow> False)"

definition is_const_expr :: "node \<Rightarrow> bool" where
  "is_const_expr n =
     (case akind n of
        NBool _ \<Rightarrow> True | NInteger _ \<Rightarrow> True | NFloat _ \<Rightarrow> True | NNil \<Rightarrow> True | NSymbol _ \<Rightarrow> True
      | NString _ \<Rightarrow> True | NHash _ c \<Rightarrow> c | NRegExp _ c \<Rightarrow> c | NArray _ c \<Rightarrow> c | _ \<Rightarrow> False)"

definition test_defined :: "node \<Rightarrow> string" where
  "test_defined n =
     (case akind n of
        NLocalVar _ \<Rightarrow> ''local-variable''
      | NGlobalVar _ \<Rightarrow> ''global-variable''
      | NClassVar _ \<Rightarrow> ''class-variable''
      | NConst _ _ \<Rightarrow> ''constant''
      | NScope _ _ \<Rightarrow> ''constant''
      | NInstanceVar _ \<Rightarrow> ''instance-variable''
      | NAssignOp _ _ _ \<Rightarrow> ''assignment''
      | NMulAssign _ _ \<Rightarrow> ''assignment''
      | NBinOp _ _ _ \<Rightarrow> ''method''
      | NUnOp _ _ \<Rightarrow> ''method''
      | NIndex _ _ \<Rightarrow> ''method''
      | NSend _ _ _ _ \<Rightarrow> ''method''
      | NBool b \<Rightarrow> if b then ''true'' else ''false''
      | NNil \<Rightarrow> ''nil''
      | NSelfValue \<Rightarrow> ''self''
      | _ \<Rightarrow> ''expression'')"

definition is_splat :: "node \<Rightarrow> bool" where
  "is_splat n = (case akind n of NSplat _ \<Rightarrow> True | _ \<Rightarrow> False)"

definition is_imm_u32 :: "node \<Rightarrow> u32 option" where
  "is_imm_u32 n =
     (case akind n of
        NInteger i \<Rightarrow> if 0 \<le> sint i \<and> sint i \<le> 2 ^ 32 - 1 then Some (ucast i) else None
      | _ \<Rightarrow> None)"

definition is_imm_i32 :: "node \<Rightarrow> i32 option" where
  "is_imm_i32 n =
     (case akind n of
        NInteger i \<Rightarrow> if - (2 ^ 31) \<le> sint i \<and> sint i \<le> 2 ^ 31 - 1 then Some (ucast i) else None
      | _ \<Rightarrow> None)"

definition as_method_name :: "node \<Rightarrow> u32 option" where
  "as_method_name n =
     (case akind n of
        NConst _ i \<Rightarrow> Some i | NIdent i \<Rightarrow> Some i | NLocalVar i \<Rightarrow> Some i | _ \<Rightarrow> None)"

section \<open>Constructors\<close>

definition new_nil :: "loc \<Rightarrow> node" where "new_nil l = Annot NNil l"
definition new_integer :: "i64 \<Rightarrow> loc \<Rightarrow> node" where "new_integer i l = Annot (NInteger i) l"
definition new_bool :: "bool \<Rightarrow> loc \<Rightarrow> node" where "new_bool b l = Annot (NBool b) l"
definition new_float :: "f64 \<Rightarrow> loc \<Rightarrow> node" where "new_float f l = Annot (NFloat f) l"
definition new_imaginary :: "real_num \<Rightarrow> loc \<Rightarrow> node" where "new_imaginary r l = Annot (NImaginary r) l"
definition new_string_node :: "string \<Rightarrow> loc \<Rightarrow> node" where "new_string_node s l = Annot (NString s) l"

definition new_array_node :: "node list \<Rightarrow> loc \<Rightarrow> node" where
  "new_array_node ns l =
     Annot (NArray ns (list_all is_const_expr ns))
       (if ns = [] then l else loc_merge l (aloc (last ns)))"

definition new_range :: "node \<Rightarrow> node \<Rightarrow> bool \<Rightarrow> loc \<Rightarrow> node" where
  "new_range a b ex l = Annot (NRange a b ex) l"

definition new_hash_node :: "(node \<times> node) list \<Rightarrow> loc \<Rightarrow> node" where
  "new_hash_node kvs l =
     Annot (NHash kvs (list_all (\<lambda>(k, v). is_const_expr k \<and> is_const_expr v) kvs)) l"

definition new_regexp_node :: "node list \<Rightarrow> loc \<Rightarrow> node" where
  "new_regexp_node ns l = Annot (NRegExp ns (list_all is_const_expr ns)) l"

definition new_self :: "loc \<Rightarrow> node" where "new_self l = Annot NSelfValue l"
definition new_interporated_string :: "node list \<Rightarrow> loc \<Rightarrow> node" where
  "new_interporated_string ns l = Annot (NInterporatedString ns) l"
definition new_command :: "node \<Rightarrow> node" where "new_command n = Annot (NCommand n) (aloc n)"
definition new_defined :: "node \<Rightarrow> node" where "new_defined n = Annot (NDefined n) (aloc n)"
definition new_alias :: "node \<Rightarrow> node \<Rightarrow> loc \<Rightarrow> node" where "new_alias a b l = Annot (NAliasMethod a b) l"

definition new_comp_stmt :: "node list \<Rightarrow> loc \<Rightarrow> node" where
  "new_comp_stmt ns l =
     Annot (NCompStmt ns) (if ns = [] then l else loc_merge (aloc (hd ns)) (aloc (last ns)))"

definition new_nop :: "loc \<Rightarrow> node" where "new_nop l = Annot (NCompStmt []) l"
definition new_binop :: "bin_op \<Rightarrow> node \<Rightarrow> node \<Rightarrow> node" where
  "new_binop b x y = Annot (NBinOp b x y) (loc_merge (aloc x) (aloc y))"
definition new_unop :: "un_op \<Rightarrow> node \<Rightarrow> loc \<Rightarrow> node" where
  "new_unop u x l = Annot (NUnOp u x) (loc_merge l (aloc x))"
definition new_array_member :: "node \<Rightarrow> node list \<Rightarrow> loc \<Rightarrow> node" where
  "new_array_member a ix l = Annot (NIndex a ix) l"
definition new_splat :: "node \<Rightarrow> loc \<Rightarrow> node" where "new_splat a l = Annot (NSplat a) (loc_merge l (aloc a))"
definition new_lvar :: "u32 \<Rightarrow> loc \<Rightarrow> node" where "new_lvar i l = Annot (NLocalVar i) l"
definition new_identifier :: "(string \<Rightarrow> u32) \<Rightarrow> string \<Rightarrow> loc \<Rightarrow> node" where
  "new_identifier get_id s l = Annot (NIdent (get_id s)) l"
definition new_symbol :: "u32 \<Rightarrow> loc \<Rightarrow> node" where "new_symbol i l = Annot (NSymbol i) l"
definition new_instance_var :: "(string \<Rightarrow> u32) \<Rightarrow> string \<Rightarrow> loc \<Rightarrow> node" where
  "new_instance_var get_id s l = Annot (NInstanceVar (get_id s)) l"
definition new_class_var :: "(string \<Rightarrow> u32) \<Rightarrow> string \<Rightarrow> loc \<Rightarrow> node" where
  "new_class_var get_id s l = Annot (NClassVar (get_id s)) l"
definition new_global_var :: "(string \<Rightarrow> u32) \<Rightarrow> string \<Rightarrow> loc \<Rightarrow> node" where
  "new_global_var get_id s l = Annot (NGlobalVar (get_id s)) l"
definition new_const :: "(string \<Rightarrow> u32) \<Rightarrow> string \<Rightarrow> bool \<Rightarrow> loc \<Rightarrow> node" where
  "new_const get_id s toplevel l = Annot (NConst toplevel (get_id s)) l"
definition new_scope :: "(string \<Rightarrow> u32) \<Rightarrow> node \<Rightarrow> string \<Rightarrow> loc \<Rightarrow> node" where
  "new_scope get_id p s l = Annot (NScope p (get_id s)) l"

definition new_mul_assign :: "node list \<Rightarrow> node list \<Rightarrow> node res" where
  "new_mul_assign mlhs mrhs =
     (let wrap = list_ex is_splat mrhs \<or> length mlhs = 1 \<and> length mrhs \<noteq> 1 in
      rbind (if wrap then rbind (index_at mrhs 0) (\<lambda>n. Inr [new_array_node mrhs (aloc n)])
             else Inr mrhs) (\<lambda>mrhs.
      rbind (index_at mlhs 0) (\<lambda>l.
      rbind (or_panic (if mrhs = [] then None else Some (last mrhs))) (\<lambda>r.
      Inr (Annot (NMulAssign mlhs mrhs) (loc_merge (aloc l) (aloc r)))))))"

definition new_single_assign :: "node \<Rightarrow> node \<Rightarrow> node" where
  "new_single_assign x y = Annot (NMulAssign [x] [y]) (loc_merge (aloc x) (aloc y))"

definition new_method_decl :: "u32 \<Rightarrow> formal_param list \<Rightarrow> node \<Rightarrow> lvar_collector \<Rightarrow> node" where
  "new_method_decl i ps body lv = Annot (NMethodDef i ps body lv) (aloc body)"

definition new_singleton_method_decl ::
    "node \<Rightarrow> u32 \<Rightarrow> formal_param list \<Rightarrow> node \<Rightarrow> lvar_collector \<Rightarrow> node" where
  "new_singleton_method_decl sg i ps body lv = Annot (NSingletonMethodDef sg i ps body lv) (aloc body)"

definition new_class_decl ::
    "node \<Rightarrow> u32 \<Rightarrow> node \<Rightarrow> node \<Rightarrow> lvar_collector \<Rightarrow> bool \<Rightarrow> loc \<Rightarrow> node" where
  "new_class_decl b i super body lv m l = Annot (NClassDef b i super body lv m) l"

definition new_singleton_class_decl :: "node \<Rightarrow> node \<Rightarrow> lvar_collector \<Rightarrow> loc \<Rightarrow> node" where
  "new_singleton_class_decl sg body lv l = Annot (NSingletonClassDef sg body lv) l"

definition new_send :: "node \<Rightarrow> u32 \<Rightarrow> node arg_list \<Rightarrow> bool \<Rightarrow> loc \<Rightarrow> node" where
  "new_send r m a safe l = Annot (NSend r m a safe) l"

definition new_send_noarg :: "node \<Rightarrow> u32 \<Rightarrow> bool \<Rightarrow> loc \<Rightarrow> node" where
  "new_send_noarg r m safe l = Annot (NSend r m arg_list_default safe) l"

definition new_if :: "node \<Rightarrow> node \<Rightarrow> node \<Rightarrow> loc \<Rightarrow> node" where
  "new_if c t e l = Annot (NIf c t e) (loc_merge (loc_merge l (aloc t)) (aloc e))"

definition new_while :: "node \<Rightarrow> node \<Rightarrow> bool \<Rightarrow> loc \<Rightarrow> node" where
  "new_while c body b l = Annot (NWhile c body b) (loc_merge l (aloc body))"

definition new_case :: "node option \<Rightarrow> node case_branch list \<Rightarrow> node \<Rightarrow> loc \<Rightarrow> node" where
  "new_case c bs e l = Annot (NCase c bs e) (loc_merge l (aloc e))"

definition new_begin ::
    "node \<Rightarrow> node rescue_entry list \<Rightarrow> node option \<Rightarrow> node option \<Rightarrow> node" where
  "new_begin body rs e en =
     (let l = aloc body;
          l = (case e of Some n \<Rightarrow> loc_merge l (aloc n) | None \<Rightarrow> l);
          l = (case en of Some n \<Rightarrow> loc_merge l (aloc n) | None \<Rightarrow> l)
      in Annot (NBegin body rs e en) l)"

definition new_break :: "node \<Rightarrow> loc \<Rightarrow> node" where "new_break v l = Annot (NBreak v) l"
definition new_next :: "node \<Rightarrow> loc \<Rightarrow> node" where "new_next v l = Annot (NNext v) l"
definition new_return :: "node \<Rightarrow> loc \<Rightarrow> node" where "new_return v l = Annot (NReturn v) l"
definition new_yield :: "node arg_list \<Rightarrow> loc \<Rightarrow> node" where "new_yield a l = Annot (NYield a) l"
definition new_proc_node :: "formal_param list \<Rightarrow> node \<Rightarrow> lvar_collector \<Rightarrow> loc \<Rightarrow> node" where
  "new_proc_node ps body lv l = Annot (NProc ps body lv) (loc_merge l (aloc body))"

section \<open>The parts of a node\<close>

definition param_children :: "formal_param list \<Rightarrow> node list" where
  "param_children ps =
     concat (map (\<lambda>p. case akind p of
       POptional _ d \<Rightarrow> [d] | PKeyword _ (Some d) \<Rightarrow> [d] | _ \<Rightarrow> []) ps)"

definition arg_children :: "node arg_list \<Rightarrow> node list" where
  "arg_children a =
     al_args a @ map snd (al_kw_args a) @ al_kw_rest a @
     (case al_block a of Some b \<Rightarrow> [b] | None \<Rightarrow> [])"

definition children :: "node \<Rightarrow> node list" where
  "children n =
     (case akind n of
        NInterporatedString ns \<Rightarrow> ns
      | NCommand c \<Rightarrow> [c]
      | NRange a b _ \<Rightarrow> [a, b]
      | NArray ns _ \<Rightarrow> ns
      | NHash kvs _ \<Rightarrow> concat (map (\<lambda>(k, v). [k, v]) kvs)
      | NRegExp ns _ \<Rightarrow> ns
      | NScope p _ \<Rightarrow> [p]
      | NBinOp _ a b \<Rightarrow> [a, b]
      | NUnOp _ a \<Rightarrow> [a]
      | NIndex b ix \<Rightarrow> b # ix
      | NSplat a \<Rightarrow> [a]
      | NAssignOp _ a b \<Rightarrow> [a, b]
      | NMulAssign l r \<Rightarrow> l @ r
      | NCompStmt ns \<Rightarrow> ns
      | NIf c t e \<Rightarrow> [c, t, e]
      | NFor _ it body \<Rightarrow> [it, body]
      | NWhile c body _ \<Rightarrow> [c, body]
      | NCase c bs e \<Rightarrow>
          (case c of Some c \<Rightarrow> [c] | None \<Rightarrow> []) @
          concat (map (\<lambda>b. cb_when b @ [cb_body b]) bs) @ [e]
      | NBegin body rs e en \<Rightarrow>
          [body] @
          concat (map (\<lambda>r. re_exceptions r @ (case re_assign r of Some a \<Rightarrow> [a] | None \<Rightarrow> []) @
            [re_body r]) rs) @
          (case e of Some e \<Rightarrow> [e] | None \<Rightarrow> []) @ (case en of Some e \<Rightarrow> [e] | None \<Rightarrow> [])
      | NProc ps body _ \<Rightarrow> param_children ps @ [body]
      | NBreak v \<Rightarrow> [v]
      | NNext v \<Rightarrow> [v]
      | NReturn v \<Rightarrow> [v]
      | NYield a \<Rightarrow> arg_children a
      | NMethodDef _ ps body _ \<Rightarrow> param_children ps @ [body]
      | NSingletonMethodDef sg _ ps body _ \<Rightarrow> sg # param_children ps @ [body]
      | NClassDef b _ super body _ _ \<Rightarrow> [b, super, body]
      | NSingletonClassDef sg body _ \<Rightarrow> [sg, body]
      | NSend r _ a _ \<Rightarrow> r # arg_children a
      | NDefined c \<Rightarrow> [c]
      | NAliasMethod a b \<Rightarrow> [a, b]
      | _ \<Rightarrow> [])"

definition nsize :: "node \<Rightarrow> nat" where
  "nsize n = size (akind n)"

lemma nsize_annot: "nsize n < size_annot size n"
  by (cases n) (simp add: nsize_def)

lemma nsize_list: "m \<in> set ns \<Longrightarrow> nsize m < size_list (size_annot size) ns"
  using nsize_annot [of m] by (induction ns) auto

lemma nsize_params:
  assumes "m \<in> set (param_children ps)"
  shows "nsize m < size_list (size_annot (size_param_kind (size_annot size))) ps"
  using assms
proof (induction ps)
  case (Cons p ps)
  have "nsize m < size_annot (size_param_kind (size_annot size)) p"
    if "m \<in> set (param_children [p])"
    using that nsize_annot [of m]
    by (cases p) (auto simp: param_children_def split: param_kind.splits option.splits)
  moreover have "param_children (p # ps) = param_children [p] @ param_children ps"
    by (simp add: param_children_def)
  ultimately show ?case using Cons by auto
qed (simp add: param_children_def)

lemma nsize_args:
  assumes "m \<in> set (arg_children a)"
  shows "nsize m < size_arg_list (size_annot size) a"
proof (cases a)
  case (ArgList xs kws rs b)
  have kw: "nsize m < size_list (size_prod (\<lambda>_. 0) (size_annot size)) kws"
    if "m \<in> set (map snd kws)"
    using that nsize_annot [of m] by (induction kws) (auto simp del: set_map)
  show ?thesis
    using assms nsize_list [of m xs] nsize_list [of m rs] kw nsize_annot [of m]
    by (auto simp: arg_children_def ArgList simp del: set_map split: option.splits)
qed

lemma nsize_pairs:
  assumes "m \<in> set (concat (map (\<lambda>(k, v). [k, v]) kvs))"
  shows "nsize m < size_list (size_prod (size_annot size) (size_annot size)) kvs"
  using assms
proof (induction kvs)
  case (Cons p kvs)
  then show ?case using nsize_annot [of m] by (cases p) (auto simp del: set_concat)
qed simp

lemma nsize_branches:
  assumes "m \<in> set (concat (map (\<lambda>b. cb_when b @ [cb_body b]) bs))"
  shows "nsize m < size_list (size_case_branch (size_annot size)) bs"
  using assms
proof (induction bs)
  case (Cons b bs)
  have "nsize m < size_case_branch (size_annot size) b" if "m \<in> set (cb_when b @ [cb_body b])"
    using that nsize_annot [of m] nsize_list [of m "cb_when b"] by (cases b) auto
  with Cons show ?case by (auto simp del: set_concat)
qed simp

lemma nsize_rescues:
  assumes "m \<in> set (concat (map (\<lambda>r. re_exceptions r @
      (case re_assign r of Some a \<Rightarrow> [a] | None \<Rightarrow> []) @ [re_body r]) rs))"
  shows "nsize m < size_list (size_rescue_entry (size_annot size)) rs"
  using assms
proof (induction rs)
  case (Cons r rs)
  have "nsize m < size_rescue_entry (size_annot size) r"
    if "m \<in> set (re_exceptions r @ (case re_assign r of Some a \<Rightarrow> [a] | None \<Rightarrow> []) @ [re_body r])"
    using that nsize_annot [of m] nsize_list [of m "re_exceptions r"]
    by (cases r) (auto split: option.splits)
  with Cons show ?case by (auto simp del: set_concat set_append) (auto simp del: set_concat)
qed simp

lemma child_smaller:
  assumes "m \<in> set (children n)"
  shows "nsize m < nsize n"
  using assms nsize_annot [of m]
  unfolding children_def nsize_def [of n]
  by (cases "akind n")
    (auto split: option.splits dest!: nsize_list nsize_params nsize_args
      nsize_pairs nsize_branches nsize_rescues simp del: set_concat)

end
