(* ===== verification/Codegen.thy ===== *)
theory Codegen
  imports Nodes Calls
begin

text \<open>
  src/parse/codegen.rs: the compiler from the syntax tree (theory Nodes) to bytecode (theory ISeq).

  The record \<open>codegen\<close> is the struct \<open>Codegen\<close>, with the code that is being emitted (\<open>emitted\<close>, the
  argument \<open>iseq\<close> of the functions) and the global state (\<open>globals\<close>) beside its fields. The functions
  of the code are recursive through \<open>gen\<close>; here each of them takes the recursive call as its argument
  \<open>g\<close>, and \<open>gen\<close> ties the knot with fuel: one unit per level of the tree is enough. An instruction and
  its operands are emitted in one step. The scopes of an \<open>eval\<close> (\<open>extern_context\<close>) are given by their
  tables of variables, innermost first. The source info and the messages of errors are not modelled,
  nor is the listing of the feature \<open>emit-iseq\<close>.
\<close>

section \<open>State\<close>

datatype loop_state = LoopState | TopState
datatype escape_kind = EscBreak | EscNext

record loop_info =
  l_state :: loop_state
  l_escape :: "(nat \<times> escape_kind) list"

definition loop_new_top :: loop_info where "loop_new_top = \<lparr>l_state = TopState, l_escape = []\<rparr>"
definition loop_new_loop :: loop_info where "loop_new_loop = \<lparr>l_state = LoopState, l_escape = []\<rparr>"

record local_jump_dest =
  has_ensure :: bool
  return_entries :: "nat list"
  mreturn_entries :: "nat list"

definition jump_dest_new :: "bool \<Rightarrow> local_jump_dest" where
  "jump_dest_new b = \<lparr>has_ensure = b, return_entries = [], mreturn_entries = []\<rparr>"

definition jump_dest_is_empty :: "local_jump_dest \<Rightarrow> bool" where
  "jump_dest_is_empty d \<longleftrightarrow> return_entries d = [] \<and> mreturn_entries d = []"

datatype context_kind = MethodC "u32 option" | ClassC u32 | BlockC | EvalC

definition is_method_ctx :: "context_kind \<Rightarrow> bool" where
  "is_method_ctx k = (case k of MethodC _ \<Rightarrow> True | _ \<Rightarrow> False)"

record gen_context =
  gc_lvars :: lvar_table
  gc_sourcemap :: "(nat \<times> loc) list"
  gc_jump_dest :: "local_jump_dest list"
  gc_exceptions :: "exception_entry list"
  gc_kind :: context_kind

definition gen_context_from :: "lvar_table \<Rightarrow> context_kind \<Rightarrow> gen_context" where
  "gen_context_from t k =
     \<lparr>gc_lvars = t, gc_sourcemap = [], gc_jump_dest = [], gc_exceptions = [], gc_kind = k\<rparr>"

definition gen_context_new :: gen_context where
  "gen_context_new = gen_context_from [] EvalC"

record 'g codegen =
  method_stack :: "u32 list"
  loop_stack :: "loop_info list"
  context_stack :: "gen_context list"
  extern_lvars :: "lvar_table list"
  cur_loc :: loc
  emitted :: code
  globals :: 'g

type_synonym ('m, 'a) cgeff = "('m mach codegen, 'a) eff"
type_synonym 'm generator = "node \<Rightarrow> bool \<Rightarrow> ('m, unit) cgeff"

definition codegen_new :: "lvar_table list \<Rightarrow> 'g \<Rightarrow> 'g codegen" where
  "codegen_new ts gl =
     \<lparr>method_stack = [], loop_stack = [loop_new_top], context_stack = [gen_context_new],
      extern_lvars = ts, cur_loc = (0, 0), emitted = [], globals = gl\<rparr>"

section \<open>Small steps\<close>

definition emit :: "(code \<Rightarrow> code) \<Rightarrow> ('g codegen, unit) eff" where
  "emit f = modify (\<lambda>s. s\<lparr>emitted := f (emitted s)\<rparr>)"

definition emit_at :: "(code \<Rightarrow> code \<times> nat) \<Rightarrow> ('g codegen, nat) eff" where
  "emit_at f =
     bind (asks (\<lambda>s. Inr (snd (f (emitted s))))) (\<lambda>p. bind (emit (\<lambda>c. fst (f c))) (\<lambda>_. ret p))"

definition patch :: "nat \<Rightarrow> nat \<Rightarrow> ('g codegen, unit) eff" where
  "patch src dest =
     steps (\<lambda>s. rbind (write_disp src dest (emitted s)) (\<lambda>c. Inr (s\<lparr>emitted := c\<rparr>, ())))"

definition patch_here :: "nat \<Rightarrow> ('g codegen, unit) eff" where
  "patch_here src =
     steps (\<lambda>s. rbind (write_disp_from_cur src (emitted s)) (\<lambda>c. Inr (s\<lparr>emitted := c\<rparr>, ())))"

definition cur_pos :: "('g codegen, nat) eff" where
  "cur_pos = asks (\<lambda>s. Inr (length (emitted s)))"

definition on_globals :: "('g, 'a) eff \<Rightarrow> ('g codegen, 'a) eff" where
  "on_globals f s = (case f (globals s) of (g, r) \<Rightarrow> (s\<lparr>globals := g\<rparr>, r))"

definition set_loc :: "loc \<Rightarrow> ('g codegen, unit) eff" where
  "set_loc l = modify (\<lambda>s. s\<lparr>cur_loc := l\<rparr>)"

fun each :: "('a \<Rightarrow> ('s, unit) eff) \<Rightarrow> 'a list \<Rightarrow> ('s, unit) eff" where
  "each f [] = ret ()"
| "each f (x # xs) = bind (f x) (\<lambda>_. each f xs)"

fun gather :: "('a \<Rightarrow> ('s, 'b) eff) \<Rightarrow> 'a list \<Rightarrow> ('s, 'b list) eff" where
  "gather f [] = ret []"
| "gather f (x # xs) = bind (f x) (\<lambda>y. bind (gather f xs) (\<lambda>ys. ret (y # ys)))"

definition skip_unless :: "bool \<Rightarrow> ('s, unit) eff \<Rightarrow> ('s, unit) eff" where
  "skip_unless b f = (if b then f else ret ())"

text \<open>The last context and the last loop; the code unwraps them.\<close>

definition context_last :: "('g codegen, gen_context) eff" where
  "context_last =
     asks (\<lambda>s. if context_stack s = [] then Inl Panic else Inr (last (context_stack s)))"

definition mod_context :: "(gen_context \<Rightarrow> gen_context) \<Rightarrow> ('g codegen, unit) eff" where
  "mod_context f =
     bind context_last (\<lambda>c.
     modify (\<lambda>s. s\<lparr>context_stack := butlast (context_stack s) @ [f c]\<rparr>))"

definition loop_last :: "('g codegen, loop_info) eff" where
  "loop_last = asks (\<lambda>s. if loop_stack s = [] then Inl Panic else Inr (last (loop_stack s)))"

definition loop_push :: "loop_info \<Rightarrow> ('g codegen, unit) eff" where
  "loop_push l = modify (\<lambda>s. s\<lparr>loop_stack := loop_stack s @ [l]\<rparr>)"

definition loop_pop :: "('g codegen, loop_info) eff" where
  "loop_pop =
     bind loop_last (\<lambda>l. bind (modify (\<lambda>s. s\<lparr>loop_stack := butlast (loop_stack s)\<rparr>)) (\<lambda>_. ret l))"

definition add_escape :: "nat \<Rightarrow> escape_kind \<Rightarrow> ('g codegen, unit) eff" where
  "add_escape pos k =
     bind loop_last (\<lambda>l.
     modify (\<lambda>s. s\<lparr>loop_stack := butlast (loop_stack s) @ [l\<lparr>l_escape := l_escape l @ [(pos, k)]\<rparr>]\<rparr>))"

definition save_loc :: "loc \<Rightarrow> ('g codegen, unit) eff" where
  "save_loc l =
     bind cur_pos (\<lambda>p. mod_context (\<lambda>c. c\<lparr>gc_sourcemap := gc_sourcemap c @ [(p, l)]\<rparr>))"

definition save_cur_loc :: "('g codegen, unit) eff" where
  "save_cur_loc = bind (asks (\<lambda>s. Inr (cur_loc s))) save_loc"

definition error_syntax :: "('s, 'a) eff" where
  "error_syntax = raise (Raise (ParseErr SyntaxError))"

text \<open>An opcode alone, and with one operand.\<close>

definition inst0 :: "u8 \<Rightarrow> code \<Rightarrow> code" where
  "inst0 i c = c @ [i]"

definition inst32 :: "u8 \<Rightarrow> u32 \<Rightarrow> code \<Rightarrow> code" where
  "inst32 i w c = push32 w (c @ [i])"

definition inst32_32 :: "u8 \<Rightarrow> u32 \<Rightarrow> u32 \<Rightarrow> code \<Rightarrow> code" where
  "inst32_32 i v w c = push32 w (push32 v (c @ [i]))"

definition push_inst :: "u8 \<Rightarrow> ('g codegen, unit) eff" where
  "push_inst i = emit (inst0 i)"

definition gen_pop :: "('g codegen, unit) eff" where "gen_pop = push_inst I_POP"
definition gen_dup :: "nat \<Rightarrow> ('g codegen, unit) eff" where
  "gen_dup len = emit (inst32 I_DUP (of_nat len))"
definition gen_sinkn :: "nat \<Rightarrow> ('g codegen, unit) eff" where
  "gen_sinkn len = emit (inst32 I_SINKN (of_nat len))"
definition gen_topn :: "nat \<Rightarrow> ('g codegen, unit) eff" where
  "gen_topn len = emit (inst32 I_TOPN (of_nat len))"
definition gen_take :: "nat \<Rightarrow> ('g codegen, unit) eff" where
  "gen_take len = emit (inst32 I_TAKE (of_nat len))"
definition gen_concat :: "nat \<Rightarrow> ('g codegen, unit) eff" where
  "gen_concat len = emit (inst32 I_CONCAT_STRING (of_nat len))"

definition pop_unless :: "bool \<Rightarrow> ('g codegen, unit) eff" where
  "pop_unless use_value = skip_unless (\<not> use_value) gen_pop"

definition gen_get_array_elem :: "loc \<Rightarrow> ('g codegen, unit) eff" where
  "gen_get_array_elem l = bind (save_loc l) (\<lambda>_. push_inst I_GET_INDEX)"

definition gen_yield :: "nat \<Rightarrow> ('g codegen, unit) eff" where
  "gen_yield args_num = bind save_cur_loc (\<lambda>_. emit (inst32 I_YIELD (of_nat args_num)))"

section \<open>Local variables\<close>

text \<open>
  \<open>get_local_var\<close>: the scopes from the innermost one outwards, up to a method; then those of the
  context of an \<open>eval\<close>, counted from the last scope seen, which stands for the first of them.
\<close>

fun scope_search :: "u32 \<Rightarrow> nat \<Rightarrow> nat \<Rightarrow> gen_context list \<Rightarrow> (nat \<times> nat) option + nat" where
  "scope_search v i idx [] = Inr idx"
| "scope_search v i idx (c # cs) =
     (case map_of (gc_lvars c) v of
        Some l \<Rightarrow> Inl (Some (i, l))
      | None \<Rightarrow> if is_method_ctx (gc_kind c) then Inl None else scope_search v (Suc i) i cs)"

fun extern_search :: "u32 \<Rightarrow> nat \<Rightarrow> lvar_table list \<Rightarrow> (nat \<times> nat) option" where
  "extern_search v idx [] = None"
| "extern_search v idx (t # ts) =
     (case map_of t v of Some l \<Rightarrow> Some (idx, l) | None \<Rightarrow> extern_search v (Suc idx) ts)"

definition get_local_var :: "'g codegen \<Rightarrow> u32 \<Rightarrow> (u32 \<times> nat) option" where
  "get_local_var s v =
     map_option (\<lambda>(i, l). (of_nat i, l))
       (case scope_search v 0 0 (rev (context_stack s)) of
          Inl r \<Rightarrow> r
        | Inr idx \<Rightarrow> extern_search v idx (extern_lvars s))"

definition local_var :: "u32 \<Rightarrow> ('g codegen, (u32 \<times> nat) option) eff" where
  "local_var v = asks (\<lambda>s. Inr (get_local_var s v))"

definition local_var_or :: "fault \<Rightarrow> u32 \<Rightarrow> ('g codegen, u32 \<times> nat) eff" where
  "local_var_or e v = bind (local_var v) (\<lambda>r. case r of Some x \<Rightarrow> ret x | None \<Rightarrow> raise e)"

definition gen_set_local :: "u32 \<Rightarrow> ('g codegen, unit) eff" where
  "gen_set_local v =
     bind (local_var_or Panic v) (\<lambda>(out, l).
       if out = 0 then emit (inst32 I_SET_LOCAL (lvar_u32 l))
       else emit (inst32_32 I_SET_DYNLOCAL (lvar_u32 l) out))"

definition gen_get_local :: "u32 \<Rightarrow> ('g codegen, unit) eff" where
  "gen_get_local v =
     bind (local_var_or (Raise (RuntimeErr Name)) v) (\<lambda>(out, l).
       if out = 0 then emit (inst32 I_GET_LOCAL (lvar_u32 l))
       else emit (inst32_32 I_GET_DYNLOCAL (lvar_u32 l) out))"

definition gen_check_local :: "u32 \<Rightarrow> ('g codegen, unit) eff" where
  "gen_check_local v =
     bind (local_var_or (Raise (RuntimeErr Name)) v) (\<lambda>(out, l).
       emit (inst32_32 I_CHECK_LOCAL (lvar_u32 l) out))"

definition gen_lvar_addi :: "u32 \<Rightarrow> i32 \<Rightarrow> bool \<Rightarrow> ('g codegen, unit) eff" where
  "gen_lvar_addi v i use_value =
     bind (local_var_or (Raise (RuntimeErr Name)) v) (\<lambda>(out, l).
       if out = 0 then
         bind save_cur_loc (\<lambda>_.
         bind (emit (inst32_32 I_LVAR_ADDI (lvar_u32 l) i)) (\<lambda>_.
         skip_unless use_value (gen_get_local v)))
       else
         bind (emit (inst32_32 I_GET_DYNLOCAL (lvar_u32 l) out)) (\<lambda>_.
         bind save_cur_loc (\<lambda>_.
         bind (emit (inst32 I_ADDI i)) (\<lambda>_.
         bind (skip_unless use_value (gen_dup 1)) (\<lambda>_.
         emit (inst32_32 I_SET_DYNLOCAL (lvar_u32 l) out))))))"

section \<open>Variables and constants\<close>

definition gen_get_class_var :: "u32 \<Rightarrow> ('g codegen, unit) eff" where
  "gen_get_class_var i = bind save_cur_loc (\<lambda>_. emit (inst32 I_GET_CVAR i))"

definition gen_set_class_var :: "u32 \<Rightarrow> ('g codegen, unit) eff" where
  "gen_set_class_var i = bind save_cur_loc (\<lambda>_. emit (inst32 I_SET_CVAR i))"

definition gen_get_const :: "u32 \<Rightarrow> ('m, unit) cgeff" where
  "gen_get_const i =
     bind save_cur_loc (\<lambda>_.
     bind (on_globals add_const_cache_entry) (\<lambda>slot. emit (inst32_32 I_GET_CONST i slot)))"

definition gen_get_const_top :: "u32 \<Rightarrow> ('g codegen, unit) eff" where
  "gen_get_const_top i = bind save_cur_loc (\<lambda>_. emit (inst32 I_GET_CONST_TOP i))"

definition gen_get_scope :: "u32 \<Rightarrow> loc \<Rightarrow> ('g codegen, unit) eff" where
  "gen_get_scope i l = bind (save_loc l) (\<lambda>_. emit (inst32 I_GET_SCOPE i))"

text \<open>A value of the compiler's becomes a constant of the code.\<close>

definition const_val :: "('m, val) meff \<Rightarrow> ('m, unit) cgeff" where
  "const_val f =
     bind (on_globals f) (\<lambda>v.
     bind (on_globals (const_value_insert v)) (\<lambda>i.
     steps (\<lambda>s. rbind (gen_const_val i (emitted s)) (\<lambda>c. Inr (s\<lparr>emitted := c\<rparr>, ())))))"

definition gen_string :: "'m mach menv \<Rightarrow> string \<Rightarrow> ('m, unit) cgeff" where
  "gen_string M cs = const_val (new_string M cs)"

definition gen_complex :: "'m mach menv \<Rightarrow> real_num \<Rightarrow> ('m, unit) cgeff" where
  "gen_complex M i =
     const_val
       (bind (steps (\<lambda>s. integer (e_classes M) alloc s 0)) (\<lambda>z.
        bind (steps (\<lambda>s. to_val (e_classes M) alloc s i)) (\<lambda>v.
        steps (\<lambda>s. complex_value (e_classes M) alloc s z v))))"

section \<open>Sends\<close>

definition send_code :: "u8 \<Rightarrow> u32 \<Rightarrow> nat \<Rightarrow> nat \<Rightarrow> u8 \<Rightarrow> u32 option \<Rightarrow> u32 \<Rightarrow> code \<Rightarrow> code" where
  "send_code i meth args_num kw_rest_num flag block slot c =
     push32 slot (push_method block
       (push16 (of_nat args_num) (push32 meth (c @ [i])) @ [of_nat kw_rest_num, flag]))"

definition opt_send_code :: "u8 \<Rightarrow> u32 \<Rightarrow> nat \<Rightarrow> u32 option \<Rightarrow> u32 \<Rightarrow> code \<Rightarrow> code" where
  "opt_send_code i meth args_num block slot c =
     push32 slot (push_method block (push16 (of_nat args_num) (push32 meth (c @ [i]))))"

definition gen_send :: "u32 \<Rightarrow> nat \<Rightarrow> nat \<Rightarrow> u8 \<Rightarrow> u32 option \<Rightarrow> ('m, unit) cgeff" where
  "gen_send meth args_num kw_rest_num flag block =
     bind save_cur_loc (\<lambda>_.
     bind (on_globals ic_add_entry) (\<lambda>slot.
     emit (send_code I_SEND meth args_num kw_rest_num flag block slot)))"

definition gen_send_self :: "u32 \<Rightarrow> nat \<Rightarrow> nat \<Rightarrow> u8 \<Rightarrow> u32 option \<Rightarrow> ('m, unit) cgeff" where
  "gen_send_self meth args_num kw_rest_num flag block =
     bind save_cur_loc (\<lambda>_.
     bind (on_globals ic_add_entry) (\<lambda>slot.
     emit (send_code I_SEND_SELF meth args_num kw_rest_num flag block slot)))"

definition gen_opt_send :: "u32 \<Rightarrow> nat \<Rightarrow> u32 option \<Rightarrow> bool \<Rightarrow> ('m, unit) cgeff" where
  "gen_opt_send meth args_num block use_value =
     bind save_cur_loc (\<lambda>_.
     bind (on_globals ic_add_entry) (\<lambda>slot.
     emit (opt_send_code (if use_value then I_OPT_SEND else I_OPT_NSEND) meth args_num block slot)))"

definition gen_opt_send_self :: "u32 \<Rightarrow> nat \<Rightarrow> u32 option \<Rightarrow> bool \<Rightarrow> ('m, unit) cgeff" where
  "gen_opt_send_self meth args_num block use_value =
     bind save_cur_loc (\<lambda>_.
     bind (on_globals ic_add_entry) (\<lambda>slot.
     emit (opt_send_code (if use_value then I_OPT_SEND_SELF else I_OPT_NSEND_SELF)
       meth args_num block slot)))"

definition gen_for :: "u32 \<Rightarrow> bool \<Rightarrow> ('m, unit) cgeff" where
  "gen_for block use_value =
     bind save_cur_loc (\<lambda>_.
     bind (on_globals ic_add_entry) (\<lambda>slot.
     bind (emit (inst32_32 I_FOR block slot)) (\<lambda>_. pop_unless use_value)))"

section \<open>Assignments\<close>

text \<open>One argument that is not splatted, as an index.\<close>

definition one_index :: "node list \<Rightarrow> node option" where
  "one_index ix = (case ix of [i] \<Rightarrow> if is_splat i then None else Some i | _ \<Rightarrow> None)"

definition assign_id :: "'m mach menv \<Rightarrow> u32 \<Rightarrow> u32" where
  "assign_id M meth = e_id M (e_name M meth @ ''='')"

definition gen_assign :: "'m mach menv \<Rightarrow> 'm generator \<Rightarrow> node \<Rightarrow> ('m, unit) cgeff" where
  "gen_assign M g lhs =
     (case akind lhs of
        NIdent i \<Rightarrow> gen_set_local i
      | NLocalVar i \<Rightarrow> gen_set_local i
      | NConst _ i \<Rightarrow> bind (emit gen_push_nil) (\<lambda>_. emit (gen_set_const i))
      | NInstanceVar i \<Rightarrow> emit (gen_set_instance_var i)
      | NGlobalVar i \<Rightarrow> emit (gen_set_global_var i)
      | NClassVar i \<Rightarrow> gen_set_class_var i
      | NScope parent i \<Rightarrow> bind (g parent True) (\<lambda>_. emit (gen_set_const i))
      | NSend recv meth _ _ \<Rightarrow>
          bind (g recv True) (\<lambda>_.
          bind (set_loc (aloc lhs)) (\<lambda>_.
          gen_opt_send (assign_id M meth) 1 None False))
      | NIndex base index \<Rightarrow>
          bind (g base True) (\<lambda>_.
            case one_index index of
              Some i \<Rightarrow>
                (case is_imm_u32 i of
                   Some u \<Rightarrow> bind (save_loc (aloc lhs)) (\<lambda>_. emit (inst32 I_SET_IDX_I u))
                 | None \<Rightarrow>
                     bind (g i True) (\<lambda>_.
                     bind (gen_topn 2) (\<lambda>_.
                     bind (save_loc (aloc lhs)) (\<lambda>_. emit gen_set_array_elem))))
            | None \<Rightarrow>
                bind (each (\<lambda>i. g i True) index) (\<lambda>_.
                bind (gen_topn (length index + 1)) (\<lambda>_.
                bind (gen_topn (length index + 1)) (\<lambda>_.
                bind (set_loc (aloc lhs)) (\<lambda>_.
                bind (gen_send INDEX_ASSIGN_ID (length index + 1) 0 0 None) (\<lambda>_. gen_pop))))))
      | _ \<Rightarrow> error_syntax)"

definition gen_assign_val :: "'m generator \<Rightarrow> node \<Rightarrow> bool \<Rightarrow> ('m, unit) cgeff" where
  "gen_assign_val g rhs use_value = bind (g rhs True) (\<lambda>_. skip_unless use_value (gen_dup 1))"

definition gen_assign_index ::
    "'m generator \<Rightarrow> loc \<Rightarrow> node \<Rightarrow> node list \<Rightarrow> node \<Rightarrow> bool \<Rightarrow> ('m, unit) cgeff" where
  "gen_assign_index g lhs_loc base index rhs use_value =
     bind (g base True) (\<lambda>_.
       case one_index index of
         Some i \<Rightarrow>
           (case is_imm_u32 i of
              Some u \<Rightarrow>
                bind (gen_assign_val g rhs use_value) (\<lambda>_.
                bind (gen_topn (if use_value then 2 else 1)) (\<lambda>_.
                bind (save_loc lhs_loc) (\<lambda>_. emit (inst32 I_SET_IDX_I u))))
            | None \<Rightarrow>
                bind (g i True) (\<lambda>_.
                bind (gen_assign_val g rhs use_value) (\<lambda>_.
                bind (skip_unless use_value (gen_sinkn 3)) (\<lambda>_.
                bind (save_loc lhs_loc) (\<lambda>_. emit gen_set_array_elem)))))
       | None \<Rightarrow>
           bind (each (\<lambda>i. g i True) index) (\<lambda>_.
           bind (gen_assign_val g rhs use_value) (\<lambda>_.
           bind (skip_unless use_value (gen_sinkn (length index + 2))) (\<lambda>_.
           bind (gen_topn (length index + 1)) (\<lambda>_.
           bind (set_loc lhs_loc) (\<lambda>_.
           bind (gen_send INDEX_ASSIGN_ID (length index + 1) 0 0 None) (\<lambda>_. gen_pop)))))))"

definition gen_assign2 ::
    "'m mach menv \<Rightarrow> 'm generator \<Rightarrow> node \<Rightarrow> node \<Rightarrow> bool \<Rightarrow> ('m, unit) cgeff" where
  "gen_assign2 M g lhs rhs use_value =
     (let value = gen_assign_val g rhs use_value in
      case akind lhs of
        NIdent i \<Rightarrow> bind value (\<lambda>_. gen_set_local i)
      | NLocalVar i \<Rightarrow> bind value (\<lambda>_. gen_set_local i)
      | NConst _ i \<Rightarrow> bind value (\<lambda>_. bind (emit gen_push_nil) (\<lambda>_. emit (gen_set_const i)))
      | NInstanceVar i \<Rightarrow> bind value (\<lambda>_. emit (gen_set_instance_var i))
      | NClassVar i \<Rightarrow> bind value (\<lambda>_. gen_set_class_var i)
      | NGlobalVar i \<Rightarrow> bind value (\<lambda>_. emit (gen_set_global_var i))
      | NScope parent i \<Rightarrow> bind value (\<lambda>_. bind (g parent True) (\<lambda>_. emit (gen_set_const i)))
      | NSend recv meth _ _ \<Rightarrow>
          bind value (\<lambda>_.
          bind (g recv True) (\<lambda>_.
          bind (set_loc (aloc lhs)) (\<lambda>_.
          gen_opt_send (assign_id M meth) 1 None False)))
      | NIndex base index \<Rightarrow> gen_assign_index g (aloc lhs) base index rhs use_value
      | _ \<Rightarrow> error_syntax)"

section \<open>Methods, blocks and classes\<close>

definition gen_comp_stmt :: "'m generator \<Rightarrow> node list \<Rightarrow> bool \<Rightarrow> ('m, unit) cgeff" where
  "gen_comp_stmt g nodes use_value =
     (case nodes of
        [] \<Rightarrow> skip_unless use_value (emit gen_push_nil)
      | _ \<Rightarrow>
          bind (each (\<lambda>n. g n False) (butlast nodes)) (\<lambda>_. g (last nodes) use_value))"

definition gen_default_expr :: "'m generator \<Rightarrow> u32 \<Rightarrow> node \<Rightarrow> ('m, unit) cgeff" where
  "gen_default_expr g i dflt =
     bind (gen_check_local i) (\<lambda>_.
     bind (emit_at gen_jmp_if_f) (\<lambda>src1.
     bind (g dflt True) (\<lambda>_.
     bind (gen_set_local i) (\<lambda>_. patch_here src1))))"

definition iseq_params_default :: iseq_params where
  "iseq_params_default =
     \<lparr>req = 0, opt = 0, rest = None, post = 0, has_block = False, keyword = [], kwrest = False\<rparr>"

fun gen_params ::
    "'m generator \<Rightarrow> nat \<Rightarrow> formal_param list \<Rightarrow> iseq_params \<Rightarrow> ('m, iseq_params) cgeff" where
  "gen_params g lvar_id [] p = ret p"
| "gen_params g lvar_id (param # ps) p =
     (let go_on = gen_params g (Suc lvar_id) ps in
      case akind param of
        PParam i \<Rightarrow> go_on (p\<lparr>req := req p + 1\<rparr>)
      | PPost i \<Rightarrow> go_on (p\<lparr>post := post p + 1\<rparr>)
      | POptional i dflt \<Rightarrow>
          bind (gen_default_expr g i dflt) (\<lambda>_. go_on (p\<lparr>opt := opt p + 1\<rparr>))
      | PRest i \<Rightarrow> go_on (p\<lparr>rest := Some True\<rparr>)
      | PRestDiscard \<Rightarrow> go_on (p\<lparr>rest := Some False\<rparr>)
      | PKeyword i dflt \<Rightarrow>
          bind (case dflt of Some d \<Rightarrow> gen_default_expr g i d | None \<Rightarrow> ret ()) (\<lambda>_.
            go_on (p\<lparr>keyword := AList.update i lvar_id (keyword p)\<rparr>))
      | PKWRest i \<Rightarrow> go_on (p\<lparr>kwrest := True\<rparr>)
      | PBlock i \<Rightarrow> go_on (p\<lparr>has_block := True\<rparr>))"

definition kind_of_iseq :: "context_kind \<Rightarrow> iseq_kind" where
  "kind_of_iseq k =
     (case k of
        BlockC \<Rightarrow> BlockK | EvalC \<Rightarrow> OtherK | ClassC n \<Rightarrow> ClassK n | MethodC n \<Rightarrow> MethodK n)"

definition iseq_info_new ::
    "u32 \<Rightarrow> iseq_params \<Rightarrow> code \<Rightarrow> lvar_collector \<Rightarrow> exception_entry list \<Rightarrow> iseq_kind \<Rightarrow>
     (u32 \<times> u32) list \<Rightarrow> iseq_info" where
  "iseq_info_new i p c lv exs k fors =
     \<lparr>imethod = i, icode = c, exception_table = exs, forvars = fors, params = p,
      lvars = lvar_len lv, ikind = k, opt_flag = is_opt p, kwrest_param = lc_kwrest lv,
      block_param = lc_block lv\<rparr>"

text \<open>
  The code of a method is emitted into a code of its own; the enclosing one goes on afterwards.
  \<open>optimize\<close> recurses along chains of jumps, which a code without a cycle of jumps has no more of
  than bytes: running out of the fuel is the recursion that does not end.
\<close>

definition new_code :: "('g codegen, code) eff" where
  "new_code = bind (asks (\<lambda>s. Inr (emitted s))) (\<lambda>c. bind (emit (\<lambda>_. [])) (\<lambda>_. ret c))"

definition optimized :: "('g codegen, code) eff" where
  "optimized = asks (\<lambda>s. optimize (Suc (length (emitted s))) (emitted s))"

definition context_push_new :: "lvar_collector \<Rightarrow> context_kind \<Rightarrow> ('g codegen, unit) eff" where
  "context_push_new lv k =
     modify (\<lambda>s. s\<lparr>context_stack := context_stack s @ [gen_context_from (lc_table lv) k]\<rparr>)"

definition gcontext_pop :: "('g codegen, gen_context) eff" where
  "gcontext_pop =
     bind context_last (\<lambda>c.
     bind (modify (\<lambda>s. s\<lparr>context_stack := butlast (context_stack s)\<rparr>)) (\<lambda>_. ret c))"

definition method_stack_push :: "context_kind \<Rightarrow> u32 \<Rightarrow> ('g codegen, unit) eff" where
  "method_stack_push k i =
     skip_unless (is_method_ctx k) (modify (\<lambda>s. s\<lparr>method_stack := method_stack s @ [i]\<rparr>))"

definition method_stack_pop :: "context_kind \<Rightarrow> ('g codegen, unit) eff" where
  "method_stack_pop k =
     skip_unless (is_method_ctx k) (modify (\<lambda>s. s\<lparr>method_stack := butlast (method_stack s)\<rparr>))"

definition method_update :: "u32 \<Rightarrow> iseq_info \<Rightarrow> ('m, unit) meff" where
  "method_update i info =
     bind (modify (\<lambda>s. s\<lparr>class_defined := (class_defined s)(i := [])\<rparr>)) (\<lambda>_.
     repo_update i (RubyFunc info))"

definition gen_body ::
    "'m generator \<Rightarrow> formal_param list \<Rightarrow> node \<Rightarrow> bool \<Rightarrow> u32 list option \<Rightarrow>
     ('m, iseq_params \<times> (u32 \<times> u32) list) cgeff" where
  "gen_body g param_list node use_value fors =
     bind (gen_params g 0 param_list iseq_params_default) (\<lambda>p.
     bind (g node use_value) (\<lambda>_.
     bind (gather (local_var_or Panic) (case fors of None \<Rightarrow> [] | Some vs \<Rightarrow> vs)) (\<lambda>vars.
     ret (p, map (\<lambda>(out, l). (out, lvar_u32 l)) vars))))"

definition gen_iseq ::
    "'m generator \<Rightarrow> formal_param list \<Rightarrow> node \<Rightarrow> lvar_collector \<Rightarrow> bool \<Rightarrow> context_kind \<Rightarrow>
     u32 list option \<Rightarrow> ('m, u32) cgeff" where
  "gen_iseq g param_list node lv use_value k fors =
     bind (on_globals (repo_add VoidM)) (\<lambda>i.
     bind (method_stack_push k i) (\<lambda>_.
     bind (asks (\<lambda>s. Inr (cur_loc s))) (\<lambda>loc0.
     bind new_code (\<lambda>code0.
     bind (context_push_new lv k) (\<lambda>_.
     bind (gen_body g param_list node use_value fors) (\<lambda>(p, vars).
     bind gcontext_pop (\<lambda>c.
     bind (emit gen_return) (\<lambda>_.
     bind optimized (\<lambda>code.
     bind (emit (\<lambda>_. code0)) (\<lambda>_.
     bind (set_loc loc0) (\<lambda>_.
     bind (method_stack_pop k) (\<lambda>_.
     bind (on_globals (method_update i
            (iseq_info_new i p code lv (gc_exceptions c) (kind_of_iseq k) vars))) (\<lambda>_.
     ret i)))))))))))))"

text \<open>A block has a loop stack of its own: a \<open>break\<close> in it does not leave a loop around it.\<close>

definition gen_block ::
    "'m generator \<Rightarrow> formal_param list \<Rightarrow> node \<Rightarrow> lvar_collector \<Rightarrow> u32 list option \<Rightarrow>
     ('m, u32) cgeff" where
  "gen_block g ps body lv fors =
     bind (loop_push loop_new_top) (\<lambda>_.
     bind (gen_iseq g ps body lv True BlockC fors) (\<lambda>i.
     bind loop_pop (\<lambda>_. ret i)))"

section \<open>Conditions\<close>

definition cmp_imm_inst :: "bin_op \<Rightarrow> u8" where
  "cmp_imm_inst b =
     (case b of
        OpEq \<Rightarrow> I_JMP_F_EQI | OpNe \<Rightarrow> I_JMP_F_NEI | OpGe \<Rightarrow> I_JMP_F_GEI | OpGt \<Rightarrow> I_JMP_F_GTI
      | OpLe \<Rightarrow> I_JMP_F_LEI | _ \<Rightarrow> I_JMP_F_LTI)"

definition cmp_inst :: "bin_op \<Rightarrow> u8" where
  "cmp_inst b =
     (case b of
        OpEq \<Rightarrow> I_JMP_F_EQ | OpNe \<Rightarrow> I_JMP_F_NE | OpGe \<Rightarrow> I_JMP_F_GE | OpGt \<Rightarrow> I_JMP_F_GT
      | OpLe \<Rightarrow> I_JMP_F_LE | _ \<Rightarrow> I_JMP_F_LT)"

definition jump_code :: "u8 \<Rightarrow> code \<Rightarrow> code \<times> nat" where
  "jump_code i c = (let c' = inst32 i 0 c in (c', length c'))"

definition jump_imm_code :: "u8 \<Rightarrow> u32 \<Rightarrow> code \<Rightarrow> code \<times> nat" where
  "jump_imm_code i w c = (let c' = inst32_32 i w 0 c in (c', length c'))"

definition gen_jmp_if_false :: "'m generator \<Rightarrow> node \<Rightarrow> ('m, nat) cgeff" where
  "gen_jmp_if_false g cond =
     (let plain = bind (g cond True) (\<lambda>_. emit_at gen_jmp_if_f) in
      case akind cond of
        NBinOp b lhs rhs \<Rightarrow>
          if is_cmp_op b then
            case is_imm_i32 rhs of
              Some i \<Rightarrow>
                bind (g lhs True) (\<lambda>_.
                bind (save_loc (aloc cond)) (\<lambda>_. emit_at (jump_imm_code (cmp_imm_inst b) i)))
            | None \<Rightarrow>
                bind (g lhs True) (\<lambda>_.
                bind (g rhs True) (\<lambda>_.
                bind (save_loc (aloc cond)) (\<lambda>_. emit_at (jump_code (cmp_inst b)))))
          else plain
      | _ \<Rightarrow> plain)"

section \<open>Constant expressions\<close>

text \<open>
  The elements of a constant array or hash, and the pieces of a constant regular expression, are
  evaluated by the compiler. The last character of the pieces of a regular expression says which
  flags it has.
\<close>

fun string_pieces :: "node list \<Rightarrow> string res" where
  "string_pieces [] = Inr ''''"
| "string_pieces (n # ns) =
     (case akind n of
        NString s \<Rightarrow> rbind (string_pieces ns) (\<lambda>t. Inr (s @ t))
      | _ \<Rightarrow> Inl Panic)"

definition regexp_source :: "string \<Rightarrow> string res" where
  "regexp_source s =
     (if s = [] then Inl Panic
      else
        let c = last s; body = butlast s in
        if c = CHR ''i'' then Inr (''(?mi)'' @ body)
        else if c = CHR ''m'' then Inr (''(?ms)'' @ body)
        else if c = CHR ''x'' then Inr (''(?mx)'' @ body)
        else if c = CHR ''o'' then Inr (''(?mo)'' @ body)
        else if c = CHR ''-'' then Inr (''(?m)'' @ body)
        else Inl (Raise (ParseErr SyntaxError)))"

definition const_regexp :: "'m mach menv \<Rightarrow> node list \<Rightarrow> ('m, val) meff" where
  "const_regexp M nodes =
     bind (asks (\<lambda>_. rbind (string_pieces nodes) regexp_source)) (\<lambda>src s.
       case m_regexp M src s of
         (s', Inl (Raise _)) \<Rightarrow> (s', Inl (Raise (ParseErr SyntaxError)))
       | r \<Rightarrow> r)"

definition const_array :: "'m mach menv \<Rightarrow> (node \<Rightarrow> ('m, val) meff) \<Rightarrow> node list \<Rightarrow> ('m, val) meff" where
  "const_array M ce nodes =
     bind (gather ce nodes) (\<lambda>vs. steps (\<lambda>s. array_from (e_classes M) alloc s vs))"

fun const_pairs ::
    "'m mach menv \<Rightarrow> (node \<Rightarrow> ('m, val) meff) \<Rightarrow> (node \<times> node) list \<Rightarrow> (val \<times> val) list \<Rightarrow>
     ('m, (val \<times> val) list) meff" where
  "const_pairs M ce [] t = ret t"
| "const_pairs M ce ((k, v) # kvs) t =
     bind (ce k) (\<lambda>kv. bind (ce v) (\<lambda>vv.
     bind (asks (\<lambda>s. table_insert (find_key M (mem s)) kv vv t)) (const_pairs M ce kvs)))"

definition const_hash ::
    "'m mach menv \<Rightarrow> (node \<Rightarrow> ('m, val) meff) \<Rightarrow> (node \<times> node) list \<Rightarrow> ('m, val) meff" where
  "const_hash M ce kvs = bind (const_pairs M ce kvs []) (new_hash M)"

fun const_expr :: "'m mach menv \<Rightarrow> nat \<Rightarrow> node \<Rightarrow> ('m, val) meff" where
  "const_expr M 0 n = raise Undef"
| "const_expr M (Suc k) n =
     (case akind n of
        NBool b \<Rightarrow> ret (bool_value b)
      | NInteger i \<Rightarrow> steps (\<lambda>s. integer (e_classes M) alloc s i)
      | NFloat f \<Rightarrow> steps (\<lambda>s. float (e_classes M) alloc s f)
      | NNil \<Rightarrow> ret NIL_VALUE
      | NSymbol i \<Rightarrow> ret (symbol i)
      | NString cs \<Rightarrow> new_string M cs
      | NHash kvs True \<Rightarrow> const_hash M (const_expr M k) kvs
      | NArray ns True \<Rightarrow> const_array M (const_expr M k) ns
      | NRegExp ns True \<Rightarrow> const_regexp M ns
      | _ \<Rightarrow> raise Panic)"

section \<open>Literals\<close>

fun gen_pieces :: "'m mach menv \<Rightarrow> 'm generator \<Rightarrow> node list \<Rightarrow> nat \<Rightarrow> ('m, nat) cgeff" where
  "gen_pieces M g [] c = ret c"
| "gen_pieces M g (n # ns) c =
     (case akind n of
        NString s \<Rightarrow>
          if length s \<noteq> 0 then bind (gen_string M s) (\<lambda>_. gen_pieces M g ns (c + 1))
          else gen_pieces M g ns c
      | NCompStmt nodes \<Rightarrow>
          bind (gen_comp_stmt g nodes True) (\<lambda>_.
          bind (push_inst I_TO_S) (\<lambda>_. gen_pieces M g ns (c + 1)))
      | NGlobalVar i \<Rightarrow>
          bind (emit (gen_get_global_var i)) (\<lambda>_.
          bind (push_inst I_TO_S) (\<lambda>_. gen_pieces M g ns (c + 1)))
      | _ \<Rightarrow> raise Panic)"

definition gen_interpolated :: "'m mach menv \<Rightarrow> 'm generator \<Rightarrow> node list \<Rightarrow> bool \<Rightarrow> ('m, unit) cgeff" where
  "gen_interpolated M g nodes use_value =
     bind (gen_pieces M g nodes 0) (\<lambda>c. bind (gen_concat c) (\<lambda>_. pop_unless use_value))"

definition gen_regexp_piece :: "'m mach menv \<Rightarrow> 'm generator \<Rightarrow> node \<Rightarrow> ('m, unit) cgeff" where
  "gen_regexp_piece M g n =
     (case akind n of
        NString s \<Rightarrow> gen_string M s
      | NCompStmt nodes \<Rightarrow> bind (gen_comp_stmt g nodes True) (\<lambda>_. push_inst I_TO_S)
      | _ \<Rightarrow> raise Panic)"

definition gen_regexp ::
    "'m mach menv \<Rightarrow> 'm generator \<Rightarrow> node list \<Rightarrow> bool \<Rightarrow> bool \<Rightarrow> ('m, unit) cgeff" where
  "gen_regexp M g nodes is_const use_value =
     (if is_const then skip_unless use_value (const_val (const_regexp M nodes))
      else
        bind (each (gen_regexp_piece M g) nodes) (\<lambda>_.
        bind (gen_concat (length nodes)) (\<lambda>_.
        bind save_cur_loc (\<lambda>_.
        bind (emit gen_create_regexp) (\<lambda>_. pop_unless use_value)))))"

definition gen_range :: "'m generator \<Rightarrow> loc \<Rightarrow> node \<Rightarrow> node \<Rightarrow> bool \<Rightarrow> bool \<Rightarrow> ('m, unit) cgeff" where
  "gen_range g node_loc start ende exclude_end use_value =
     bind (push_inst (if exclude_end then I_PUSH_TRUE else I_PUSH_FALSE)) (\<lambda>_.
     bind (g ende True) (\<lambda>_.
     bind (g start True) (\<lambda>_.
     bind (save_loc node_loc) (\<lambda>_.
     bind (push_inst I_CREATE_RANGE) (\<lambda>_. pop_unless use_value)))))"

definition gen_array ::
    "'m mach menv \<Rightarrow> 'm generator \<Rightarrow> nat \<Rightarrow> node list \<Rightarrow> bool \<Rightarrow> bool \<Rightarrow> ('m, unit) cgeff" where
  "gen_array M g depth nodes is_const use_value =
     (if is_const then
        skip_unless use_value
          (if length nodes = 0 then emit (gen_create_array 0)
           else const_val (const_array M (const_expr M depth) nodes))
      else
        bind (each (\<lambda>n. g n True) nodes) (\<lambda>_.
        bind (emit (gen_create_array (length nodes))) (\<lambda>_. pop_unless use_value)))"

definition gen_pair :: "'m generator \<Rightarrow> node \<times> node \<Rightarrow> ('m, unit) cgeff" where
  "gen_pair g p = bind (g (fst p) True) (\<lambda>_. g (snd p) True)"

definition gen_hash ::
    "'m mach menv \<Rightarrow> 'm generator \<Rightarrow> nat \<Rightarrow> (node \<times> node) list \<Rightarrow> bool \<Rightarrow> bool \<Rightarrow> ('m, unit) cgeff" where
  "gen_hash M g depth key_value is_const use_value =
     (if is_const then
        skip_unless use_value
          (if length key_value = 0 then emit (gen_create_hash 0)
           else const_val (const_hash M (const_expr M depth) key_value))
      else
        bind (each (gen_pair g) key_value) (\<lambda>_.
        bind (emit (gen_create_hash (length key_value))) (\<lambda>_. pop_unless use_value)))"

section \<open>Operators and elements\<close>

definition fits_i32 :: "node \<Rightarrow> i32 option" where
  "fits_i32 n =
     (case akind n of
        NInteger i \<Rightarrow> if scast (ucast i :: i32) = i then Some (ucast i) else None
      | _ \<Rightarrow> None)"

definition binop_plain :: "'m generator \<Rightarrow> loc \<Rightarrow> node \<Rightarrow> node \<Rightarrow> u8 \<Rightarrow> ('m, unit) cgeff" where
  "binop_plain g l lhs rhs i =
     bind (g lhs True) (\<lambda>_. bind (g rhs True) (\<lambda>_. bind (save_loc l) (\<lambda>_. push_inst i)))"

definition binop_imm :: "'m generator \<Rightarrow> loc \<Rightarrow> node \<Rightarrow> node \<Rightarrow> u8 \<Rightarrow> u8 \<Rightarrow> ('m, unit) cgeff" where
  "binop_imm g l lhs rhs i i_imm =
     (case fits_i32 rhs of
        Some w \<Rightarrow> bind (g lhs True) (\<lambda>_. bind (save_loc l) (\<lambda>_. emit (inst32 i_imm w)))
      | None \<Rightarrow> binop_plain g l lhs rhs i)"

definition gen_land :: "'m generator \<Rightarrow> node \<Rightarrow> node \<Rightarrow> ('m, unit) cgeff" where
  "gen_land g lhs rhs =
     bind (g lhs True) (\<lambda>_.
     bind (push_inst I_REP_UNINIT) (\<lambda>_.
     bind (gen_dup 1) (\<lambda>_.
     bind (emit_at gen_jmp_if_f) (\<lambda>src.
     bind gen_pop (\<lambda>_. bind (g rhs True) (\<lambda>_. patch_here src))))))"

definition gen_lor :: "'m generator \<Rightarrow> node \<Rightarrow> node \<Rightarrow> ('m, unit) cgeff" where
  "gen_lor g lhs rhs =
     bind (g lhs True) (\<lambda>_.
     bind (gen_dup 1) (\<lambda>_.
     bind (emit_at gen_jmp_if_t) (\<lambda>src.
     bind gen_pop (\<lambda>_. bind (g rhs True) (\<lambda>_. patch_here src)))))"

definition gen_operator :: "'m generator \<Rightarrow> loc \<Rightarrow> bin_op \<Rightarrow> node \<Rightarrow> node \<Rightarrow> ('m, unit) cgeff" where
  "gen_operator g l b lhs rhs =
     (case b of
        OpAdd \<Rightarrow> binop_imm g l lhs rhs I_ADD I_ADDI
      | OpSub \<Rightarrow> binop_imm g l lhs rhs I_SUB I_SUBI
      | OpMul \<Rightarrow> binop_plain g l lhs rhs I_MUL
      | OpDiv \<Rightarrow> binop_plain g l lhs rhs I_DIV
      | OpExp \<Rightarrow> binop_plain g l lhs rhs I_POW
      | OpRem \<Rightarrow> binop_plain g l lhs rhs I_REM
      | OpShr \<Rightarrow> binop_plain g l lhs rhs I_SHR
      | OpShl \<Rightarrow> binop_plain g l lhs rhs I_SHL
      | OpBitOr \<Rightarrow> binop_imm g l lhs rhs I_BOR I_B_ORI
      | OpBitAnd \<Rightarrow> binop_imm g l lhs rhs I_BAND I_B_ANDI
      | OpBitXor \<Rightarrow> binop_plain g l lhs rhs I_BXOR
      | OpEq \<Rightarrow> binop_imm g l lhs rhs I_EQ I_EQI
      | OpNe \<Rightarrow> binop_imm g l lhs rhs I_NE I_NEI
      | OpTEq \<Rightarrow> binop_plain g l lhs rhs I_TEQ
      | OpMatch \<Rightarrow> ret ()
      | OpGe \<Rightarrow> binop_imm g l lhs rhs I_GE I_GEI
      | OpGt \<Rightarrow> binop_imm g l lhs rhs I_GT I_GTI
      | OpLe \<Rightarrow> binop_imm g l lhs rhs I_LE I_LEI
      | OpLt \<Rightarrow> binop_imm g l lhs rhs I_LT I_LTI
      | OpCmp \<Rightarrow> binop_plain g l lhs rhs I_CMP
      | OpLAnd \<Rightarrow> gen_land g lhs rhs
      | OpLOr \<Rightarrow> gen_lor g lhs rhs)"

definition gen_binop ::
    "'m mach menv \<Rightarrow> 'm generator \<Rightarrow> loc \<Rightarrow> bin_op \<Rightarrow> node \<Rightarrow> node \<Rightarrow> bool \<Rightarrow> ('m, unit) cgeff" where
  "gen_binop M g l b lhs rhs use_value =
     (if b = OpMatch then
        bind (g rhs True) (\<lambda>_.
        bind (g lhs True) (\<lambda>_.
        bind (set_loc l) (\<lambda>_. gen_opt_send (e_id M ''=~'') 1 None use_value)))
      else bind (gen_operator g l b lhs rhs) (\<lambda>_. pop_unless use_value))"

definition gen_unop :: "'m generator \<Rightarrow> loc \<Rightarrow> un_op \<Rightarrow> node \<Rightarrow> bool \<Rightarrow> ('m, unit) cgeff" where
  "gen_unop g l u lhs use_value =
     bind (g lhs True) (\<lambda>_.
     bind (case u of
             OpBitNot \<Rightarrow> bind (save_loc l) (\<lambda>_. push_inst I_BNOT)
           | OpNot \<Rightarrow> bind (save_loc l) (\<lambda>_. push_inst I_NOT)
           | OpNeg \<Rightarrow> bind (save_loc l) (\<lambda>_. push_inst I_NEG)
           | OpPos \<Rightarrow> ret ()) (\<lambda>_.
     pop_unless use_value))"

definition gen_index :: "'m generator \<Rightarrow> loc \<Rightarrow> node \<Rightarrow> node list \<Rightarrow> bool \<Rightarrow> ('m, unit) cgeff" where
  "gen_index g l base index use_value =
     (case one_index index of
        Some i \<Rightarrow>
          bind (g base True) (\<lambda>_.
          bind (case is_imm_u32 i of
                  Some u \<Rightarrow> bind (save_loc l) (\<lambda>_. emit (inst32 I_GET_IDX_I u))
                | None \<Rightarrow> bind (g i True) (\<lambda>_. gen_get_array_elem l)) (\<lambda>_.
          pop_unless use_value))
      | None \<Rightarrow>
          bind (each (\<lambda>i. g i True) index) (\<lambda>_.
          bind (g base True) (\<lambda>_.
          bind (set_loc l) (\<lambda>_.
          bind (gen_send INDEX_ID (length index) 0 0 None) (\<lambda>_. pop_unless use_value)))))"

section \<open>Control\<close>

definition gen_if :: "'m generator \<Rightarrow> node \<Rightarrow> node \<Rightarrow> node \<Rightarrow> bool \<Rightarrow> ('m, unit) cgeff" where
  "gen_if g cond thn els use_value =
     bind (gen_jmp_if_false g cond) (\<lambda>src1.
     bind (g thn use_value) (\<lambda>_.
       if use_value then
         bind (emit_at gen_jmp) (\<lambda>src2.
         bind (patch_here src1) (\<lambda>_.
         bind (g els True) (\<lambda>_. patch_here src2)))
       else if node_is_empty els then patch_here src1
       else
         bind (emit_at gen_jmp) (\<lambda>src2.
         bind (patch_here src1) (\<lambda>_.
         bind (g els False) (\<lambda>_. patch_here src2)))))"

definition gen_for_node ::
    "'m generator \<Rightarrow> u32 list \<Rightarrow> node \<Rightarrow> node \<Rightarrow> bool \<Rightarrow> ('m, unit) cgeff" where
  "gen_for_node g vars it body use_value =
     (case akind body of
        NProc ps b lv \<Rightarrow>
          bind (gen_block g ps b lv (Some vars)) (\<lambda>block.
          bind (g it True) (\<lambda>_. gen_for block use_value))
      | _ \<Rightarrow> raise Panic)"

definition patch_escape :: "nat \<Rightarrow> nat \<times> escape_kind \<Rightarrow> ('g codegen, unit) eff" where
  "patch_escape loop_start e =
     (case snd e of
        EscBreak \<Rightarrow> patch_here (fst e)
      | EscNext \<Rightarrow> patch (fst e) loop_start)"

definition gen_loop :: "'m generator \<Rightarrow> node \<Rightarrow> node \<Rightarrow> bool \<Rightarrow> bool \<Rightarrow> ('m, nat \<times> nat) cgeff" where
  "gen_loop g cond body cond_op use_value =
     bind cur_pos (\<lambda>loop_start.
     bind (if cond_op then gen_jmp_if_false g cond
           else bind (g cond True) (\<lambda>_. emit_at gen_jmp_if_t)) (\<lambda>src.
     bind (g body False) (\<lambda>_.
     bind (emit (gen_jmp_back loop_start)) (\<lambda>_.
     bind (patch_here src) (\<lambda>_.
     bind (skip_unless use_value (emit gen_push_nil)) (\<lambda>_.
     bind (emit_at gen_jmp) (\<lambda>src2. ret (loop_start, src2))))))))"

definition gen_while :: "'m generator \<Rightarrow> node \<Rightarrow> node \<Rightarrow> bool \<Rightarrow> bool \<Rightarrow> ('m, unit) cgeff" where
  "gen_while g cond body cond_op use_value =
     bind (loop_push loop_new_loop) (\<lambda>_.
     bind (gen_loop g cond body cond_op use_value) (\<lambda>(loop_start, src2).
     bind loop_pop (\<lambda>l.
     bind (each (patch_escape loop_start) (l_escape l)) (\<lambda>_.
     bind (pop_unless use_value) (\<lambda>_. patch_here src2)))))"

text \<open>
  \<open>begin\<close>: \<open>dest\<close> is the first \<open>rescue\<close> clause, \<open>prev\<close> the jump of the clause before to the next
  one, and the result the jumps from the ends of the clauses.
\<close>

definition gen_rescue_test :: "'m mach menv \<Rightarrow> 'm generator \<Rightarrow> node list \<Rightarrow> ('m, unit) cgeff" where
  "gen_rescue_test M g exceptions =
     (if exceptions \<noteq> [] then
        bind (each (\<lambda>ex. g ex True) exceptions) (\<lambda>_.
        emit (inst32 I_RESCUE (of_nat (length exceptions))))
      else
        bind (gen_get_const_top (e_id M ''StandardError'')) (\<lambda>_. emit (inst32 I_RESCUE 1)))"

definition patch_some :: "nat option \<Rightarrow> ('g codegen, unit) eff" where
  "patch_some p = (case p of Some src \<Rightarrow> patch_here src | None \<Rightarrow> ret ())"

definition gen_rescue ::
    "'m mach menv \<Rightarrow> 'm generator \<Rightarrow> bool \<Rightarrow> node rescue_entry \<Rightarrow> nat option \<Rightarrow>
     ('m, nat \<times> nat) cgeff" where
  "gen_rescue M g use_value r prev =
     bind (patch_some prev) (\<lambda>_.
     bind (gen_dup 1) (\<lambda>_.
     bind (gen_rescue_test M g (re_exceptions r)) (\<lambda>_.
     bind (emit_at gen_jmp_if_f) (\<lambda>next.
     bind (case re_assign r of Some a \<Rightarrow> gen_assign M g a | None \<Rightarrow> gen_pop) (\<lambda>_.
     bind (g (re_body r) use_value) (\<lambda>_.
     bind (emit_at gen_jmp) (\<lambda>end_src. ret (next, end_src))))))))"

fun gen_rescues ::
    "'m mach menv \<Rightarrow> 'm generator \<Rightarrow> bool \<Rightarrow> node rescue_entry list \<Rightarrow> nat option \<Rightarrow>
     ('m, nat option \<times> nat list) cgeff" where
  "gen_rescues M g use_value [] prev = ret (prev, [])"
| "gen_rescues M g use_value (r # rs) prev =
     bind (gen_rescue M g use_value r prev) (\<lambda>(next, src).
     bind (gen_rescues M g use_value rs (Some next)) (\<lambda>(prev', srcs). ret (prev', src # srcs)))"

definition gen_ensure :: "'m generator \<Rightarrow> node option \<Rightarrow> ('m, unit) cgeff" where
  "gen_ensure g ensure = (case ensure of Some n \<Rightarrow> g n False | None \<Rightarrow> ret ())"

definition gen_rescue_part ::
    "'m mach menv \<Rightarrow> 'm generator \<Rightarrow> loc \<Rightarrow> node rescue_entry list \<Rightarrow> node option \<Rightarrow> bool \<Rightarrow>
     ('m, nat option \<times> nat list) cgeff" where
  "gen_rescue_part M g l rescue ensure use_value =
     (if rescue = [] then ret (None, [])
      else
        bind (emit_at gen_jmp) (\<lambda>else_dest.
        bind cur_pos (\<lambda>dest.
        bind (gen_rescues M g use_value rescue None) (\<lambda>(prev, ensure_dest).
        bind (patch_some prev) (\<lambda>_.
        bind (gen_ensure g ensure) (\<lambda>_.
        bind (save_loc l) (\<lambda>_.
        bind (push_inst I_THROW) (\<lambda>_.
        bind (patch_here else_dest) (\<lambda>_. ret (Some dest, ensure_dest))))))))))"

definition gen_return_path ::
    "'m generator \<Rightarrow> loc \<Rightarrow> node option \<Rightarrow> nat list \<Rightarrow> (code \<Rightarrow> code) \<Rightarrow> ('m, unit) cgeff" where
  "gen_return_path g l ensure srcs leave =
     bind (each patch_here srcs) (\<lambda>_.
     skip_unless (srcs \<noteq> [])
       (bind (gen_ensure g ensure) (\<lambda>_. bind (save_loc l) (\<lambda>_. emit leave))))"

definition gen_return_paths ::
    "'m generator \<Rightarrow> loc \<Rightarrow> node option \<Rightarrow> local_jump_dest \<Rightarrow> ('m, unit) cgeff" where
  "gen_return_paths g l ensure jd =
     skip_unless (\<not> jump_dest_is_empty jd)
       (bind (emit_at gen_jmp) (\<lambda>label.
        bind (gen_return_path g l ensure (return_entries jd) gen_return) (\<lambda>_.
        bind (gen_return_path g l ensure (mreturn_entries jd) gen_method_return) (\<lambda>_.
        patch_here label))))"

definition jump_dest_push :: "local_jump_dest \<Rightarrow> ('g codegen, unit) eff" where
  "jump_dest_push d = mod_context (\<lambda>c. c\<lparr>gc_jump_dest := gc_jump_dest c @ [d]\<rparr>)"

definition jump_dest_pop :: "('g codegen, local_jump_dest) eff" where
  "jump_dest_pop =
     bind context_last (\<lambda>c.
       if gc_jump_dest c = [] then raise Panic
       else
         bind (mod_context (\<lambda>c. c\<lparr>gc_jump_dest := butlast (gc_jump_dest c)\<rparr>)) (\<lambda>_.
         ret (last (gc_jump_dest c))))"

definition add_exception :: "nat \<Rightarrow> nat \<Rightarrow> nat option \<Rightarrow> ('g codegen, unit) eff" where
  "add_exception a b dest =
     (case dest of
        Some d \<Rightarrow>
          mod_context (\<lambda>c. c\<lparr>gc_exceptions :=
            gc_exceptions c @ [\<lparr>ex_start = a, ex_end = b, ex_dest = d\<rparr>]\<rparr>)
      | None \<Rightarrow> ret ())"

definition gen_begin ::
    "'m mach menv \<Rightarrow> 'm generator \<Rightarrow> loc \<Rightarrow> node \<Rightarrow> node rescue_entry list \<Rightarrow> node option \<Rightarrow>
     node option \<Rightarrow> bool \<Rightarrow> ('m, unit) cgeff" where
  "gen_begin M g l body rescue els ensure use_value =
     bind cur_pos (\<lambda>body_start.
     bind (jump_dest_push (jump_dest_new (ensure \<noteq> None))) (\<lambda>_.
     bind (g body use_value) (\<lambda>_.
     bind jump_dest_pop (\<lambda>jd.
     bind cur_pos (\<lambda>body_end.
     bind (gen_rescue_part M g l rescue ensure use_value) (\<lambda>(dest, ensure_dest).
     bind (case els of
             Some e \<Rightarrow> bind (skip_unless use_value gen_pop) (\<lambda>_. g e use_value)
           | None \<Rightarrow> ret ()) (\<lambda>_.
     bind (gen_return_paths g l ensure jd) (\<lambda>_.
     bind (each patch_here ensure_dest) (\<lambda>_.
     bind (add_exception body_start body_end dest) (\<lambda>_.
     gen_ensure g ensure))))))))))"

section \<open>Case\<close>

text \<open>
  What the \<open>when\<close> clauses are: only literals, and only integers, with the smallest and the largest
  of them. The scan stops at the first value that is no literal.
\<close>

fun scan_whens :: "node list \<Rightarrow> bool \<times> i64 \<times> i64 \<Rightarrow> (bool \<times> bool \<times> i64 \<times> i64)" where
  "scan_whens [] (ints, lo, hi) = (True, ints, lo, hi)"
| "scan_whens (n # ns) (ints, lo, hi) =
     (case akind n of
        NInteger i \<Rightarrow> scan_whens ns (ints, if i <s lo then i else lo, if hi <s i then i else hi)
      | NSymbol _ \<Rightarrow> scan_whens ns (False, lo, hi)
      | NString _ \<Rightarrow> scan_whens ns (False, lo, hi)
      | _ \<Rightarrow> (False, ints, lo, hi))"

definition case_kind :: "node case_branch list \<Rightarrow> bool \<times> bool \<times> i64 \<times> i64" where
  "case_kind whens =
     scan_whens (concat (map cb_when whens)) (True, 2 ^ 63 - 1, 2 ^ 63)"

text \<open>The tables of src/globals.rs.\<close>

definition dispatch_new_entry :: "('m, u32) meff" where
  "dispatch_new_entry =
     bind (asks (\<lambda>s. Inr (of_nat (length (case_dispatch s))))) (\<lambda>i.
     bind (modify (\<lambda>s. s\<lparr>case_dispatch := case_dispatch s @ [[]]\<rparr>)) (\<lambda>_. ret i))"

definition dispatch2_new_entry :: "('m, u32) meff" where
  "dispatch2_new_entry =
     bind (asks (\<lambda>s. Inr (of_nat (length (case_dispatch2 s))))) (\<lambda>i.
     bind (modify (\<lambda>s. s\<lparr>case_dispatch2 := case_dispatch2 s @ [(0, 0, [])]\<rparr>)) (\<lambda>_. ret i))"

definition dispatch_insert :: "'m mach menv \<Rightarrow> u32 \<Rightarrow> val \<Rightarrow> i32 \<Rightarrow> ('m, unit) meff" where
  "dispatch_insert M i k d =
     bind (asks (\<lambda>s. index_at (case_dispatch s) (unat i))) (\<lambda>t.
     bind (asks (\<lambda>s. find_value M (mem s) (map fst t) k)) (\<lambda>r.
       let t' = (case r of
                   Some j \<Rightarrow> if j < length t then t[j := (fst (t ! j), sint d)] else t
                 | None \<Rightarrow> t @ [(k, sint d)]) in
       modify (\<lambda>s. s\<lparr>case_dispatch := (case_dispatch s)[unat i := t']\<rparr>)))"

definition dispatch2_set :: "u32 \<Rightarrow> i64 \<times> i64 \<times> int list \<Rightarrow> ('m, unit) meff" where
  "dispatch2_set i t =
     bind (asks (\<lambda>s. index_at (case_dispatch2 s) (unat i))) (\<lambda>_.
     modify (\<lambda>s. s\<lparr>case_dispatch2 := (case_dispatch2 s)[unat i := t]\<rparr>))"

definition when_value :: "'m mach menv \<Rightarrow> node \<Rightarrow> ('m, val) meff" where
  "when_value M n =
     (case akind n of
        NInteger i \<Rightarrow> steps (\<lambda>s. integer (e_classes M) alloc s i)
      | NSymbol i \<Rightarrow> ret (symbol i)
      | NString cs \<Rightarrow> new_string M cs
      | _ \<Rightarrow> raise Panic)"

definition disp_from :: "nat \<Rightarrow> ('g codegen, i32) eff" where
  "disp_from start = bind cur_pos (\<lambda>p. ret (pos_disp start p))"

definition add_whens :: "'m mach menv \<Rightarrow> u32 \<Rightarrow> nat \<Rightarrow> node list \<Rightarrow> ('m, unit) cgeff" where
  "add_whens M i start whens =
     bind (disp_from start) (\<lambda>d.
     each (\<lambda>n. bind (on_globals (when_value M n)) (\<lambda>v. on_globals (dispatch_insert M i v d))) whens)"

definition gen_branch ::
    "'m mach menv \<Rightarrow> 'm generator \<Rightarrow> u32 \<Rightarrow> nat \<Rightarrow> bool \<Rightarrow> node case_branch \<Rightarrow> ('m, nat) cgeff" where
  "gen_branch M g i start use_value b =
     bind (add_whens M i start (cb_when b)) (\<lambda>_.
     bind (g (cb_body b) use_value) (\<lambda>_. emit_at gen_jmp))"

definition open_case :: "('m, u32 \<times> nat) cgeff" where
  "open_case =
     bind (on_globals dispatch_new_entry) (\<lambda>i.
     bind save_cur_loc (\<lambda>_.
     bind (emit_at (gen_opt_case i)) (\<lambda>start. ret (i, start))))"

definition gen_case_table ::
    "'m mach menv \<Rightarrow> 'm generator \<Rightarrow> node case_branch list \<Rightarrow> bool \<Rightarrow> ('m, nat list) cgeff" where
  "gen_case_table M g whens use_value =
     bind open_case (\<lambda>(i, start).
     bind (gather (gen_branch M g i start use_value) whens) (\<lambda>ends.
     bind (patch_here start) (\<lambda>_. ret ends)))"

definition open_case2 :: "('m, u32 \<times> nat) cgeff" where
  "open_case2 =
     bind (on_globals dispatch2_new_entry) (\<lambda>i.
     bind save_cur_loc (\<lambda>_.
     bind (emit_at (gen_opt_case2 i)) (\<lambda>start. ret (i, start))))"

fun add_ints :: "i32 \<Rightarrow> node list \<Rightarrow> (i64 \<times> i32) list \<Rightarrow> (i64 \<times> i32) list res" where
  "add_ints d [] t = Inr t"
| "add_ints d (n # ns) t =
     (case akind n of
        NInteger i \<Rightarrow> add_ints d ns (AList.update i d t)
      | _ \<Rightarrow> Inl Panic)"

fun gen_branches2 ::
    "'m generator \<Rightarrow> nat \<Rightarrow> bool \<Rightarrow> node case_branch list \<Rightarrow> (i64 \<times> i32) list \<Rightarrow>
     ('m, (i64 \<times> i32) list \<times> nat list) cgeff" where
  "gen_branches2 g start use_value [] t = ret (t, [])"
| "gen_branches2 g start use_value (b # bs) t =
     bind (disp_from start) (\<lambda>d.
     bind (asks (\<lambda>_. add_ints d (cb_when b) t)) (\<lambda>t'.
     bind (g (cb_body b) use_value) (\<lambda>_.
     bind (emit_at gen_jmp) (\<lambda>src.
     bind (gen_branches2 g start use_value bs t') (\<lambda>(t2, ends). ret (t2, src # ends))))))"

text \<open>The vector of displacements from the smallest value to the largest. A vector of more than
  \<open>isize::MAX\<close> bytes cannot be allocated.\<close>

fun fill_disps :: "i64 \<Rightarrow> (i64 \<times> i32) list \<Rightarrow> int list \<Rightarrow> int list res" where
  "fill_disps lo [] v = Inr v"
| "fill_disps lo ((i, d) # t) v =
     (if unat (i - lo) < length v then fill_disps lo t (v[unat (i - lo) := sint d]) else Inl Panic)"

definition case_vector :: "i64 \<Rightarrow> i64 \<Rightarrow> i32 \<Rightarrow> (i64 \<times> i32) list \<Rightarrow> int list res" where
  "case_vector lo hi d t =
     (let n = unat (hi - lo + 1) in
      if 2 ^ 63 - 1 < 4 * n then Inl Panic else fill_disps lo t (replicate n (sint d)))"

definition gen_case_ints ::
    "'m generator \<Rightarrow> i64 \<Rightarrow> i64 \<Rightarrow> node case_branch list \<Rightarrow> bool \<Rightarrow> ('m, nat list) cgeff" where
  "gen_case_ints g lo hi whens use_value =
     bind open_case2 (\<lambda>(i, start).
     bind (gen_branches2 g start use_value whens []) (\<lambda>(t, ends).
     bind (disp_from start) (\<lambda>d.
     bind (asks (\<lambda>_. case_vector lo hi d t)) (\<lambda>v.
     bind (on_globals (dispatch2_set i (lo, hi, v))) (\<lambda>_.
     bind (patch_here start) (\<lambda>_. ret ends))))))"

definition gen_when_test :: "'m generator \<Rightarrow> node \<Rightarrow> ('m, nat) cgeff" where
  "gen_when_test g n =
     bind (gen_dup 1) (\<lambda>_.
     bind (g n True) (\<lambda>_.
     bind (gen_sinkn 1) (\<lambda>_.
     bind (save_loc (aloc n)) (\<lambda>_.
     bind (push_inst I_TEQ) (\<lambda>_. emit_at gen_jmp_if_t)))))"

fun gen_case_tests ::
    "'m generator \<Rightarrow> bool \<Rightarrow> node case_branch list \<Rightarrow> nat option \<Rightarrow>
     ('m, nat option \<times> nat list) cgeff" where
  "gen_case_tests g use_value [] next = ret (next, [])"
| "gen_case_tests g use_value (b # bs) next =
     bind (patch_some next) (\<lambda>_.
     bind (gather (gen_when_test g) (cb_when b)) (\<lambda>hits.
     bind (emit_at gen_jmp) (\<lambda>miss.
     bind (each patch_here hits) (\<lambda>_.
     bind gen_pop (\<lambda>_.
     bind (g (cb_body b) use_value) (\<lambda>_.
     bind (emit_at gen_jmp) (\<lambda>src.
     bind (gen_case_tests g use_value bs (Some miss)) (\<lambda>(next', ends). ret (next', src # ends)))))))))"

definition gen_case_general ::
    "'m generator \<Rightarrow> node case_branch list \<Rightarrow> bool \<Rightarrow> ('m, nat list) cgeff" where
  "gen_case_general g whens use_value =
     bind (gen_case_tests g use_value whens None) (\<lambda>(next, ends).
     bind (patch_some next) (\<lambda>_. bind gen_pop (\<lambda>_. ret ends)))"

definition gen_guard :: "'m generator \<Rightarrow> node \<Rightarrow> ('m, nat) cgeff" where
  "gen_guard g n =
     bind (g n True) (\<lambda>_. bind (save_loc (aloc n)) (\<lambda>_. emit_at gen_jmp_if_f))"

definition gen_guarded :: "'m generator \<Rightarrow> bool \<Rightarrow> node case_branch \<Rightarrow> ('m, nat) cgeff" where
  "gen_guarded g use_value b =
     bind (gather (gen_guard g) (cb_when b)) (\<lambda>next.
     bind (g (cb_body b) use_value) (\<lambda>_.
     bind (emit_at gen_jmp) (\<lambda>src.
     bind (each patch_here next) (\<lambda>_. ret src))))"

definition gen_case ::
    "'m mach menv \<Rightarrow> 'm generator \<Rightarrow> node option \<Rightarrow> node case_branch list \<Rightarrow> node \<Rightarrow> bool \<Rightarrow>
     ('m, unit) cgeff" where
  "gen_case M g cond whens els use_value =
     bind (case cond of
             Some c \<Rightarrow>
               bind (g c True) (\<lambda>_.
                 case case_kind whens of (literals, ints, lo, hi) \<Rightarrow>
                   if literals \<and> ints then gen_case_ints g lo hi whens use_value
                   else if literals then gen_case_table M g whens use_value
                   else gen_case_general g whens use_value)
           | None \<Rightarrow> gather (gen_guarded g use_value) whens) (\<lambda>ends.
     bind (g els use_value) (\<lambda>_. each patch_here ends))"

section \<open>Multiple assignment\<close>

datatype self_add = IvarAdd u32 i32 | LvarAdd u32 i32

text \<open>\<open>x = x + i\<close> for an instance or local variable and a 32-bit integer.\<close>

definition self_addition :: "node \<Rightarrow> node \<Rightarrow> self_add option" where
  "self_addition l r =
     (case akind r of
        NBinOp b x y \<Rightarrow>
          (case fits_i32 y of
             Some i \<Rightarrow>
               if b \<noteq> OpAdd then None
               else
                 (case (akind l, akind x) of
                    (NInstanceVar v, NInstanceVar w) \<Rightarrow> if v = w then Some (IvarAdd v i) else None
                  | (NLocalVar v, NLocalVar w) \<Rightarrow> if v = w then Some (LvarAdd v i) else None
                  | _ \<Rightarrow> None)
           | None \<Rightarrow> None)
      | _ \<Rightarrow> None)"

definition gen_single_assign ::
    "'m mach menv \<Rightarrow> 'm generator \<Rightarrow> node \<Rightarrow> node \<Rightarrow> bool \<Rightarrow> ('m, unit) cgeff" where
  "gen_single_assign M g l r use_value =
     (case self_addition l r of
        Some (IvarAdd v i) \<Rightarrow>
          bind (save_loc (loc_merge (aloc l) (aloc r))) (\<lambda>_. emit (gen_ivar_addi v i use_value))
      | Some (LvarAdd v i) \<Rightarrow>
          bind (save_loc (loc_merge (aloc l) (aloc r))) (\<lambda>_. gen_lvar_addi v i use_value)
      | None \<Rightarrow> gen_assign2 M g l r use_value)"

fun gen_first :: "'m generator \<Rightarrow> nat \<Rightarrow> node list \<Rightarrow> ('m, unit) cgeff" where
  "gen_first g k [] = ret ()"
| "gen_first g k (n # ns) = bind (g n (0 < k)) (\<lambda>_. gen_first g (k - 1) ns)"

definition gen_mul_assign ::
    "'m mach menv \<Rightarrow> 'm generator \<Rightarrow> node list \<Rightarrow> node list \<Rightarrow> bool \<Rightarrow> ('m, unit) cgeff" where
  "gen_mul_assign M g mlhs mrhs use_value =
     (let len = max (length mlhs) (length mrhs) in
      if length mlhs = 1 \<and> length mrhs = 1 then gen_single_assign M g (hd mlhs) (hd mrhs) use_value
      else if length mrhs = 1 then
        bind (g (hd mrhs) True) (\<lambda>_.
        bind (skip_unless use_value (gen_dup 1)) (\<lambda>_.
        bind (gen_take (length mlhs)) (\<lambda>_. each (gen_assign M g) (rev mlhs))))
      else if \<not> use_value then
        bind (gen_first g (length mlhs) mrhs) (\<lambda>_.
        bind (each (\<lambda>_. emit gen_push_nil) [0..<length mlhs - length mrhs]) (\<lambda>_.
        each (gen_assign M g) (rev mlhs)))
      else
        bind (each (\<lambda>n. g n True) mrhs) (\<lambda>_.
        bind (each (\<lambda>_. emit gen_push_nil) [0..<len - length mrhs]) (\<lambda>_.
        bind (gen_dup len) (\<lambda>_.
        bind (each (\<lambda>_. gen_pop) [0..<len - length mlhs]) (\<lambda>_.
        bind (each (gen_assign M g) (rev mlhs)) (\<lambda>_.
        emit (gen_create_array len)))))))"

section \<open>Calls\<close>

definition create_flag :: "bool \<Rightarrow> bool \<Rightarrow> u8" where
  "create_flag kw_flag block_flag = (if kw_flag then 1 else 0) + (if block_flag then 2 else 0)"

definition gen_kw_arg :: "'m generator \<Rightarrow> u32 \<times> node \<Rightarrow> ('m, unit) cgeff" where
  "gen_kw_arg g p = bind (emit (gen_symbol (fst p))) (\<lambda>_. g (snd p) True)"

text \<open>A literal block becomes a method; any other block argument is a value.\<close>

definition gen_block_arg :: "'m generator \<Rightarrow> node option \<Rightarrow> ('m, bool \<times> u32 option) cgeff" where
  "gen_block_arg g b =
     (case b of
        None \<Rightarrow> ret (False, None)
      | Some block \<Rightarrow>
          (case akind block of
             NProc ps body lv \<Rightarrow> bind (gen_block g ps body lv None) (\<lambda>i. ret (False, Some i))
           | _ \<Rightarrow> bind (g block True) (\<lambda>_. ret (True, None))))"

definition gen_opt_send_node ::
    "'m generator \<Rightarrow> loc \<Rightarrow> node \<Rightarrow> u32 \<Rightarrow> bool \<Rightarrow> nat \<Rightarrow> u32 option \<Rightarrow> bool \<Rightarrow> ('m, unit) cgeff" where
  "gen_opt_send_node g l recv meth safe_nav n_args block use_value =
     (if akind recv = NSelfValue then
        bind (set_loc l) (\<lambda>_. gen_opt_send_self meth n_args block use_value)
      else
        bind (g recv True) (\<lambda>_.
          if safe_nav then
            bind (gen_dup 1) (\<lambda>_.
            bind (emit gen_push_nil) (\<lambda>_.
            bind (push_inst I_NE) (\<lambda>_.
            bind (emit_at gen_jmp_if_f) (\<lambda>src.
            bind (set_loc l) (\<lambda>_.
            bind (gen_opt_send meth n_args block use_value) (\<lambda>_. patch_here src))))))
          else bind (set_loc l) (\<lambda>_. gen_opt_send meth n_args block use_value)))"

definition gen_send_node ::
    "'m generator \<Rightarrow> loc \<Rightarrow> node \<Rightarrow> u32 \<Rightarrow> node arg_list \<Rightarrow> bool \<Rightarrow> bool \<Rightarrow> ('m, unit) cgeff" where
  "gen_send_node g l recv meth a safe_nav use_value =
     (let n_args = length (al_args a); kwrest_len = length (al_kw_rest a);
          kw_flag = (length (al_kw_args a) \<noteq> 0); no_splat = (\<not> list_ex is_splat (al_args a)) in
      bind (each (\<lambda>n. g n True) (al_args a)) (\<lambda>_.
      bind (skip_unless kw_flag
             (bind (each (gen_kw_arg g) (al_kw_args a)) (\<lambda>_.
              emit (gen_create_hash (length (al_kw_args a)))))) (\<lambda>_.
      bind (each (\<lambda>n. g n True) (al_kw_rest a)) (\<lambda>_.
      bind (gen_block_arg g (al_block a)) (\<lambda>(block_flag, block).
        if \<not> block_flag \<and> \<not> kw_flag \<and> no_splat \<and> kwrest_len = 0 then
          gen_opt_send_node g l recv meth safe_nav n_args block use_value
        else
          bind (if akind recv = NSelfValue then
                  bind (set_loc l) (\<lambda>_.
                  gen_send_self meth n_args kwrest_len (create_flag kw_flag block_flag) block)
                else
                  bind (g recv True) (\<lambda>_.
                  bind (set_loc l) (\<lambda>_.
                  gen_send meth n_args kwrest_len (create_flag kw_flag block_flag) block))) (\<lambda>_.
          pop_unless use_value))))))"

definition gen_yield_node :: "'m generator \<Rightarrow> node arg_list \<Rightarrow> bool \<Rightarrow> ('m, unit) cgeff" where
  "gen_yield_node g a use_value =
     bind (each (\<lambda>n. g n True) (al_args a)) (\<lambda>_.
     bind (gen_yield (length (al_args a))) (\<lambda>_. pop_unless use_value))"

section \<open>Definitions\<close>

definition gen_method_def ::
    "'m generator \<Rightarrow> u32 \<Rightarrow> formal_param list \<Rightarrow> node \<Rightarrow> lvar_collector \<Rightarrow> bool \<Rightarrow> ('m, unit) cgeff" where
  "gen_method_def g i ps body lv use_value =
     bind (gen_iseq g ps body lv True (MethodC (Some i)) None) (\<lambda>meth.
     bind (emit (inst32_32 I_DEF_METHOD i meth)) (\<lambda>_.
     skip_unless use_value (emit (gen_symbol i))))"

definition gen_singleton_method_def ::
    "'m generator \<Rightarrow> node \<Rightarrow> u32 \<Rightarrow> formal_param list \<Rightarrow> node \<Rightarrow> lvar_collector \<Rightarrow> bool \<Rightarrow>
     ('m, unit) cgeff" where
  "gen_singleton_method_def g singleton i ps body lv use_value =
     bind (gen_iseq g ps body lv True (MethodC (Some i)) None) (\<lambda>meth.
     bind (g singleton True) (\<lambda>_.
     bind (emit (inst32_32 I_DEF_SMETHOD i meth)) (\<lambda>_.
     skip_unless use_value (emit (gen_symbol i)))))"

definition def_class_code :: "bool \<Rightarrow> u32 \<Rightarrow> u32 \<Rightarrow> code \<Rightarrow> code" where
  "def_class_code as_module i meth c =
     push32 meth (push32 i (c @ [I_DEF_CLASS, if as_module then 1 else 0]))"

definition gen_class_def ::
    "'m generator \<Rightarrow> loc \<Rightarrow> node \<Rightarrow> u32 \<Rightarrow> node \<Rightarrow> node \<Rightarrow> lvar_collector \<Rightarrow> bool \<Rightarrow> bool \<Rightarrow>
     ('m, unit) cgeff" where
  "gen_class_def g l base i super body lv as_module use_value =
     bind (gen_iseq g [] body lv True (ClassC i) None) (\<lambda>meth.
     bind (g super True) (\<lambda>_.
     bind (g base True) (\<lambda>_.
     bind (save_loc l) (\<lambda>_.
     bind (emit (def_class_code as_module i meth)) (\<lambda>_. pop_unless use_value)))))"

definition gen_singleton_class_def ::
    "'m mach menv \<Rightarrow> 'm generator \<Rightarrow> loc \<Rightarrow> node \<Rightarrow> node \<Rightarrow> lvar_collector \<Rightarrow> bool \<Rightarrow>
     ('m, unit) cgeff" where
  "gen_singleton_class_def M g l singleton body lv use_value =
     bind (gen_iseq g [] body lv True (ClassC (e_id M ''Singleton'')) None) (\<lambda>meth.
     bind (g singleton True) (\<lambda>_.
     bind (save_loc l) (\<lambda>_.
     bind (emit (inst32 I_DEF_SCLASS meth)) (\<lambda>_. pop_unless use_value))))"

definition gen_proc :: "'m generator \<Rightarrow> formal_param list \<Rightarrow> node \<Rightarrow> lvar_collector \<Rightarrow> bool \<Rightarrow> ('m, unit) cgeff" where
  "gen_proc g ps body lv use_value =
     bind (gen_block g ps body lv None) (\<lambda>i.
     bind (emit (inst32 I_CREATE_PROC i)) (\<lambda>_. pop_unless use_value))"

section \<open>Leaving\<close>

text \<open>The entry for a \<open>return\<close> inside a \<open>begin\<close> with \<open>ensure\<close>: of the innermost \<open>begin\<close> only.\<close>

definition add_return_entry :: "bool \<Rightarrow> nat \<Rightarrow> gen_context \<Rightarrow> gen_context" where
  "add_return_entry in_block src c =
     (if gc_jump_dest c = [] then c
      else
        let d = last (gc_jump_dest c);
            d' = (if in_block then d\<lparr>mreturn_entries := mreturn_entries d @ [src]\<rparr>
                  else d\<lparr>return_entries := return_entries d @ [src]\<rparr>)
        in c\<lparr>gc_jump_dest := butlast (gc_jump_dest c) @ [d']\<rparr>)"

definition gen_return_node :: "'m generator \<Rightarrow> loc \<Rightarrow> node \<Rightarrow> ('m, unit) cgeff" where
  "gen_return_node g l v =
     bind (g v True) (\<lambda>_.
     bind context_last (\<lambda>c.
       let in_block = (gc_kind c = BlockC) in
       if gc_jump_dest c \<noteq> [] \<and> has_ensure (last (gc_jump_dest c)) then
         bind (emit_at gen_jmp) (\<lambda>src. mod_context (add_return_entry in_block src))
       else
         bind (save_loc l) (\<lambda>_. emit (if in_block then gen_method_return else gen_return))))"

definition gen_break_node :: "'m generator \<Rightarrow> loc \<Rightarrow> node \<Rightarrow> ('m, unit) cgeff" where
  "gen_break_node g l v =
     bind loop_last (\<lambda>lp.
       if l_state lp = TopState then
         bind context_last (\<lambda>c.
           case gc_kind c of
             BlockC \<Rightarrow>
               bind (g v True) (\<lambda>_. bind (save_loc l) (\<lambda>_. emit gen_break))
           | _ \<Rightarrow> error_syntax)
       else
         bind (g v True) (\<lambda>_. bind (emit_at gen_jmp) (\<lambda>src. add_escape src EscBreak)))"

definition gen_next_node :: "'m generator \<Rightarrow> node \<Rightarrow> bool \<Rightarrow> ('m, unit) cgeff" where
  "gen_next_node g v use_value =
     bind loop_last (\<lambda>lp.
       if l_state lp = TopState then
         bind context_last (\<lambda>c.
           case gc_kind c of
             BlockC \<Rightarrow> bind (g v True) (\<lambda>_. emit gen_return)
           | _ \<Rightarrow> error_syntax)
       else
         bind (g v use_value) (\<lambda>_. bind (emit_at gen_jmp) (\<lambda>src. add_escape src EscNext)))"

section \<open>The operator \<open>defined?\<close>\<close>

text \<open>\<open>check_defined\<close>, with the jumps it leaves to be patched.\<close>

definition check_inst :: "u8 \<Rightarrow> u32 \<Rightarrow> ('g codegen, nat list) eff" where
  "check_inst i w =
     bind (emit (inst32 i w)) (\<lambda>_. bind (emit_at gen_jmp_if_t) (\<lambda>src. ret [src]))"

definition check_lvar :: "u32 \<Rightarrow> ('g codegen, nat list) eff" where
  "check_lvar v =
     bind (local_var v) (\<lambda>r.
     bind (case r of
             Some (out, l) \<Rightarrow> emit (inst32_32 I_CHECK_LOCAL (lvar_u32 l) out)
           | None \<Rightarrow> push_inst I_PUSH_TRUE) (\<lambda>_.
     bind (emit_at gen_jmp_if_t) (\<lambda>src. ret [src])))"

definition check_each :: "(node \<Rightarrow> ('s, nat list) eff) \<Rightarrow> node list \<Rightarrow> ('s, nat list) eff" where
  "check_each f ns = bind (gather f ns) (\<lambda>xss. ret (concat xss))"

fun check_defined :: "nat \<Rightarrow> node \<Rightarrow> ('g codegen, nat list) eff" where
  "check_defined 0 n = raise Undef"
| "check_defined (Suc k) n =
     (case akind n of
        NLocalVar v \<Rightarrow> check_lvar v
      | NIdent v \<Rightarrow> check_lvar v
      | NGlobalVar i \<Rightarrow> check_inst I_CHECK_GVAR i
      | NInstanceVar i \<Rightarrow> check_inst I_CHECK_IVAR i
      | NArray ns _ \<Rightarrow> check_each (check_defined k) ns
      | NBinOp _ l r \<Rightarrow> check_each (check_defined k) [l, r]
      | NUnOp _ x \<Rightarrow> check_defined k x
      | NIndex base index \<Rightarrow> check_each (check_defined k) (base # index)
      | NSend recv _ a _ \<Rightarrow> check_each (check_defined k) (recv # al_args a)
      | _ \<Rightarrow> ret [])"

definition gen_defined :: "'m mach menv \<Rightarrow> nat \<Rightarrow> node \<Rightarrow> bool \<Rightarrow> ('m, unit) cgeff" where
  "gen_defined M depth content use_value =
     bind (check_defined depth content) (\<lambda>nil_labels.
     skip_unless use_value
       (bind (gen_string M (test_defined content)) (\<lambda>_.
        bind (emit_at gen_jmp) (\<lambda>end_src.
        bind (each patch_here nil_labels) (\<lambda>_.
        bind (emit gen_push_nil) (\<lambda>_. patch_here end_src))))))"

section \<open>Any node\<close>

text \<open>Literals and \<open>self\<close> whose value is not used generate nothing.\<close>

definition is_silent :: "node_kind \<Rightarrow> bool" where
  "is_silent k =
     (case k of
        NNil \<Rightarrow> True | NBool _ \<Rightarrow> True | NInteger _ \<Rightarrow> True | NFloat _ \<Rightarrow> True | NImaginary _ \<Rightarrow> True
      | NString _ \<Rightarrow> True | NSymbol _ \<Rightarrow> True | NSelfValue \<Rightarrow> True | _ \<Rightarrow> False)"

definition gen_kind :: "'m mach menv \<Rightarrow> 'm generator \<Rightarrow> node \<Rightarrow> bool \<Rightarrow> ('m, unit) cgeff" where
  "gen_kind M g n use_value =
     (let l = aloc n; depth = nsize n; u = use_value in
      case akind n of
        NNil \<Rightarrow> emit gen_push_nil
      | NBool b \<Rightarrow> push_inst (if b then I_PUSH_TRUE else I_PUSH_FALSE)
      | NInteger i \<Rightarrow> emit (gen_fixnum i)
      | NFloat f \<Rightarrow> emit (\<lambda>c. push64 f (c @ [I_PUSH_FLONUM]))
      | NImaginary r \<Rightarrow> gen_complex M r
      | NString cs \<Rightarrow> gen_string M cs
      | NSymbol i \<Rightarrow> emit (gen_symbol i)
      | NInterporatedString ns \<Rightarrow> gen_interpolated M g ns u
      | NRegExp ns is_const \<Rightarrow> gen_regexp M g ns is_const u
      | NSelfValue \<Rightarrow> emit gen_push_self
      | NRange a b ex \<Rightarrow> gen_range g l a b ex u
      | NArray ns is_const \<Rightarrow> gen_array M g depth ns is_const u
      | NHash kvs is_const \<Rightarrow> gen_hash M g depth kvs is_const u
      | NIdent i \<Rightarrow> gen_opt_send_self i 0 None u
      | NLocalVar i \<Rightarrow> bind (gen_get_local i) (\<lambda>_. pop_unless u)
      | NGlobalVar i \<Rightarrow> bind (emit (gen_get_global_var i)) (\<lambda>_. pop_unless u)
      | NConst toplevel i \<Rightarrow>
          bind (if toplevel then gen_get_const_top i else gen_get_const i) (\<lambda>_. pop_unless u)
      | NScope parent i \<Rightarrow>
          bind (g parent True) (\<lambda>_. bind (gen_get_scope i l) (\<lambda>_. pop_unless u))
      | NInstanceVar i \<Rightarrow> bind (emit (gen_get_instance_var i)) (\<lambda>_. pop_unless u)
      | NClassVar i \<Rightarrow> bind (gen_get_class_var i) (\<lambda>_. pop_unless u)
      | NBinOp b x y \<Rightarrow> gen_binop M g l b x y u
      | NUnOp b x \<Rightarrow> gen_unop g l b x u
      | NIndex base index \<Rightarrow> gen_index g l base index u
      | NSplat a \<Rightarrow> bind (g a True) (\<lambda>_. bind (emit gen_splat) (\<lambda>_. pop_unless u))
      | NCompStmt ns \<Rightarrow> gen_comp_stmt g ns u
      | NIf c t e \<Rightarrow> gen_if g c t e u
      | NFor vars it body \<Rightarrow> gen_for_node g vars it body u
      | NWhile c body cond_op \<Rightarrow> gen_while g c body cond_op u
      | NBegin body rescue els ensure \<Rightarrow> gen_begin M g l body rescue els ensure u
      | NCase c whens els \<Rightarrow> gen_case M g c whens els u
      | NMulAssign mlhs mrhs \<Rightarrow> gen_mul_assign M g mlhs mrhs u
      | NCommand c \<Rightarrow> bind (g c True) (\<lambda>_. gen_opt_send_self (e_id M ''`'') 1 None u)
      | NSend recv meth a safe_nav \<Rightarrow> gen_send_node g l recv meth a safe_nav u
      | NYield a \<Rightarrow> gen_yield_node g a u
      | NMethodDef i ps body lv \<Rightarrow> gen_method_def g i ps body lv u
      | NSingletonMethodDef sg i ps body lv \<Rightarrow> gen_singleton_method_def g sg i ps body lv u
      | NClassDef base i super body lv as_module \<Rightarrow>
          gen_class_def g l base i super body lv as_module u
      | NSingletonClassDef sg body lv \<Rightarrow> gen_singleton_class_def M g l sg body lv u
      | NReturn v \<Rightarrow> gen_return_node g l v
      | NBreak v \<Rightarrow> gen_break_node g l v
      | NNext v \<Rightarrow> gen_next_node g v u
      | NProc ps body lv \<Rightarrow> gen_proc g ps body lv u
      | NDefined c \<Rightarrow> gen_defined M depth c u
      | NAliasMethod a b \<Rightarrow>
          bind (g a True) (\<lambda>_. bind (g b True) (\<lambda>_. gen_opt_send_self ALIAS_METHOD_ID 2 None u))
      | _ \<Rightarrow> raise Panic)"

fun gen :: "'m mach menv \<Rightarrow> nat \<Rightarrow> 'm generator" where
  "gen M 0 n use_value = raise Undef"
| "gen M (Suc k) n use_value =
     bind (set_loc (aloc n)) (\<lambda>_.
       if \<not> use_value \<and> is_silent (akind n) then ret ()
       else gen_kind M (gen M k) n use_value)"

text \<open>\<open>VM::parse_program\<close> and \<open>VM::parse_program_eval\<close> (src/vm/executor.rs), after the parser.\<close>

definition compile :: "'m mach menv \<Rightarrow> node \<Rightarrow> lvar_collector \<Rightarrow> ('m, u32) cgeff" where
  "compile M n lv = gen_iseq (gen M (Suc (nsize n))) [] n lv True (MethodC None) None"

definition compile_eval :: "'m mach menv \<Rightarrow> node \<Rightarrow> lvar_collector \<Rightarrow> ('m, u32) cgeff" where
  "compile_eval M n lv = gen_iseq (gen M (Suc (nsize n))) [] n lv True EvalC None"

end
