(* ===== verification/CodeShape.thy ===== *)
theory CodeShape
  imports Flow
begin

text \<open>
  Bytecode under construction: the boundaries of its instructions, and what appending an instruction,
  patching a jump and filling a table of a \<open>case\<close> keep. \<open>good_code\<close> holds of the code of
  src/parse/codegen.rs at every moment between two instructions.
\<close>

section \<open>Boundaries\<close>

text \<open>The places reached from the start by the sizes of the instructions, up to the end.\<close>

fun walk :: "code \<Rightarrow> nat \<Rightarrow> nat" where
  "walk c 0 = 0"
| "walk c (Suc n) = (let p = walk c n in if p < length c then p + isize (c ! p) else p)"

definition boundary :: "code \<Rightarrow> nat \<Rightarrow> bool" where
  "boundary c p \<longleftrightarrow> (\<exists>n. walk c n = p)"

definition opens :: "code \<Rightarrow> nat \<Rightarrow> bool" where
  "opens c p \<longleftrightarrow> boundary c p \<and> p < length c"

lemma boundary_0 [simp]: "boundary c 0"
  unfolding boundary_def by (rule exI [of _ 0]) simp

lemma boundary_next: "opens c p \<Longrightarrow> boundary c (p + isize (c ! p))"
  unfolding boundary_def opens_def by (auto intro: exI [of _ "Suc n" for n] simp: Let_def)

lemma boundary_induct [consumes 1, case_names start step]:
  assumes "boundary c p" "P 0" "\<And>p. opens c p \<Longrightarrow> P p \<Longrightarrow> P (p + isize (c ! p))"
  shows "P p"
proof -
  have "P (walk c n)" for n
  proof (induction n)
    case (Suc n)
    then show ?case using assms(3) [of "walk c n"]
      by (auto simp: Let_def opens_def boundary_def)
  qed (simp add: assms(2))
  with assms(1) show ?thesis by (auto simp: boundary_def)
qed

lemma walk_mono: "m \<le> n \<Longrightarrow> walk c m \<le> walk c n"
  by (rule lift_Suc_mono_le [of "walk c"]) (simp_all add: Let_def)

lemma boundary_order:
  assumes "boundary c q" "opens c p"
  shows "q \<le> p \<or> p + isize (c ! p) \<le> q"
proof -
  obtain m n where "walk c m = p" "walk c n = q" "p < length c"
    using assms by (auto simp: boundary_def opens_def)
  then show ?thesis
    using walk_mono [of n m c] walk_mono [of "Suc m" n c] by (cases "n \<le> m") (auto simp: Let_def)
qed

lemma isize_pos: "0 < isize i \<Longrightarrow> inst_size i = Inr (isize i)"
  by (cases "inst_size i") (simp_all add: isize_def)

text \<open>Code that parses to its end.\<close>

definition laid :: "code \<Rightarrow> bool" where
  "laid c \<longleftrightarrow> boundary c (length c)"

lemma laid_inst:
  assumes "laid c" "opens c p"
  shows "0 < isize (c ! p)" "p + isize (c ! p) \<le> length c" "inst_size (c ! p) = Inr (isize (c ! p))"
proof -
  obtain m n where mn: "walk c m = p" "walk c n = length c" "p < length c"
    using assms by (auto simp: boundary_def opens_def laid_def)
  then have "m < n" using walk_mono [of n m c] by force
  show pos: "0 < isize (c ! p)"
  proof (rule ccontr)
    assume "\<not> ?thesis"
    then have "walk c (m + k) = p" for k
      by (induction k) (simp_all add: mn(1) Let_def)
    with \<open>m < n\<close> mn show False by (metis less_imp_add_positive nat_less_le)
  qed
  show "p + isize (c ! p) \<le> length c"
    using boundary_order [of c "length c" p] assms by (auto simp: laid_def opens_def)
  show "inst_size (c ! p) = Inr (isize (c ! p))" using pos by (rule isize_pos)
qed

lemma boundary_le:
  assumes "laid c" "boundary c p"
  shows "p \<le> length c"
  using assms(2) by (induction rule: boundary_induct) (simp_all add: laid_inst(2) [OF assms(1)])

text \<open>Boundaries depend on the opcodes only.\<close>

lemma boundary_cong:
  assumes "boundary c p" "\<And>q. opens c q \<Longrightarrow> c' ! q = c ! q" "length c \<le> length c'"
  shows "boundary c' p"
  using assms(1)
proof (induction rule: boundary_induct)
  case (step p)
  then have "opens c' p" using assms(3) by (simp add: opens_def)
  with boundary_next assms(2) [OF step(1)] show ?case by fastforce
qed simp

lemma boundary_back:
  assumes "boundary c' p" "laid c" "\<And>q. opens c q \<Longrightarrow> c' ! q = c ! q" "p \<le> length c"
  shows "boundary c p"
  using assms(1,4)
proof (induction rule: boundary_induct)
  case (step p)
  show ?case
  proof (cases "p < length c")
    case True
    with step have "opens c p" by (simp add: opens_def)
    with boundary_next assms(3) show ?thesis by fastforce
  next
    case False
    with step have "isize (c' ! p) = 0" "p = length c" by auto
    with assms(2) show ?thesis by (simp add: laid_def)
  qed
qed simp

section \<open>Instructions\<close>

definition jumpish :: "u8 \<Rightarrow> bool" where
  "jumpish i \<longleftrightarrow> i \<in> set (jumps @ cond_jumps @ case_jumps)"

definition caseish :: "u8 \<Rightarrow> bool" where
  "caseish i \<longleftrightarrow> i \<in> set case_jumps"

lemma jumpish_size: "jumpish i \<Longrightarrow> 5 \<le> isize i"
proof -
  have "list_all (\<lambda>i. 5 \<le> isize i) (jumps @ cond_jumps @ case_jumps)" by code_simp
  then show "jumpish i \<Longrightarrow> 5 \<le> isize i" by (auto simp: list_all_iff jumpish_def)
qed

lemma caseish_size: "caseish i \<Longrightarrow> isize i = 9"
  using isizes3(17,18) by (auto simp: caseish_def case_jumps_def)

lemma caseish_jumpish: "caseish i \<Longrightarrow> jumpish i"
  by (simp add: caseish_def jumpish_def)

text \<open>The table a \<open>case\<close> instruction refers to.\<close>

type_synonym table_ref = "u8 \<times> nat"

definition refers :: "code \<Rightarrow> nat \<Rightarrow> table_ref \<Rightarrow> bool" where
  "refers c p r \<longleftrightarrow>
     opens c p \<and> caseish (c ! p) \<and> fst r = c ! p \<and> (\<exists>w. read32 c (p + 1) = Inr w \<and> snd r = unat w)"

definition has :: "dispatch \<Rightarrow> table_ref \<Rightarrow> bool" where
  "has ts r \<longleftrightarrow> snd r < (if fst r = I_OPT_CASE then length (fst ts) else length (snd ts))"

definition entry :: "dispatch \<Rightarrow> table_ref \<Rightarrow> int list" where
  "entry ts r =
     (if fst r = I_OPT_CASE then map snd (fst ts ! snd r) else snd (snd (snd ts ! snd r)))"

lemma read32_ok: "p + 4 \<le> length c \<Longrightarrow> \<exists>w. read32 c p = Inr w"
  by (simp add: read32_def vslice_def)

lemma jump_dest_ok:
  assumes "4 \<le> n" "n \<le> length c"
  shows "\<exists>t. jump_dest c n = Inr t"
proof -
  obtain w where "read32 c (n - 4) = Inr w" using read32_ok [of "n - 4" c] assms by auto
  then show ?thesis by (simp add: jump_dest_def read_disp_def)
qed

lemma refers_exists:
  assumes "laid c" "opens c p" "caseish (c ! p)"
  shows "\<exists>r. refers c p r"
proof -
  have "p + 1 + 4 \<le> length c" using laid_inst [OF assms(1,2)] caseish_size [OF assms(3)] by simp
  with read32_ok assms(2,3) show ?thesis by (fastforce simp: refers_def)
qed

lemma table_disps_refers:
  "refers c p r \<Longrightarrow> table_disps c ts p = entry ts r \<and> (known c ts p \<longleftrightarrow> has ts r)"
proof -
  have ne: "I_OPT_CASE \<noteq> I_OPT_CASE2" by (simp add: opcode_defs)
  assume "refers c p r"
  then obtain w where "c ! p = I_OPT_CASE \<or> c ! p = I_OPT_CASE2" "read32 c (p + 1) = Inr w"
      "r = (c ! p, unat w)"
    by (cases r) (auto simp: refers_def caseish_def case_jumps_def)
  then show ?thesis using ne by (auto simp: table_disps_def known_def has_def entry_def)
qed

lemma table_disps_none: "\<not> caseish (c ! p) \<Longrightarrow> table_disps c ts p = [] \<and> known c ts p"
  by (auto simp: table_disps_def known_def caseish_def case_jumps_def split: sum.splits)

text \<open>
  Good code: it parses to its end, every successor of an instruction is a boundary (the end counts
  as one), and no two \<open>case\<close> instructions share a table.
\<close>

definition good_inst :: "code \<Rightarrow> dispatch \<Rightarrow> nat \<Rightarrow> bool" where
  "good_inst c ts p \<longleftrightarrow> known c ts p \<and> (\<forall>t \<in> set (succs c ts p). boundary c t)"

definition good_code :: "code \<Rightarrow> dispatch \<Rightarrow> bool" where
  "good_code c ts \<longleftrightarrow>
     laid c \<and> (\<forall>p. opens c p \<longrightarrow> good_inst c ts p) \<and>
     (\<forall>p q r. refers c p r \<longrightarrow> refers c q r \<longrightarrow> p = q)"

lemma in_three_parts:
  "t \<in> set ((if b then [] else [n]) @ (if j then (case r of Inl _ \<Rightarrow> [] | Inr u \<Rightarrow> [u]) else []) @ map f ds)
     \<longleftrightarrow> \<not> b \<and> t = n \<or> j \<and> r = Inr t \<or> (\<exists>d \<in> set ds. t = f d)"
  unfolding set_append Un_iff set_map image_iff
  by (cases r; cases b; cases j) auto

lemma in_succs:
  "t \<in> set (succs c ts p) \<longleftrightarrow>
     c ! p \<notin> set (jumps @ leaving @ case_jumps) \<and> t = p + isize (c ! p) \<or>
     jumpish (c ! p) \<and> jump_dest c (p + isize (c ! p)) = Inr t \<or>
     (\<exists>d \<in> set (table_disps c ts p). t = pos_add (p + isize (c ! p)) d)"
  unfolding succs_def Let_def jumpish_def by (rule in_three_parts)

lemma good_instI:
  assumes "opens c p" "known c ts p"
    "\<And>t. jumpish (c ! p) \<Longrightarrow> jump_dest c (p + isize (c ! p)) = Inr t \<Longrightarrow> boundary c t"
    "\<And>d. d \<in> set (table_disps c ts p) \<Longrightarrow> boundary c (pos_add (p + isize (c ! p)) d)"
  shows "good_inst c ts p"
  unfolding good_inst_def
proof (intro conjI ballI)
  fix t assume "t \<in> set (succs c ts p)"
  with assms(3,4) boundary_next [OF assms(1)] show "boundary c t" unfolding in_succs by blast
qed (rule assms(2))

lemma good_instD:
  assumes "good_inst c ts p"
  shows "known c ts p"
    "jumpish (c ! p) \<Longrightarrow> jump_dest c (p + isize (c ! p)) = Inr t \<Longrightarrow> boundary c t"
    "d \<in> set (table_disps c ts p) \<Longrightarrow> boundary c (pos_add (p + isize (c ! p)) d)"
  using assms unfolding good_inst_def by (meson in_succs)+

section \<open>Longer code\<close>

text \<open>Code that went on, or had a displacement written: the opcodes and tables are as they were.\<close>

definition code_ext :: "code \<Rightarrow> code \<Rightarrow> bool" where
  "code_ext c c' \<longleftrightarrow>
     length c \<le> length c' \<and>
     (\<forall>p. opens c p \<longrightarrow> c' ! p = c ! p \<and> (caseish (c ! p) \<longrightarrow> read32 c' (p + 1) = read32 c (p + 1)))"

lemma code_ext_refl [simp]: "code_ext c c"
  by (simp add: code_ext_def)

lemma code_ext_boundary: "code_ext c c' \<Longrightarrow> boundary c p \<Longrightarrow> boundary c' p"
  using boundary_cong [of c p c'] by (auto simp: code_ext_def)

lemma code_ext_opens: "code_ext c c' \<Longrightarrow> opens c p \<Longrightarrow> opens c' p \<and> c' ! p = c ! p"
  using code_ext_boundary [of c c' p] by (auto simp: code_ext_def opens_def)

lemma code_ext_back:
  assumes "code_ext c c'" "laid c" "boundary c' p" "p \<le> length c"
  shows "boundary c p"
  using assms by (intro boundary_back [of c' p c]) (auto simp: code_ext_def)

lemma code_ext_trans:
  assumes "code_ext c c1" "code_ext c1 c2"
  shows "code_ext c c2"
  using assms code_ext_opens [OF assms(1)] unfolding code_ext_def by (metis order_trans)

lemma code_ext_refers:
  assumes "code_ext c c'"
  shows "refers c p r \<Longrightarrow> refers c' p r"
    "laid c \<Longrightarrow> refers c' p r \<Longrightarrow> p < length c \<Longrightarrow> refers c p r"
proof -
  show "refers c p r \<Longrightarrow> refers c' p r"
    using assms code_ext_opens [OF assms, of p] by (auto simp: refers_def code_ext_def)
  assume r: "laid c" "refers c' p r" "p < length c"
  then have "opens c p" using code_ext_back [OF assms, of p] by (auto simp: refers_def opens_def)
  with r assms show "refers c p r" by (auto simp: refers_def code_ext_def)
qed

lemma read32_agree:
  assumes "p + 4 \<le> length c" "p + 4 \<le> length c'" "\<And>i. p \<le> i \<Longrightarrow> i < p + 4 \<Longrightarrow> c' ! i = c ! i"
  shows "read32 c' p = read32 c p"
proof -
  have "take 4 (drop p c') = take 4 (drop p c)"
    using assms by (intro nth_equalityI) auto
  then show ?thesis using assms(1,2) by (simp add: read32_def vslice_def)
qed

lemma jump_dest_agree:
  "4 \<le> n \<Longrightarrow> read32 c' (n - 4) = read32 c (n - 4) \<Longrightarrow> jump_dest c' n = jump_dest c n"
  by (simp add: jump_dest_def read_disp_def)

text \<open>Two versions of a table agree for the code if both lead to boundaries of it.\<close>

lemma good_tablesD:
  assumes "good_code c ts" "refers c p r"
  shows "has ts r" "d \<in> set (entry ts r) \<Longrightarrow> boundary c (pos_add (p + 9) d)"
proof -
  have o: "opens c p" "isize (c ! p) = 9" using assms(2) caseish_size by (auto simp: refers_def)
  with assms(1) have g: "good_inst c ts p" by (simp add: good_code_def)
  note t = table_disps_refers [OF assms(2), of ts]
  show "has ts r" using good_instD(1) [OF g] t by simp
  show "d \<in> set (entry ts r) \<Longrightarrow> boundary c (pos_add (p + 9) d)"
    using good_instD(3) [OF g, of d] t o by simp
qed

lemma good_code_tables:
  assumes "good_code c ts"
    "\<And>p r. refers c p r \<Longrightarrow> has ts' r \<and> (\<forall>d \<in> set (entry ts' r). boundary c (pos_add (p + 9) d))"
  shows "good_code c ts'"
  unfolding good_code_def
proof (intro conjI allI impI)
  fix p assume p: "opens c p"
  have l: "laid c" and g: "good_inst c ts p" using assms(1) p by (auto simp: good_code_def)
  show "good_inst c ts' p"
  proof (cases "caseish (c ! p)")
    case True
    then obtain r where r: "refers c p r" using refers_exists [OF l p] by blast
    with assms(2) [OF r] table_disps_refers [OF r, of ts'] caseish_size [OF True] show ?thesis
      by (auto intro: good_instI [OF p _ good_instD(2) [OF g]])
  next
    case False
    show ?thesis
      by (rule good_instI [OF p _ good_instD(2) [OF g]]) (simp_all add: table_disps_none [OF False])
  qed
qed (use assms(1) in \<open>auto simp: good_code_def\<close>)

lemma opens_append:
  assumes "laid c" "isize i = Suc (length ops)"
  shows "code_ext c (c @ i # ops)" "laid (c @ i # ops)"
    "opens (c @ i # ops) p \<longleftrightarrow> opens c p \<or> p = length c"
proof -
  let ?c = "c @ i # ops"
  show e: "code_ext c ?c"
    unfolding code_ext_def
  proof (intro conjI allI impI)
    fix p assume p: "opens c p"
    then show "?c ! p = c ! p" by (simp add: opens_def nth_append)
    assume "caseish (c ! p)"
    then have "p + 9 \<le> length c" using laid_inst(2) [OF assms(1) p] caseish_size by simp
    then show "read32 ?c (p + 1) = read32 c (p + 1)"
      by (intro read32_agree) (auto simp: nth_append)
  qed simp
  have o: "opens ?c (length c)"
    using code_ext_boundary [OF e] assms(1) by (simp add: laid_def opens_def)
  with boundary_next [OF o] assms(2) show "laid ?c" by (simp add: laid_def)
  show "opens ?c p \<longleftrightarrow> opens c p \<or> p = length c"
    using code_ext_opens [OF e, of p] o boundary_order [OF _ o, of p] assms(2)
      code_ext_back [OF e assms(1), of p] by (auto simp: opens_def)
qed

lemma jump_dest_append:
  assumes "laid c" "opens c p" "jumpish (c ! p)"
  shows "jump_dest (c @ ds) (p + isize (c ! p)) = jump_dest c (p + isize (c ! p))"
  using laid_inst [OF assms(1,2)] jumpish_size [OF assms(3)]
  by (intro jump_dest_agree read32_agree) (auto simp: nth_append)

lemma good_code_append:
  assumes g: "good_code c ts" and i: "isize i = Suc (length ops)"
    and dest: "\<And>t. jumpish i \<Longrightarrow> jump_dest (c @ i # ops) (length (c @ i # ops)) = Inr t \<Longrightarrow>
      boundary (c @ i # ops) t"
    and tab: "\<And>r. refers (c @ i # ops) (length c) r \<Longrightarrow> has ts r \<and>
      (\<forall>d \<in> set (entry ts r). boundary (c @ i # ops) (pos_add (length c + 9) d)) \<and>
      (\<forall>q. \<not> refers c q r)"
  shows "good_code (c @ i # ops) ts"
proof -
  let ?c = "c @ i # ops"
  have l: "laid c" using g by (simp add: good_code_def)
  note e = opens_append(1) [OF l i] and o = opens_append(3) [OF l i]
  have "good_inst ?c ts p" if p: "opens ?c p" for p
  proof (cases "p = length c")
    case True
    show ?thesis
    proof (rule good_instI [OF p])
      have "known ?c ts p \<and> (\<forall>d \<in> set (table_disps ?c ts p). boundary ?c (pos_add (p + isize (?c ! p)) d))"
      proof (cases "caseish (?c ! p)")
        case cs: True
        then obtain r where r: "refers ?c p r"
          using refers_exists [OF opens_append(2) [OF l i] p] by blast
        with tab [of r] True table_disps_refers [OF r] caseish_size [OF cs] show ?thesis by simp
      qed (use table_disps_none in auto)
      then show "known ?c ts p"
        "d \<in> set (table_disps ?c ts p) \<Longrightarrow> boundary ?c (pos_add (p + isize (?c ! p)) d)" for d by auto
      show "jumpish (?c ! p) \<Longrightarrow> jump_dest ?c (p + isize (?c ! p)) = Inr t \<Longrightarrow> boundary ?c t" for t
        using dest [of t] True i by simp
    qed
  next
    case False
    then have q: "opens c p" "?c ! p = c ! p" using p o code_ext_opens [OF e] by auto
    have gi: "good_inst c ts p" using g q(1) by (simp add: good_code_def)
    show ?thesis
    proof (rule good_instI [OF p])
      show "boundary ?c t" if j: "jumpish (?c ! p)" "jump_dest ?c (p + isize (?c ! p)) = Inr t" for t
        using good_instD(2) [OF gi] j jump_dest_append [OF l q(1)] q(2) code_ext_boundary [OF e] by simp
      have "known ?c ts p \<and> (\<forall>d \<in> set (table_disps ?c ts p). boundary ?c (pos_add (p + isize (?c ! p)) d))"
      proof (cases "caseish (c ! p)")
        case cs: True
        then obtain r where r: "refers c p r" using refers_exists [OF l q(1)] by blast
        with good_tablesD [OF g r] table_disps_refers [OF code_ext_refers(1) [OF e r]]
          caseish_size [OF cs] q(2) code_ext_boundary [OF e] show ?thesis by simp
      qed (use table_disps_none q(2) in auto)
      then show "known ?c ts p"
        "d \<in> set (table_disps ?c ts p) \<Longrightarrow> boundary ?c (pos_add (p + isize (?c ! p)) d)" for d by auto
    qed
  qed
  moreover have "p = q" if r: "refers ?c p r" "refers ?c q r" for p q r
  proof -
    have pq: "opens c p \<or> p = length c" "opens c q \<or> q = length c" using r o by (auto simp: refers_def)
    have b: "opens c x \<Longrightarrow> refers ?c x r \<Longrightarrow> refers c x r" for x
      using code_ext_refers(2) [OF e l, of x r] by (auto simp: opens_def)
    show ?thesis using pq b r tab [of r] g unfolding good_code_def by metis
  qed
  ultimately show ?thesis using opens_append(2) [OF l i] by (auto simp: good_code_def)
qed

section \<open>Patching\<close>

text \<open>The end of an instruction whose last four bytes are a displacement.\<close>

definition slot :: "code \<Rightarrow> nat \<Rightarrow> bool" where
  "slot c src \<longleftrightarrow> (\<exists>q. opens c q \<and> jumpish (c ! q) \<and> src = q + isize (c ! q))"

lemma code_ext_slot: "code_ext c c' \<Longrightarrow> slot c src \<Longrightarrow> slot c' src"
  using code_ext_opens unfolding slot_def by metis

lemma patch_good:
  assumes g: "good_code c ts" and s: "slot c src" and d: "boundary c dest" and len: "length c < 2 ^ 31"
    and w: "write_disp src dest c = Inr c'"
  shows "good_code c' ts" "code_ext c c'" "length c' = length c"
proof -
  have l: "laid c" using g by (simp add: good_code_def)
  obtain q where q: "opens c q" "jumpish (c ! q)" "src = q + isize (c ! q)"
    using s by (auto simp: slot_def)
  have src: "q + 5 \<le> src" "src \<le> length c" "4 \<le> src"
    using jumpish_size [OF q(2)] laid_inst [OF l q(1)] q(3) by auto
  obtain c2 where c2: "write_disp src dest c = Inr c2" "length c2 = length c"
      "\<And>i. i < src - 4 \<or> src \<le> i \<Longrightarrow> c2 ! i = c ! i"
    using write_disp_spec [OF src(3,2)] by metis
  with w show len': "length c' = length c" by simp
  from c2 w have same: "length c' = length c" "\<And>i. i < src - 4 \<or> src \<le> i \<Longrightarrow> c' ! i = c ! i" by auto
  have far: "p = q \<or> p + isize (c ! p) \<le> q \<or> src \<le> p" if "opens c p" for p
    using boundary_order [of c q p] boundary_order [of c p q] that q by (auto simp: opens_def)
  have op: "c' ! p = c ! p" if "opens c p" for p
    using far [OF that] src laid_inst(1) [OF l that] by (intro same(2)) auto
  have r32: "read32 c' (p + 1) = read32 c (p + 1)" if p: "opens c p" and cs: "caseish (c ! p)" for p
    using far [OF p] src laid_inst(2) [OF l p] caseish_size [OF cs] q(3) same(1)
    by (intro read32_agree same(2)) auto
  show e: "code_ext c c'" using same(1) op r32 by (simp add: code_ext_def)
  have l': "laid c'" using l code_ext_boundary [OF e] same(1) by (simp add: laid_def)
  have o: "opens c' p \<longleftrightarrow> opens c p" for p
    using code_ext_opens [OF e, of p] code_ext_back [OF e l, of p] same(1) by (auto simp: opens_def)
  have here: "jump_dest c' src = Inr dest"
    using boundary_le [OF l d] len by (intro jump_dest_write [OF src(3,2) len _ w]) simp
  have other: "jump_dest c' (p + isize (c ! p)) = jump_dest c (p + isize (c ! p))"
    if p: "opens c p" "jumpish (c ! p)" "p \<noteq> q" for p
    using far [OF p(1)] p(3) laid_inst(2) [OF l p(1)] jumpish_size [OF p(2)] src same(1)
    by (intro jump_dest_agree read32_agree same(2)) auto
  show "good_code c' ts"
    unfolding good_code_def
  proof (intro conjI allI impI l')
    fix p assume p': "opens c' p"
    then have p: "opens c p" using o by blast
    with g have gi: "good_inst c ts p" by (simp add: good_code_def)
    show "good_inst c' ts p"
    proof (rule good_instI [OF p'])
      show "boundary c' t" if "jumpish (c' ! p)" "jump_dest c' (p + isize (c' ! p)) = Inr t" for t
        using that op [OF p] here other [OF p] q(3) d good_instD(2) [OF gi] code_ext_boundary [OF e]
        by (cases "p = q") auto
      have "known c' ts p \<and> (\<forall>d \<in> set (table_disps c' ts p). boundary c' (pos_add (p + isize (c' ! p)) d))"
      proof (cases "caseish (c ! p)")
        case cs: True
        then obtain r where r: "refers c p r" using refers_exists [OF l p] by blast
        with good_tablesD [OF g r] table_disps_refers [OF code_ext_refers(1) [OF e r]]
          caseish_size [OF cs] op [OF p] code_ext_boundary [OF e] show ?thesis by simp
      qed (use table_disps_none op [OF p] in auto)
      then show "known c' ts p"
        "d \<in> set (table_disps c' ts p) \<Longrightarrow> boundary c' (pos_add (p + isize (c' ! p)) d)" for d by auto
    qed
  next
    have b: "refers c p r" if "refers c' p r" for p r
    proof -
      from that have "opens c' p" by (simp add: refers_def)
      then have "p < length c" using same(1) by (simp add: opens_def)
      with code_ext_refers(2) [OF e l that] show ?thesis by blast
    qed
    fix p q' r assume "refers c' p r" "refers c' q' r"
    then have "refers c p r" "refers c q' r" by (blast intro: b)+
    with g show "p = q'" unfolding good_code_def by blast
  qed
qed

section \<open>Complete code\<close>

lemma starts_opens:
  assumes "laid c" "boundary c p" "length c - p \<le> n"
  shows "\<exists>ps. starts n c p = Some ps \<and> set ps = {q. opens c q \<and> p \<le> q}"
  using assms(2,3)
proof (induction n arbitrary: p)
  case 0
  then have p: "p = length c" using boundary_le [OF assms(1), of p] by simp
  have "{q. opens c q \<and> p \<le> q} = {}" using p by (auto simp: opens_def)
  with p show ?case by simp
next
  case (Suc n)
  show ?case
  proof (cases "p < length c")
    case True
    with Suc.prems(1) have o: "opens c p" by (simp add: opens_def)
    note li = laid_inst [OF assms(1) o]
    have "length c - (p + isize (c ! p)) \<le> n" using Suc.prems(2) li(1) by linarith
    from Suc.IH [OF boundary_next [OF o] this] obtain ps where
      ps: "starts n c (p + isize (c ! p)) = Some ps"
        "set ps = {q. opens c q \<and> p + isize (c ! p) \<le> q}" by blast
    have "{q. opens c q \<and> p \<le> q} = insert p {q. opens c q \<and> p + isize (c ! p) \<le> q}"
      using o boundary_order [OF _ o] by (fastforce simp: opens_def)
    with ps li(3) True show ?thesis by simp
  next
    case False
    then have p: "p = length c" using boundary_le [OF assms(1) Suc.prems(1)] by simp
    have "{q. opens c q \<and> p \<le> q} = {}" using p by (auto simp: opens_def)
    with p show ?thesis by simp
  qed
qed

text \<open>With a return at the end, no instruction runs over it.\<close>

lemma finished_code:
  assumes g: "good_code c ts" and len: "length (gen_return c) < 2 ^ 31"
  obtains ps where "check_code (gen_return c)" "code_starts (gen_return c) = Some ps"
    "set ps = {p. boundary c p}"
    "\<And>p. p \<in> set ps \<Longrightarrow> p < length (gen_return c) \<and> known (gen_return c) ts p \<and>
      set (succs (gen_return c) ts p) \<subseteq> set ps"
proof -
  let ?c = "gen_return c"
  have l: "laid c" using g by (simp add: good_code_def)
  have sz: "isize I_RETURN = Suc (length [])" using isizes2 by (simp add: isize_def chain_sizes)
  have kinds: "\<not> jumpish I_RETURN" "\<not> caseish I_RETURN"
    "I_RETURN \<in> set (jumps @ leaving @ case_jumps)" by code_simp+
  have c: "?c = c @ I_RETURN # []" by (simp add: gen_return_def)
  note e = opens_append(1) [OF l sz, folded c]
  have l': "laid ?c" using opens_append(2) [OF l sz] c by simp
  have o: "opens ?c p \<longleftrightarrow> boundary c p" for p
    using opens_append(3) [OF l sz, of p] boundary_le [OF l, of p] l c by (auto simp: opens_def laid_def)
  obtain ps where ps: "code_starts ?c = Some ps" "set ps = {p. boundary c p}"
    using starts_opens [OF l' boundary_0, of "length ?c"] o by (auto simp: code_starts_def)
  have at: "?c ! length c = I_RETURN" by (simp add: gen_return_def)
  have cl: "known ?c ts p \<and> set (succs ?c ts p) \<subseteq> set ps" if p: "boundary c p" for p
  proof (cases "opens c p")
    case False
    with p boundary_le [OF l p] have "?c ! p = I_RETURN" using at by (auto simp: opens_def)
    with kinds table_disps_none [of ?c p ts] show ?thesis by (simp only: in_succs subset_iff) auto
  next
    case True
    with g have gi: "good_inst c ts p" by (simp add: good_code_def)
    have q: "?c ! p = c ! p" using code_ext_opens [OF e True] by simp
    have t: "known ?c ts p \<and> (\<forall>d \<in> set (table_disps ?c ts p). boundary c (pos_add (p + isize (c ! p)) d))"
    proof (cases "caseish (c ! p)")
      case cs: True
      then obtain r where r: "refers c p r" using refers_exists [OF l True] by blast
      with good_tablesD [OF g r] table_disps_refers [OF code_ext_refers(1) [OF e r]]
        caseish_size [OF cs] show ?thesis by simp
    qed (use table_disps_none [of ?c p ts] q in auto)
    have "boundary c t" if "t \<in> set (succs ?c ts p)" for t
      using that t good_instD(2) [OF gi] boundary_next [OF True]
        jump_dest_append [OF l True, of "[I_RETURN]", folded c] unfolding in_succs q by auto
    with t ps(2) show ?thesis by auto
  qed
  have "check_code ?c"
    unfolding check_code_def ps(1) option.case list_all_iff
  proof (intro conjI ballI impI len)
    fix q assume q: "q \<in> set ps" "?c ! q \<in> set jumps \<union> set cond_jumps"
    then have op: "opens ?c q" using ps(2) o by blast
    have j: "jumpish (?c ! q)" using q(2) by (auto simp: jumpish_def)
    note li = laid_inst [OF l' op]
    obtain t where t: "jump_dest ?c (q + isize (?c ! q)) = Inr t"
      using jump_dest_ok [of "q + isize (?c ! q)" ?c] li jumpish_size [OF j] by auto
    then have "t \<in> set (succs ?c ts q)" using j by (simp only: in_succs) simp
    with cl [of q] q(1) ps(2) li(3) t show "case inst_size (?c ! q) of Inl _ \<Rightarrow> False
        | Inr sz \<Rightarrow> (case jump_dest ?c (q + sz) of Inl _ \<Rightarrow> False | Inr t \<Rightarrow> t \<in> set ps)"
      by auto
  qed
  from that [OF this ps] cl ps(2) o show thesis by (auto simp: opens_def)
qed

end
