(* ===== verification/Generates.thy ===== *)
theory Generates
  imports Codegen CodeShape InterpFacts
begin

text \<open>
  What every function of src/parse/codegen.rs keeps. A judgement \<open>gens K A f R\<close> says of a step \<open>f\<close> of
  the generator that, started with good code (theory CodeShape) in which the claims \<open>A\<close> hold, it ends
  with good code in which those of \<open>R\<close> hold, and touches nothing of the codes around it; its rules
  follow the structure of the functions.
\<close>

section \<open>The state\<close>

definition tabs :: "'m mach codegen \<Rightarrow> dispatch" where
  "tabs s = (case_dispatch (globals s), case_dispatch2 (globals s))"

definition meths :: "'m mach codegen \<Rightarrow> method_info list" where
  "meths s = methods (globals s)"

definition within :: "'m mach codegen \<Rightarrow> bool" where
  "within s \<longleftrightarrow>
     length (meths s) < 2 ^ 32 \<and> length (fst (tabs s)) < 2 ^ 32 \<and> length (snd (tabs s)) < 2 ^ 32"

text \<open>No number or displacement is cut: the tables have room, and the codes are shorter than 2 GiB.\<close>

definition small :: "'m mach codegen \<Rightarrow> bool" where
  "small s \<longleftrightarrow>
     within s \<and> length (emitted s) < 2 ^ 31 \<and>
     (\<forall>i. RubyFunc i \<in> set (meths s) \<longrightarrow> length (icode i) < 2 ^ 31)"

definition grows :: "'m mach codegen \<Rightarrow> 'm mach codegen \<Rightarrow> bool" where
  "grows s s' \<longleftrightarrow>
     length (emitted s) \<le> length (emitted s') \<and> length (meths s) \<le> length (meths s') \<and>
     length (fst (tabs s)) \<le> length (fst (tabs s')) \<and>
     length (snd (tabs s)) \<le> length (snd (tabs s')) \<and>
     (within s' \<longrightarrow> prefix (meths s) (meths s'))"

lemma grows_refl [simp]: "grows s s"
  by (simp add: grows_def)

lemma grows_within: "grows s s' \<Longrightarrow> within s' \<Longrightarrow> within s"
  by (auto simp: grows_def within_def)

lemma grows_trans: "grows s s1 \<Longrightarrow> grows s1 s' \<Longrightarrow> grows s s'"
  using grows_within [of s1 s'] by (auto simp: grows_def intro: prefix_order.trans)

lemma grows_small: "grows s s' \<Longrightarrow> small s' \<Longrightarrow> small s"
  using grows_within [of s s'] unfolding small_def grows_def
  by (auto dest!: set_mono_prefix)

text \<open>The positions are starts of instructions: the code parses to its end, through all of them.\<close>

definition on_starts :: "code \<Rightarrow> nat list \<Rightarrow> bool" where
  "on_starts c ps = (case code_starts c of None \<Rightarrow> False | Some qs \<Rightarrow> set ps \<subseteq> set qs)"

text \<open>The finished code of a method, with its references to tables among \<open>P\<close>.\<close>

definition sound_iseq :: "(table_ref \<Rightarrow> bool) \<Rightarrow> dispatch \<Rightarrow> iseq_info \<Rightarrow> bool" where
  "sound_iseq P ts i \<longleftrightarrow>
     (\<exists>ps. 0 \<in> set ps \<and> (closed_code (icode i) ts ps \<and> on_starts (icode i) ps) \<and>
        (\<forall>e \<in> set (exception_table i). {ex_start e, ex_end e, ex_dest e} \<subseteq> set ps) \<and>
        (\<forall>p \<in> set ps. \<forall>w. caseish (icode i ! p) \<longrightarrow> read32 (icode i) (p + 1) = Inr w \<longrightarrow>
           P (icode i ! p, unat w)))"

definition since :: "nat \<times> nat \<Rightarrow> table_ref \<Rightarrow> bool" where
  "since n r \<longleftrightarrow> (if fst r = I_OPT_CASE then fst n else snd n) \<le> snd r"

definition sound_method :: "(table_ref \<Rightarrow> bool) \<Rightarrow> dispatch \<Rightarrow> method_info \<Rightarrow> bool" where
  "sound_method P ts m \<longleftrightarrow> (\<exists>i. m = RubyFunc i \<and> sound_iseq P ts i)"

text \<open>The loops of the code being emitted: those after the last \<open>Top\<close>.\<close>

definition open_loops :: "loop_info list \<Rightarrow> loop_info list" where
  "open_loops ls = takeWhile (\<lambda>l. l_state l = LoopState) (rev ls)"

definition loops_ext :: "loop_info list \<Rightarrow> loop_info list \<Rightarrow> bool" where
  "loops_ext ls ls' \<longleftrightarrow>
     ls' = ls \<or>
     ls \<noteq> [] \<and> ls' \<noteq> [] \<and> butlast ls' = butlast ls \<and> l_state (last ls') = l_state (last ls)"

definition sound_loops :: "bool \<Rightarrow> loop_info list \<Rightarrow> code \<Rightarrow> bool" where
  "sound_loops il ls c \<longleftrightarrow>
     (\<forall>l \<in> set (open_loops ls). \<forall>e \<in> set (l_escape l). slot c (fst e)) \<and>
     (\<not> il \<longrightarrow> open_loops ls = [])"

definition sound_context :: "gen_context \<Rightarrow> code \<Rightarrow> bool" where
  "sound_context k c \<longleftrightarrow>
     (\<forall>d \<in> set (gc_jump_dest k). \<forall>p \<in> set (return_entries d @ mreturn_entries d). slot c p) \<and>
     (\<forall>e \<in> set (gc_exceptions k). \<forall>p \<in> {ex_start e, ex_end e, ex_dest e}. boundary c p)"

text \<open>Of the code being emitted: the methods and the tables there were when it was begun, and
  whether it is inside a loop.\<close>

type_synonym frame = "nat \<times> (nat \<times> nat) \<times> bool"

definition sound :: "frame \<Rightarrow> 'm mach codegen \<Rightarrow> bool" where
  "sound K s \<longleftrightarrow>
     (case K of (m0, n, il) \<Rightarrow>
        good_code (emitted s) (tabs s) \<and>
        fst n \<le> length (fst (tabs s)) \<and> snd n \<le> length (snd (tabs s)) \<and>
        (\<forall>p r. refers (emitted s) p r \<longrightarrow> since n r) \<and>
        m0 \<le> length (meths s) \<and>
        (\<forall>j. m0 \<le> j \<longrightarrow> j < length (meths s) \<longrightarrow>
           sound_method (\<lambda>r. since n r \<and> (\<forall>p. \<not> refers (emitted s) p r)) (tabs s) (meths s ! j)) \<and>
        sound_loops il (loop_stack s) (emitted s) \<and>
        context_stack s \<noteq> [] \<and> sound_context (last (context_stack s)) (emitted s))"

definition continues :: "frame \<Rightarrow> 'm mach codegen \<Rightarrow> 'm mach codegen \<Rightarrow> bool" where
  "continues K s s' \<longleftrightarrow>
     (case K of (m0, n, il) \<Rightarrow>
        code_ext (emitted s) (emitted s') \<and>
        take (fst n) (fst (tabs s')) = take (fst n) (fst (tabs s)) \<and>
        take (snd n) (snd (tabs s')) = take (snd n) (snd (tabs s)) \<and>
        loops_ext (loop_stack s) (loop_stack s') \<and>
        butlast (context_stack s') = butlast (context_stack s))"

section \<open>The judgement\<close>

datatype claim = Slot nat | Bound nat | CaseAt u8 u32 nat

fun holds :: "code \<Rightarrow> claim \<Rightarrow> bool" where
  "holds c (Slot p) = slot c p"
| "holds c (Bound p) = boundary c p"
| "holds c (CaseAt i k start) = (slot c start \<and> (\<exists>p. refers c p (i, unat k) \<and> start = p + 9))"

definition gens :: "frame \<Rightarrow> claim set \<Rightarrow> ('m, 'a) cgeff \<Rightarrow> ('a \<Rightarrow> claim set) \<Rightarrow> bool" where
  "gens K A f R \<longleftrightarrow>
     (\<forall>s s' x. f s = (s', Inr x) \<longrightarrow>
        grows s s' \<and>
        (small s' \<longrightarrow> sound K s \<longrightarrow> (\<forall>a \<in> A. holds (emitted s) a) \<longrightarrow>
           sound K s' \<and> continues K s s' \<and> (\<forall>a \<in> R x. holds (emitted s') a)))"

named_theorems generating \<open>rules of the judgement of the generator\<close>

lemma holds_ext: "code_ext c c' \<Longrightarrow> holds c a \<Longrightarrow> holds c' a"
  using code_ext_refers(1) [of c c'] by (cases a) (auto intro: code_ext_slot code_ext_boundary)

lemma loops_ext_trans: "loops_ext a b \<Longrightarrow> loops_ext b c \<Longrightarrow> loops_ext a c"
  by (auto simp: loops_ext_def)

lemma continues_refl [simp]: "continues K s s"
  by (simp add: continues_def loops_ext_def split: prod.split)

lemma continues_trans: "continues K s s1 \<Longrightarrow> continues K s1 s' \<Longrightarrow> continues K s s'"
  by (cases K) (auto simp: continues_def intro: code_ext_trans loops_ext_trans)

lemma continues_holds: "continues K s s' \<Longrightarrow> holds (emitted s) a \<Longrightarrow> holds (emitted s') a"
  by (cases K) (auto simp: continues_def intro: holds_ext)

lemma gensD:
  assumes "gens K A f R" "f s = (s', Inr x)"
  shows "grows s s'"
    "small s' \<Longrightarrow> sound K s \<Longrightarrow> (\<And>a. a \<in> A \<Longrightarrow> holds (emitted s) a) \<Longrightarrow>
       sound K s' \<and> continues K s s' \<and> (\<forall>a \<in> R x. holds (emitted s') a)"
  using assms unfolding gens_def by blast+

lemma gens_bind [generating]:
  fixes f :: "('m, 'a) cgeff"
  assumes f: "gens K A f R" and g: "\<And>x. gens K (A \<union> R x) (g x) R'"
  shows "gens K A (bind f g) R'"
  unfolding gens_def
proof (intro allI impI)
  fix s s' :: "'m mach codegen" and y
  assume "bind f g s = (s', Inr y)"
  then obtain s1 x where r: "f s = (s1, Inr x)" "g x s1 = (s', Inr y)" by (auto simp: bind_ok_iff)
  have gr: "grows s s1" "grows s1 s'" using gensD(1) [OF f r(1)] gensD(1) [OF g r(2)] by auto
  show "grows s s' \<and> (small s' \<longrightarrow> sound K s \<longrightarrow> (\<forall>a \<in> A. holds (emitted s) a) \<longrightarrow>
      sound K s' \<and> continues K s s' \<and> (\<forall>a \<in> R' y. holds (emitted s') a))"
  proof (intro conjI impI)
    show "grows s s'" using gr by (rule grows_trans)
    assume h: "small s'" "sound K s" "\<forall>a \<in> A. holds (emitted s) a"
    have 1: "sound K s1 \<and> continues K s s1 \<and> (\<forall>a \<in> R x. holds (emitted s1) a)"
      using h by (intro gensD(2) [OF f r(1)] grows_small [OF gr(2)]) auto
    then have "holds (emitted s1) a" if "a \<in> A \<union> R x" for a
      using that h(3) continues_holds by blast
    with 1 gensD(2) [OF g r(2) h(1)] have
      2: "sound K s' \<and> continues K s1 s' \<and> (\<forall>a \<in> R' y. holds (emitted s') a)" by blast
    with 1 show "sound K s'" "continues K s s'" "\<forall>a \<in> R' y. holds (emitted s') a"
      by (auto intro: continues_trans)
  qed
qed

lemma gens_weaken:
  assumes "gens K B f Q" "B \<subseteq> A" "\<And>x. R x \<subseteq> A \<union> Q x"
  shows "gens K A f R"
  unfolding gens_def
proof (intro allI impI)
  fix s s' x
  assume r: "f s = (s', Inr x)"
  note d = gensD [OF assms(1) r]
  have "sound K s' \<and> continues K s s' \<and> (\<forall>a \<in> R x. holds (emitted s') a)"
    if h: "small s'" "sound K s" "\<forall>a \<in> A. holds (emitted s) a"
  proof -
    have o: "sound K s' \<and> continues K s s' \<and> (\<forall>a \<in> Q x. holds (emitted s') a)"
      using h assms(2) by (intro d(2)) auto
    have "holds (emitted s') a" if "a \<in> R x" for a
      using that assms(3) [of x] o h(3) continues_holds [of K s s' a] by blast
    with o show ?thesis by blast
  qed
  with d(1) show "grows s s' \<and> (small s' \<longrightarrow> sound K s \<longrightarrow> (\<forall>a \<in> A. holds (emitted s) a) \<longrightarrow>
      sound K s' \<and> continues K s s' \<and> (\<forall>a \<in> R x. holds (emitted s') a))"
    by blast
qed

lemma gens_ret [generating]: "R x \<subseteq> A \<Longrightarrow> gens K A (ret x) R"
  by (auto simp: gens_def)

lemma gens_asks: "(\<And>s x. f s = Inr x \<Longrightarrow> R x \<subseteq> A) \<Longrightarrow> gens K A (asks f) R"
  by (auto simp: gens_def)

lemma gens_raise [generating]: "gens K A (raise e) R"
  by (simp add: gens_def)

lemma gens_if [generating]:
  "(b \<Longrightarrow> gens K A f R) \<Longrightarrow> (\<not> b \<Longrightarrow> gens K A g R) \<Longrightarrow> gens K A (if b then f else g) R"
  by simp

lemma gens_option [generating]:
  "gens K A f R \<Longrightarrow> (\<And>x. gens K A (g x) R) \<Longrightarrow>
   gens K A (case u of None \<Rightarrow> f | Some x \<Rightarrow> g x) R"
  by (cases u) simp_all

lemma gens_prod [generating]:
  "(\<And>x y. p = (x, y) \<Longrightarrow> gens K A (f x y) R) \<Longrightarrow> gens K A (case p of (x, y) \<Rightarrow> f x y) R"
  by (cases p) simp

lemma gens_skip [generating]: "gens K A f (\<lambda>_. {}) \<Longrightarrow> gens K A (skip_unless b f) (\<lambda>_. {})"
  by (simp add: skip_unless_def gens_ret)

lemma gens_each [generating]:
  "(\<And>x. x \<in> set xs \<Longrightarrow> gens K A (f x) (\<lambda>_. {})) \<Longrightarrow> gens K A (each f xs) (\<lambda>_. {})"
proof (induction xs)
  case (Cons x xs)
  have "gens K A (bind (f x) (\<lambda>_. each f xs)) (\<lambda>_. {})"
    by (rule gens_bind [where R = "\<lambda>_. {}"]) (use Cons in \<open>simp_all\<close>)
  then show ?case by simp
qed (simp add: gens_ret)

lemma gens_gather:
  "(\<And>x. x \<in> set xs \<Longrightarrow> gens K A (f x) R) \<Longrightarrow> gens K A (gather f xs) (\<lambda>ys. \<Union> (R ` set ys))"
proof (induction xs)
  case (Cons x xs)
  have "gens K A (bind (f x) (\<lambda>y. bind (gather f xs) (\<lambda>ys. ret (y # ys)))) (\<lambda>ys. \<Union> (R ` set ys))"
  proof (rule gens_bind)
    show "gens K A (f x) R" using Cons.prems by simp
    show "gens K (A \<union> R y) (bind (gather f xs) (\<lambda>ys. ret (y # ys))) (\<lambda>ys. \<Union> (R ` set ys))" for y
    proof (rule gens_bind)
      show "gens K (A \<union> R y) (gather f xs) (\<lambda>ys. \<Union> (R ` set ys))"
        by (rule gens_weaken [OF Cons.IH]) (use Cons.prems in auto)
      show "gens K (A \<union> R y \<union> \<Union> (R ` set ys)) (ret (y # ys)) (\<lambda>ys. \<Union> (R ` set ys))" for ys
        by (rule gens_ret) auto
    qed
  qed
  then show ?case by simp
qed (simp add: gens_ret)

section \<open>Steps that emit nothing\<close>

text \<open>What soundness depends on.\<close>

definition view where
  "view s =
     (emitted s, tabs s, meths s, loop_stack s, butlast (context_stack s),
      map (\<lambda>c. (gc_jump_dest c, gc_exceptions c)) (context_stack s))"

lemma view_sound:
  assumes "view s' = view s"
  shows "sound K s' \<longleftrightarrow> sound K s" "continues K s s'" "grows s s'"
proof -
  have v: "emitted s' = emitted s" "tabs s' = tabs s" "meths s' = meths s" "loop_stack s' = loop_stack s"
    "butlast (context_stack s') = butlast (context_stack s)"
    and m: "map (\<lambda>c. (gc_jump_dest c, gc_exceptions c)) (context_stack s') =
      map (\<lambda>c. (gc_jump_dest c, gc_exceptions c)) (context_stack s)"
    using assms by (simp_all add: view_def)
  have e: "context_stack s' = [] \<longleftrightarrow> context_stack s = []"
    using arg_cong [OF m, of length] by auto
  have "sound_context (last (context_stack s')) c = sound_context (last (context_stack s)) c"
    if "context_stack s \<noteq> []" for c
  proof -
    have n: "context_stack s' \<noteq> []" using that e by blast
    note last_map [OF n, of "\<lambda>c. (gc_jump_dest c, gc_exceptions c)"]
      last_map [OF that, of "\<lambda>c. (gc_jump_dest c, gc_exceptions c)"]
    with m have "gc_jump_dest (last (context_stack s')) = gc_jump_dest (last (context_stack s)) \<and>
        gc_exceptions (last (context_stack s')) = gc_exceptions (last (context_stack s))"
      by (metis prod.inject)
    then show ?thesis by (simp add: sound_context_def)
  qed
  with v e show "sound K s' \<longleftrightarrow> sound K s" by (auto simp: sound_def split: prod.split)
  show "continues K s s'" using v by (simp add: continues_def loops_ext_def split: prod.split)
  show "grows s s'" using v by (simp add: grows_def)
qed

definition neutral :: "('m, 'a) cgeff \<Rightarrow> bool" where
  "neutral f \<longleftrightarrow> (\<forall>s s' x. f s = (s', Inr x) \<longrightarrow> view s' = view s)"

lemma gens_neutral: "neutral f \<Longrightarrow> gens K A f (\<lambda>_. {})"
  using view_sound unfolding neutral_def gens_def by blast

lemma neutral_bind: "neutral f \<Longrightarrow> (\<And>x. neutral (g x)) \<Longrightarrow> neutral (bind f g)"
  unfolding neutral_def bind_ok_iff by metis

lemma neutral_basic:
  "neutral (ret x)" "neutral (asks g)" "(\<And>s. view (h s) = view s) \<Longrightarrow> neutral (modify h)"
  by (auto simp: neutral_def)

text \<open>Operations of the machine that leave its methods and dispatch tables.\<close>

definition quiet :: "('m, 'a) meff \<Rightarrow> bool" where
  "quiet f \<longleftrightarrow> keeps (\<lambda>s. (methods s, case_dispatch s, case_dispatch2 s)) f"

lemma neutral_globals: "quiet f \<Longrightarrow> neutral (on_globals f)"
  by (auto simp: neutral_def quiet_def keeps_def on_globals_def view_def tabs_def meths_def
      split: prod.splits) (metis fst_conv)+

lemma gens_globals [generating]: "quiet f \<Longrightarrow> gens K A (on_globals f) (\<lambda>_. {})"
  by (rule gens_neutral [OF neutral_globals])

lemma map_update_last:
  "xs \<noteq> [] \<Longrightarrow> g y = g (last xs) \<Longrightarrow> map g (butlast xs @ [y]) = map g xs"
  by (metis append_butlast_last_id last_map list.simps(8) list.simps(9) map_append)

lemma neutral_mod_context:
  assumes "\<And>c. gc_jump_dest (h c) = gc_jump_dest c" "\<And>c. gc_exceptions (h c) = gc_exceptions c"
  shows "neutral (mod_context h :: ('m, unit) cgeff)"
  unfolding neutral_def
proof (intro allI impI)
  fix s s' :: "'m mach codegen" and x assume r: "mod_context h s = (s', Inr x)"
  then have n: "context_stack s \<noteq> []"
    and s': "s' = s\<lparr>context_stack := butlast (context_stack s) @ [h (last (context_stack s))]\<rparr>"
    by (auto simp: mod_context_def context_last_def bind_ok_iff split: if_splits)
  have "map (\<lambda>c. (gc_jump_dest c, gc_exceptions c)) (context_stack s') =
      map (\<lambda>c. (gc_jump_dest c, gc_exceptions c)) (context_stack s)"
    unfolding s' using n assms by (simp add: map_update_last del: map_append)
  then show "view s' = view s" by (simp add: view_def s' tabs_def meths_def)
qed

lemma gens_locs [generating]:
  "gens K A (set_loc l) (\<lambda>_. {})" "gens K A (save_loc l) (\<lambda>_. {})"
  "gens K A save_cur_loc (\<lambda>_. {})"
  unfolding set_loc_def save_cur_loc_def save_loc_def cur_pos_def
  by (intro gens_neutral neutral_bind neutral_basic neutral_mod_context;
      simp add: view_def tabs_def meths_def)+

lemma gens_asks_none [generating]:
  "gens K A (asks f) (\<lambda>_. {})" "gens K A context_last (\<lambda>_. {})" "gens K A loop_last (\<lambda>_. {})"
  "gens K A (local_var v) (\<lambda>_. {})"
  unfolding context_last_def loop_last_def local_var_def by (auto intro: gens_asks)

lemma gens_local_var_or [generating]: "gens K A (local_var_or e v) (\<lambda>_. {})"
  unfolding local_var_or_def by (rule generating | simp)+

lemma gens_error [generating]: "gens K A error_syntax R"
  by (simp add: error_syntax_def gens_raise)

section \<open>Instructions\<close>

definition op_size :: "u8 \<Rightarrow> nat \<Rightarrow> bool" where
  "op_size i n \<longleftrightarrow> isize i = n \<and> \<not> jumpish i"

definition plain_code :: "(code \<Rightarrow> code) \<Rightarrow> bool" where
  "plain_code f \<longleftrightarrow> (\<exists>i ops. op_size i (Suc (length ops)) \<and> (\<forall>c. f c = c @ i # ops))"

text \<open>The invariants of the code around an instruction that was appended.\<close>

lemma sound_loops_ext: "code_ext c c' \<Longrightarrow> sound_loops il ls c \<Longrightarrow> sound_loops il ls c'"
  by (auto simp: sound_loops_def intro: code_ext_slot)

lemma sound_context_ext: "code_ext c c' \<Longrightarrow> sound_context k c \<Longrightarrow> sound_context k c'"
  by (auto simp: sound_context_def intro: code_ext_slot code_ext_boundary)

lemma sound_iseq_cong:
  assumes "sound_iseq P ts i" "\<And>r. P r \<Longrightarrow> has ts r \<Longrightarrow> caseish (fst r) \<Longrightarrow> has ts' r \<and> entry ts' r = entry ts r \<and> Q r"
  shows "sound_iseq Q ts' i"
proof -
  obtain ps where ps0: "0 \<in> set ps \<and> (closed_code (icode i) ts ps \<and> on_starts (icode i) ps) \<and>
    (\<forall>e \<in> set (exception_table i). {ex_start e, ex_end e, ex_dest e} \<subseteq> set ps) \<and>
    (\<forall>p \<in> set ps. \<forall>w. caseish (icode i ! p) \<longrightarrow> read32 (icode i) (p + 1) = Inr w \<longrightarrow>
       P (icode i ! p, unat w))"
    using assms(1) unfolding sound_iseq_def by (elim exE) (rule that)
  note ps = conjunct1 [OF ps0] conjunct1 [OF conjunct2 [OF ps0]]
    conjunct1 [OF conjunct2 [OF conjunct2 [OF ps0]]]
    conjunct2 [OF conjunct2 [OF conjunct2 [OF ps0]], rule_format]
  let ?c = "icode i"
  have same: "table_disps ?c ts' p = table_disps ?c ts p \<and> (known ?c ts p \<longrightarrow> known ?c ts' p)"
    and q: "caseish (?c ! p) \<Longrightarrow> read32 ?c (p + 1) = Inr w \<Longrightarrow> known ?c ts p \<Longrightarrow> Q (?c ! p, unat w)"
    if p: "p \<in> set ps" "known ?c ts p" for p w
  proof -
    have "table_disps ?c ts' p = table_disps ?c ts p \<and> known ?c ts' p \<and> Q (?c ! p, unat w)"
      if cs: "caseish (?c ! p)" and w: "read32 ?c (p + 1) = Inr w" for w
    proof -
      have ne: "I_OPT_CASE \<noteq> I_OPT_CASE2" by (simp add: opcode_defs)
      have i: "?c ! p = I_OPT_CASE \<or> ?c ! p = I_OPT_CASE2" using cs by (auto simp: caseish_def case_jumps_def)
      have "has ts (?c ! p, unat w)" using p(2) w i ne by (auto simp: known_def has_def)
      with assms(2) [OF ps(4) [OF p(1) cs w]] cs have
        "has ts' (?c ! p, unat w) \<and> entry ts' (?c ! p, unat w) = entry ts (?c ! p, unat w) \<and>
          Q (?c ! p, unat w)" by simp
      with w i ne show ?thesis by (auto simp: known_def has_def entry_def table_disps_def)
    qed
    note both = this
    show "table_disps ?c ts' p = table_disps ?c ts p \<and> (known ?c ts p \<longrightarrow> known ?c ts' p)"
    proof (cases "caseish (?c ! p)")
      case True
      then show ?thesis using both by (cases "read32 ?c (p + 1)") (auto simp: table_disps_def known_def)
    qed (simp add: table_disps_none)
    show "caseish (?c ! p) \<Longrightarrow> read32 ?c (p + 1) = Inr w \<Longrightarrow> known ?c ts p \<Longrightarrow> Q (?c ! p, unat w)"
      using both by blast
  qed
  have k: "known ?c ts p" if "p \<in> set ps" for p
    using ps(2) that by (auto simp: closed_code_def list_all_iff)
  have su: "succs ?c ts' p = succs ?c ts p" if "p \<in> set ps" for p
    using same [OF that k [OF that]] unfolding succs_def Let_def by (elim conjE) (simp only:)
  have "closed_code ?c ts' ps"
    unfolding closed_code_def list_all_iff
  proof (intro ballI conjI)
    fix p assume p: "p \<in> set ps"
    with ps(2) show "p < length ?c" by (simp add: closed_code_def list_all_iff)
    show "is_ok (inst_size (?c ! p))" using ps(2) p by (simp add: closed_code_def list_all_iff)
    show "known ?c ts' p" using same [OF p k [OF p]] k [OF p] by blast
    fix t assume "t \<in> set (succs ?c ts' p)"
    with ps(2) p show "t \<in> set ps" unfolding su [OF p] closed_code_def list_all_iff by blast
  qed
  with ps(1-3) q k show ?thesis unfolding sound_iseq_def by (intro exI [of _ ps] conjI ballI allI impI) auto
qed

lemma soundD:
  assumes "sound (m0, n, il) s"
  shows "good_code (emitted s) (tabs s)" "laid (emitted s)"
    "fst n \<le> length (fst (tabs s))" "snd n \<le> length (snd (tabs s))"
    "refers (emitted s) p r \<Longrightarrow> since n r" "m0 \<le> length (meths s)"
    "m0 \<le> j \<Longrightarrow> j < length (meths s) \<Longrightarrow>
      sound_method (\<lambda>r. since n r \<and> (\<forall>p. \<not> refers (emitted s) p r)) (tabs s) (meths s ! j)"
    "sound_loops il (loop_stack s) (emitted s)" "context_stack s \<noteq> []"
    "sound_context (last (context_stack s)) (emitted s)"
  using assms unfolding sound_def good_code_def prod.case by blast+

lemma sound_method_cong:
  assumes "sound_method P ts i" "\<And>r. P r \<Longrightarrow> has ts r \<Longrightarrow> caseish (fst r) \<Longrightarrow> has ts' r \<and> entry ts' r = entry ts r \<and> Q r"
  shows "sound_method Q ts' i"
  using assms sound_iseq_cong [of P ts _ ts' Q] unfolding sound_method_def by blast

lemma prefix_entry:
  assumes "prefix (fst ts) (fst ts')" "prefix (snd ts) (snd ts')" "has ts r"
  shows "has ts' r \<and> entry ts' r = entry ts r"
  using assms by (auto simp: has_def entry_def prefix_def nth_append split: if_splits)

lemma last_core:
  assumes "map (\<lambda>c. (gc_jump_dest c, gc_exceptions c)) xs = map (\<lambda>c. (gc_jump_dest c, gc_exceptions c)) ys"
  shows "xs = [] \<longleftrightarrow> ys = []" "ys \<noteq> [] \<Longrightarrow> sound_context (last xs) c = sound_context (last ys) c"
proof -
  show e: "xs = [] \<longleftrightarrow> ys = []" using arg_cong [OF assms, of length] by auto
  assume y: "ys \<noteq> []"
  then have "xs \<noteq> []" using e by blast
  note last_map [OF this, of "\<lambda>c. (gc_jump_dest c, gc_exceptions c)"]
    last_map [OF y, of "\<lambda>c. (gc_jump_dest c, gc_exceptions c)"]
  with assms have "gc_jump_dest (last xs) = gc_jump_dest (last ys) \<and>
      gc_exceptions (last xs) = gc_exceptions (last ys)" by (metis prod.inject)
  then show "sound_context (last xs) c = sound_context (last ys) c" by (simp add: sound_context_def)
qed

text \<open>The tables may have become longer with the instruction, which then may refer to a new one.\<close>

lemma sound_append:
  assumes s: "sound (m0, n, il) s" and i: "isize i = Suc (length ops)"
    and v: "view s' = (emitted s @ i # ops, ts', snd (snd (view s)))"
    and ts: "prefix (fst (tabs s)) (fst ts')" "prefix (snd (tabs s)) (snd ts')"
    and g: "good_code (emitted s @ i # ops) ts'"
    and new: "\<And>r. refers (emitted s @ i # ops) (length (emitted s)) r \<Longrightarrow> since n r \<and> \<not> has (tabs s) r"
  shows "sound (m0, n, il) s'" "continues (m0, n, il) s s'"
proof -
  let ?c = "emitted s" and ?c' = "emitted s @ i # ops"
  note d = soundD [OF s]
  have v': "emitted s' = ?c'" "tabs s' = ts'" "meths s' = meths s" "loop_stack s' = loop_stack s"
    "butlast (context_stack s') = butlast (context_stack s)"
    and m: "map (\<lambda>c. (gc_jump_dest c, gc_exceptions c)) (context_stack s') =
      map (\<lambda>c. (gc_jump_dest c, gc_exceptions c)) (context_stack s)"
    using v by (simp_all add: view_def)
  note e = opens_append(1) [OF d(2) i]
  have old: "refers ?c p r" if "refers ?c' p r" "p \<noteq> length ?c" for p r
  proof -
    have "opens ?c p" using that opens_append(3) [OF d(2) i, of p] by (auto simp: refers_def)
    then show ?thesis using code_ext_refers(2) [OF e d(2) that(1)] by (simp add: opens_def)
  qed
  have r: "since n r" if "refers ?c' p r" for p r
    using that old [OF that] d(5) [of p r] new [of r] by (cases "p = length ?c") auto
  have me: "sound_method (\<lambda>r. since n r \<and> (\<forall>p. \<not> refers ?c' p r)) ts' (meths s ! j)"
    if "m0 \<le> j" "j < length (meths s)" for j
  proof (rule sound_method_cong [OF d(7) [OF that]])
    fix r assume p: "since n r \<and> (\<forall>p. \<not> refers ?c p r)" "has (tabs s) r"
    have "\<not> refers ?c' p r" for p using old [of p r] new [of r] p by (cases "p = length ?c") auto
    with p prefix_entry [OF ts p(2)] show
      "has ts' r \<and> entry ts' r = entry (tabs s) r \<and> since n r \<and> (\<forall>p. \<not> refers ?c' p r)" by blast
  qed
  show "sound (m0, n, il) s'"
    unfolding sound_def prod.case v'
    using g ts d(3,4,6,8,9,10) r me sound_loops_ext [OF e] sound_context_ext [OF e]
      last_core [OF m] by (auto dest!: prefix_length_le)
  show "continues (m0, n, il) s s'"
    unfolding continues_def prod.case v'
    using e ts d(3,4) by (auto simp: loops_ext_def prefix_def)
qed

lemma sound_emit:
  fixes s :: "'m mach codegen"
  assumes s: "sound K s" and i: "isize i = Suc (length ops)" "\<not> caseish i"
    and dest: "\<And>t. jumpish i \<Longrightarrow>
      jump_dest (emitted s @ i # ops) (length (emitted s @ i # ops)) = Inr t \<Longrightarrow>
      boundary (emitted s @ i # ops) t"
  shows "sound K (s\<lparr>emitted := emitted s @ i # ops\<rparr>)"
    "continues K s (s\<lparr>emitted := emitted s @ i # ops\<rparr>)"
    "opens (emitted s @ i # ops) (length (emitted s))" "laid (emitted s @ i # ops)"
proof -
  let ?s = "s\<lparr>emitted := emitted s @ i # ops\<rparr>"
  obtain m0 n il where K: "K = (m0, n, il)" by (cases K) auto
  note d = soundD [OF s[unfolded K]]
  have nr: "\<not> refers (emitted s @ i # ops) (length (emitted s)) r" for r
    using i(2) by (simp add: refers_def)
  have g: "good_code (emitted s @ i # ops) (tabs s)"
    by (rule good_code_append [OF d(1) i(1)]) (use dest nr in auto)
  have v: "view ?s = (emitted s @ i # ops, tabs s, snd (snd (view s)))"
    by (simp add: view_def tabs_def meths_def)
  show "sound K ?s" "continues K s ?s"
    unfolding K
    using sound_append [OF s[unfolded K] i(1) v prefix_order.refl prefix_order.refl g] nr by blast+
  show "opens (emitted s @ i # ops) (length (emitted s))" "laid (emitted s @ i # ops)"
    using opens_append [OF d(2) i(1)] by auto
qed

lemma gensI:
  fixes f :: "('m, 'a) cgeff"
  assumes "\<And>s s' x. f s = (s', Inr x) \<Longrightarrow> grows s s'"
    "\<And>s s' x. f s = (s', Inr x) \<Longrightarrow> small s' \<Longrightarrow> sound K s \<Longrightarrow> \<forall>a \<in> A. holds (emitted s) a \<Longrightarrow>
      sound K s' \<and> continues K s s' \<and> (\<forall>a \<in> R x. holds (emitted s') a)"
  shows "gens K A f R"
  using assms unfolding gens_def by blast

lemma grows_emitted:
  fixes s :: "'m mach codegen"
  shows "length (emitted s) \<le> length c \<Longrightarrow> grows s (s\<lparr>emitted := c\<rparr>)"
  by (simp add: grows_def tabs_def meths_def)

lemma gens_plain [generating]:
  fixes f :: "code \<Rightarrow> code"
  assumes "plain_code f"
  shows "gens K A (emit f :: ('m, unit) cgeff) (\<lambda>_. {})"
proof -
  obtain i ops where i: "isize i = Suc (length ops)" "\<not> jumpish i" and f: "\<And>c. f c = c @ i # ops"
    using assms by (auto simp: plain_code_def op_size_def)
  have nc: "\<not> caseish i" using i(2) caseish_jumpish by blast
  show ?thesis
    by (rule gensI) (auto simp: emit_def f intro!: grows_emitted sound_emit i nc dest: notE [OF i(2)])
qed

text \<open>A jump to the next instruction, until it is patched.\<close>

definition forward_jump :: "(code \<Rightarrow> code \<times> nat) \<Rightarrow> bool" where
  "forward_jump f \<longleftrightarrow>
     (\<exists>i ops. isize i = Suc (length (ops @ [0, 0, 0, 0])) \<and> jumpish i \<and> \<not> caseish i \<and>
        (\<forall>c. f c = (c @ i # ops @ [0, 0, 0, 0], length (c @ i # ops @ [0, 0, 0, 0]))))"

lemma jump_dest_zero:
  assumes "length c + 4 < 2 ^ 31"
  shows "jump_dest (c @ [0, 0, 0, 0]) (length c + 4) = Inr (length c + 4)"
proof -
  have "push32 0 c = c @ [0, 0, 0, 0]" by (simp add: push32_def byte_def)
  with read_push32 [of 0 c "[]"] assms show ?thesis
    by (simp add: jump_dest_def read_disp_def pos_add_def)
qed

lemma gens_forward [generating]:
  fixes f :: "code \<Rightarrow> code \<times> nat"
  assumes "forward_jump f"
  shows "gens K A (emit_at f :: ('m, nat) cgeff) (\<lambda>src. {Slot src})"
proof -
  obtain i ops where i: "isize i = Suc (length (ops @ [0, 0, 0, 0]))" "jumpish i" "\<not> caseish i"
    and f: "\<And>c. f c = (c @ i # ops @ [0, 0, 0, 0], length (c @ i # ops @ [0, 0, 0, 0]))"
    using assms by (auto simp: forward_jump_def)
  show ?thesis
  proof (rule gensI)
    fix s s' :: "'m mach codegen" and x assume r: "emit_at f s = (s', Inr x)"
    let ?c = "emitted s @ i # ops @ [0, 0, 0, 0]"
    have s': "s' = s\<lparr>emitted := ?c\<rparr>" "x = length ?c"
      using r by (auto simp: emit_at_def emit_def f bind_def)
    show "grows s s'" unfolding s' by (rule grows_emitted) simp
    assume h: "small s'" "sound K s"
    have len: "length ?c < 2 ^ 31" using h(1) by (simp add: small_def s')
    have dest: "boundary ?c t" if "jump_dest ?c (length ?c) = Inr t" "laid ?c" for t
    proof -
      have n: "length ?c = length (emitted s @ i # ops) + 4" "?c = (emitted s @ i # ops) @ [0, 0, 0, 0]"
        by simp_all
      have "length (emitted s @ i # ops) + 4 < 2 ^ 31" using len unfolding n(1) .
      from jump_dest_zero [OF this] have "jump_dest ?c (length ?c) = Inr (length ?c)"
        unfolding n(1) [symmetric] n(2) [symmetric] .
      with that have "t = length ?c" by simp
      with that(2) show ?thesis by (simp add: laid_def)
    qed
    have l: "laid ?c"
      using opens_append(2) [OF _ i(1), of "emitted s"] h(2)
      by (cases K) (auto simp: sound_def good_code_def)
    note e = sound_emit [OF h(2) i(1,3) dest [OF _ l]]
    have "slot ?c (length ?c)"
      unfolding slot_def using e(3) i by (intro exI [of _ "length (emitted s)"]) simp
    with e s' show "sound K s' \<and> continues K s s' \<and> (\<forall>a \<in> {Slot x}. holds (emitted s') a)" by simp
  qed
qed

lemma gens_cur_pos [generating]: "gens K A cur_pos (\<lambda>p. {Bound p})"
  by (rule gensI)
    (auto simp: cur_pos_def sound_def good_code_def laid_def split: prod.splits)

lemma gens_jmp_back [generating]:
  assumes "Bound pos \<in> A"
  shows "gens K A (emit (gen_jmp_back pos) :: ('m, unit) cgeff) (\<lambda>_. {})"
proof (rule gensI)
  fix s s' :: "'m mach codegen" and x assume r: "emit (gen_jmp_back pos) s = (s', Inr x)"
  let ?w = "pos_disp (length (emitted s)) pos - 5"
  let ?ops = "[byte 0 ?w, byte 1 ?w, byte 2 ?w, byte 3 ?w]"
  let ?c = "emitted s @ I_JMP_BACK # ?ops"
  have c: "gen_jmp_back pos (emitted s) = ?c" by (simp add: gen_jmp_back_def push32_def)
  then have s': "s' = s\<lparr>emitted := ?c\<rparr>" using r by (simp add: emit_def)
  show "grows s s'" unfolding s' by (rule grows_emitted) simp
  assume h: "small s'" "sound K s" "\<forall>a \<in> A. holds (emitted s) a"
  have i: "isize I_JMP_BACK = Suc (length ?ops)" "\<not> caseish I_JMP_BACK"
    using isizes3 by (simp_all add: caseish_def case_jumps_def opcode_defs)
  have l: "laid (emitted s)" using h(2) by (cases K) (auto simp: sound_def good_code_def)
  have b: "boundary (emitted s) pos" using assms h(3) by fastforce
  have "boundary ?c t" if "jump_dest ?c (length ?c) = Inr t" for t
  proof -
    have "length (emitted s) < 2 ^ 31 - 5" using h(1) by (simp add: small_def s')
    moreover have n: "length ?c = length (emitted s) + 5" by simp
    ultimately have "t = pos"
      using gen_jmp_back_dest [of pos "emitted s" "[]"] boundary_le [OF l b] that
      unfolding c n by simp
    with b code_ext_boundary [OF opens_append(1) [OF l i(1)]] show ?thesis by simp
  qed
  from sound_emit [OF h(2) i this]
  show "sound K s' \<and> continues K s s' \<and> (\<forall>a \<in> {}. holds (emitted s') a)" by (simp add: s')
qed

section \<open>Patching\<close>

lemma sound_same_refs:
  assumes s: "sound K s" and v: "view s' = (c, tabs s, snd (snd (view s)))"
    and e: "code_ext (emitted s) c" "length c = length (emitted s)" and g: "good_code c (tabs s)"
  shows "sound K s'" "continues K s s'"
proof -
  obtain m0 n il where K: "K = (m0, n, il)" by (cases K) auto
  note d = soundD [OF s[unfolded K]]
  have v': "emitted s' = c" "tabs s' = tabs s" "meths s' = meths s" "loop_stack s' = loop_stack s"
    "butlast (context_stack s') = butlast (context_stack s)"
    and m: "map (\<lambda>c. (gc_jump_dest c, gc_exceptions c)) (context_stack s') =
      map (\<lambda>c. (gc_jump_dest c, gc_exceptions c)) (context_stack s)"
    using v by (simp_all add: view_def)
  have r: "refers c p r \<longleftrightarrow> refers (emitted s) p r" for p r
  proof
    assume a: "refers c p r"
    then have "p < length (emitted s)" using e(2) unfolding refers_def opens_def by simp
    with a show "refers (emitted s) p r" by (rule code_ext_refers(2) [OF e(1) d(2)])
  qed (rule code_ext_refers(1) [OF e(1)])
  show "sound K s'"
    unfolding K sound_def prod.case v' r
  proof (intro conjI allI impI g d(3,4,6))
    show "refers (emitted s) p r \<Longrightarrow> since n r" for p r by (rule d(5))
    show "m0 \<le> j \<Longrightarrow> j < length (meths s) \<Longrightarrow>
      sound_method (\<lambda>r. since n r \<and> (\<forall>p. \<not> refers (emitted s) p r)) (tabs s) (meths s ! j)" for j
      by (rule d(7))
    show "sound_loops il (loop_stack s) c" by (rule sound_loops_ext [OF e(1) d(8)])
    show "context_stack s' \<noteq> []" using last_core(1) [OF m] d(9) by simp
    show "sound_context (last (context_stack s')) c"
      using last_core(2) [OF m d(9)] sound_context_ext [OF e(1) d(10)] by simp
  qed
  show "continues K s s'"
    unfolding K continues_def prod.case v' using e(1) by (simp add: loops_ext_def)
qed

lemma gens_patch [generating]:
  assumes "Slot src \<in> A" "Bound dest \<in> A"
  shows "gens K A (patch src dest :: ('m, unit) cgeff) (\<lambda>_. {})"
proof (rule gensI)
  fix s s' :: "'m mach codegen" and x assume "patch src dest s = (s', Inr x)"
  then obtain c where w: "write_disp src dest (emitted s) = Inr c" and s': "s' = s\<lparr>emitted := c\<rparr>"
    by (auto simp: patch_def steps_ok_iff rbind_Inr_iff)
  have len: "length c = length (emitted s)"
    using w by (auto simp: write_disp_def set_byte_def Let_def rbind_Inr_iff split: if_splits)
  show "grows s s'" unfolding s' using len by (intro grows_emitted) simp
  assume h: "small s'" "sound K s" "\<forall>a \<in> A. holds (emitted s) a"
  obtain m0 n il where K: "K = (m0, n, il)" by (cases K) auto
  note d = soundD [OF h(2)[unfolded K]]
  have "slot (emitted s) src" "boundary (emitted s) dest" using assms h(3) by fastforce+
  note p = patch_good [OF d(1) this _ w]
  have l: "length (emitted s) < 2 ^ 31" using h(1) len by (simp add: small_def s')
  have v: "view s' = (c, tabs s, snd (snd (view s)))" by (simp add: view_def s' tabs_def meths_def)
  from sound_same_refs [OF h(2) v p(2) [OF l] len p(1) [OF l]]
  show "sound K s' \<and> continues K s s' \<and> (\<forall>a \<in> {}. holds (emitted s') a)" by simp
qed

lemma patch_here_eq: "patch_here src = bind cur_pos (patch src)"
  by (auto simp: patch_here_def patch_def cur_pos_def write_disp_from_cur_def steps_def bind_def fun_eq_iff)

lemma gens_patch_here [generating]:
  "Slot src \<in> A \<Longrightarrow> gens K A (patch_here src :: ('m, unit) cgeff) (\<lambda>_. {})"
  unfolding patch_here_eq by (rule gens_bind [OF gens_cur_pos]) (simp add: gens_patch)

lemma gens_patch_some [generating]:
  "(\<And>src. p = Some src \<Longrightarrow> Slot src \<in> A) \<Longrightarrow> gens K A (patch_some p) (\<lambda>_. {})"
  by (auto simp: patch_some_def gens_ret gens_patch_here split: option.split)

end
