(* ===== verification/GenRules.thy ===== *)
theory GenRules
  imports Generates
begin

text \<open>
  Further rules of the judgement of theory Generates: for the stacks of contexts and loops, for the
  tables of a \<open>case\<close>, and for a method, whose code is emitted into a code of its own.
\<close>

section \<open>Contexts\<close>

lemma gens_mod_context:
  fixes h :: "gen_context \<Rightarrow> gen_context"
  assumes h: "\<And>k c. sound_context k c \<Longrightarrow> \<forall>a \<in> A. holds c a \<Longrightarrow> sound_context (h k) c"
  shows "gens K A (mod_context h :: ('m, unit) cgeff) (\<lambda>_. {})"
proof (rule gensI)
  fix s s' :: "'m mach codegen" and x assume "mod_context h s = (s', Inr x)"
  then have n: "context_stack s \<noteq> []"
    and s': "s' = s\<lparr>context_stack := butlast (context_stack s) @ [h (last (context_stack s))]\<rparr>"
    by (auto simp: mod_context_def context_last_def bind_ok_iff split: if_splits)
  show "grows s s'" by (simp add: grows_def s' tabs_def meths_def)
  assume a: "sound K s" "\<forall>a \<in> A. holds (emitted s) a"
  obtain m0 n0 il where K: "K = (m0, n0, il)" by (cases K) auto
  have "sound_context (h (last (context_stack s))) (emitted s)"
    using a by (intro h) (auto simp: sound_def K)
  then have "sound K s'" using a(1) by (simp add: sound_def K s' tabs_def meths_def)
  moreover have "continues K s s'" by (simp add: continues_def loops_ext_def K s' tabs_def)
  ultimately show "sound K s' \<and> continues K s s' \<and> (\<forall>a \<in> {}. holds (emitted s') a)" by simp
qed

lemma gens_jump_dest_push [generating]: "gens K A (jump_dest_push (jump_dest_new b)) (\<lambda>_. {})"
  unfolding jump_dest_push_def
  by (rule gens_mod_context) (auto simp: sound_context_def jump_dest_new_def)

lemma gens_add_return_entry [generating]:
  assumes "Slot src \<in> A"
  shows "gens K A (mod_context (add_return_entry b src)) (\<lambda>_. {})"
proof (rule gens_mod_context)
  fix k c assume s: "sound_context k c" "\<forall>a \<in> A. holds c a"
  have sl: "slot c src" using assms s(2) by fastforce
  show "sound_context (add_return_entry b src k) c"
  proof (cases "gc_jump_dest k = []")
    case False
    let ?d = "last (gc_jump_dest k)"
    let ?d' = "if b then ?d\<lparr>mreturn_entries := mreturn_entries ?d @ [src]\<rparr>
               else ?d\<lparr>return_entries := return_entries ?d @ [src]\<rparr>"
    have r: "add_return_entry b src k = k\<lparr>gc_jump_dest := butlast (gc_jump_dest k) @ [?d']\<rparr>"
      using False by (simp add: add_return_entry_def Let_def)
    have "?d \<in> set (gc_jump_dest k)" using False by simp
    then have d: "\<forall>p \<in> set (return_entries ?d @ mreturn_entries ?d). slot c p"
      using s(1) unfolding sound_context_def by blast
    have "\<forall>p \<in> set (return_entries ?d' @ mreturn_entries ?d'). slot c p"
      using d sl by simp
    moreover have "\<forall>d \<in> set (butlast (gc_jump_dest k)).
        \<forall>p \<in> set (return_entries d @ mreturn_entries d). slot c p"
      using s(1) unfolding sound_context_def by (blast dest: in_set_butlastD)
    ultimately show ?thesis
      using s(1) unfolding r sound_context_def by (simp add: ball_Un)
  qed (use s in \<open>simp add: add_return_entry_def\<close>)
qed

lemma gens_add_exception [generating]:
  assumes "Bound a \<in> A" "Bound b \<in> A" "\<And>d. dest = Some d \<Longrightarrow> Bound d \<in> A"
  shows "gens K A (add_exception a b dest) (\<lambda>_. {})"
proof (cases dest)
  case None
  then show ?thesis by (simp add: add_exception_def gens_ret)
next
  case (Some d)
  show ?thesis
    unfolding add_exception_def Some option.case
  proof (rule gens_mod_context)
    fix k c assume s: "sound_context k c" "\<forall>a \<in> A. holds c a"
    have "boundary c a" "boundary c b" "boundary c d" using assms s(2) Some by fastforce+
    with s(1) show "sound_context
        (k\<lparr>gc_exceptions := gc_exceptions k @ [\<lparr>ex_start = a, ex_end = b, ex_dest = d\<rparr>]\<rparr>) c"
      by (auto simp: sound_context_def)
  qed
qed

lemma gens_jump_dest_pop [generating]:
  "gens K A (jump_dest_pop :: ('m, local_jump_dest) cgeff)
     (\<lambda>d. Slot ` set (return_entries d @ mreturn_entries d))"
proof (rule gensI)
  fix s s' :: "'m mach codegen" and d assume "jump_dest_pop s = (s', Inr d)"
  then have c: "context_stack s \<noteq> []" "gc_jump_dest (last (context_stack s)) \<noteq> []"
    and d: "d = last (gc_jump_dest (last (context_stack s)))"
    and r: "mod_context (\<lambda>c. c\<lparr>gc_jump_dest := butlast (gc_jump_dest c)\<rparr>) s = (s', Inr ())"
    by (auto simp: jump_dest_pop_def context_last_def bind_ok_iff split: if_splits)
  have g: "gens K A (mod_context (\<lambda>c. c\<lparr>gc_jump_dest := butlast (gc_jump_dest c)\<rparr>) ::
      ('m, unit) cgeff) (\<lambda>_. {})"
    by (rule gens_mod_context) (auto simp: sound_context_def dest: in_set_butlastD)
  note k = gensD [OF g r]
  show "grows s s'" by (rule k(1))
  assume h: "small s'" "sound K s" "\<forall>a \<in> A. holds (emitted s) a"
  have "sound K s' \<and> continues K s s'" using k(2) h by blast
  moreover have "d \<in> set (gc_jump_dest (last (context_stack s)))" using c(2) d by simp
  then have "holds (emitted s) a" if "a \<in> Slot ` set (return_entries d @ mreturn_entries d)" for a
    using that h(2) by (cases K) (auto simp: sound_def sound_context_def)
  ultimately show "sound K s' \<and> continues K s s' \<and>
      (\<forall>a \<in> Slot ` set (return_entries d @ mreturn_entries d). holds (emitted s') a)"
    using continues_holds by blast
qed

section \<open>Loops\<close>

lemma open_loops_snoc:
  "open_loops (ls @ [l]) = (if l_state l = LoopState then l # open_loops ls else [])"
  by (simp add: open_loops_def)

lemma gens_add_escape [generating]:
  assumes "Slot src \<in> A"
  shows "gens K A (add_escape src k :: ('m, unit) cgeff) (\<lambda>_. {})"
proof (rule gensI)
  fix s s' :: "'m mach codegen" and x assume "add_escape src k s = (s', Inr x)"
  then obtain ls l where ls: "loop_stack s = ls @ [l]"
    and s': "s' = s\<lparr>loop_stack := ls @ [l\<lparr>l_escape := l_escape l @ [(src, k)]\<rparr>]\<rparr>"
    by (cases "loop_stack s" rule: rev_cases) (auto simp: add_escape_def loop_last_def bind_ok_iff)
  show "grows s s'" by (simp add: grows_def s' tabs_def meths_def)
  assume h: "sound K s" "\<forall>a \<in> A. holds (emitted s) a"
  obtain m0 n0 il where K: "K = (m0, n0, il)" by (cases K) auto
  have "slot (emitted s) src" using assms h(2) by fastforce
  with h(1) have "sound K s'"
    by (auto simp: sound_def K s' ls tabs_def meths_def sound_loops_def open_loops_snoc split: if_splits)
  moreover have "continues K s s'" by (simp add: continues_def loops_ext_def K s' ls tabs_def)
  ultimately show "sound K s' \<and> continues K s s' \<and> (\<forall>a \<in> {}. holds (emitted s') a)" by simp
qed

text \<open>A step inside a loop of its own.\<close>

definition scoped :: "loop_info \<Rightarrow> ('m, 'a) cgeff \<Rightarrow> ('m, 'a \<times> loop_info) cgeff" where
  "scoped l f = bind (loop_push l) (\<lambda>_. bind f (\<lambda>x. bind loop_pop (\<lambda>p. ret (x, p))))"

lemma scoped_bind:
  "bind (loop_push l) (\<lambda>_. bind f (\<lambda>x. bind loop_pop (g x))) =
     bind (scoped l f) (\<lambda>(x, p). g x p)"
  by (simp add: scoped_def bind_assoc)

lemma gens_scoped:
  fixes f :: "('m, 'a) cgeff"
  assumes f: "gens (m0, n, il') A f R"
    and new: "\<And>ls c. sound_loops il ls c \<Longrightarrow> sound_loops il' (ls @ [l]) c"
    and old: "\<And>ls p c a. l_state p = l_state l \<Longrightarrow> sound_loops il' (ls @ [p]) c \<Longrightarrow> a \<in> E p \<Longrightarrow> holds c a"
  shows "gens (m0, n, il) A (scoped l f) (\<lambda>(x, p). R x \<union> E p)"
proof (rule gensI)
  fix s s' :: "'m mach codegen" and y assume "scoped l f s = (s', Inr y)"
  then obtain x p where r: "scoped l f s = (s', Inr (x, p))" and y: "y = (x, p)" by (cases y) auto
  let ?s1 = "s\<lparr>loop_stack := loop_stack s @ [l]\<rparr>"
  obtain s2 where s2: "f ?s1 = (s2, Inr x)" "loop_stack s2 \<noteq> []" "p = last (loop_stack s2)"
      "s' = s2\<lparr>loop_stack := butlast (loop_stack s2)\<rparr>"
    using r by (auto simp: scoped_def loop_push_def loop_pop_def loop_last_def bind_ok_iff split: if_splits)
  note d = gensD [OF f s2(1)]
  show "grows s s'" using d(1) by (simp add: s2(4) grows_def within_def tabs_def meths_def)
  assume h: "small s'" "sound (m0, n, il) s" "\<forall>a \<in> A. holds (emitted s) a"
  have sl: "sound_loops il (loop_stack s) (emitted s)" using h(2) by (simp add: sound_def)
  have "sound (m0, n, il') ?s1" using h(2) new [OF sl] by (simp add: sound_def tabs_def meths_def)
  moreover have "small s2" using h(1) by (simp add: s2(4) small_def within_def tabs_def meths_def)
  ultimately have o: "sound (m0, n, il') s2" "continues (m0, n, il') ?s1 s2"
      "\<forall>a \<in> R x. holds (emitted s2) a"
    using d(2) h(3) by auto
  have c: "code_ext (emitted s) (emitted s2)" using o(2) by (simp add: continues_def)
  have l2: "loop_stack s2 = loop_stack s @ [p]" "l_state p = l_state l"
  proof -
    have b: "butlast (loop_stack s2) = loop_stack s" "l_state (last (loop_stack s2)) = l_state l"
      using o(2) by (auto simp: continues_def loops_ext_def)
    show "loop_stack s2 = loop_stack s @ [p]"
      using append_butlast_last_id [OF s2(2)] unfolding b(1) s2(3) by simp
    show "l_state p = l_state l" using b(2) s2(3) by simp
  qed
  have "sound_loops il' (loop_stack s @ [p]) (emitted s2)" using o(1) l2(1) by (simp add: sound_def)
  note e = old [OF l2(2) this]
  have "sound (m0, n, il) s'"
    using o(1) l2 sound_loops_ext [OF c sl] by (simp add: sound_def s2(4) tabs_def meths_def)
  moreover have "continues (m0, n, il) s s'"
    using o(2) l2 by (simp add: continues_def s2(4) loops_ext_def tabs_def)
  ultimately show "sound (m0, n, il) s' \<and> continues (m0, n, il) s s' \<and>
      (\<forall>a \<in> (case y of (x, p) \<Rightarrow> R x \<union> E p). holds (emitted s') a)"
    using o(3) e by (auto simp: y s2(4))
qed

lemma gens_scoped_loop:
  "gens (m0, n, True) A f R \<Longrightarrow>
   gens (m0, n, il) A (scoped loop_new_loop f)
     (\<lambda>(x, l). R x \<union> (\<lambda>e. Slot (fst e)) ` set (l_escape l))"
  by (erule gens_scoped) (auto simp: sound_loops_def open_loops_snoc loop_new_loop_def)

lemma gens_scoped_top:
  "gens (m0, n, False) A f R \<Longrightarrow> gens (m0, n, il) A (scoped loop_new_top f) (\<lambda>(x, l). R x \<union> {})"
  by (erule gens_scoped) (auto simp: sound_loops_def open_loops_snoc loop_new_top_def)

section \<open>Tables of a case\<close>

text \<open>A table of the current code changes, and leads to boundaries as before.\<close>

lemma sound_table:
  assumes s: "sound (m0, n, il) s" and r: "refers (emitted s) p r"
    and v: "view s' = (emitted s, ts', snd (snd (view s)))"
    and ts: "length (fst ts') = length (fst (tabs s))" "length (snd ts') = length (snd (tabs s))"
    and others: "\<And>r'. r' \<noteq> r \<Longrightarrow> caseish (fst r') \<Longrightarrow> entry ts' r' = entry (tabs s) r'"
    and old: "take (fst n) (fst ts') = take (fst n) (fst (tabs s))"
      "take (snd n) (snd ts') = take (snd n) (snd (tabs s))"
    and to: "\<And>d. d \<in> set (entry ts' r) \<Longrightarrow> boundary (emitted s) (pos_add (p + 9) d)"
  shows "sound (m0, n, il) s'" "continues (m0, n, il) s s'"
proof -
  note d = soundD [OF s]
  have v': "emitted s' = emitted s" "tabs s' = ts'" "meths s' = meths s" "loop_stack s' = loop_stack s"
    "butlast (context_stack s') = butlast (context_stack s)"
    and m: "map (\<lambda>c. (gc_jump_dest c, gc_exceptions c)) (context_stack s') =
      map (\<lambda>c. (gc_jump_dest c, gc_exceptions c)) (context_stack s)"
    using v by (simp_all add: view_def)
  have h: "has ts' r' \<longleftrightarrow> has (tabs s) r'" for r' by (simp add: has_def ts)
  have g: "good_code (emitted s) ts'"
  proof (rule good_code_tables [OF d(1)])
    fix q r' assume q: "refers (emitted s) q r'"
    have "boundary (emitted s) (pos_add (q + 9) e)" if e: "e \<in> set (entry ts' r')" for e
    proof (cases "r' = r")
      case True
      then have "q = p" using q r d(1) unfolding good_code_def by blast
      with to e True show ?thesis by simp
    next
      case False
      have "caseish (fst r')" using q by (auto simp: refers_def)
      with others [OF False] e good_tablesD(2) [OF d(1) q] show ?thesis by simp
    qed
    with good_tablesD(1) [OF d(1) q] h
    show "has ts' r' \<and> (\<forall>d \<in> set (entry ts' r'). boundary (emitted s) (pos_add (q + 9) d))" by blast
  qed
  have me: "sound_method (\<lambda>r. since n r \<and> (\<forall>p. \<not> refers (emitted s) p r)) ts' (meths s ! j)"
    if "m0 \<le> j" "j < length (meths s)" for j
  proof (rule sound_method_cong [OF d(7) [OF that]])
    fix r' assume p: "since n r' \<and> (\<forall>p. \<not> refers (emitted s) p r')" "has (tabs s) r'" "caseish (fst r')"
    then have "r' \<noteq> r" using r by blast
    with p others [of r'] h [of r'] show
      "has ts' r' \<and> entry ts' r' = entry (tabs s) r' \<and> since n r' \<and> (\<forall>p. \<not> refers (emitted s) p r')"
      by simp
  qed
  show "sound (m0, n, il) s'"
    unfolding sound_def prod.case v'
    using g d(3-6,8,9,10) me ts last_core [OF m] by auto
  show "continues (m0, n, il) s s'"
    unfolding continues_def prod.case v' using old by (simp add: loops_ext_def)
qed

text \<open>A \<open>case\<close> with a new table, which is empty.\<close>

lemma open_table:
  fixes s :: "'m mach codegen"
  assumes s: "sound K s" and i: "i = I_OPT_CASE \<or> i = I_OPT_CASE2"
    and k: "k = (if i = I_OPT_CASE then length (fst (tabs s)) else length (snd (tabs s)))" "k < 2 ^ 32"
    and c: "c = push32 0 (push32 (of_nat k) (emitted s @ [i]))" "length c < 2 ^ 31"
    and v: "view s' = (c, ts', snd (snd (view s)))"
    and ts: "prefix (fst (tabs s)) (fst ts')" "prefix (snd (tabs s)) (snd ts')"
      "has ts' (i, k)" "entry ts' (i, k) = []"
  shows "sound K s'" "continues K s s'" "holds c (CaseAt i (of_nat k) (length c))"
proof -
  obtain m0 n il where K: "K = (m0, n, il)" by (cases K) auto
  note d = soundD [OF s[unfolded K]]
  let ?w = "of_nat k :: u32"
  let ?ops = "[byte 0 ?w, byte 1 ?w, byte 2 ?w, byte 3 ?w, 0, 0, 0, 0]"
  have c': "c = emitted s @ i # ?ops" by (simp add: c(1) push32_def byte_def)
  have is': "isize i = Suc (length ?ops)" using i isizes3(17,18) by auto
  have cs: "caseish i" using i by (auto simp: caseish_def case_jumps_def)
  have w: "unat ?w = k" using k(2) by (rule unat_of_nat_32)
  have at: "c ! length (emitted s) = i" by (simp add: c')
  have "read32 c (length (emitted s) + 1) = Inr ?w"
    using read_push32 [of ?w "emitted s @ [i]" "[0, 0, 0, 0]"] by (simp add: c' push32_def)
  then have ref: "refers c (length (emitted s)) r \<longleftrightarrow> r = (i, k)" for r
    using opens_append(3) [OF d(2) is', folded c'] at cs w by (cases r) (auto simp: refers_def)
  have new: "\<not> has (tabs s) (i, k)" using k(1) i by (auto simp: has_def)
  have e: "code_ext (emitted s) c" and l: "laid c"
    using opens_append(1,2) [OF d(2) is'] unfolding c' by blast+
  have "good_code (emitted s) ts'"
  proof (rule good_code_tables [OF d(1)])
    fix p r assume "refers (emitted s) p r"
    note t = good_tablesD [OF d(1) this]
    from prefix_entry [OF ts(1,2) t(1)] t(2)
    show "has ts' r \<and> (\<forall>d \<in> set (entry ts' r). boundary (emitted s) (pos_add (p + 9) d))" by simp
  qed
  then have g: "good_code (emitted s @ i # ?ops) ts'"
  proof (rule good_code_append [OF _ is'], goal_cases)
    case (1 t)
    let ?b = "emitted s @ i # take 4 ?ops"
    have n: "length c = length ?b + 4" "c = ?b @ [0, 0, 0, 0]" by (simp_all add: c')
    have "length ?b + 4 < 2 ^ 31" using c(2) unfolding n(1) .
    from jump_dest_zero [OF this] have "jump_dest c (length c) = Inr (length c)"
      unfolding n(1) [symmetric] n(2) [symmetric] .
    with 1(2) have "t = length c" unfolding c' [symmetric] by simp
    with l show ?case by (simp add: laid_def c')
  next
    case (2 r)
    then have "r = (i, k)" using ref by (simp add: c')
    moreover have "\<not> refers (emitted s) q (i, k)" for q using good_tablesD(1) [OF d(1)] new by blast
    ultimately show ?case using ts(3,4) by simp
  qed
  have "refers c (length (emitted s)) r \<Longrightarrow> since n r \<and> \<not> has (tabs s) r" for r
    using new ref k(1) d(3,4) i by (auto simp: since_def)
  from sound_append [OF s[unfolded K] is' v[unfolded c'] ts(1,2) g this[unfolded c']]
  show "sound K s'" "continues K s s'" unfolding K by auto
  have "slot c (length c)"
    unfolding slot_def using opens_append(3) [OF d(2) is', folded c'] at caseish_jumpish [OF cs] is'
    by (intro exI [of _ "length (emitted s)"]) (simp add: c')
  with ref w show "holds c (CaseAt i (of_nat k) (length c))"
    by (auto simp: c' intro!: exI [of _ "length (emitted s)"])
qed

lemma save_loc_run:
  "save_loc l s = (s', Inr x) \<Longrightarrow> view s' = view s \<and> globals s' = globals s"
  "save_cur_loc s = (s', Inr x) \<Longrightarrow> view s' = view s \<and> globals s' = globals s"
proof -
  show a: "save_loc l s = (s', Inr x) \<Longrightarrow> view s' = view s \<and> globals s' = globals s" for l
  proof -
    assume r: "save_loc l s = (s', Inr x)"
    have "neutral (save_loc l)"
      unfolding save_loc_def cur_pos_def
      by (intro neutral_bind neutral_basic neutral_mod_context) simp_all
    with r show ?thesis
      by (auto simp: neutral_def save_loc_def mod_context_def context_last_def cur_pos_def bind_ok_iff
          split: if_splits)
  qed
  show "save_cur_loc s = (s', Inr x) \<Longrightarrow> view s' = view s \<and> globals s' = globals s"
    using a [of "cur_loc s"] by (auto simp: save_cur_loc_def bind_ok_iff)
qed

lemma case_run:
  fixes f :: "('m, u32) meff"
  assumes "bind (on_globals f) (\<lambda>i. bind save_cur_loc (\<lambda>_. bind (emit_at (h i)) (\<lambda>start. ret (i, start)))) s
      = (s', Inr y)"
  obtains gl i s2 where "f (globals s) = (gl, Inr i)" "view s2 = view (s\<lparr>globals := gl\<rparr>)"
    "globals s2 = gl" "s' = s2\<lparr>emitted := fst (h i (emitted s))\<rparr>" "y = (i, snd (h i (emitted s)))"
proof -
  from assms obtain gl i s2 where r: "f (globals s) = (gl, Inr i)"
      "save_cur_loc (s\<lparr>globals := gl\<rparr>) = (s2, Inr ())" "s' = s2\<lparr>emitted := fst (h i (emitted s2))\<rparr>"
      "y = (i, snd (h i (emitted s2)))"
    by (auto simp: on_globals_def bind_ok_iff emit_at_def emit_def split: prod.splits)
  have v: "view s2 = view (s\<lparr>globals := gl\<rparr>)" "globals s2 = gl" using save_loc_run(2) [OF r(2)] by auto
  then have "emitted s2 = emitted s" by (simp add: view_def)
  with r v that show thesis by simp
qed

lemma gens_open_case [generating]:
  "gens K A (open_case :: ('m, u32 \<times> nat) cgeff)
     (\<lambda>(i, start). {CaseAt I_OPT_CASE i start, Slot start})"
proof (rule gensI)
  fix s s' :: "'m mach codegen" and y assume r: "open_case s = (s', Inr y)"
  let ?k = "length (fst (tabs s))"
  let ?c = "push32 0 (push32 (of_nat ?k) (emitted s @ [I_OPT_CASE]))"
  let ?ts = "(fst (tabs s) @ [[]], snd (tabs s))"
  obtain gl i s2 where s2: "dispatch_new_entry (globals s) = (gl, Inr i)"
      "view s2 = view (s\<lparr>globals := gl\<rparr>)" "globals s2 = gl"
      "s' = s2\<lparr>emitted := fst (gen_opt_case i (emitted s))\<rparr>" "y = (i, snd (gen_opt_case i (emitted s)))"
    using r unfolding open_case_def by (rule case_run)
  have gl: "gl = (globals s)\<lparr>case_dispatch := case_dispatch (globals s) @ [[]]\<rparr>" "i = of_nat ?k"
    using s2(1) by (auto simp: dispatch_new_entry_def bind_ok_iff tabs_def)
  have y: "y = (of_nat ?k, length ?c)" and c: "emitted s' = ?c"
    using s2(4,5) gl by (simp_all add: gen_opt_case_def Let_def)
  have v: "view s' = (?c, ?ts, snd (snd (view s)))"
    using s2(2) c by (simp add: s2(4) view_def tabs_def meths_def gl)
  then have t: "tabs s' = ?ts" "meths s' = meths s" by (simp_all add: view_def)
  show "grows s s'" by (simp add: grows_def t c push32_def)
  assume h: "small s'" "sound K s"
  have "?k < 2 ^ 32" "length ?c < 2 ^ 31" using h(1) by (simp_all add: small_def within_def t c)
  from open_table [OF h(2) disjI1 [OF refl] _ this(1) refl this(2) v]
  show "sound K s' \<and> continues K s s' \<and>
      (\<forall>a \<in> (case y of (i, start) \<Rightarrow> {CaseAt I_OPT_CASE i start, Slot start}). holds (emitted s') a)"
    by (simp add: y c has_def entry_def)
qed

lemma gens_open_case2 [generating]:
  "gens K A (open_case2 :: ('m, u32 \<times> nat) cgeff)
     (\<lambda>(i, start). {CaseAt I_OPT_CASE2 i start, Slot start})"
proof (rule gensI)
  fix s s' :: "'m mach codegen" and y assume r: "open_case2 s = (s', Inr y)"
  let ?k = "length (snd (tabs s))"
  let ?c = "push32 0 (push32 (of_nat ?k) (emitted s @ [I_OPT_CASE2]))"
  let ?ts = "(fst (tabs s), snd (tabs s) @ [(0, 0, [])])"
  have ne: "I_OPT_CASE2 \<noteq> I_OPT_CASE" by (simp add: opcode_defs)
  obtain gl i s2 where s2: "dispatch2_new_entry (globals s) = (gl, Inr i)"
      "view s2 = view (s\<lparr>globals := gl\<rparr>)" "globals s2 = gl"
      "s' = s2\<lparr>emitted := fst (gen_opt_case2 i (emitted s))\<rparr>"
      "y = (i, snd (gen_opt_case2 i (emitted s)))"
    using r unfolding open_case2_def by (rule case_run)
  have gl: "gl = (globals s)\<lparr>case_dispatch2 := case_dispatch2 (globals s) @ [(0, 0, [])]\<rparr>"
      "i = of_nat ?k"
    using s2(1) by (auto simp: dispatch2_new_entry_def bind_ok_iff tabs_def)
  have y: "y = (of_nat ?k, length ?c)" and c: "emitted s' = ?c"
    using s2(4,5) gl by (simp_all add: gen_opt_case2_def Let_def)
  have v: "view s' = (?c, ?ts, snd (snd (view s)))"
    using s2(2) c by (simp add: s2(4) view_def tabs_def meths_def gl)
  then have t: "tabs s' = ?ts" "meths s' = meths s" by (simp_all add: view_def)
  show "grows s s'" by (simp add: grows_def t c push32_def)
  assume h: "small s'" "sound K s"
  have "?k < 2 ^ 32" "length ?c < 2 ^ 31" using h(1) by (simp_all add: small_def within_def t c)
  from open_table [OF h(2) disjI2 [OF refl] _ this(1) refl this(2) v]
  show "sound K s' \<and> continues K s s' \<and>
      (\<forall>a \<in> (case y of (i, start) \<Rightarrow> {CaseAt I_OPT_CASE2 i start, Slot start}). holds (emitted s') a)"
    by (simp add: y c has_def entry_def ne)
qed

lemma boundary_disps:
  assumes "good_code c ts" "refers c p r" "d \<in> set (entry ts r)"
  shows "boundary c (pos_add (p + 9) d)"
  using good_tablesD(2) [OF assms] .

lemma gens_dispatch_insert [generating]:
  assumes A: "CaseAt I_OPT_CASE i start \<in> A" "Bound (pos_add start (sint d)) \<in> A"
  shows "gens K A (on_globals (dispatch_insert M i v d) :: ('m, unit) cgeff) (\<lambda>_. {})"
proof (rule gensI)
  fix s s' :: "'m mach codegen" and x
  assume r: "on_globals (dispatch_insert M i v d) s = (s', Inr x)"
  let ?t = "fst (tabs s) ! unat i"
  obtain t' where t': "set (map snd t') \<subseteq> insert (sint d) (set (map snd ?t))"
    and s': "s' = s\<lparr>globals := (globals s)\<lparr>case_dispatch := (fst (tabs s))[unat i := t']\<rparr>\<rparr>"
  proof -
    have tt: "fst (tabs s) = case_dispatch (globals s)" by (simp add: tabs_def)
    obtain o' where o:
      "s' = s\<lparr>globals := (globals s)\<lparr>case_dispatch := (fst (tabs s))[unat i :=
         (case o' of Some j \<Rightarrow> if j < length ?t then ?t[j := (fst (?t ! j), sint d)] else ?t
          | None \<Rightarrow> ?t @ [(v, sint d)])]\<rparr>\<rparr>"
      using r unfolding tt
      by (auto simp: on_globals_def dispatch_insert_def bind_ok_iff index_at_def Let_def
          split: prod.splits if_splits)
    have "snd ` set (?t[j := (fst (?t ! j), sint d)]) \<subseteq> insert (sint d) (snd ` set ?t)" for j
      using set_update_subset_insert [of ?t j "(fst (?t ! j), sint d)"] by auto
    then have "set (map snd (case o' of
        Some j \<Rightarrow> if j < length ?t then ?t[j := (fst (?t ! j), sint d)] else ?t
      | None \<Rightarrow> ?t @ [(v, sint d)])) \<subseteq> insert (sint d) (set (map snd ?t))"
      by (cases o') auto
    from that [OF this o] show thesis .
  qed
  have v: "view s' = (emitted s, ((fst (tabs s))[unat i := t'], snd (tabs s)), snd (snd (view s)))"
    by (simp add: s' view_def tabs_def meths_def)
  show "grows s s'" by (simp add: grows_def s' tabs_def meths_def)
  assume h: "sound K s" "\<forall>a \<in> A. holds (emitted s) a"
  obtain m0 n il where K: "K = (m0, n, il)" by (cases K) auto
  note d = soundD [OF h(1)[unfolded K]]
  obtain p where p: "refers (emitted s) p (I_OPT_CASE, unat i)" "start = p + 9"
    using A(1) h(2) by fastforce
  have b: "boundary (emitted s) (pos_add start (sint d))" using A(2) h(2) by fastforce
  have n: "fst n \<le> unat i" "unat i < length (fst (tabs s))"
    using d(5) [OF p(1)] good_tablesD(1) [OF d(1) p(1)] by (simp_all add: since_def has_def)
  let ?ts = "((fst (tabs s))[unat i := t'], snd (tabs s))"
  have to: "boundary (emitted s) (pos_add (p + 9) e)" if e: "e \<in> set (entry ?ts (I_OPT_CASE, unat i))" for e
  proof -
    have "e = sint d \<or> e \<in> set (entry (tabs s) (I_OPT_CASE, unat i))"
      using e t' n(2) by (auto simp: entry_def)
    with b boundary_disps [OF d(1) p(1)] p(2) show ?thesis by auto
  qed
  have others: "entry ?ts r' = entry (tabs s) r'" if "r' \<noteq> (I_OPT_CASE, unat i)" for r'
    using that by (cases r') (auto simp: entry_def nth_list_update)
  have "sound (m0, n, il) s' \<and> continues (m0, n, il) s s'"
    using sound_table [OF h(1)[unfolded K] p(1) v _ _ others _ _ to] n(1) by simp
  then show "sound K s' \<and> continues K s s' \<and> (\<forall>a \<in> {}. holds (emitted s') a)" by (simp add: K)
qed

lemma gens_dispatch2_set [generating]:
  assumes A: "CaseAt I_OPT_CASE2 i start \<in> A"
    "\<And>d. d \<in> set (snd (snd t)) \<Longrightarrow> Bound (pos_add start d) \<in> A"
  shows "gens K A (on_globals (dispatch2_set i t) :: ('m, unit) cgeff) (\<lambda>_. {})"
proof (rule gensI)
  fix s s' :: "'m mach codegen" and x
  assume r: "on_globals (dispatch2_set i t) s = (s', Inr x)"
  have ne: "I_OPT_CASE2 \<noteq> I_OPT_CASE" by (simp add: opcode_defs)
  have s': "s' = s\<lparr>globals := (globals s)\<lparr>case_dispatch2 := (snd (tabs s))[unat i := t]\<rparr>\<rparr>"
    using r by (auto simp: on_globals_def dispatch2_set_def bind_ok_iff tabs_def split: prod.splits)
  have v: "view s' = (emitted s, (fst (tabs s), (snd (tabs s))[unat i := t]), snd (snd (view s)))"
    by (simp add: s' view_def tabs_def meths_def)
  show "grows s s'" by (simp add: grows_def s' tabs_def meths_def)
  assume h: "sound K s" "\<forall>a \<in> A. holds (emitted s) a"
  obtain m0 n il where K: "K = (m0, n, il)" by (cases K) auto
  note d = soundD [OF h(1)[unfolded K]]
  obtain p where p: "refers (emitted s) p (I_OPT_CASE2, unat i)" "start = p + 9"
    using A(1) h(2) by fastforce
  have n: "snd n \<le> unat i" "unat i < length (snd (tabs s))"
    using d(5) [OF p(1)] good_tablesD(1) [OF d(1) p(1)] ne by (simp_all add: since_def has_def)
  let ?ts = "(fst (tabs s), (snd (tabs s))[unat i := t])"
  have to: "boundary (emitted s) (pos_add (p + 9) e)" if e: "e \<in> set (entry ?ts (I_OPT_CASE2, unat i))" for e
  proof -
    have "e \<in> set (snd (snd t))" using e n(2) ne by (simp add: entry_def)
    with A(2) h(2) p(2) show ?thesis by fastforce
  qed
  have others: "entry ?ts r' = entry (tabs s) r'"
    if "r' \<noteq> (I_OPT_CASE2, unat i)" "caseish (fst r')" for r'
    using that by (cases r') (auto simp: entry_def nth_list_update caseish_def case_jumps_def)
  have "sound (m0, n, il) s' \<and> continues (m0, n, il) s s'"
    using sound_table [OF h(1)[unfolded K] p(1) v _ _ others _ _ to] n(1) by simp
  then show "sound K s' \<and> continues K s s' \<and> (\<forall>a \<in> {}. holds (emitted s') a)" by (simp add: K)
qed

lemma slot_le: "laid c \<Longrightarrow> slot c src \<Longrightarrow> src \<le> length c"
  using boundary_le boundary_next unfolding slot_def by blast

lemma gens_disp_from [generating]:
  assumes "Slot start \<in> A"
  shows "gens K A (disp_from start :: ('m, i32) cgeff) (\<lambda>d. {Bound (pos_add start (sint d))})"
proof (rule gensI)
  fix s s' :: "'m mach codegen" and d assume "disp_from start s = (s', Inr d)"
  then have s': "s' = s" "d = pos_disp start (length (emitted s))"
    by (auto simp: disp_from_def cur_pos_def bind_ok_iff)
  show "grows s s'" by (simp add: s')
  assume h: "small s'" "sound K s" "\<forall>a \<in> A. holds (emitted s) a"
  have l: "laid (emitted s)" using h(2) by (cases K) (auto simp: sound_def good_code_def)
  have "slot (emitted s) start" using assms h(3) by fastforce
  with slot_le [OF l] have "start \<le> length (emitted s)" by blast
  moreover have "length (emitted s) < 2 ^ 31" using h(1) by (simp add: s' small_def)
  ultimately have "pos_add start (sint d) = length (emitted s)" by (simp add: s' pos_add_disp)
  with h l show "sound K s' \<and> continues K s s' \<and>
      (\<forall>a \<in> {Bound (pos_add start (sint d))}. holds (emitted s') a)" by (simp add: s' laid_def)
qed

section \<open>Methods\<close>

lemma write_disp_length: "write_disp src dest c = Inr c' \<Longrightarrow> length c' = length c"
  by (auto simp: write_disp_def set_byte_def Let_def rbind_Inr_iff split: if_splits)

lemma fill_length: "fill n pos b c = Inr c' \<Longrightarrow> length c' = length c"
  by (induction n arbitrary: pos c) (auto simp: set_byte_def rbind_Inr_iff split: if_splits)

lemma optimize_inst_length: "optimize_inst fuel c pos i sz = Inr c' \<Longrightarrow> length c' = length c"
proof -
  have "(case k of Dest d \<Rightarrow> write_disp n d c | InstK t \<Rightarrow> fill 5 p t c) = Inr c' \<Longrightarrow> length c' = length c"
    "(case k of Dest d \<Rightarrow> write_disp n d c | InstK t \<Rightarrow> Inl Panic) = Inr c' \<Longrightarrow> length c' = length c"
    for k n p
    by (cases k; simp add: write_disp_length fill_length)+
  then show "optimize_inst fuel c pos i sz = Inr c' \<Longrightarrow> length c' = length c"
    by (auto simp: optimize_inst_def Let_def rbind_Inr_iff split: if_splits)
qed

lemma optimize_length: "optimize fuel c = Inr c' \<Longrightarrow> length c' = length c"
proof -
  have "optimize_loop fuel n c p = Inr c' \<Longrightarrow> length c' = length c" for n p
    by (induction n arbitrary: c p)
      (auto simp: Let_def rbind_Inr_iff split: if_splits dest: optimize_inst_length)
  then show "optimize fuel c = Inr c' \<Longrightarrow> length c' = length c" by (simp add: optimize_def)
qed

lemma wf_code_opcode: "wf_code c S \<Longrightarrow> p \<in> S \<Longrightarrow> is_ok (inst_size (c ! p))"
  by (auto simp: wf_code_def)

text \<open>The code of a method that was emitted from the start, returned from and optimized.\<close>

lemma optimized_sound:
  assumes g: "good_code c ts" and len: "length (gen_return c) < 2 ^ 31"
    and o: "optimize fuel (gen_return c) = Inr c'"
    and ex: "\<And>e. e \<in> set exs \<Longrightarrow> boundary c (ex_start e) \<and> boundary c (ex_end e) \<and> boundary c (ex_dest e)"
    and P: "\<And>p r. refers c p r \<Longrightarrow> P r"
    and i: "icode i = c'" "exception_table i = exs"
  shows "sound_iseq P ts i" "length c' = length (gen_return c)"
proof -
  obtain ps where ps: "check_code (gen_return c)" "code_starts (gen_return c) = Some ps"
    "set ps = {p. boundary c p}"
    "\<And>p. p \<in> set ps \<Longrightarrow> p < length (gen_return c) \<and> known (gen_return c) ts p \<and>
      set (succs (gen_return c) ts p) \<subseteq> set ps"
    using finished_code [OF g len] by metis
  have wf: "wf_code (gen_return c) (set ps)" using check_code_wf [OF ps(1,2)] .
  note of = optimize_flow [OF ps(1,2) o]
  have fl: "flow_eq (gen_return c) c' (set ps)" and wf': "wf_code c' (set ps)" using of by auto
  show n: "length c' = length (gen_return c)" using fl by (simp add: flow_eq_def)
  have size: "\<exists>sz. inst_size (gen_return c ! p) = Inr sz" if "p \<in> set ps" for p
    using wf that by (auto simp: wf_code_def)
  have cl: "closed_code (gen_return c) ts ps"
    unfolding closed_code_def list_all_iff
  proof (intro ballI)
    fix p assume p: "p \<in> set ps"
    from ps(4) [OF p] size [OF p] show "p < length (gen_return c) \<and> is_ok (inst_size (gen_return c ! p)) \<and>
      known (gen_return c) ts p \<and> (\<forall>q \<in> set (succs (gen_return c) ts p). q \<in> set ps)" by auto
  qed
  have "closed_code c' ts ps"
    unfolding closed_code_def list_all_iff
  proof (intro ballI)
    fix p assume p: "p \<in> set ps"
    then obtain sz where "inst_size (gen_return c ! p) = Inr sz" using size by blast
    from optimized_succs [OF wf' fl p cl this] ps(4) [OF p] n wf_code_opcode [OF wf' p]
    show "p < length c' \<and> is_ok (inst_size (c' ! p)) \<and> known c' ts p \<and> (\<forall>q \<in> set (succs c' ts p). q \<in> set ps)" by auto
  qed
  moreover have "on_starts c' ps"
    by (rule optimize_starts [OF ps(1,2) o]) (simp add: on_starts_def)
  moreover have "P (c' ! p, unat w)"
    if p: "p \<in> set ps" "caseish (c' ! p)" "read32 c' (p + 1) = Inr w" for p w
  proof -
    let ?g = "gen_return c"
    have l: "laid c" using g by (simp add: good_code_def)
    have kinds: "set jumps \<inter> set case_jumps = {}" "set terminators \<inter> set case_jumps = {}"
      "set cond_jumps \<inter> set case_jumps = {}" by code_simp+
    obtain sz where sz: "inst_size (?g ! p) = Inr sz" using size [OF p(1)] by blast
    have ie: "inst_eq ?g c' (set ps) p sz" using fl p(1) sz by (simp add: flow_eq_def)
    then have q: "c' ! p = ?g ! p" using p(2) kinds by (auto simp: inst_eq_def caseish_def)
    then have cs: "caseish (?g ! p)" using p(2) by simp
    have op: "opens c p"
    proof (rule ccontr)
      assume "\<not> ?thesis"
      then have "p = length c" using p(1) ps(3) boundary_le [OF l, of p] by (auto simp: opens_def)
      then have "?g ! p = I_RETURN" by (simp add: gen_return_def)
      moreover have "\<not> caseish I_RETURN" by code_simp
      ultimately show False using cs by simp
    qed
    have qc: "?g ! p = c ! p" using op by (simp add: gen_return_def opens_def nth_append)
    have sz9: "sz = 9" using sz caseish_size [OF cs] by (simp add: isize_def unwrap_or_def)
    have "?g ! p \<notin> set cond_jumps" "?g ! p \<notin> set jumps" using cs kinds by (auto simp: caseish_def)
    then have same: "\<forall>k < 9. c' ! (p + k) = ?g ! (p + k)" using ie sz9 by (simp add: inst_eq_def)
    have le: "p + 9 \<le> length c" using laid_inst(2) [OF l op] caseish_size [OF cs] qc by simp
    have "read32 c' (p + 1) = read32 ?g (p + 1)"
    proof (rule read32_agree)
      show "p + 1 + 4 \<le> length ?g" "p + 1 + 4 \<le> length c'" using le n by (simp_all add: gen_return_def)
      fix k assume "p + 1 \<le> k" "k < p + 1 + 4"
      then show "c' ! k = ?g ! k" using same [rule_format, of "k - p"] by simp
    qed
    moreover have "read32 ?g (p + 1) = read32 c (p + 1)"
      using le by (intro read32_agree) (auto simp: gen_return_def nth_append)
    ultimately have "refers c p (c' ! p, unat w)" using p(3) cs q qc op by (simp add: refers_def)
    then show ?thesis by (rule P)
  qed
  moreover have "0 \<in> set ps" using ps(3) by simp
  moreover have "\<forall>e \<in> set exs. {ex_start e, ex_end e, ex_dest e} \<subseteq> set ps" using ex ps(3) by auto
  ultimately show "sound_iseq P ts i"
    unfolding sound_iseq_def i by (intro exI [of _ ps]) blast
qed

lemma gen_iseq_run:
  fixes g :: "'m generator"
  assumes r: "gen_iseq g ps node lv u k fors s = (s', Inr i)"
  obtains s2 s3 pv code info where
    "emitted s2 = []" "context_stack s2 = context_stack s @ [gen_context_from (lc_table lv) k]"
    "loop_stack s2 = loop_stack s" "tabs s2 = tabs s" "meths s2 = meths s @ [VoidM]"
    "i = of_nat (length (meths s))" "gen_body g ps node u fors s2 = (s3, Inr pv)"
    "optimize (Suc (length (gen_return (emitted s3)))) (gen_return (emitted s3)) = Inr code"
    "icode info = code" "exception_table info = gc_exceptions (last (context_stack s3))"
    "emitted s' = emitted s" "tabs s' = tabs s3" "meths s' = (meths s3)[unat i := RubyFunc info]"
    "loop_stack s' = loop_stack s3" "context_stack s' = butlast (context_stack s3)"
proof -
  have push: "method_stack_push k j t = (t', Inr x) \<Longrightarrow> \<exists>ms. t' = t\<lparr>method_stack := ms\<rparr>" for j x and t t' :: "'m mach codegen"
    by (auto simp: method_stack_push_def skip_unless_def split: if_splits intro: exI [of _ "method_stack t"])
  have pop: "method_stack_pop k t = (t', Inr x) \<Longrightarrow> \<exists>ms. t' = t\<lparr>method_stack := ms\<rparr>" for x and t t' :: "'m mach codegen"
    by (auto simp: method_stack_pop_def skip_unless_def split: if_splits intro: exI [of _ "method_stack t"])
  let ?s0 = "s\<lparr>globals := (globals s)\<lparr>methods := methods (globals s) @ [VoidM]\<rparr>\<rparr>"
  have add: "on_globals (repo_add VoidM) s = (?s0, method_id_new (of_nat (length (methods (globals s)))))"
    by (simp add: on_globals_def repo_add_def bind_def)
  let ?info = "\<lambda>p code s3 vars. iseq_info_new i p code lv (gc_exceptions (last (context_stack s3)))
    (kind_of_iseq k) vars"
  from r obtain s1 s3 p vars code s5 where
    j: "method_id_new (of_nat (length (methods (globals s)))) = Inr i" and
    s1: "method_stack_push k i ?s0 = (s1, Inr ())" and
    s3: "gen_body g ps node u fors (s1\<lparr>emitted := [],
      context_stack := context_stack s1 @ [gen_context_from (lc_table lv) k]\<rparr>) = (s3, Inr (p, vars))" and
    c: "optimize (Suc (length (gen_return (emitted s3)))) (gen_return (emitted s3)) = Inr code" and
    s5: "method_stack_pop k (s3\<lparr>context_stack := butlast (context_stack s3),
      emitted := emitted s1, cur_loc := cur_loc s1\<rparr>) = (s5, Inr ())" and
    s6: "on_globals (method_update i (?info p code s3 vars)) s5 = (s', Inr ())"
    by (auto simp: gen_iseq_def add new_code_def emit_def optimized_def gcontext_pop_def
        context_last_def context_push_new_def bind_ok_iff set_loc_def split: if_splits)
  let ?s2 = "s1\<lparr>emitted := [], context_stack := context_stack s1 @ [gen_context_from (lc_table lv) k]\<rparr>"
  obtain ms where ms: "s1 = ?s0\<lparr>method_stack := ms\<rparr>" using push [OF s1] by blast
  obtain ms' where ms': "s5 = s3\<lparr>context_stack := butlast (context_stack s3),
      emitted := emitted s1, cur_loc := cur_loc s1, method_stack := ms'\<rparr>" using pop [OF s5] by blast
  have i: "i = of_nat (length (meths s))" using j by (simp add: method_id_new_def meths_def split: if_splits)
  obtain gl where gl: "method_update i (?info p code s3 vars) (globals s5) = (gl, Inr ())"
      "s' = s5\<lparr>globals := gl\<rparr>"
    using s6 by (auto simp: on_globals_def split: prod.splits)
  then have m: "methods gl = (methods (globals s3))[unat i := RubyFunc (?info p code s3 vars)]"
      "case_dispatch gl = case_dispatch (globals s3)" "case_dispatch2 gl = case_dispatch2 (globals s3)"
    by (auto simp: method_update_def repo_update_def repo_get_def bind_ok_iff ms')
  show thesis
    by (rule that [of ?s2 s3 "(p, vars)" code "?info p code s3 vars"])
      (use i s3 c in \<open>simp_all add: ms ms' gl(2) m tabs_def meths_def iseq_info_new_def\<close>)
qed

text \<open>The parts of the code around a method are kept; the method is sound, like those in it.\<close>

lemma gens_iseq:
  fixes g :: "'m generator"
  assumes b: "\<And>m n. gens (m, n, False) {} (gen_body g ps node u fors) (\<lambda>_. {})"
  shows "gens (m0, n, False) A (gen_iseq g ps node lv u k fors) (\<lambda>_. {})"
proof (rule gensI)
  fix s s' :: "'m mach codegen" and i assume r: "gen_iseq g ps node lv u k fors s = (s', Inr i)"
  obtain s2 s3 pv code info where
    s2: "emitted s2 = []" "context_stack s2 = context_stack s @ [gen_context_from (lc_table lv) k]"
      "loop_stack s2 = loop_stack s" "tabs s2 = tabs s" "meths s2 = meths s @ [VoidM]" and
    i: "i = of_nat (length (meths s))" and s3: "gen_body g ps node u fors s2 = (s3, Inr pv)" and
    c: "optimize (Suc (length (gen_return (emitted s3)))) (gen_return (emitted s3)) = Inr code" and
    info: "icode info = code" "exception_table info = gc_exceptions (last (context_stack s3))" and
    s': "emitted s' = emitted s" "tabs s' = tabs s3" "meths s' = (meths s3)[unat i := RubyFunc info]"
      "loop_stack s' = loop_stack s3" "context_stack s' = butlast (context_stack s3)"
    by (rule gen_iseq_run [OF r])
  let ?n = "(length (fst (tabs s)), length (snd (tabs s)))"
  let ?K = "(length (meths s2), ?n, False)"
  note d = gensD [OF b [of "length (meths s2)" ?n] s3]
  have w: "within s' \<longleftrightarrow> within s3" by (simp add: within_def s')
  have ui: "unat i = length (meths s)" if "within s'"
    using that d(1) unfolding i by (intro unat_of_nat_32) (simp add: within_def grows_def s2 s'(3))
  have pre: "prefix (meths s @ [VoidM]) (meths s3)" if "within s'"
    using d(1) that by (simp add: grows_def w s2)
  show gr: "grows s s'"
  proof -
    have "prefix (meths s) (meths s')" if "within s'"
      using pre [OF that] ui [OF that] by (auto simp: s' prefix_def list_update_append)
    with d(1) show ?thesis by (simp add: grows_def s' s2)
  qed
  assume h: "small s'" "sound (m0, n, False) s"
  have wi: "within s'" using h(1) by (simp add: small_def)
  note ui = ui [OF wi] and pre = pre [OF wi]
  then have li: "unat i < length (meths s3)" "meths s3 ! unat i = VoidM"
    by (auto simp: prefix_def nth_append)
  note ds = soundD [OF h(2)]
  have cl: "length code < 2 ^ 31"
    using h(1) li(1) info(1) set_update_memI [OF li(1), of "RubyFunc info"] by (auto simp: small_def s')
  show "sound (m0, n, False) s' \<and> continues (m0, n, False) s s' \<and> (\<forall>a \<in> {}. holds (emitted s') a)"
  proof -
    have len: "length (gen_return (emitted s3)) < 2 ^ 31" using optimize_length [OF c] cl by simp
    have sm3: "small s3"
      unfolding small_def
    proof (intro conjI allI impI)
      show "within s3" using wi w by blast
      show "length (emitted s3) < 2 ^ 31" using len by (simp add: gen_return_def)
      fix j assume "RubyFunc j \<in> set (meths s3)"
      then obtain k where k: "k < length (meths s3)" "meths s3 ! k = RubyFunc j"
        by (auto simp: in_set_conv_nth)
      with li(2) have "k \<noteq> unat i" by auto
      with k have "meths s' ! k = RubyFunc j" "k < length (meths s')" by (simp_all add: s')
      then have "RubyFunc j \<in> set (meths s')" by (metis nth_mem)
      with h(1) show "length (icode j) < 2 ^ 31" by (simp add: small_def)
    qed
    have "boundary [] (length [])" by simp
    then have "good_code [] ts" for ts by (auto simp: good_code_def laid_def opens_def refers_def)
    then have "sound ?K s2"
      using ds(3,4,8)
      by (auto simp: sound_def s2 refers_def opens_def sound_loops_def sound_context_def
          gen_context_from_def)
    with d(2) [OF sm3] have s3s: "sound ?K s3" "continues ?K s2 s3" by auto
    note d3 = soundD [OF s3s(1)]
    have tp: "prefix (fst (tabs s)) (fst (tabs s3))" "prefix (snd (tabs s)) (snd (tabs s3))"
      using s3s(2) take_is_prefix [of _ "fst (tabs s3)"] take_is_prefix [of _ "snd (tabs s3)"]
      by (simp_all add: continues_def s2) (metis)+
    have nr: "since n r \<and> (\<forall>p. \<not> refers (emitted s) p r)" if "since ?n r" for r
      using that ds(3,4) good_tablesD(1) [OF ds(1), of _ r]
      by (fastforce simp: since_def has_def split: if_splits)
    have g: "good_code (emitted s) (tabs s3)"
    proof (rule good_code_tables [OF ds(1)])
      fix p r assume "refers (emitted s) p r"
      note t = good_tablesD [OF ds(1) this]
      from prefix_entry [OF tp t(1)] t(2)
      show "has (tabs s3) r \<and> (\<forall>d \<in> set (entry (tabs s3) r). boundary (emitted s) (pos_add (p + 9) d))"
        by simp
    qed
    have me: "sound_method (\<lambda>r. since n r \<and> (\<forall>p. \<not> refers (emitted s) p r)) (tabs s3) (meths s' ! j)"
      if j: "m0 \<le> j" "j < length (meths s')" for j
    proof -
      consider "j < length (meths s)" | "j = unat i" | "length (meths s2) \<le> j" using ui s2(5) by force
      then show ?thesis
      proof cases
        case 1
        then have "meths s' ! j = meths s ! j" using pre ui by (auto simp: s' prefix_def nth_append)
        moreover have "sound_method (\<lambda>r. since n r \<and> (\<forall>p. \<not> refers (emitted s) p r)) (tabs s3) (meths s ! j)"
          by (rule sound_method_cong [OF ds(7) [OF j(1) 1]]) (use prefix_entry [OF tp] in blast)
        ultimately show ?thesis by simp
      next
        case 2
        have exs: "boundary (emitted s3) (ex_start e) \<and> boundary (emitted s3) (ex_end e) \<and>
            boundary (emitted s3) (ex_dest e)" if "e \<in> set (exception_table info)" for e
          using that d3(10) by (auto simp: info sound_context_def)
        have "sound_iseq (\<lambda>r. since n r \<and> (\<forall>p. \<not> refers (emitted s) p r)) (tabs s3) info"
          by (rule optimized_sound(1) [OF d3(1) len c exs _ info(1) refl]) (auto dest: d3(5) nr)
        with 2 li show ?thesis by (simp add: s' sound_method_def)
      next
        case 3
        have "j < length (meths s3)" "j \<noteq> unat i" using j(2) 3 ui by (simp_all add: s' s2)
        with sound_method_cong [OF d3(7) [OF 3]] nr show ?thesis by (simp add: s')
      qed
    qed
    have lo: "sound_loops False (loop_stack s3) (emitted s)" using d3(8) by (auto simp: sound_loops_def)
    have cx: "context_stack s' = context_stack s" using s3s(2) by (simp add: s' continues_def s2)
    have "sound (m0, n, False) s'"
      unfolding sound_def prod.case s'(1,2,4) cx
      using g ds(3,4,5,6,9,10) me lo prefix_length_le [OF tp(1)] prefix_length_le [OF tp(2)] gr
      by (auto simp: grows_def)
    moreover have "continues (m0, n, False) s s'"
      using s3s(2) ds(3,4) tp by (auto simp: continues_def s2 s' cx prefix_def)
    ultimately show ?thesis by simp
  qed
qed

end
