(* ===== verification/GenSteps.thy ===== *)
theory GenSteps
  imports GenRules
begin

text \<open>
  The instructions of the generator and the steps that emit a few of them keep good code.
\<close>

section \<open>Instructions\<close>

definition ops1 :: "u8 list" where
  "ops1 =
     [I_ADD, I_SUB, I_MUL, I_DIV, I_POW, I_REM, I_SHR, I_SHL, I_BOR, I_BAND, I_BXOR, I_EQ, I_NE, I_TEQ,
      I_GE, I_GT, I_LE, I_LT, I_CMP, I_BNOT, I_NOT, I_NEG, I_POP, I_GET_INDEX, I_SET_INDEX,
      I_PUSH_TRUE, I_PUSH_FALSE, I_PUSH_NIL, I_PUSH_SELF, I_CREATE_RANGE, I_CREATE_REGEXP, I_SPLAT,
      I_REP_UNINIT, I_TO_S, I_THROW, I_RETURN, I_BREAK, I_MRETURN]"

definition ops5 :: "u8 list" where
  "ops5 =
     [I_ADDI, I_SUBI, I_B_ORI, I_B_ANDI, I_EQI, I_NEI, I_GEI, I_GTI, I_LEI, I_LTI, I_DUP, I_SINKN,
      I_TOPN, I_TAKE, I_CONCAT_STRING, I_YIELD, I_SET_LOCAL, I_GET_LOCAL, I_SET_CVAR, I_GET_CVAR,
      I_GET_CONST_TOP, I_GET_SCOPE, I_SET_IDX_I, I_GET_IDX_I, I_CREATE_PROC, I_DEF_SCLASS, I_RESCUE,
      I_CHECK_GVAR, I_CHECK_IVAR, I_PUSH_SYMBOL, I_CREATE_ARRAY, I_CREATE_HASH, I_CONST_VAL,
      I_SET_CONST, I_GET_IVAR, I_SET_IVAR, I_GET_GVAR, I_SET_GVAR]"

definition ops9 :: "u8 list" where
  "ops9 =
     [I_SET_DYNLOCAL, I_GET_DYNLOCAL, I_CHECK_LOCAL, I_LVAR_ADDI, I_GET_CONST, I_FOR, I_DEF_METHOD,
      I_DEF_SMETHOD, I_IVAR_ADDI]"

lemma ops_sizes:
  "list_all (\<lambda>i. op_size i 1) ops1" "list_all (\<lambda>i. op_size i 5) ops5"
  "list_all (\<lambda>i. op_size i 9) ops9"
  "op_size I_PUSH_FIXNUM 9" "op_size I_PUSH_FLONUM 9"
  "op_size I_SEND 17" "op_size I_SEND_SELF 17" "op_size I_OPT_SEND 15" "op_size I_OPT_NSEND 15"
  "op_size I_OPT_SEND_SELF 15" "op_size I_OPT_NSEND_SELF 15" "op_size I_DEF_CLASS 10"
  by code_simp+

lemma ops_lists:
  "i \<in> set ops1 \<Longrightarrow> op_size i 1" "i \<in> set ops5 \<Longrightarrow> op_size i 5" "i \<in> set ops9 \<Longrightarrow> op_size i 9"
  using ops_sizes(1-3) by (simp_all add: list_all_iff)

lemma plain_codeI: "op_size i (Suc (length ops)) \<Longrightarrow> (\<And>c. f c = c @ i # ops) \<Longrightarrow> plain_code f"
  unfolding plain_code_def by blast

lemma op_sizeI: "op_size i n \<Longrightarrow> n = Suc (length ops) \<Longrightarrow> op_size i (Suc (length ops))"
  by simp

lemma plain_codes:
  "i \<in> set ops1 \<Longrightarrow> plain_code (inst0 i)" "i \<in> set ops5 \<Longrightarrow> plain_code (inst32 i w)"
  "i \<in> set ops9 \<Longrightarrow> plain_code (inst32_32 i v w)"
proof -
  show "i \<in> set ops1 \<Longrightarrow> plain_code (inst0 i)"
    by (rule plain_codeI [where ops = "[]", OF op_sizeI [OF ops_lists(1)]]) (simp_all add: inst0_def)
  show "i \<in> set ops5 \<Longrightarrow> plain_code (inst32 i w)"
    by (rule plain_codeI [where ops = "bytes 4 w", OF op_sizeI [OF ops_lists(2)]])
      (simp_all add: inst32_def push_bytes)
  show "i \<in> set ops9 \<Longrightarrow> plain_code (inst32_32 i v w)"
    by (rule plain_codeI [where ops = "bytes 4 v @ bytes 4 w", OF op_sizeI [OF ops_lists(3)]])
      (simp_all add: inst32_32_def push_bytes)
qed

lemma plain_sends:
  "op_size i 17 \<Longrightarrow> plain_code (send_code i m a k f b ic)"
  "op_size i 15 \<Longrightarrow> plain_code (opt_send_code i m a b ic)"
proof -
  let ?b = "bytes 4 (case b of Some m \<Rightarrow> m | None \<Rightarrow> 0)"
  have b: "push_method b c = c @ ?b" for c by (simp add: push_method_def push_bytes split: option.split)
  show "op_size i 17 \<Longrightarrow> plain_code (send_code i m a k f b ic)"
    by (rule plain_codeI [where ops = "bytes 4 m @ bytes 2 (of_nat a :: u16) @ [of_nat k, f] @ ?b @ bytes 4 ic",
          OF op_sizeI])
      (simp_all add: send_code_def b push_bytes)
  show "op_size i 15 \<Longrightarrow> plain_code (opt_send_code i m a b ic)"
    by (rule plain_codeI [where ops = "bytes 4 m @ bytes 2 (of_nat a :: u16) @ ?b @ bytes 4 ic", OF op_sizeI])
      (simp_all add: opt_send_code_def b push_bytes)
qed

lemma plain_others:
  "plain_code (def_class_code md i meth)" "plain_code (gen_fixnum v)"
  "plain_code (\<lambda>c. push64 w (c @ [I_PUSH_FLONUM]))"
proof -
  show "plain_code (def_class_code md i meth)"
    by (rule plain_codeI [where ops = "(if md then 1 else 0) # bytes 4 i @ bytes 4 meth",
          OF op_sizeI [OF ops_sizes(12)]])
      (simp_all add: def_class_code_def push_bytes)
  show "plain_code (gen_fixnum v)"
    by (rule plain_codeI [where ops = "bytes 8 v", OF op_sizeI [OF ops_sizes(4)]])
      (simp_all add: gen_fixnum_def push_bytes)
  show "plain_code (\<lambda>c. push64 w (c @ [I_PUSH_FLONUM]))"
    by (rule plain_codeI [where ops = "bytes 8 w", OF op_sizeI [OF ops_sizes(5)]])
      (simp_all add: push_bytes)
qed

lemma gens_inst [generating]:
  "i \<in> set ops1 \<Longrightarrow> gens K A (emit (inst0 i)) (\<lambda>_. {})"
  "i \<in> set ops5 \<Longrightarrow> gens K A (emit (inst32 i w)) (\<lambda>_. {})"
  "i \<in> set ops9 \<Longrightarrow> gens K A (emit (inst32_32 i v w)) (\<lambda>_. {})"
  by (auto intro: gens_plain plain_codes)

lemma gens_send_code [generating]:
  "gens K A (emit (send_code I_SEND m a k f b ic)) (\<lambda>_. {})"
  "gens K A (emit (send_code I_SEND_SELF m a k f b ic)) (\<lambda>_. {})"
  "gens K A (emit (opt_send_code (if u then I_OPT_SEND else I_OPT_NSEND) m a b ic)) (\<lambda>_. {})"
  "gens K A (emit (opt_send_code (if u then I_OPT_SEND_SELF else I_OPT_NSEND_SELF) m a b ic)) (\<lambda>_. {})"
  "gens K A (emit (def_class_code md i meth)) (\<lambda>_. {})"
  "gens K A (emit (gen_fixnum v)) (\<lambda>_. {})"
  "gens K A (emit (\<lambda>c. push64 w (c @ [I_PUSH_FLONUM]))) (\<lambda>_. {})"
  by (intro gens_plain plain_sends plain_others; simp add: ops_sizes(6-11))+

lemma gens_generators [generating]:
  "gens K A (emit gen_push_nil) (\<lambda>_. {})" "gens K A (emit gen_push_self) (\<lambda>_. {})"
  "gens K A (emit (gen_symbol i)) (\<lambda>_. {})" "gens K A (emit (gen_create_array k)) (\<lambda>_. {})"
  "gens K A (emit (gen_create_hash k)) (\<lambda>_. {})" "gens K A (emit gen_create_regexp) (\<lambda>_. {})"
  "gens K A (emit gen_set_array_elem) (\<lambda>_. {})" "gens K A (emit gen_splat) (\<lambda>_. {})"
  "gens K A (emit gen_return) (\<lambda>_. {})" "gens K A (emit gen_break) (\<lambda>_. {})"
  "gens K A (emit gen_method_return) (\<lambda>_. {})" "gens K A (emit (gen_get_instance_var i)) (\<lambda>_. {})"
  "gens K A (emit (gen_set_instance_var i)) (\<lambda>_. {})" "gens K A (emit (gen_get_global_var i)) (\<lambda>_. {})"
  "gens K A (emit (gen_set_global_var i)) (\<lambda>_. {})" "gens K A (emit (gen_set_const i)) (\<lambda>_. {})"
proof -
  have f: "gen_push_nil = inst0 I_PUSH_NIL" "gen_push_self = inst0 I_PUSH_SELF"
    "gen_symbol i = inst32 I_PUSH_SYMBOL i" "gen_create_array k = inst32 I_CREATE_ARRAY (of_nat k)"
    "gen_create_hash k = inst32 I_CREATE_HASH (of_nat k)" "gen_create_regexp = inst0 I_CREATE_REGEXP"
    "gen_set_array_elem = inst0 I_SET_INDEX" "gen_splat = inst0 I_SPLAT" "gen_return = inst0 I_RETURN"
    "gen_break = inst0 I_BREAK" "gen_method_return = inst0 I_MRETURN"
    "gen_get_instance_var i = inst32 I_GET_IVAR i" "gen_set_instance_var i = inst32 I_SET_IVAR i"
    "gen_get_global_var i = inst32 I_GET_GVAR i" "gen_set_global_var i = inst32 I_SET_GVAR i"
    "gen_set_const i = inst32 I_SET_CONST i" for i k
    by (simp_all add: fun_eq_iff inst0_def inst32_def gen_push_nil_def gen_push_self_def gen_symbol_def
        gen_create_array_def gen_create_hash_def gen_create_regexp_def gen_set_array_elem_def
        gen_splat_def gen_return_def gen_break_def gen_method_return_def gen_get_instance_var_def
        gen_set_instance_var_def gen_get_global_var_def gen_set_global_var_def gen_set_const_def)
  show "gens K A (emit gen_push_nil) (\<lambda>_. {})" "gens K A (emit gen_push_self) (\<lambda>_. {})"
    "gens K A (emit (gen_symbol i)) (\<lambda>_. {})" "gens K A (emit (gen_create_array k)) (\<lambda>_. {})"
    "gens K A (emit (gen_create_hash k)) (\<lambda>_. {})" "gens K A (emit gen_create_regexp) (\<lambda>_. {})"
    "gens K A (emit gen_set_array_elem) (\<lambda>_. {})" "gens K A (emit gen_splat) (\<lambda>_. {})"
    "gens K A (emit gen_return) (\<lambda>_. {})" "gens K A (emit gen_break) (\<lambda>_. {})"
    "gens K A (emit gen_method_return) (\<lambda>_. {})" "gens K A (emit (gen_get_instance_var i)) (\<lambda>_. {})"
    "gens K A (emit (gen_set_instance_var i)) (\<lambda>_. {})" "gens K A (emit (gen_get_global_var i)) (\<lambda>_. {})"
    "gens K A (emit (gen_set_global_var i)) (\<lambda>_. {})" "gens K A (emit (gen_set_const i)) (\<lambda>_. {})"
    unfolding f by (rule gens_inst; simp add: ops1_def ops5_def)+
qed

definition jumps5 :: "u8 list" where
  "jumps5 =
     [I_JMP, I_JMP_F, I_JMP_T, I_JMP_F_EQ, I_JMP_F_NE, I_JMP_F_GE, I_JMP_F_GT, I_JMP_F_LE, I_JMP_F_LT]"
definition jumps9 :: "u8 list" where
  "jumps9 = [I_JMP_F_EQI, I_JMP_F_NEI, I_JMP_F_GEI, I_JMP_F_GTI, I_JMP_F_LEI, I_JMP_F_LTI]"

lemma emitted_jump_sizes:
  "i \<in> set jumps5 \<Longrightarrow> isize i = 5 \<and> jumpish i \<and> \<not> caseish i"
  "i \<in> set jumps9 \<Longrightarrow> isize i = 9 \<and> jumpish i \<and> \<not> caseish i"
proof -
  have "list_all (\<lambda>i. isize i = 5 \<and> jumpish i \<and> \<not> caseish i) jumps5"
    "list_all (\<lambda>i. isize i = 9 \<and> jumpish i \<and> \<not> caseish i) jumps9"
    by code_simp+
  then show "i \<in> set jumps5 \<Longrightarrow> isize i = 5 \<and> jumpish i \<and> \<not> caseish i"
    "i \<in> set jumps9 \<Longrightarrow> isize i = 9 \<and> jumpish i \<and> \<not> caseish i"
    by (simp_all add: list_all_iff)
qed

lemma forward_jumps:
  "i \<in> set jumps5 \<Longrightarrow> forward_jump (jump_code i)"
  "i \<in> set jumps9 \<Longrightarrow> forward_jump (jump_imm_code i w)"
proof -
  show "forward_jump (jump_code i)" if "i \<in> set jumps5"
    using emitted_jump_sizes(1) [OF that] unfolding forward_jump_def
    by (intro exI [of _ i] exI [of _ "[]"]) (simp add: jump_code_def inst32_def push32_def byte_def)
  show "forward_jump (jump_imm_code i w)" if "i \<in> set jumps9"
    using emitted_jump_sizes(2) [OF that] unfolding forward_jump_def
    by (intro exI [of _ i] exI [of _ "[byte 0 w, byte 1 w, byte 2 w, byte 3 w]"])
      (simp add: jump_imm_code_def inst32_32_def push32_def byte_def Let_def)
qed

lemma gens_jumps [generating]:
  "gens K A (emit_at gen_jmp) (\<lambda>src. {Slot src})" "gens K A (emit_at gen_jmp_if_f) (\<lambda>src. {Slot src})"
  "gens K A (emit_at gen_jmp_if_t) (\<lambda>src. {Slot src})"
  "gens K A (emit_at (jump_code (cmp_inst b))) (\<lambda>src. {Slot src})"
  "gens K A (emit_at (jump_imm_code (cmp_imm_inst b) w)) (\<lambda>src. {Slot src})"
proof -
  have f: "gen_jmp = jump_code I_JMP" "gen_jmp_if_f = jump_code I_JMP_F" "gen_jmp_if_t = jump_code I_JMP_T"
    by (simp_all add: fun_eq_iff jump_code_def inst32_def gen_jmp_def gen_jmp_if_f_def gen_jmp_if_t_def)
  show "gens K A (emit_at gen_jmp) (\<lambda>src. {Slot src})" "gens K A (emit_at gen_jmp_if_f) (\<lambda>src. {Slot src})"
    "gens K A (emit_at gen_jmp_if_t) (\<lambda>src. {Slot src})"
    unfolding f by (intro gens_forward forward_jumps; simp add: jumps5_def)+
  have "cmp_inst b \<in> set jumps5" "cmp_imm_inst b \<in> set jumps9"
    by (cases b; simp add: cmp_inst_def cmp_imm_inst_def jumps5_def jumps9_def)+
  then show "gens K A (emit_at (jump_code (cmp_inst b))) (\<lambda>src. {Slot src})"
    "gens K A (emit_at (jump_imm_code (cmp_imm_inst b) w)) (\<lambda>src. {Slot src})"
    by (intro gens_forward forward_jumps; simp)+
qed

lemma gens_ivar_addi [generating]: "gens K A (emit (gen_ivar_addi i v u) :: ('m, unit) cgeff) (\<lambda>_. {})"
proof -
  have e: "(emit (gen_ivar_addi i v u) :: ('m, unit) cgeff) =
    bind (emit (inst32_32 I_IVAR_ADDI i v)) (\<lambda>_. skip_unless u (emit (gen_get_instance_var i)))"
    by (auto simp: fun_eq_iff emit_def bind_def skip_unless_def gen_ivar_addi_def inst32_32_def Let_def
        ret_def modify_def)
  have "I_IVAR_ADDI \<in> set ops9" by (simp add: ops9_def)
  from gens_bind [OF gens_inst(3) [OF this] gens_skip [OF gens_generators(12)]]
  show ?thesis unfolding e .
qed

section \<open>Steps of the machine\<close>

lemma quiet_bind: "quiet f \<Longrightarrow> (\<And>x. quiet (g x)) \<Longrightarrow> quiet (bind f g)"
  unfolding quiet_def by (rule keeps_bind)

lemma quiet_basic: "quiet (ret x)" "quiet (raise e)" "quiet (asks f)"
  unfolding quiet_def by (rule keeps_basic)+

lemma quiet_steps:
  fixes f :: "'m mach \<Rightarrow> ('m mach \<times> 'a) res"
  assumes "\<And>s s' x. f s = Inr (s', x) \<Longrightarrow> heap.more s' = heap.more s"
  shows "quiet (steps f)"
  unfolding quiet_def
proof (rule keeps_steps)
  fix s s' :: "'m mach" and x assume "f s = Inr (s', x)"
  then have e: "heap.more s' = heap.more s" by (rule assms)
  then show "(methods s', case_dispatch s', case_dispatch2 s') = (methods s, case_dispatch s, case_dispatch2 s)"
    by (cases s; cases s') simp
qed

lemma number_more:
  "integer bc alloc h i = Inr (h', v) \<Longrightarrow> heap.more h' = heap.more h"
  "float bc alloc h f = Inr (h', v) \<Longrightarrow> heap.more h' = heap.more h"
  "to_val bc alloc h r = Inr (h', v) \<Longrightarrow> heap.more h' = heap.more h"
proof -
  show i: "integer bc alloc h i = Inr (h', v) \<Longrightarrow> heap.more h' = heap.more h" for h h' :: "'h heap_scheme" and v i
    by (auto simp: integer_def Let_def rbind_Inr_iff split: if_splits dest: pack_more)
  show f: "float bc alloc h f = Inr (h', v) \<Longrightarrow> heap.more h' = heap.more h" for h h' :: "'h heap_scheme" and v f
    by (auto simp: float_def Let_def rbind_Inr_iff split: if_splits dest: pack_more)
  show "to_val bc alloc h r = Inr (h', v) \<Longrightarrow> heap.more h' = heap.more h"
    by (cases r) (auto simp: to_val_def dest: i f)
qed

lemma quiet_gather: "(\<And>x. quiet (f x)) \<Longrightarrow> quiet (gather f xs)"
  by (induction xs) (simp_all add: quiet_basic quiet_bind)

lemma quiet_new:
  "quiet (new_string M cs)" "quiet (new_hash M t)"
  "quiet (steps (\<lambda>s. integer (e_classes M) alloc s i))" "quiet (steps (\<lambda>s. float (e_classes M) alloc s f))"
  "quiet (steps (\<lambda>s. to_val (e_classes M) alloc s r))"
  "quiet (steps (\<lambda>s. complex_value (e_classes M) alloc s a b))"
  "quiet (steps (\<lambda>s. array_from (e_classes M) alloc s vs))"
  unfolding new_string_def new_hash_def complex_value_def array_from_def hash_from_def
  by (intro quiet_steps; erule pack_more number_more)+

lemma quiet_entries:
  "quiet add_const_cache_entry" "quiet ic_add_entry" "quiet (const_value_insert v)"
  unfolding quiet_def add_const_cache_entry_def ic_add_entry_def const_value_insert_def
  by (intro keeps_intros; simp)+

text \<open>What the compiler relies on for regular expressions: making one changes no table of the globals.\<close>

definition regexp_quiet :: "'m mach menv \<Rightarrow> bool" where
  "regexp_quiet M \<longleftrightarrow> (\<forall>cs. quiet (m_regexp M cs))"

lemma quiet_regexp:
  assumes "regexp_quiet M"
  shows "quiet (const_regexp M ns)"
  unfolding const_regexp_def
proof (rule quiet_bind [OF quiet_basic(3)])
  fix src
  have q: "quiet (m_regexp M src)" using assms by (simp add: regexp_quiet_def)
  show "quiet (\<lambda>s. case m_regexp M src s of (s', Inl (Raise e)) \<Rightarrow> (s', Inl (Raise (ParseErr SyntaxError)))
      | r \<Rightarrow> r)"
    unfolding quiet_def keeps_def
  proof
    fix s
    obtain s' r where r: "m_regexp M src s = (s', r)" by (cases "m_regexp M src s")
    then have "(methods s', case_dispatch s', case_dispatch2 s') = (methods s, case_dispatch s, case_dispatch2 s)"
      using q unfolding quiet_def by (rule keepsD [rotated])
    then show "(\<lambda>s. (methods s, case_dispatch s, case_dispatch2 s))
        (fst (case m_regexp M src s of (s', Inl (Raise e)) \<Rightarrow> (s', Inl (Raise (ParseErr SyntaxError)))
          | r \<Rightarrow> r)) = (methods s, case_dispatch s, case_dispatch2 s)"
      unfolding r by (auto split: sum.split fault.split)
  qed
qed

lemma quiet_const_pairs: "(\<And>n. quiet (ce n)) \<Longrightarrow> quiet (const_pairs M ce kvs t)"
  by (induction M ce kvs t rule: const_pairs.induct) (simp_all add: quiet_basic quiet_bind)

lemma quiet_const:
  assumes "\<And>n. quiet (ce n)"
  shows "quiet (const_array M ce ns)" "quiet (const_hash M ce kvs)"
  unfolding const_array_def const_hash_def
  by (intro quiet_bind quiet_gather quiet_const_pairs quiet_new assms)+

lemma quiet_const_expr: "regexp_quiet M \<Longrightarrow> quiet (const_expr M k n)"
proof (induction k arbitrary: n)
  case (Suc k)
  have const: "quiet (\<lambda>s. (s, r))" for r by (simp add: quiet_def keeps_def)
  show ?case
    using Suc by (cases "akind n") (auto simp: const quiet_basic quiet_new quiet_const quiet_regexp split: bool.split)
qed (simp add: quiet_def keeps_def)

lemma quiet_when_value: "quiet (when_value M n)"
  unfolding when_value_def by (cases "akind n") (simp_all add: quiet_basic quiet_new)

section \<open>Small steps\<close>

lemma gens_done [generating]: "gens K A (ret x) (\<lambda>_. {})"
  by (simp add: gens_ret)

lemma gens_pop_unless [generating]: "gens K A (pop_unless u) (\<lambda>_. {})"
  unfolding pop_unless_def gen_pop_def push_inst_def
  by (rule generating | simp add: ops1_def)+

lemma gens_push_inst [generating]: "i \<in> set ops1 \<Longrightarrow> gens K A (push_inst i) (\<lambda>_. {})"
  unfolding push_inst_def by (rule generating)

lemma gens_stack_steps [generating]:
  "gens K A gen_pop (\<lambda>_. {})" "gens K A (gen_dup k) (\<lambda>_. {})" "gens K A (gen_sinkn k) (\<lambda>_. {})"
  "gens K A (gen_topn k) (\<lambda>_. {})" "gens K A (gen_take k) (\<lambda>_. {})" "gens K A (gen_concat k) (\<lambda>_. {})"
  "gens K A (gen_get_array_elem l) (\<lambda>_. {})" "gens K A (gen_yield k) (\<lambda>_. {})"
  unfolding gen_pop_def gen_dup_def gen_sinkn_def gen_topn_def gen_take_def gen_concat_def
    gen_get_array_elem_def gen_yield_def
  by (rule generating | simp add: ops1_def ops5_def)+

lemma gens_locals [generating]:
  "gens K A (gen_set_local v) (\<lambda>_. {})" "gens K A (gen_get_local v) (\<lambda>_. {})"
  "gens K A (gen_check_local v) (\<lambda>_. {})" "gens K A (gen_lvar_addi v i u) (\<lambda>_. {})"
  unfolding gen_set_local_def gen_check_local_def gen_lvar_addi_def gen_get_local_def
  by (rule generating | simp add: ops5_def ops9_def)+

lemma gens_variables [generating]:
  "gens K A (gen_get_class_var i) (\<lambda>_. {})" "gens K A (gen_set_class_var i) (\<lambda>_. {})"
  "gens K A (gen_get_const i) (\<lambda>_. {})" "gens K A (gen_get_const_top i) (\<lambda>_. {})"
  "gens K A (gen_get_scope i l) (\<lambda>_. {})"
  unfolding gen_get_class_var_def gen_set_class_var_def gen_get_const_def gen_get_const_top_def
    gen_get_scope_def
  by (rule generating quiet_entries | simp add: ops5_def ops9_def)+

lemma gens_sends [generating]:
  "gens K A (gen_send m a k f b) (\<lambda>_. {})" "gens K A (gen_send_self m a k f b) (\<lambda>_. {})"
  "gens K A (gen_opt_send m a b u) (\<lambda>_. {})" "gens K A (gen_opt_send_self m a b u) (\<lambda>_. {})"
  "gens K A (gen_for m u) (\<lambda>_. {})"
  unfolding gen_send_def gen_send_self_def gen_opt_send_def gen_opt_send_self_def gen_for_def
  by (rule generating quiet_entries | simp add: ops9_def)+

lemma gens_const_code [generating]:
  "gens K A (steps (\<lambda>s. rbind (gen_const_val i (emitted s)) (\<lambda>c. Inr (s\<lparr>emitted := c\<rparr>, ()))) ::
     ('m, unit) cgeff) (\<lambda>_. {})"
proof (cases "2 ^ 32 - 1 < i")
  case True
  then show ?thesis by (simp add: gen_const_val_def gens_def steps_ok_iff)
next
  case False
  then have e: "(steps (\<lambda>s. rbind (gen_const_val i (emitted s)) (\<lambda>c. Inr (s\<lparr>emitted := c\<rparr>, ()))) ::
      ('m, unit) cgeff) = emit (inst32 I_CONST_VAL (of_nat i))"
    by (simp add: gen_const_val_def fun_eq_iff steps_def emit_def inst32_def)
  show ?thesis unfolding e by (rule gens_inst) (simp add: ops5_def)
qed

lemma gens_const_val [generating]: "quiet f \<Longrightarrow> gens K A (const_val f) (\<lambda>_. {})"
  unfolding const_val_def by (rule generating quiet_entries | assumption)+

lemma gens_values [generating]:
  "gens K A (gen_string M cs) (\<lambda>_. {})" "gens K A (gen_complex M r) (\<lambda>_. {})"
  unfolding gen_string_def gen_complex_def by (rule generating quiet_bind quiet_new)+

end
