(* ===== verification/GenCode.thy ===== *)
theory GenCode
  imports GenSteps
begin

text \<open>
  Every function of the generator keeps good code, if the recursive call does; so does \<open>gen\<close>, and
  \<open>compile\<close> produces methods whose codes are closed. One restriction is needed: a definition inside
  a \<open>while\<close> loop of the same code is emitted with the loop still open, and a \<open>break\<close> in it is
  patched into the wrong code.
\<close>

section \<open>Trees\<close>

definition is_def :: "node_kind \<Rightarrow> bool" where
  "is_def k =
     (case k of
        NMethodDef _ _ _ _ \<Rightarrow> True | NSingletonMethodDef _ _ _ _ _ \<Rightarrow> True
      | NClassDef _ _ _ _ _ _ \<Rightarrow> True | NSingletonClassDef _ _ _ \<Rightarrow> True | _ \<Rightarrow> False)"

text \<open>Whether the children of a node are generated inside a loop.\<close>

definition in_loop :: "node_kind \<Rightarrow> bool \<Rightarrow> bool" where
  "in_loop k il = (case k of NWhile _ _ _ \<Rightarrow> True | NProc _ _ _ \<Rightarrow> False | _ \<Rightarrow> il)"

text \<open>No definition is inside a loop of its code.\<close>

function placed :: "bool \<Rightarrow> node \<Rightarrow> bool" where
  "placed il n \<longleftrightarrow>
     \<not> (il \<and> is_def (akind n)) \<and> list_all (placed (in_loop (akind n) il)) (children n)"
  by pat_completeness auto
termination
  by (relation "measure (\<lambda>(il, n). nsize n)") (simp_all add: child_smaller)

declare placed.simps [simp del]

lemma placed_children: "placed il n \<Longrightarrow> \<forall>c \<in> set (children n). placed (in_loop (akind n) il) c"
  by (subst (asm) placed.simps) (simp add: list_all_iff)

lemma placed_def_node: "placed il n \<Longrightarrow> is_def (akind n) \<Longrightarrow> il = False"
  by (subst (asm) placed.simps) simp

section \<open>The recursive call\<close>

definition good_gen :: "'m generator \<Rightarrow> bool" where
  "good_gen g \<longleftrightarrow> (\<forall>m0 n il A nd u. placed il nd \<longrightarrow> gens (m0, n, il) A (g nd u) (\<lambda>_. {}))"

lemma gens_g: "good_gen g \<Longrightarrow> placed il nd \<Longrightarrow> gens (m0, n, il) A (g nd u) (\<lambda>_. {})"
  unfolding good_gen_def by blast

lemma gens_some:
  "(u = None \<Longrightarrow> gens K A f R) \<Longrightarrow> (\<And>x. u = Some x \<Longrightarrow> gens K A (g x) R) \<Longrightarrow>
   gens K A (case u of None \<Rightarrow> f | Some x \<Rightarrow> g x) R"
  by (cases u) simp_all

lemma gens_gather_none [generating]:
  "(\<And>x. x \<in> set xs \<Longrightarrow> gens K A (f x) (\<lambda>_. {})) \<Longrightarrow> gens K A (gather f xs) (\<lambda>_. {})"
  using gens_gather [of xs K A f "\<lambda>_. {}"] by simp

section \<open>Methods and blocks\<close>

lemma gens_comp_stmt [generating]:
  assumes G: "good_gen g" and P: "\<forall>c \<in> set ns. placed il c"
  shows "gens (m0, n, il) A (gen_comp_stmt g ns u) (\<lambda>_. {})"
proof (cases "ns = []")
  case True
  then show ?thesis by (simp add: gen_comp_stmt_def gens_skip gens_generators)
next
  case False
  have P': "placed il c" if "c \<in> set (butlast ns)" for c using P that in_set_butlastD by fastforce
  have e: "gen_comp_stmt g ns u = bind (each (\<lambda>n. g n False) (butlast ns)) (\<lambda>_. g (last ns) u)"
    using False by (cases ns) (simp_all add: gen_comp_stmt_def)
  have "placed il (last ns)" using P False by simp
  then show ?thesis unfolding e by - (rule generating gens_g [OF G] | simp add: P')+
qed

lemma gens_default_expr [generating]:
  assumes "good_gen g" "placed il d"
  shows "gens (m0, n, il) A (gen_default_expr g i d) (\<lambda>_. {})"
  unfolding gen_default_expr_def by (rule generating gens_g assms | simp)+

lemma gens_params [generating]:
  assumes G: "good_gen g"
  shows "\<forall>c \<in> set (param_children ps). placed il c \<Longrightarrow>
    gens (m0, n, il) A (gen_params g k ps p) (\<lambda>_. {})"
proof (induction ps arbitrary: k p A)
  case (Cons q ps)
  have ih: "gens (m0, n, il) B (gen_params g k ps p) (\<lambda>_. {})" for k p B
    using Cons by (simp add: param_children_def)
  have d: "akind q = POptional i d \<Longrightarrow> placed il d" "akind q = PKeyword i (Some d) \<Longrightarrow> placed il d" for i d
    using Cons.prems by (simp_all add: param_children_def)
  show ?case
    unfolding gen_params.simps Let_def
    by (cases "akind q"; simp only: param_kind.case;
        (rule gens_done gens_some ih gens_default_expr [OF G] generating | simp add: d)+)
qed (simp add: gens_done)

definition code_placed :: "formal_param list \<Rightarrow> node \<Rightarrow> bool" where
  "code_placed ps body \<longleftrightarrow> (\<forall>c \<in> set (param_children ps @ [body]). placed False c)"

lemma gens_body:
  assumes G: "good_gen g" and P: "code_placed ps body"
  shows "gens (m0, n, False) A (gen_body g ps body u fors) (\<lambda>_. {})"
proof -
  have p: "\<forall>c \<in> set (param_children ps). placed False c" "placed False body"
    using P by (simp_all add: code_placed_def)
  show ?thesis
    unfolding gen_body_def by (rule gens_done gens_params [OF G p(1)] gens_g [OF G p(2)] generating)+
qed

lemma gens_code [generating]:
  assumes "good_gen g" "code_placed ps body"
  shows "gens (m0, n, False) A (gen_iseq g ps body lv u k fors) (\<lambda>_. {})"
  by (intro gens_iseq gens_body assms)

lemma gens_block [generating]:
  assumes "good_gen g" "code_placed ps body"
  shows "gens (m0, n, il) A (gen_block g ps body lv fors) (\<lambda>_. {})"
  unfolding gen_block_def scoped_bind
  by (rule gens_bind [OF gens_scoped_top [OF gens_code [OF assms]]]) (auto intro: generating)

section \<open>Assignments\<close>

lemma one_index_set: "one_index ix = Some i \<Longrightarrow> set ix = {i}"
  by (auto simp: one_index_def split: list.splits if_splits)

text \<open>The children of a node that is no loop and no block.\<close>

lemma placed_plain:
  "placed il n \<Longrightarrow> in_loop (akind n) il = il \<Longrightarrow> \<forall>c \<in> set (children n). placed il c"
  using placed_children by fastforce

lemma gens_assign_val [generating]:
  "good_gen g \<Longrightarrow> placed il r \<Longrightarrow> gens (m0, n, il) A (gen_assign_val g r u) (\<lambda>_. {})"
  unfolding gen_assign_val_def by (rule gens_done gens_g generating | assumption)+

lemma gens_assign [generating]:
  assumes G: "good_gen g" and P: "placed il lhs"
  shows "gens (m0, n, il) A (gen_assign M g lhs) (\<lambda>_. {})"
proof -
  have p: "\<forall>c \<in> set (children lhs). placed (in_loop (akind lhs) il) c" by (rule placed_children [OF P])
  show ?thesis
  proof (cases "akind lhs")
    case (NScope p i)
    then show ?thesis
      using p unfolding gen_assign_def
      by (simp only: node_kind.case) (rule gens_done gens_g [OF G] generating | simp add: in_loop_def children_def)+
  next
    case (NSend r m a sn)
    then show ?thesis
      using p unfolding gen_assign_def
      by (simp only: node_kind.case) (rule gens_done gens_g [OF G] generating | simp add: in_loop_def children_def)+
  next
    case (NIndex b ix)
    then have c: "placed il b" "\<And>i. i \<in> set ix \<Longrightarrow> placed il i"
      using p by (simp_all add: children_def in_loop_def)
    then have "one_index ix = Some i \<Longrightarrow> placed il i" for i using one_index_set [of ix i] by simp
    with c show ?thesis
      unfolding gen_assign_def NIndex
      by (simp only: node_kind.case)
        (rule gens_done gens_some gens_g [OF G] generating | simp add: ops5_def)+
  qed (simp_all only: gen_assign_def node_kind.case, (rule gens_done generating)+)
qed

lemma gens_assign_index [generating]:
  assumes G: "good_gen g" and P: "placed il b" "\<forall>i \<in> set ix. placed il i" "placed il r"
  shows "gens (m0, n, il) A (gen_assign_index g l b ix r u) (\<lambda>_. {})"
proof -
  have one: "placed il i" if "one_index ix = Some i" for i using one_index_set [OF that] P(2) by simp
  show ?thesis
    unfolding gen_assign_index_def
    by (rule gens_done gens_some gens_g [OF G] generating G P(1,3) | simp add: ops5_def P one)+
qed

lemma gens_assign2 [generating]:
  assumes G: "good_gen g" and P: "placed il lhs" "placed il r"
  shows "gens (m0, n, il) A (gen_assign2 M g lhs r u) (\<lambda>_. {})"
proof -
  have p: "\<forall>c \<in> set (children lhs). placed (in_loop (akind lhs) il) c" by (rule placed_children [OF P(1)])
  note v = gens_assign_val [OF G P(2)]
  show ?thesis
  proof (cases "akind lhs")
    case (NScope p i)
    then have "placed il p" using p by (simp add: in_loop_def children_def)
    with NScope show ?thesis
      unfolding gen_assign2_def Let_def NScope
      by (simp only: node_kind.case) (rule gens_done v gens_g [OF G] generating | simp)+
  next
    case (NSend r m a sn)
    then have "placed il r" using p by (simp add: in_loop_def children_def)
    with NSend show ?thesis
      unfolding gen_assign2_def Let_def NSend
      by (simp only: node_kind.case) (rule gens_done v gens_g [OF G] generating | simp)+
  next
    case (NIndex b ix)
    then have "placed il b" "\<forall>i \<in> set ix. placed il i" using p by (simp_all add: in_loop_def children_def)
    then show ?thesis
      unfolding gen_assign2_def Let_def NIndex node_kind.case by (intro gens_assign_index G P)
  qed (simp_all only: gen_assign2_def Let_def node_kind.case, (rule gens_done v generating)+)
qed

section \<open>Expressions\<close>

lemma gens_jmp_if_false [generating]:
  assumes G: "good_gen g" and P: "placed il c"
  shows "gens (m0, n, il) A (gen_jmp_if_false g c) (\<lambda>src. {Slot src})"
proof -
  have plain: "gens (m0, n, il) A (bind (g c True) (\<lambda>_. emit_at gen_jmp_if_f)) (\<lambda>src. {Slot src})"
    by (rule gens_g [OF G P] generating)+
  show ?thesis
  proof (cases "akind c")
    case (NBinOp b x y)
    then have "placed il x" "placed il y"
      using placed_plain [OF P] by (simp_all add: in_loop_def children_def)
    then show ?thesis
      unfolding gen_jmp_if_false_def Let_def NBinOp node_kind.case
      by - (rule gens_some plain gens_g [OF G] generating | assumption)+
  qed (simp_all only: gen_jmp_if_false_def Let_def node_kind.case plain)
qed

lemma gens_pieces [generating]:
  assumes G: "good_gen g"
  shows "\<forall>c \<in> set ns. placed il c \<Longrightarrow> gens (m0, n, il) A (gen_pieces M g ns k) (\<lambda>_. {})"
proof (induction ns arbitrary: k A)
  case (Cons c ns)
  have ih: "gens (m0, n, il) B (gen_pieces M g ns k) (\<lambda>_. {})" for k B using Cons by simp
  have c: "placed il c" using Cons.prems by simp
  show ?case
  proof (cases "akind c")
    case (NCompStmt cs)
    then have "\<forall>c \<in> set cs. placed il c" using placed_plain [OF c] by (simp add: in_loop_def children_def)
    then show ?thesis
      unfolding gen_pieces.simps NCompStmt node_kind.case
      by - (rule ih gens_comp_stmt [OF G] generating | assumption | simp add: ops1_def)+
  qed (simp_all only: gen_pieces.simps node_kind.case, (rule ih generating | simp add: ops1_def)+)
qed (simp add: gens_done)

lemma gens_interpolated [generating]:
  "good_gen g \<Longrightarrow> \<forall>c \<in> set ns. placed il c \<Longrightarrow>
   gens (m0, n, il) A (gen_interpolated M g ns u) (\<lambda>_. {})"
  unfolding gen_interpolated_def by (rule gens_done generating | assumption)+

lemma gens_regexp_piece:
  assumes G: "good_gen g" and c: "placed il c"
  shows "gens (m0, n, il) A (gen_regexp_piece M g c) (\<lambda>_. {})"
proof (cases "akind c")
  case (NCompStmt cs)
  then have "\<forall>c \<in> set cs. placed il c" using placed_plain [OF c] by (simp add: in_loop_def children_def)
  then show ?thesis
    unfolding gen_regexp_piece_def NCompStmt node_kind.case
    by - (rule gens_comp_stmt [OF G] generating | assumption | simp add: ops1_def)+
qed (simp_all only: gen_regexp_piece_def node_kind.case, (rule generating | simp add: ops1_def)+)

lemma gens_regexp [generating]:
  assumes G: "good_gen g" and P: "\<forall>c \<in> set ns. placed il c" and Q: "regexp_quiet M"
  shows "gens (m0, n, il) A (gen_regexp M g ns k u) (\<lambda>_. {})"
  unfolding gen_regexp_def
  by (rule gens_done gens_regexp_piece [OF G] generating quiet_regexp [OF Q] | simp add: P)+

lemma gens_range [generating]:
  "good_gen g \<Longrightarrow> placed il a \<Longrightarrow> placed il b \<Longrightarrow>
   gens (m0, n, il) A (gen_range g l a b ex u) (\<lambda>_. {})"
  unfolding gen_range_def by (rule gens_done gens_g generating | assumption | simp add: ops1_def)+

lemma gens_array [generating]:
  assumes G: "good_gen g" and P: "\<forall>c \<in> set ns. placed il c" and Q: "regexp_quiet M"
  shows "gens (m0, n, il) A (gen_array M g d ns k u) (\<lambda>_. {})"
  unfolding gen_array_def
  by (rule gens_done gens_g [OF G] generating quiet_const quiet_const_expr [OF Q] | simp add: P)+

lemma pair_children: "set (concat (map (\<lambda>(k, v). [k, v]) kvs)) = fst ` set kvs \<union> snd ` set kvs"
  by (induction kvs) (auto split: prod.split simp del: set_concat)

lemma gens_hash [generating]:
  assumes G: "good_gen g" and Q: "regexp_quiet M"
    and P: "\<forall>c \<in> set (concat (map (\<lambda>(k, v). [k, v]) kvs)). placed il c"
  shows "gens (m0, n, il) A (gen_hash M g d kvs k u) (\<lambda>_. {})"
proof -
  have pair: "gens (m0, n, il) A (gen_pair g p) (\<lambda>_. {})" if "p \<in> set kvs" for p A
  proof -
    have "placed il (fst p)" "placed il (snd p)" using P that unfolding pair_children by blast+
    then show ?thesis unfolding gen_pair_def by - (rule gens_g [OF G] generating | assumption)+
  qed
  show ?thesis
    unfolding gen_hash_def
    by (rule gens_done generating quiet_const quiet_const_expr [OF Q] | erule pair)+
qed

section \<open>Operators\<close>

lemma gens_binops:
  assumes G: "good_gen g" and P: "placed il x" "placed il y"
  shows "i \<in> set ops1 \<Longrightarrow> gens (m0, n, il) A (binop_plain g l x y i) (\<lambda>_. {})"
    "i \<in> set ops1 \<Longrightarrow> j \<in> set ops5 \<Longrightarrow> gens (m0, n, il) A (binop_imm g l x y i j) (\<lambda>_. {})"
    "gens (m0, n, il) A (gen_land g x y) (\<lambda>_. {})" "gens (m0, n, il) A (gen_lor g x y) (\<lambda>_. {})"
proof -
  show p: "gens (m0, n, il) A (binop_plain g l x y i) (\<lambda>_. {})" if "i \<in> set ops1" for i
    unfolding binop_plain_def by (rule gens_g [OF G P(1)] gens_g [OF G P(2)] generating that)+
  show "gens (m0, n, il) A (binop_imm g l x y i j) (\<lambda>_. {})" if "i \<in> set ops1" "j \<in> set ops5"
    unfolding binop_imm_def by (rule gens_g [OF G P(1)] gens_g [OF G P(2)] generating p that)+
  show "gens (m0, n, il) A (gen_land g x y) (\<lambda>_. {})" "gens (m0, n, il) A (gen_lor g x y) (\<lambda>_. {})"
    unfolding gen_land_def gen_lor_def
    by (rule gens_g [OF G P(1)] gens_g [OF G P(2)] generating | simp add: ops1_def)+
qed

lemma gens_operator [generating]:
  assumes G: "good_gen g" and P: "placed il x" "placed il y"
  shows "gens (m0, n, il) A (gen_operator g l b x y) (\<lambda>_. {})"
  unfolding gen_operator_def
  by (cases b; simp only: bin_op.case;
      (rule gens_done gens_binops [OF G P] | simp add: ops1_def ops5_def)+)

lemma gens_binop [generating]:
  assumes G: "good_gen g" and P: "placed il x" "placed il y"
  shows "gens (m0, n, il) A (gen_binop M g l b x y u) (\<lambda>_. {})"
  unfolding gen_binop_def
  by (rule gens_g [OF G P(1)] gens_g [OF G P(2)] gens_operator [OF G P] generating)+

lemma gens_unop [generating]:
  assumes G: "good_gen g" and P: "placed il x"
  shows "gens (m0, n, il) A (gen_unop g l b x u) (\<lambda>_. {})"
  unfolding gen_unop_def
  by (cases b; simp only: un_op.case;
      (rule gens_done gens_g [OF G P] generating | simp add: ops1_def)+)

lemma gens_index [generating]:
  assumes G: "good_gen g" and P: "placed il b" "\<forall>i \<in> set ix. placed il i"
  shows "gens (m0, n, il) A (gen_index g l b ix u) (\<lambda>_. {})"
proof -
  have one: "placed il i" if "one_index ix = Some i" for i using one_index_set [OF that] P(2) by simp
  show ?thesis
    unfolding gen_index_def
    by (rule gens_done gens_some gens_g [OF G] generating P(1) | simp add: ops5_def P one)+
qed

section \<open>Control\<close>

lemma gens_if_node [generating]:
  assumes G: "good_gen g" and P: "placed il c" "placed il t" "placed il e"
  shows "gens (m0, n, il) A (gen_if g c t e u) (\<lambda>_. {})"
  unfolding gen_if_def
  by (rule gens_jmp_if_false [OF G P(1)] gens_g [OF G P(2)] gens_g [OF G P(3)] generating | simp)+

lemma gens_for_node [generating]:
  assumes G: "good_gen g" and P: "placed il it" "placed il body"
  shows "gens (m0, n, il) A (gen_for_node g vars it body u) (\<lambda>_. {})"
proof (cases "akind body")
  case (NProc ps b lv)
  then have "code_placed ps b"
    using placed_children [OF P(2)] by (simp add: in_loop_def children_def code_placed_def)
  then show ?thesis
    unfolding gen_for_node_def NProc node_kind.case
    by - (rule gens_block [OF G] gens_g [OF G P(1)] generating | assumption)+
qed (simp_all only: gen_for_node_def node_kind.case gens_raise)

lemma gens_patch_escape:
  assumes "Slot (fst e) \<in> A" "Bound p \<in> A"
  shows "gens K A (patch_escape p e) (\<lambda>_. {})"
  unfolding patch_escape_def
  by (cases "snd e"; simp only: escape_kind.case; rule generating assms)+

lemma gens_loop:
  assumes G: "good_gen g" and P: "placed il c" "placed il body"
  shows "gens (m0, n, il) A (gen_loop g c body op u) (\<lambda>(p, src). {Bound p, Slot src})"
  unfolding gen_loop_def
  by (rule gens_jmp_if_false [OF G P(1)] gens_g [OF G P(1)] gens_g [OF G P(2)] generating | simp)+

lemma gens_while [generating]:
  assumes G: "good_gen g" and P: "placed True c" "placed True body"
  shows "gens (m0, n, il) A (gen_while g c body op u) (\<lambda>_. {})"
proof -
  have e: "gen_while g c body op u =
      bind (scoped loop_new_loop (gen_loop g c body op u)) (\<lambda>(x, l). case x of (loop_start, src2) \<Rightarrow>
        bind (each (patch_escape loop_start) (l_escape l)) (\<lambda>_.
        bind (pop_unless u) (\<lambda>_. patch_here src2)))"
    unfolding gen_while_def scoped_bind [symmetric]
    by (rule arg_cong [of _ _ "bind (loop_push loop_new_loop)"]) (auto simp: fun_eq_iff bind_def split: prod.split sum.split)
  show ?thesis
    unfolding e
    by (rule gens_bind [OF gens_scoped_loop [OF gens_loop [OF G P]]])
      (rule gens_patch_escape generating | simp)+
qed

section \<open>Exceptions\<close>

lemma gens_ensure [generating]:
  assumes G: "good_gen g" and P: "\<And>c. en = Some c \<Longrightarrow> placed il c"
  shows "gens (m0, n, il) A (gen_ensure g en) (\<lambda>_. {})"
  unfolding gen_ensure_def by (rule gens_done gens_some gens_g [OF G] P | assumption)+

lemma gens_rescue_test [generating]:
  assumes G: "good_gen g" and P: "\<forall>c \<in> set es. placed il c"
  shows "gens (m0, n, il) A (gen_rescue_test M g es) (\<lambda>_. {})"
  unfolding gen_rescue_test_def by (rule gens_done gens_g [OF G] generating | simp add: P ops5_def)+

definition rescue_placed :: "bool \<Rightarrow> node rescue_entry \<Rightarrow> bool" where
  "rescue_placed il r \<longleftrightarrow>
     (\<forall>c \<in> set (re_exceptions r @ (case re_assign r of Some a \<Rightarrow> [a] | None \<Rightarrow> []) @ [re_body r]).
        placed il c)"

lemma gens_rescue:
  assumes G: "good_gen g" and P: "rescue_placed il r"
    and prev: "\<And>src. prev = Some src \<Longrightarrow> Slot src \<in> A"
  shows "gens (m0, n, il) A (gen_rescue M g u r prev) (\<lambda>(a, b). {Slot a, Slot b})"
proof -
  have p: "\<forall>c \<in> set (re_exceptions r). placed il c" "placed il (re_body r)"
    "\<And>a. re_assign r = Some a \<Longrightarrow> placed il a"
    using P by (simp_all add: rescue_placed_def)
  show ?thesis
    unfolding gen_rescue_def
    by (rule gens_done gens_some gens_rescue_test [OF G p(1)] gens_g [OF G p(2)] gens_assign [OF G p(3)] generating |
        assumption | simp add: prev)+
qed

definition opt_slots :: "nat option \<times> nat list \<Rightarrow> claim set" where
  "opt_slots x = Slot ` (set_option (fst x) \<union> set (snd x))"

lemma gens_rescues:
  assumes G: "good_gen g"
  shows "\<forall>r \<in> set rs. rescue_placed il r \<Longrightarrow> (\<And>src. prev = Some src \<Longrightarrow> Slot src \<in> A) \<Longrightarrow>
    gens (m0, n, il) A (gen_rescues M g u rs prev) opt_slots"
proof (induction rs arbitrary: prev A)
  case Nil
  then show ?case
    unfolding gen_rescues.simps by (intro gens_ret) (cases prev; simp add: opt_slots_def)
next
  case (Cons r rs)
  have r: "gens (m0, n, il) A (gen_rescue M g u r prev) (\<lambda>(a, b). {Slot a, Slot b})"
    using Cons.prems by (intro gens_rescue [OF G]) auto
  have rest: "gens (m0, n, il) (A \<union> {Slot a, Slot b}) (gen_rescues M g u rs (Some a)) opt_slots" for a b
    using Cons.prems by (intro Cons.IH) auto
  show ?case
    unfolding gen_rescues.simps
  proof (rule gens_bind [OF r])
    fix x :: "nat \<times> nat"
    obtain a b where x: "x = (a, b)" by (cases x)
    show "gens (m0, n, il) (A \<union> (case x of (a, b) \<Rightarrow> {Slot a, Slot b}))
        (case x of (next, src) \<Rightarrow> bind (gen_rescues M g u rs (Some next))
          (\<lambda>(prev', srcs). ret (prev', src # srcs))) opt_slots"
      unfolding x prod.case
      by (rule gens_bind [OF rest] gens_prod gens_ret | auto simp: opt_slots_def)+
  qed
qed

definition some_bound :: "nat option \<times> nat list \<Rightarrow> claim set" where
  "some_bound x = Bound ` set_option (fst x) \<union> Slot ` set (snd x)"

lemma gens_rescue_part:
  assumes G: "good_gen g" and P: "\<forall>r \<in> set rs. rescue_placed il r"
    and E: "\<And>c. en = Some c \<Longrightarrow> placed il c"
  shows "gens (m0, n, il) A (gen_rescue_part M g l rs en u) some_bound"
proof (cases "rs = []")
  case True
  then show ?thesis
    unfolding gen_rescue_part_def by - (rule gens_if, rule gens_ret, simp_all add: some_bound_def)
next
  case False
  have r: "gens (m0, n, il) B (gen_rescues M g u rs None) opt_slots" for B
    by (rule gens_rescues [OF G P]) simp
  have e: "gens (m0, n, il) B (gen_ensure g en) (\<lambda>_. {})" for B by (rule gens_ensure [OF G E])
  show ?thesis
    unfolding gen_rescue_part_def
    by (simp only: False if_False)
      (rule r e generating | simp add: opt_slots_def some_bound_def ops1_def | auto simp: opt_slots_def some_bound_def)+
qed

lemma gens_return_path:
  assumes G: "good_gen g" and E: "\<And>c. en = Some c \<Longrightarrow> placed il c"
    and S: "\<And>src. src \<in> set srcs \<Longrightarrow> Slot src \<in> A"
  shows "gens (m0, n, il) A (gen_return_path g l en srcs gen_return) (\<lambda>_. {})"
    "gens (m0, n, il) A (gen_return_path g l en srcs gen_method_return) (\<lambda>_. {})"
proof -
  have e: "gens (m0, n, il) B (gen_ensure g en) (\<lambda>_. {})" for B by (rule gens_ensure [OF G E])
  show "gens (m0, n, il) A (gen_return_path g l en srcs gen_return) (\<lambda>_. {})"
    "gens (m0, n, il) A (gen_return_path g l en srcs gen_method_return) (\<lambda>_. {})"
    unfolding gen_return_path_def by (rule e generating | simp add: S)+
qed

lemma gens_return_paths:
  assumes G: "good_gen g" and E: "\<And>c. en = Some c \<Longrightarrow> placed il c"
    and S: "Slot ` set (return_entries d @ mreturn_entries d) \<subseteq> A"
  shows "gens (m0, n, il) A (gen_return_paths g l en d) (\<lambda>_. {})"
proof -
  have s: "src \<in> set (return_entries d) \<Longrightarrow> Slot src \<in> A"
    "src \<in> set (mreturn_entries d) \<Longrightarrow> Slot src \<in> A" for src using S by auto
  show ?thesis
    unfolding gen_return_paths_def
    by (rule gens_return_path [OF G E] generating | assumption | simp add: s)+
qed

lemma gens_begin [generating]:
  assumes G: "good_gen g" and P: "placed il body" "\<forall>r \<in> set rs. rescue_placed il r"
    and L: "\<And>c. els = Some c \<Longrightarrow> placed il c" and E: "\<And>c. en = Some c \<Longrightarrow> placed il c"
  shows "gens (m0, n, il) A (gen_begin M g l body rs els en u) (\<lambda>_. {})"
proof -
  have e: "gens (m0, n, il) B (gen_ensure g en) (\<lambda>_. {})" for B by (rule gens_ensure [OF G E])
  show ?thesis
    unfolding gen_begin_def
    by (rule gens_done gens_some gens_rescue_part [OF G P(2) E] gens_return_paths [OF G E] e
          gens_g [OF G P(1)] gens_g [OF G L] generating | assumption |
        (auto simp: some_bound_def split: prod.splits)[1])+
qed

section \<open>Case\<close>

definition branch_placed :: "bool \<Rightarrow> node case_branch \<Rightarrow> bool" where
  "branch_placed il b \<longleftrightarrow> (\<forall>c \<in> set (cb_when b @ [cb_body b]). placed il c)"

lemma branch_placedD: "branch_placed il b \<Longrightarrow> placed il (cb_body b) \<and> (\<forall>c \<in> set (cb_when b). placed il c)"
  by (simp add: branch_placed_def)

lemma gens_add_whens:
  assumes "CaseAt I_OPT_CASE i start \<in> A" "Slot start \<in> A"
  shows "gens K A (add_whens M i start ns) (\<lambda>_. {})"
  unfolding add_whens_def
  by (rule gens_done gens_dispatch_insert [where start = start] generating quiet_when_value |
      simp add: assms)+

lemma gens_branch:
  assumes G: "good_gen g" and P: "branch_placed il b"
    and A: "CaseAt I_OPT_CASE i start \<in> A" "Slot start \<in> A"
  shows "gens (m0, n, il) A (gen_branch M g i start u b) (\<lambda>src. {Slot src})"
  unfolding gen_branch_def
  by (rule gens_add_whens [OF A] gens_g [OF G conjunct1 [OF branch_placedD [OF P]]] generating)+

lemma gens_slots:
  "(\<And>x. x \<in> set xs \<Longrightarrow> gens K A (f x) (\<lambda>src. {Slot src})) \<Longrightarrow>
   gens K A (gather f xs) (\<lambda>srcs. Slot ` set srcs)"
  using gens_gather [of xs K A f "\<lambda>src. {Slot src}"] by (simp add: UNION_singleton_eq_range)

lemma gens_case_table:
  assumes G: "good_gen g" and P: "\<forall>b \<in> set bs. branch_placed il b"
  shows "gens (m0, n, il) A (gen_case_table M g bs u) (\<lambda>ends. Slot ` set ends)"
  unfolding gen_case_table_def
  by (rule gens_slots gens_branch [OF G] generating gens_ret | simp add: P | blast)+

definition disp_bounds :: "nat \<Rightarrow> (i64 \<times> i32) list \<Rightarrow> claim set" where
  "disp_bounds start t = (\<lambda>d. Bound (pos_add start (sint d))) ` snd ` set t"

lemma add_ints_disps: "add_ints d ns t = Inr t' \<Longrightarrow> snd ` set t' \<subseteq> insert d (snd ` set t)"
proof (induction ns arbitrary: t)
  case (Cons c ns)
  then obtain i where i: "akind c = NInteger i" "add_ints d ns (AList.update i d t) = Inr t'"
    by (cases "akind c") auto
  have "snd ` set (AList.update i d t) \<subseteq> insert d (snd ` set t)" for i
    by (induction t) auto
  with Cons.IH [OF i(2)] show ?case by blast
qed auto

lemma case_vector_disps:
  assumes "case_vector lo hi d t = Inr v"
  shows "set v \<subseteq> insert (sint d) (sint ` snd ` set t)"
proof -
  have "fill_disps lo t v0 = Inr v \<Longrightarrow> set v \<subseteq> set v0 \<union> sint ` snd ` set t" for v0
  proof (induction t arbitrary: v0)
    case (Cons p t)
    obtain i e where p: "p = (i, e)" by (cases p)
    then have "fill_disps lo t (v0[unat (i - lo) := sint e]) = Inr v"
      using Cons.prems by (simp split: if_splits)
    from Cons.IH [OF this] set_update_subset_insert [of v0 "unat (i - lo)" "sint e"]
    show ?case by (auto simp: p)
  qed simp
  from this [of "replicate (unat (hi - lo + 1)) (sint d)"] assms show ?thesis
    by (auto simp: case_vector_def Let_def split: if_splits)
qed

lemma gens_branches2:
  assumes G: "good_gen g" and S: "Slot start \<in> A"
  shows "\<forall>b \<in> set bs. branch_placed il b \<Longrightarrow> disp_bounds start t \<subseteq> B \<Longrightarrow> A \<subseteq> B \<Longrightarrow>
    gens (m0, n, il) B (gen_branches2 g start u bs t)
      (\<lambda>(t', ends). disp_bounds start t' \<union> Slot ` set ends)"
proof (induction bs arbitrary: t B)
  case Nil
  then show ?case unfolding gen_branches2.simps by (intro gens_ret) simp
next
  case (Cons b bs)
  let ?R = "\<lambda>(t', ends). disp_bounds start t' \<union> Slot ` set ends"
  have body: "placed il (cb_body b)" using Cons.prems(1) branch_placedD by simp
  have s: "Slot start \<in> B" using S Cons.prems(3) by blast
  show ?case
    unfolding gen_branches2.simps
  proof (rule gens_bind [OF gens_disp_from [OF s]])
    fix d :: i32
    let ?D = "{Bound (pos_add start (sint d))}"
    show "gens (m0, n, il) (B \<union> ?D) (bind (asks (\<lambda>_. add_ints d (cb_when b) t)) (\<lambda>t'.
        bind (g (cb_body b) u) (\<lambda>_. bind (emit_at gen_jmp) (\<lambda>src.
        bind (gen_branches2 g start u bs t') (\<lambda>(t2, ends). ret (t2, src # ends)))))) ?R"
    proof (rule gens_bind)
      show "gens (m0, n, il) (B \<union> ?D) (asks (\<lambda>_. add_ints d (cb_when b) t)) (disp_bounds start)"
        by (rule gens_asks) (use add_ints_disps Cons.prems(2) in \<open>fastforce simp: disp_bounds_def\<close>)
      fix t'
      let ?B = "B \<union> ?D \<union> disp_bounds start t'"
      have rest: "gens (m0, n, il) (?B \<union> {} \<union> {Slot src}) (gen_branches2 g start u bs t') ?R" for src
        using Cons.prems by (intro Cons.IH) auto
      show "gens (m0, n, il) ?B (bind (g (cb_body b) u) (\<lambda>_. bind (emit_at gen_jmp) (\<lambda>src.
          bind (gen_branches2 g start u bs t') (\<lambda>(t2, ends). ret (t2, src # ends))))) ?R"
        by (rule gens_bind [OF gens_g [OF G body]], rule gens_bind [OF gens_jumps(1)],
            rule gens_bind [OF rest], rule gens_prod, rule gens_ret) auto
    qed
  qed
qed

lemma gens_case_ints:
  assumes G: "good_gen g" and P: "\<forall>b \<in> set bs. branch_placed il b"
  shows "gens (m0, n, il) A (gen_case_ints g lo hi bs u) (\<lambda>ends. Slot ` set ends)"
  unfolding gen_case_ints_def
proof (rule gens_bind [OF gens_open_case2], rule gens_prod)
  fix x and i :: u32 and start :: nat assume x: "x = (i, start)"
  let ?A = "A \<union> {CaseAt I_OPT_CASE2 i start, Slot start}"
  let ?R = "\<lambda>(t', ends). disp_bounds start t' \<union> Slot ` set ends"
  have b: "gens (m0, n, il) ?A (gen_branches2 g start u bs []) ?R"
    by (rule gens_branches2 [OF G _ P]) (auto simp: disp_bounds_def)
  show "gens (m0, n, il) (A \<union> (case x of (i, start) \<Rightarrow> {CaseAt I_OPT_CASE2 i start, Slot start}))
    (bind (gen_branches2 g start u bs []) (\<lambda>(t, ends).
     bind (disp_from start) (\<lambda>d.
     bind (asks (\<lambda>_. case_vector lo hi d t)) (\<lambda>v.
     bind (on_globals (dispatch2_set i (lo, hi, v))) (\<lambda>_.
     bind (patch_here start) (\<lambda>_. ret ends)))))) (\<lambda>ends. Slot ` set ends)"
    unfolding x prod.case
  proof (rule gens_bind [OF b], rule gens_prod)
    fix y :: "(i64 \<times> i32) list \<times> nat list" and t ends assume y: "y = (t, ends)"
    let ?B = "?A \<union> ?R y"
    have s: "Slot start \<in> ?B" by simp
    show "gens (m0, n, il) ?B (bind (disp_from start) (\<lambda>d.
       bind (asks (\<lambda>_. case_vector lo hi d t)) (\<lambda>v.
       bind (on_globals (dispatch2_set i (lo, hi, v))) (\<lambda>_.
       bind (patch_here start) (\<lambda>_. ret ends))))) (\<lambda>ends. Slot ` set ends)"
    proof (rule gens_bind [OF gens_disp_from [OF s]])
      fix d :: i32
      let ?C = "?B \<union> {Bound (pos_add start (sint d))}"
      have v: "gens (m0, n, il) ?C (asks (\<lambda>_. case_vector lo hi d t))
          (\<lambda>v. (\<lambda>e. Bound (pos_add start e)) ` set v)"
        by (rule gens_asks) (use case_vector_disps in \<open>fastforce simp: y disp_bounds_def\<close>)
      show "gens (m0, n, il) ?C (bind (asks (\<lambda>_. case_vector lo hi d t)) (\<lambda>v.
       bind (on_globals (dispatch2_set i (lo, hi, v))) (\<lambda>_.
       bind (patch_here start) (\<lambda>_. ret ends)))) (\<lambda>ends. Slot ` set ends)"
        by (rule gens_bind [OF v], rule gens_bind [OF gens_dispatch2_set [where start = start]])
          (rule generating gens_ret | auto simp: y)+
    qed
  qed
qed

lemma gens_when_test:
  assumes G: "good_gen g" and P: "placed il c"
  shows "gens (m0, n, il) A (gen_when_test g c) (\<lambda>src. {Slot src})"
  unfolding gen_when_test_def by (rule gens_g [OF G P] generating | simp add: ops1_def)+

lemma gens_case_tests:
  assumes G: "good_gen g"
  shows "\<forall>b \<in> set bs. branch_placed il b \<Longrightarrow> (\<And>src. prev = Some src \<Longrightarrow> Slot src \<in> A) \<Longrightarrow>
    gens (m0, n, il) A (gen_case_tests g u bs prev) opt_slots"
proof (induction bs arbitrary: prev A)
  case Nil
  then show ?case
    unfolding gen_case_tests.simps by (intro gens_ret) (cases prev; simp add: opt_slots_def)
next
  case (Cons b bs)
  have p: "placed il (cb_body b)" "\<forall>c \<in> set (cb_when b). placed il c"
    using branch_placedD [of il b] Cons.prems(1) by simp_all
  have rest: "gens (m0, n, il) B (gen_case_tests g u bs (Some a)) opt_slots" if "Slot a \<in> B" for a B
    using Cons.prems(1) that by (intro Cons.IH) auto
  show ?case
    unfolding gen_case_tests.simps
    by (rule gens_slots gens_when_test [OF G] gens_g [OF G p(1)] rest gens_prod gens_ret generating |
        simp add: Cons.prems(2) p(2) | (auto simp: opt_slots_def)[1])+
qed

lemma gens_case_general:
  assumes G: "good_gen g" and P: "\<forall>b \<in> set bs. branch_placed il b"
  shows "gens (m0, n, il) A (gen_case_general g bs u) (\<lambda>ends. Slot ` set ends)"
proof -
  have t: "gens (m0, n, il) B (gen_case_tests g u bs None) opt_slots" for B
    by (rule gens_case_tests [OF G P]) simp
  show ?thesis
    unfolding gen_case_general_def
    by (rule t gens_prod gens_ret generating | (auto simp: opt_slots_def)[1])+
qed

lemma gens_guarded:
  assumes G: "good_gen g" and P: "branch_placed il b"
  shows "gens (m0, n, il) A (gen_guarded g u b) (\<lambda>src. {Slot src})"
proof -
  note p = branch_placedD [OF P]
  have q: "gens (m0, n, il) B (gen_guard g c) (\<lambda>src. {Slot src})" if "c \<in> set (cb_when b)" for c B
    unfolding gen_guard_def using p that by - (rule gens_g [OF G] generating | blast)+
  show ?thesis
    unfolding gen_guarded_def
    by (rule gens_slots q gens_g [OF G conjunct1 [OF p]] generating gens_ret | assumption | (auto)[1])+
qed

lemma gens_case [generating]:
  assumes G: "good_gen g" and P: "\<And>x. c = Some x \<Longrightarrow> placed il x" "\<forall>b \<in> set bs. branch_placed il b"
    "placed il els"
  shows "gens (m0, n, il) A (gen_case M g c bs els u) (\<lambda>_. {})"
proof -
  have k: "gens (m0, n, il) B (case c of
             Some c \<Rightarrow>
               bind (g c True) (\<lambda>_.
                 case case_kind bs of (literals, ints, lo, hi) \<Rightarrow>
                   if literals \<and> ints then gen_case_ints g lo hi bs u
                   else if literals then gen_case_table M g bs u
                   else gen_case_general g bs u)
           | None \<Rightarrow> gather (gen_guarded g u) bs) (\<lambda>ends. Slot ` set ends)" for B
    using P by - (rule gens_some gens_slots gens_guarded [OF G] gens_case_ints [OF G] gens_case_table [OF G]
      gens_case_general [OF G] gens_prod gens_g [OF G] generating | blast)+
  show ?thesis
    unfolding gen_case_def by (rule k gens_g [OF G P(3)] generating | (auto)[1])+
qed

section \<open>Multiple assignment\<close>

lemma gens_single_assign:
  assumes "good_gen g" "placed il l" "placed il r"
  shows "gens (m0, n, il) A (gen_single_assign M g l r u) (\<lambda>_. {})"
proof -
  note a = gens_assign2 [OF assms]
  show ?thesis
  proof (cases "self_addition l r")
    case None
    then show ?thesis unfolding gen_single_assign_def by (simp only: option.case a)
  next
    case (Some x)
    show ?thesis
      unfolding gen_single_assign_def Some option.case
      by (cases x; simp only: self_add.case; (rule generating)+)
  qed
qed

lemma gens_first:
  assumes G: "good_gen g"
  shows "\<forall>c \<in> set ns. placed il c \<Longrightarrow> gens (m0, n, il) A (gen_first g k ns) (\<lambda>_. {})"
proof (induction ns arbitrary: k A)
  case (Cons c ns)
  have ih: "gens (m0, n, il) B (gen_first g k ns) (\<lambda>_. {})" for k B using Cons by simp
  show ?case unfolding gen_first.simps by (rule ih gens_g [OF G] generating | simp add: Cons.prems)+
qed (simp add: gens_done)

lemma gens_mul_assign [generating]:
  assumes G: "good_gen g" and P: "\<forall>c \<in> set ls. placed il c" "\<forall>c \<in> set rs. placed il c"
  shows "gens (m0, n, il) A (gen_mul_assign M g ls rs u) (\<lambda>_. {})"
proof -
  have h: "length ls = 1 \<Longrightarrow> placed il (hd ls)" "length rs = 1 \<Longrightarrow> placed il (hd rs)"
    using P hd_in_set [of ls] hd_in_set [of rs] by fastforce+
  show ?thesis
    unfolding gen_mul_assign_def Let_def
    by (rule gens_done gens_single_assign [OF G] gens_first [OF G P(2)] gens_assign [OF G] gens_g [OF G] generating |
        simp add: h P)+
qed

section \<open>Calls\<close>

lemma gens_block_arg [generating]:
  assumes G: "good_gen g" and P: "\<And>c. b = Some c \<Longrightarrow> placed il c"
  shows "gens (m0, n, il) A (gen_block_arg g b) (\<lambda>_. {})"
proof (cases b)
  case None
  then show ?thesis unfolding gen_block_arg_def by (simp only: option.case gens_done)
next
  case (Some c)
  have p: "placed il c" by (rule P [OF Some])
  show ?thesis
  proof (cases "akind c")
    case (NProc ps body lv)
    then have "code_placed ps body"
      using placed_children [OF p] by (simp add: in_loop_def children_def code_placed_def)
    then show ?thesis
      unfolding gen_block_arg_def Some option.case NProc node_kind.case
      by - (rule gens_done gens_block [OF G] generating | assumption)+
  qed (simp_all only: gen_block_arg_def Some option.case node_kind.case,
      (rule gens_done gens_g [OF G p] generating)+)
qed

lemma gens_opt_send_node [generating]:
  assumes G: "good_gen g" and P: "placed il r"
  shows "gens (m0, n, il) A (gen_opt_send_node g l r m sn k b u) (\<lambda>_. {})"
  unfolding gen_opt_send_node_def by (rule gens_g [OF G P] generating | simp add: ops1_def)+

definition args_placed :: "bool \<Rightarrow> node arg_list \<Rightarrow> bool" where
  "args_placed il a \<longleftrightarrow> (\<forall>c \<in> set (arg_children a). placed il c)"

lemma args_placedD:
  assumes "args_placed il a"
  shows "c \<in> set (al_args a) \<Longrightarrow> placed il c" "p \<in> set (al_kw_args a) \<Longrightarrow> placed il (snd p)"
    "c \<in> set (al_kw_rest a) \<Longrightarrow> placed il c" "al_block a = Some c \<Longrightarrow> placed il c"
  using assms by (auto simp: args_placed_def arg_children_def)

lemma gens_send_node [generating]:
  assumes G: "good_gen g" and P: "placed il r" "args_placed il a"
  shows "gens (m0, n, il) A (gen_send_node g l r m a sn u) (\<lambda>_. {})"
proof -
  note p = args_placedD [OF P(2)]
  have kw: "gens (m0, n, il) B (gen_kw_arg g q) (\<lambda>_. {})" if "q \<in> set (al_kw_args a)" for q B
    unfolding gen_kw_arg_def by (rule gens_g [OF G p(2) [OF that]] generating)+
  show ?thesis
    unfolding gen_send_node_def Let_def
    by (rule gens_done kw gens_opt_send_node [OF G P(1)] gens_g [OF G P(1)] gens_block_arg [OF G p(4)]
        gens_g [OF G p(1)] gens_g [OF G p(3)] generating | assumption)+
qed

lemma gens_yield_node [generating]:
  assumes G: "good_gen g" and P: "args_placed il a"
  shows "gens (m0, n, il) A (gen_yield_node g a u) (\<lambda>_. {})"
  unfolding gen_yield_node_def
  by (rule gens_done gens_g [OF G args_placedD(1) [OF P]] generating | assumption)+

section \<open>Definitions\<close>

lemma gens_definitions:
  assumes G: "good_gen g" and P: "code_placed ps body"
  shows "gens (m0, n, False) A (gen_method_def g i ps body lv u) (\<lambda>_. {})"
    "placed False sg \<Longrightarrow> gens (m0, n, False) A (gen_singleton_method_def g sg i ps body lv u) (\<lambda>_. {})"
  unfolding gen_method_def_def gen_singleton_method_def_def
  by (rule gens_code [OF G P] gens_g [OF G] generating | assumption | simp add: ops9_def)+

lemma gens_class_definitions:
  assumes G: "good_gen g" and P: "placed False body"
  shows "placed False b \<Longrightarrow> placed False sup' \<Longrightarrow>
      gens (m0, n, False) A (gen_class_def g l b i sup' body lv md u) (\<lambda>_. {})"
    "placed False b \<Longrightarrow> gens (m0, n, False) A (gen_singleton_class_def M g l b body lv u) (\<lambda>_. {})"
proof -
  have c: "code_placed [] body" using P by (simp add: code_placed_def param_children_def)
  show "placed False b \<Longrightarrow> placed False sup' \<Longrightarrow>
      gens (m0, n, False) A (gen_class_def g l b i sup' body lv md u) (\<lambda>_. {})"
    "placed False b \<Longrightarrow> gens (m0, n, False) A (gen_singleton_class_def M g l b body lv u) (\<lambda>_. {})"
    unfolding gen_class_def_def gen_singleton_class_def_def
    by (rule gens_code [OF G c] gens_g [OF G] generating | assumption | simp add: ops5_def)+
qed

lemma gens_proc [generating]:
  assumes G: "good_gen g" and P: "code_placed ps body"
  shows "gens (m0, n, il) A (gen_proc g ps body lv u) (\<lambda>_. {})"
  unfolding gen_proc_def by (rule gens_block [OF G P] generating | simp add: ops5_def)+

section \<open>Leaving\<close>

lemma gens_context_kind:
  "(\<And>x. gens K A (a x) R) \<Longrightarrow> (\<And>y. gens K A (b y) R) \<Longrightarrow> gens K A c R \<Longrightarrow> gens K A d R \<Longrightarrow>
   gens K A (case k of MethodC x \<Rightarrow> a x | ClassC y \<Rightarrow> b y | BlockC \<Rightarrow> c | EvalC \<Rightarrow> d) R"
  by (cases k) simp_all

lemma gens_leaving [generating]:
  assumes G: "good_gen g" and P: "placed il v"
  shows "gens (m0, n, il) A (gen_return_node g l v) (\<lambda>_. {})"
    "gens (m0, n, il) A (gen_break_node g l v) (\<lambda>_. {})"
    "gens (m0, n, il) A (gen_next_node g v u) (\<lambda>_. {})"
proof -
  have e: "emit (if b then gen_method_return else gen_return) =
      (if b then emit gen_method_return else emit gen_return)" for b by simp
  show "gens (m0, n, il) A (gen_return_node g l v) (\<lambda>_. {})"
    unfolding gen_return_node_def Let_def e by (rule gens_g [OF G P] generating | simp)+
  show "gens (m0, n, il) A (gen_break_node g l v) (\<lambda>_. {})"
    unfolding gen_break_node_def by (rule gens_context_kind gens_g [OF G P] generating | simp)+
  show "gens (m0, n, il) A (gen_next_node g v u) (\<lambda>_. {})"
    unfolding gen_next_node_def by (rule gens_context_kind gens_g [OF G P] generating | simp)+
qed

section \<open>The operator \<open>defined?\<close>\<close>

lemma gens_check:
  "i \<in> set ops5 \<Longrightarrow> gens K A (check_inst i w) (\<lambda>srcs. Slot ` set srcs)"
  "gens K A (check_lvar v) (\<lambda>srcs. Slot ` set srcs)"
proof -
  show "gens K A (check_inst i w) (\<lambda>srcs. Slot ` set srcs)" if "i \<in> set ops5"
    unfolding check_inst_def by (rule generating gens_ret that | simp)+
  show "gens K A (check_lvar v) (\<lambda>srcs. Slot ` set srcs)"
    unfolding check_lvar_def by (rule generating gens_ret | simp add: ops9_def ops1_def)+
qed

lemma gens_check_each:
  assumes "\<And>x A. x \<in> set xs \<Longrightarrow> gens K A (f x) (\<lambda>srcs. Slot ` set srcs)"
  shows "gens K A (check_each f xs) (\<lambda>srcs. Slot ` set srcs)"
  unfolding check_each_def
  by (rule gens_bind [OF gens_gather [OF assms]], assumption, rule gens_ret) (simp add: image_UN)

lemma gens_check_defined:
  "gens K A (check_defined k c :: ('m, nat list) cgeff) (\<lambda>srcs. Slot ` set srcs)"
proof (induction k arbitrary: c A)
  case 0
  show ?case unfolding check_defined.simps by (rule generating)
next
  case (Suc k)
  have each: "gens K A (check_each (check_defined k) xs :: ('m, nat list) cgeff) (\<lambda>srcs. Slot ` set srcs)" for xs
    by (rule gens_check_each) (rule Suc)
  have none: "gens K A (ret [] :: ('m, nat list) cgeff) (\<lambda>srcs. Slot ` set srcs)" by (rule gens_ret) simp
  show ?case
    unfolding check_defined.simps
    by (cases "akind c"; simp only: node_kind.case; (rule gens_check each Suc none | simp add: ops5_def)+)
qed

lemma gens_defined [generating]: "gens K A (gen_defined M k c u) (\<lambda>_. {})"
  unfolding gen_defined_def
  by (rule gens_check_defined generating | (auto)[1])+

section \<open>Any node\<close>

lemma rescues_placed:
  assumes "\<forall>c \<in> set (concat (map (\<lambda>r. re_exceptions r @
      (case re_assign r of Some a \<Rightarrow> [a] | None \<Rightarrow> []) @ [re_body r]) rs)). placed il c"
  shows "\<forall>r \<in> set rs. rescue_placed il r"
  using assms by (simp add: rescue_placed_def)

lemma branches_placed:
  assumes "\<forall>c \<in> set (concat (map (\<lambda>b. cb_when b @ [cb_body b]) bs)). placed il c"
  shows "\<forall>b \<in> set bs. branch_placed il b"
  using assms by (simp add: branch_placed_def)

definition good_kind :: "'m mach menv \<Rightarrow> 'm generator \<Rightarrow> node_kind \<Rightarrow> bool" where
  "good_kind M g k \<longleftrightarrow>
     (\<forall>il l m0 n A u. placed il (Annot k l) \<longrightarrow>
        gens (m0, n, il) A (gen_kind M g (Annot k l) u) (\<lambda>_. {}))"

lemma good_kindI:
  assumes "\<And>il l m0 n A u. \<forall>c \<in> set (children (Annot k l)). placed (in_loop k il) c \<Longrightarrow>
    (is_def k \<Longrightarrow> il = False) \<Longrightarrow> gens (m0, n, il) A (gen_kind M g (Annot k l) u) (\<lambda>_. {})"
  shows "good_kind M g k"
  unfolding good_kind_def
proof (intro allI impI)
  fix il l m0 n A u assume p: "placed il (Annot k l)"
  show "gens (m0, n, il) A (gen_kind M g (Annot k l) u) (\<lambda>_. {})"
    using placed_children [OF p] placed_def_node [OF p] by (intro assms) simp_all
qed

lemmas kind_unfold = gen_kind_def Let_def children_def annot.sel node_kind.case in_loop_def

lemma good_kind_atoms:
  assumes "regexp_quiet M"
  shows "good_kind M g NNil" "good_kind M g NSelfValue" "good_kind M g (NBool b)"
    "good_kind M g (NInteger i)" "good_kind M g (NFloat f)" "good_kind M g (NImaginary r)"
    "good_kind M g (NString cs)" "good_kind M g (NSymbol v)" "good_kind M g (NIdent v)"
    "good_kind M g (NLocalVar v)" "good_kind M g (NGlobalVar v)" "good_kind M g (NInstanceVar v)"
    "good_kind M g (NClassVar v)" "good_kind M g (NConst b v)" "good_kind M g (NAssignOp bo x y)"
  by (rule good_kindI, unfold kind_unfold,
      (rule gens_done gens_generators gens_send_code generating | simp add: ops1_def)+)+

lemma good_kind_trees:
  assumes G: "good_gen g" and Q: "regexp_quiet M"
  shows "good_kind M g (NInterporatedString ns)" "good_kind M g (NRegExp ns k)"
    "good_kind M g (NRange x y ex)" "good_kind M g (NArray ns k)" "good_kind M g (NHash kvs k)"
    "good_kind M g (NCommand x)" "good_kind M g (NScope x v)" "good_kind M g (NBinOp b x y)"
    "good_kind M g (NUnOp uo x)" "good_kind M g (NIndex x ns)" "good_kind M g (NSplat x)"
    "good_kind M g (NMulAssign ns ms)" "good_kind M g (NCompStmt ns)" "good_kind M g (NDefined x)"
    "good_kind M g (NAliasMethod x y)"
  by (rule good_kindI, unfold kind_unfold,
      (rule gens_done gens_generators gens_g [OF G] generating G Q | assumption | simp)+)+

lemma option_children: "\<forall>c \<in> set (case x of Some c \<Rightarrow> [c] | None \<Rightarrow> []). P c \<Longrightarrow> x = Some c \<Longrightarrow> P c"
  by simp

lemma good_kind_control:
  assumes G: "good_gen g" and Q: "regexp_quiet M"
  shows "good_kind M g (NIf c t e)" "good_kind M g (NFor vs x y)" "good_kind M g (NWhile c t b)"
    "good_kind M g (NBreak x)" "good_kind M g (NNext x)" "good_kind M g (NReturn x)"
    "good_kind M g (NCase cs bs e)" "good_kind M g (NBegin x rs els en)"
  by (rule good_kindI, unfold kind_unfold set_append ball_Un,
      (rule gens_done generating G Q branches_placed rescues_placed | assumption |
       simp only: list.set ball_simps insert_iff | erule option_children conjE)+)+

lemma good_kind_calls:
  assumes G: "good_gen g" and Q: "regexp_quiet M"
  shows "good_kind M g (NProc ps body lv)" "good_kind M g (NSend r m a sn)" "good_kind M g (NYield a)"
  by (rule good_kindI, unfold kind_unfold,
      (rule gens_done generating G Q | simp add: code_placed_def args_placed_def)+)+

lemma good_kind_defs:
  assumes G: "good_gen g" and Q: "regexp_quiet M"
  shows "good_kind M g (NMethodDef i ps body lv)" "good_kind M g (NSingletonMethodDef sg i ps body lv)"
    "good_kind M g (NClassDef b i x body lv md)" "good_kind M g (NSingletonClassDef sg body lv)"
  by (rule good_kindI, unfold kind_unfold is_def_def,
      simp only: simp_thms, rule gens_definitions gens_class_definitions G, simp_all add: G code_placed_def)+

lemma gens_kind:
  assumes "good_gen g" "regexp_quiet M" "placed il nd"
  shows "gens (m0, n, il) A (gen_kind M g nd u) (\<lambda>_. {})"
proof -
  obtain k l where nd: "nd = Annot k l" by (cases nd)
  have "good_kind M g k"
    by (cases k; simp only: good_kind_atoms [OF assms(2)] good_kind_trees [OF assms(1,2)]
      good_kind_control [OF assms(1,2)] good_kind_calls [OF assms(1,2)] good_kind_defs [OF assms(1,2)])
  with assms(3) show ?thesis unfolding nd good_kind_def by blast
qed

text \<open>\<open>gen\<close> itself, with any fuel.\<close>

lemma good_gen_gen: "regexp_quiet M \<Longrightarrow> good_gen (gen M k)"
proof (induction k)
  case 0
  show ?case unfolding good_gen_def gen.simps by (intro allI impI gens_raise)
next
  case (Suc k)
  then have G: "good_gen (gen M k)" by blast
  show ?case
    unfolding good_gen_def gen.simps
    by (intro allI impI) (rule gens_done gens_kind [OF G Suc.prems] generating | assumption)+
qed

end
