(* ===== verification/CompileFacts.thy ===== *)
theory CompileFacts
  imports GenCode
begin

text \<open>
  What the compiler produces: methods of closed code (theory InterpFacts), on which the interpreter
  never leaves the boundaries of instructions.
\<close>

section \<open>The state of the compiler\<close>

lemma sound_start:
  "sound (length (methods gl), (length (case_dispatch gl), length (case_dispatch2 gl)), False)
     (codegen_new ts gl)"
proof -
  have "boundary [] (length [])" by simp
  then have "good_code [] ts" for ts by (auto simp: good_code_def laid_def opens_def refers_def)
  then show ?thesis
    by (auto simp: sound_def codegen_new_def tabs_def meths_def refers_def opens_def sound_loops_def
        open_loops_def loop_new_top_def sound_context_def gen_context_new_def gen_context_from_def)
qed

text \<open>
  A method whose code parses to its end, in which the starts of some of its instructions, the first
  one and the ends and handlers of its exceptions among them, are closed. (The others are the rest
  of a jump that was replaced by a return.)
\<close>

definition closed_method :: "dispatch \<Rightarrow> method_info \<Rightarrow> bool" where
  "closed_method ts m \<longleftrightarrow>
     (\<exists>info ps. m = RubyFunc info \<and> 0 \<in> set ps \<and> closed_code (icode info) ts ps \<and>
        on_starts (icode info) ps \<and>
        (\<forall>e \<in> set (exception_table info). {ex_start e, ex_end e, ex_dest e} \<subseteq> set ps))"

lemma sound_closed: "sound_method P ts m \<Longrightarrow> closed_method ts m"
  unfolding sound_method_def sound_iseq_def closed_method_def by blast

definition tables_of :: "'m mach \<Rightarrow> dispatch" where
  "tables_of gl = (case_dispatch gl, case_dispatch2 gl)"

lemma compiled_methods:
  fixes gl :: "'m mach"
  assumes Q: "regexp_quiet M" and P: "placed False nd" and S: "small s'"
    and r: "gen_iseq (gen M f) [] nd lv True k None (codegen_new ts gl) = (s', Inr i)"
  shows "unat i = length (methods gl)" "unat i < length (methods (globals s'))"
    "unat i \<le> j \<Longrightarrow> j < length (methods (globals s')) \<Longrightarrow>
     closed_method (tables_of (globals s')) (methods (globals s') ! j)"
    "prefix (methods gl) (methods (globals s'))"
proof -
  let ?K = "(length (methods gl), (length (case_dispatch gl), length (case_dispatch2 gl)), False)"
  have c: "code_placed [] nd" using P by (simp add: code_placed_def param_children_def)
  have g: "gens ?K {} (gen_iseq (gen M f) [] nd lv True k None) (\<lambda>_. {})"
    by (rule gens_code [OF good_gen_gen [OF Q] c])
  note d = gensD [OF g r]
  have s: "sound ?K s'" using d(2) S sound_start by blast
  have m: "meths (codegen_new ts gl) = methods gl" by (simp add: meths_def codegen_new_def)
  show pre: "prefix (methods gl) (methods (globals s'))"
    using d(1) S by (simp add: grows_def small_def m) (simp add: meths_def)
  obtain s2 s3 :: "'m mach codegen" and info where
    i: "i = of_nat (length (methods gl))" and
    b: "gen_body (gen M f) [] nd True None s2 = (s3, Inr info)" and
    s2: "meths s2 = methods gl @ [VoidM]" and s': "\<exists>x. meths s' = (meths s3)[unat i := x]"
    using gen_iseq_run [OF r] by (metis m)
  have "gens ?K {} (gen_body (gen M f) [] nd True None) (\<lambda>_. {})"
    by (rule gens_body [OF good_gen_gen [OF Q] c])
  from gensD(1) [OF this b] have "length (methods gl) < length (meths s3)"
    by (simp add: grows_def s2)
  then have l: "length (methods gl) < length (meths s')" using s' by auto
  then show "unat i = length (methods gl)"
    using S unfolding i by (intro unat_of_nat_32) (simp add: small_def within_def)
  with l show "unat i < length (methods (globals s'))" by (simp add: meths_def)
  show "closed_method (tables_of (globals s')) (methods (globals s') ! j)"
    if "unat i \<le> j" "j < length (methods (globals s'))"
    using sound_closed [OF soundD(7) [OF s, of j]] that \<open>unat i = length (methods gl)\<close>
    by (simp add: meths_def tabs_def tables_of_def)
qed

section \<open>A program\<close>

text \<open>\<open>while true do break end\<close>, compiled and optimized: the jumps to the end became the return.\<close>

definition wnd_loop :: node where
  "wnd_loop =
     Annot (NWhile (Annot (NBool True) (0, 0)) (Annot (NBreak (Annot NNil (0, 0))) (0, 0)) True) (0, 0)"

definition wnd_code :: code where
  "wnd_code = [3, 102, 11, 0, 0, 0, 5, 100, 11, 0, 0, 0, 101, 239, 255, 255, 255, 5, 100, 0, 0, 0, 0]"

definition wnd_optimized :: code where
  "wnd_optimized =
     [3, 102, 11, 0, 0, 0, 5, 104, 104, 104, 104, 104, 101, 239, 255, 255, 255, 5,
      104, 104, 104, 104, 104, 104]"

definition wnd_state :: "code \<Rightarrow> machine \<Rightarrow> machine codegen" where
  "wnd_state c gl =
     \<lparr>method_stack = [3], loop_stack = [loop_new_top],
      context_stack = [gen_context_new, gen_context_from [] (MethodC None)], extern_lvars = [],
      cur_loc = (0, 0), emitted = c, globals = gl\<rparr>"

lemma gen_numeral:
  "gen M (numeral k) n u = bind (set_loc (aloc n)) (\<lambda>_.
     if \<not> u \<and> is_silent (akind n) then ret () else gen_kind M (gen M (pred_numeral k)) n u)"
  by (simp add: numeral_eq_Suc)

lemma wnd_patches:
  "write_disp_from_cur 6 [3, 102, 0, 0, 0, 0, 5, 100, 0, 0, 0, 0, 101, 239, 255, 255, 255] =
     Inr [3, 102, 11, 0, 0, 0, 5, 100, 0, 0, 0, 0, 101, 239, 255, 255, 255]"
  "write_disp_from_cur 12
     [3, 102, 11, 0, 0, 0, 5, 100, 0, 0, 0, 0, 101, 239, 255, 255, 255, 5, 100, 0, 0, 0, 0] = Inr wnd_code"
  "write_disp_from_cur 23 wnd_code = Inr wnd_code"
  "optimize 25 (gen_return wnd_code) = Inr wnd_optimized"
  "nsize wnd_loop = 5" "length (gen_return wnd_code) = 24"
  by code_simp+

lemma wnd_pushes: "push32 0 c = c @ [0, 0, 0, 0]" "push32 (pos_disp 12 0 - 5) c = c @ [239, 255, 255, 255]"
proof -
  show "push32 0 c = c @ [0, 0, 0, 0]" by (simp add: push32_def byte_def)
  have "push32 (pos_disp 12 0 - 5) [] = [239, 255, 255, 255]" by code_simp
  then show "push32 (pos_disp 12 0 - 5) c = c @ [239, 255, 255, 255]" by (simp add: push32_def)
qed

lemma wnd_gen: "gen demo_menv 6 wnd_loop True (wnd_state [] gl) = (wnd_state wnd_code gl, Inr ())"
  by (simp add: gen_numeral wnd_loop_def wnd_state_def gen_kind_def Let_def is_silent_def set_loc_def
      bind_def modify_def ret_def asks_def gen_while_def loop_push_def loop_new_loop_def gen_loop_def
      cur_pos_def gen_jmp_if_false_def push_inst_def emit_def inst0_def emit_at_def gen_jmp_if_f_def
      gen_break_node_def loop_last_def gen_jmp_def add_escape_def gen_jmp_back_def patch_here_def
      steps_def skip_unless_def pop_unless_def gen_push_nil_def loop_pop_def patch_escape_def
      loop_new_top_def wnd_patches wnd_pushes opcode_defs One_nat_def [symmetric] del: One_nat_def)

lemma demo_start_methods:
  "methods demo_start = repo_table_new" "case_dispatch demo_start = []" "case_dispatch2 demo_start = []"
  by (simp_all add: demo_start_def demo_machine_def machine.defs store.defs heap.defs demo_heap_def store_new_def)

lemma wnd_compiled:
  "\<exists>s' info. compile demo_menv wnd_loop lvar_collector_new (codegen_new [] demo_start) = (s', Inr 3) \<and>
     emitted s' = [] \<and> methods (globals s') = repo_table_new @ [RubyFunc info] \<and>
     icode info = wnd_optimized \<and> exception_table info = [] \<and> tables_of (globals s') = ([], [])"
  using wnd_gen [of "demo_start\<lparr>methods := repo_table_new @ [VoidM]\<rparr>"]
  by (simp add: compile_def wnd_patches gen_iseq_def gen_body_def iseq_params_default_def bind_def
      on_globals_def repo_add_def method_id_new_def demo_start_methods repo_table_new_def modify_def
      asks_def method_stack_push_def is_method_ctx_def skip_unless_def new_code_def emit_def ret_def
      context_push_new_def codegen_new_def lvar_collector_new_def wnd_state_def gcontext_pop_def
      context_last_def optimized_def set_loc_def method_stack_pop_def method_update_def repo_update_def
      repo_get_def index_at_def iseq_info_new_def gen_context_from_def tables_of_def)

lemma demo_regexp: "regexp_quiet demo_menv"
  by (simp add: regexp_quiet_def demo_menv_def quiet_def keeps_def)

lemma wnd_placed: "placed False wnd_loop"
  by code_simp

lemma wnd_small:
  assumes "emitted s' = []" "methods (globals s') = repo_table_new @ [RubyFunc info]"
    "icode info = wnd_optimized" "tables_of (globals s') = ([], [])"
  shows "small s'"
  using assms
  by (simp add: small_def within_def meths_def tabs_def tables_of_def repo_table_new_def wnd_optimized_def)

section \<open>Properties\<close>

text \<open>C3. The compiler produces closed code. When \<open>VM::parse_program\<close> or \<open>VM::parse_program_eval\<close>
  compiles a tree in which no definition is inside a \<open>while\<close> loop of its code, without filling a
  table or exceeding 2 GiB of code, the method it returns and every other method it added (of the
  blocks, methods and classes in the program) has code that parses into known instructions to its
  end; among their starts is a set, with 0 and the ends and handlers of the exceptions in it, that is
  closed under going on, jumping and branching through the tables of a \<open>case\<close>, so no jump leads
  inside an instruction or off the code. The methods there were are kept.\<close>

theorem compile_closed:
  fixes gl :: "'m mach"
  assumes "regexp_quiet M" "placed False nd" "small s'"
    "compile M nd lv (codegen_new ts gl) = (s', Inr i) \<or> compile_eval M nd lv (codegen_new ts gl) = (s', Inr i)"
  shows "prefix (methods gl) (methods (globals s')) \<and> unat i = length (methods gl) \<and>
    unat i < length (methods (globals s')) \<and>
    (\<forall>j. unat i \<le> j \<longrightarrow> j < length (methods (globals s')) \<longrightarrow>
       closed_method (tables_of (globals s')) (methods (globals s') ! j))"
proof -
  obtain k where "gen_iseq (gen M (Suc (nsize nd))) [] nd lv True k None (codegen_new ts gl) = (s', Inr i)"
    using assms(4) unfolding compile_def compile_eval_def by blast
  note c = compiled_methods [OF assms(1-3) this]
  show ?thesis using c(1,2,4) c(3) by simp
qed

theorem compile_closed_witness:
  "\<exists>s' info. compile demo_menv wnd_loop lvar_collector_new (codegen_new [] demo_start) = (s', Inr 3) \<and>
     methods (globals s') = repo_table_new @ [RubyFunc info] \<and> icode info = wnd_optimized \<and>
     closed_method ([], []) (RubyFunc info)"
proof -
  obtain s' info where c: "compile demo_menv wnd_loop lvar_collector_new (codegen_new [] demo_start) = (s', Inr 3)"
    "emitted s' = []" "methods (globals s') = repo_table_new @ [RubyFunc info]"
    "icode info = wnd_optimized" "tables_of (globals s') = ([], [])"
    using wnd_compiled by blast
  have "(repo_table_new @ [RubyFunc info]) ! 3 = RubyFunc info" by (simp add: repo_table_new_def)
  then have "closed_method ([], []) (RubyFunc info)"
    using compile_closed [OF demo_regexp wnd_placed wnd_small [OF c(2-5)] disjI1 [OF c(1)]] c(3,5)
    by (auto simp: repo_table_new_def dest: spec [of _ 3])
  with c show ?thesis by blast
qed

text \<open>C4. Compiled code runs on the starts of its instructions. Whatever the compiler produced for a
  program, the loop of the interpreter over it (entered at the start of a method or at a handler of
  its exceptions, with the tables the compiler filled) is the loop that stops with undefined
  behaviour as soon as the program counter is outside a set of starts of its instructions that is
  closed under its successors: no jump that was patched, no displacement in a table of a \<open>case\<close> and no
  instruction rewritten by the optimization leads the interpreter elsewhere.\<close>

theorem compiled_code_runs:
  fixes gl t :: "'m mach"
  assumes "regexp_quiet M" "placed False nd" "small s'"
    "compile M nd lv (codegen_new ts gl) = (s', Inr i)" "natives_settle M"
    "unat i \<le> j" "j < length (methods (globals s'))" "methods (globals s') ! j = RubyFunc info"
    "prefix (case_dispatch (globals s')) (case_dispatch t)"
    "prefix (case_dispatch2 (globals s')) (case_dispatch2 t)"
    "vm_pc (vm t) = 0 \<or> vm_pc (vm t) \<in> ex_dest ` set (exception_table info)"
  shows "\<exists>ps. closed_code (icode info) (tables_of (globals s')) ps \<and> on_starts (icode info) ps \<and>
    exec_loop k (step M (run_context n M) (icode info) v) t =
    exec_loop k (guarded ps (step M (run_context n M) (icode info) v)) t"
proof -
  note c = compiled_methods [OF assms(1,2,3) assms(4)[unfolded compile_def]]
  obtain ps where ps: "0 \<in> set ps" "closed_code (icode info) (tables_of (globals s')) ps"
    "on_starts (icode info) ps" "\<forall>e \<in> set (exception_table info). {ex_start e, ex_end e, ex_dest e} \<subseteq> set ps"
    using c(3) [OF assms(6,7)] assms(8) by (auto simp: closed_method_def)
  have "vm_pc (vm t) \<in> set ps" using assms(11) ps(1,4) by auto
  then have "exec_loop k (step M (run_context n M) (icode info) v) t =
      exec_loop k (guarded ps (step M (run_context n M) (icode info) v)) t"
    using closed_loop [OF _ assms(5), of "run_context n M" ps "icode info" "tables_of (globals s')"]
      run_context_settles [OF assms(5)] closed_allowed [OF ps(2)] assms(9,10)
    by (simp add: tables_of_def)
  with ps(2,3) show ?thesis by blast
qed

theorem compiled_code_runs_witness:
  "\<exists>ps. closed_code wnd_optimized ([], []) ps \<and> on_starts wnd_optimized ps \<and>
     exec_loop 4 (step demo_menv (run_context 2 demo_menv) wnd_optimized 3) (at_pc 0 demo_start) =
     exec_loop 4 (guarded ps (step demo_menv (run_context 2 demo_menv) wnd_optimized 3)) (at_pc 0 demo_start)"
proof -
  obtain s' info where c: "compile demo_menv wnd_loop lvar_collector_new (codegen_new [] demo_start) = (s', Inr 3)"
    "emitted s' = []" "methods (globals s') = repo_table_new @ [RubyFunc info]"
    "icode info = wnd_optimized" "tables_of (globals s') = ([], [])"
    using wnd_compiled by blast
  have "unat (3 :: u32) \<le> 3" "3 < length (methods (globals s'))" "methods (globals s') ! 3 = RubyFunc info"
    using c(3) by (simp_all add: repo_table_new_def)
  from compiled_code_runs [OF demo_regexp wnd_placed wnd_small [OF c(2-5)] c(1) demo_natives this,
      of "at_pc 0 demo_start" 4 2 3] c(4,5)
  show ?thesis by (simp add: tables_of_def at_pc_def)
qed

end
