(* ===== verification/CompileFuel.thy ===== *)
theory CompileFuel
  imports CompileFacts
begin

text \<open>
  The recursion of the compiler is bounded by the size of the tree: a generator that replaces \<open>gen\<close>
  on the nodes smaller than \<open>n\<close> replaces it in every function that compiles a part of \<open>n\<close>.
\<close>

section \<open>Generators that agree on small nodes\<close>

definition agree :: "nat \<Rightarrow> 'm generator \<Rightarrow> 'm generator \<Rightarrow> bool" where
  "agree N g h \<longleftrightarrow> (\<forall>m u. nsize m < N \<longrightarrow> g m u = h m u)"

definition below :: "nat \<Rightarrow> node list \<Rightarrow> bool" where
  "below N ns \<longleftrightarrow> (\<forall>m \<in> set ns. nsize m < N)"

lemma below_simps [simp]:
  "below N []"
  "below N (n # ns) \<longleftrightarrow> nsize n < N \<and> below N ns"
  "below N (ms @ ns) \<longleftrightarrow> below N ms \<and> below N ns"
  "below N (rev ns) \<longleftrightarrow> below N ns"
  by (auto simp: below_def)

lemma below_parts:
  "below N ns \<Longrightarrow> below N (butlast ns)" "below N ns \<Longrightarrow> ns \<noteq> [] \<Longrightarrow> nsize (last ns) < N"
  "below N ns \<Longrightarrow> ns \<noteq> [] \<Longrightarrow> nsize (hd ns) < N"
  by (auto simp: below_def dest: in_set_butlastD)

lemma below_children: "nsize n \<le> N \<Longrightarrow> below N (children n)"
  using child_smaller less_le_trans by (fastforce simp: below_def)

named_theorems agreeing

lemma agreeD [agreeing]: "agree N g h \<Longrightarrow> nsize m < N \<Longrightarrow> g m u = h m u"
  by (simp add: agree_def)

lemma each_agree: "(\<And>x. x \<in> set xs \<Longrightarrow> f x = f' x) \<Longrightarrow> each f xs = each f' xs"
  by (induction xs) simp_all

lemma gather_agree: "(\<And>x. x \<in> set xs \<Longrightarrow> f x = f' x) \<Longrightarrow> gather f xs = gather f' xs"
  by (induction xs) simp_all

lemma each_nodes [agreeing]:
  "agree N g h \<Longrightarrow> below N ns \<Longrightarrow> each (\<lambda>n. g n u) ns = each (\<lambda>n. h n u) ns"
  by (rule each_agree) (simp add: below_def agreeD)

section \<open>Assignments, parameters and bodies\<close>

lemma one_index_below: "one_index ix = Some i \<Longrightarrow> below N ix \<Longrightarrow> nsize i < N"
  by (auto simp: one_index_def split: list.splits if_splits)

lemma agree_assign [agreeing]:
  assumes "agree N g h" "nsize l \<le> N"
  shows "gen_assign M g l = gen_assign M h l"
  using below_children [OF assms(2)] assms(1)
  by (auto simp: gen_assign_def children_def agreeing split: node_kind.splits option.splits
      dest: one_index_below)

lemma agree_assign_val [agreeing]:
  "agree N g h \<Longrightarrow> nsize r < N \<Longrightarrow> gen_assign_val g r u = gen_assign_val h r u"
  by (simp add: gen_assign_val_def agreeing)

lemma agree_assign2 [agreeing]:
  assumes "agree N g h" "nsize l \<le> N" "nsize r < N"
  shows "gen_assign2 M g l r u = gen_assign2 M h l r u"
  using below_children [OF assms(2)] assms(1,3)
  by (auto simp: gen_assign2_def gen_assign_index_def children_def agreeing Let_def
      split: node_kind.splits option.splits dest: one_index_below)

lemma agree_comp_stmt [agreeing]:
  "agree N g h \<Longrightarrow> below N ns \<Longrightarrow> gen_comp_stmt g ns u = gen_comp_stmt h ns u"
  by (auto simp: gen_comp_stmt_def agreeing below_parts split: list.splits)

lemma agree_default_expr [agreeing]:
  "agree N g h \<Longrightarrow> nsize d < N \<Longrightarrow> gen_default_expr g i d = gen_default_expr h i d"
  by (simp add: gen_default_expr_def agreeing)

lemma agree_params [agreeing]:
  "agree N g h \<Longrightarrow> below N (param_children ps) \<Longrightarrow> gen_params g k ps = gen_params h k ps"
proof (induction ps arbitrary: k)
  case (Cons p ps)
  then have "gen_params g j ps = gen_params h j ps" for j by (simp add: param_children_def)
  then have "gen_params g k (p # ps) q = gen_params h k (p # ps) q" for q
    using Cons.prems
    by (auto simp: param_children_def agreeing Let_def split: param_kind.splits option.splits)
  then show ?case by (rule ext)
qed (rule ext, simp)

lemma agree_iseq [agreeing]:
  assumes "agree N g h" "below N (param_children ps)" "nsize n < N"
  shows "gen_iseq g ps n lv u k fors = gen_iseq h ps n lv u k fors"
    "gen_block g ps n lv fors = gen_block h ps n lv fors"
  using assms by (simp_all add: gen_block_def gen_iseq_def gen_body_def agreeing)

section \<open>Expressions\<close>

lemma agree_jmp_if_false [agreeing]:
  assumes "agree N g h" "nsize c < N"
  shows "gen_jmp_if_false g c = gen_jmp_if_false h c"
  using below_children [OF less_imp_le [OF assms(2)]] assms
  by (auto simp: gen_jmp_if_false_def children_def agreeing Let_def split: node_kind.splits option.splits)

lemma agree_pieces [agreeing]:
  "agree N g h \<Longrightarrow> below N ns \<Longrightarrow> gen_pieces M g ns c = gen_pieces M h ns c"
proof (induction ns arbitrary: c)
  case (Cons n ns)
  then have "below N (children n)" by (auto intro: below_children)
  with Cons show ?case by (auto simp: children_def agreeing split: node_kind.splits)
qed simp

lemma agree_regexp_piece:
  assumes "agree N g h" "nsize n < N"
  shows "gen_regexp_piece M g n = gen_regexp_piece M h n"
  using below_children [OF less_imp_le [OF assms(2)]] assms(1)
  by (auto simp: gen_regexp_piece_def children_def agreeing split: node_kind.splits)

lemma agree_strings [agreeing]:
  assumes "agree N g h" "below N ns"
  shows "gen_interpolated M g ns u = gen_interpolated M h ns u"
    "gen_regexp M g ns b u = gen_regexp M h ns b u"
    "gen_array M g d ns b u = gen_array M h d ns b u"
proof -
  have "each (gen_regexp_piece M g) ns = each (gen_regexp_piece M h) ns"
    using assms by (intro each_agree agree_regexp_piece) (auto simp: below_def)
  with assms show "gen_regexp M g ns b u = gen_regexp M h ns b u" by (simp add: gen_regexp_def)
qed (use assms in \<open>simp_all add: gen_interpolated_def gen_array_def agreeing\<close>)

lemma agree_hash [agreeing]:
  assumes "agree N g h" "below N (concat (map (\<lambda>(k, v). [k, v]) kvs))"
  shows "gen_hash M g d kvs b u = gen_hash M h d kvs b u"
proof -
  have "set [k, v] \<subseteq> set (concat (map (\<lambda>(k, v). [k, v]) kvs))" if "(k, v) \<in> set kvs" for k v
    using that by force
  with assms(2) have "nsize k < N" "nsize v < N" if "(k, v) \<in> set kvs" for k v
    using that unfolding below_def by (meson list.set_intros subsetD)+
  with assms(1) have "gen_pair g p = gen_pair h p" if "p \<in> set kvs" for p
    using that by (cases p) (simp add: gen_pair_def agreeing)
  then have "each (gen_pair g) kvs = each (gen_pair h) kvs" by (rule each_agree)
  then show ?thesis by (simp add: gen_hash_def)
qed

lemma agree_binop [agreeing]:
  assumes "agree N g h" "nsize a < N" "nsize b < N"
  shows "gen_range g l a b e u = gen_range h l a b e u" "gen_binop M g l bo a b u = gen_binop M h l bo a b u"
  using assms
  by (cases bo; simp add: gen_range_def gen_binop_def gen_operator_def binop_imm_def binop_plain_def
      gen_land_def gen_lor_def agreeing split: option.splits)+

lemma agree_unop [agreeing]:
  "agree N g h \<Longrightarrow> nsize a < N \<Longrightarrow> gen_unop g l uo a u = gen_unop h l uo a u"
  by (simp add: gen_unop_def agreeing)

lemma agree_index [agreeing]:
  "agree N g h \<Longrightarrow> nsize a < N \<Longrightarrow> below N ix \<Longrightarrow> gen_index g l a ix u = gen_index h l a ix u"
  by (auto simp: gen_index_def agreeing split: option.splits dest: one_index_below)

section \<open>Control\<close>

lemma agree_if [agreeing]:
  "agree N g h \<Longrightarrow> nsize c < N \<Longrightarrow> nsize t < N \<Longrightarrow> nsize e < N \<Longrightarrow> gen_if g c t e u = gen_if h c t e u"
  by (simp add: gen_if_def agreeing cong: if_cong)

lemma agree_for [agreeing]:
  assumes "agree N g h" "nsize it < N" "nsize b < N"
  shows "gen_for_node g vs it b u = gen_for_node h vs it b u"
  using below_children [OF less_imp_le [OF assms(3)]] assms
  by (auto simp: gen_for_node_def children_def agreeing split: node_kind.splits)

lemma agree_while [agreeing]:
  "agree N g h \<Longrightarrow> nsize c < N \<Longrightarrow> nsize b < N \<Longrightarrow> gen_while g c b co u = gen_while h c b co u"
  by (simp add: gen_while_def gen_loop_def agreeing)

lemma agree_ensure [agreeing]:
  "agree N g h \<Longrightarrow> (\<And>n. en = Some n \<Longrightarrow> nsize n < N) \<Longrightarrow> gen_ensure g en = gen_ensure h en"
  by (auto simp: gen_ensure_def agreeing split: option.splits)

definition rescue_below :: "nat \<Rightarrow> node rescue_entry \<Rightarrow> bool" where
  "rescue_below N r \<longleftrightarrow>
     below N (re_exceptions r @ (case re_assign r of Some a \<Rightarrow> [a] | None \<Rightarrow> []) @ [re_body r])"

lemma agree_rescues [agreeing]:
  assumes "agree N g h"
  shows "\<forall>r \<in> set rs. rescue_below N r \<Longrightarrow> gen_rescues M g u rs p = gen_rescues M h u rs p"
proof (induction rs arbitrary: p)
  case (Cons r rs)
  then have "gen_rescue M g u r q = gen_rescue M h u r q" for q
    using assms
    by (auto simp: gen_rescue_def gen_rescue_test_def rescue_below_def agreeing split: option.splits)
  with Cons show ?case by simp
qed simp

lemma agree_begin [agreeing]:
  assumes "agree N g h" "nsize b < N" "\<forall>r \<in> set rs. rescue_below N r"
    "\<And>n. el = Some n \<Longrightarrow> nsize n < N" "\<And>n. en = Some n \<Longrightarrow> nsize n < N"
  shows "gen_begin M g l b rs el en u = gen_begin M h l b rs el en u"
proof -
  note e = agree_ensure [OF assms(1,5)]
  have "gen_rescue_part M g l rs en u = gen_rescue_part M h l rs en u"
    using agree_rescues [OF assms(1,3)] e by (simp add: gen_rescue_part_def)
  moreover have "gen_return_paths g l en jd = gen_return_paths h l en jd" for jd
    using e by (simp add: gen_return_paths_def gen_return_path_def)
  moreover have "(case el of Some e \<Rightarrow> bind (skip_unless u gen_pop) (\<lambda>_. g e u) | None \<Rightarrow> ret ()) =
      (case el of Some e \<Rightarrow> bind (skip_unless u gen_pop) (\<lambda>_. h e u) | None \<Rightarrow> ret ())"
    using assms(1,4) by (auto simp: agreeing split: option.splits)
  ultimately show ?thesis using assms(1,2) e by (simp add: gen_begin_def agreeing)
qed

lemma agree_branches [agreeing]:
  assumes "agree N g h" "below N (concat (map (\<lambda>b. cb_when b @ [cb_body b]) bs))"
  shows "gen_case_ints g lo hi bs u = gen_case_ints h lo hi bs u"
    "gen_case_table M g bs u = gen_case_table M h bs u"
    "gen_case_general g bs u = gen_case_general h bs u"
    "gather (gen_guarded g u) bs = gather (gen_guarded h u) bs"
proof -
  have w: "gather (gen_when_test g) ns = gather (gen_when_test h) ns"
    "gather (gen_guard g) ns = gather (gen_guard h) ns" if "below N ns" for ns
    using that assms(1)
    by (auto intro!: gather_agree simp: gen_when_test_def gen_guard_def below_def agreeing)
  have "gen_branches2 g st u bs t = gen_branches2 h st u bs t" for st t
    using assms by (induction bs arbitrary: t) (simp_all add: agreeing)
  then show "gen_case_ints g lo hi bs u = gen_case_ints h lo hi bs u" by (simp add: gen_case_ints_def)
  have "gather (gen_branch M g i st u) bs = gather (gen_branch M h i st u) bs" for i st
    using assms by (intro gather_agree) (fastforce simp: gen_branch_def below_def agreeing)
  then show "gen_case_table M g bs u = gen_case_table M h bs u" by (simp add: gen_case_table_def)
  have "gen_case_tests g u bs nx = gen_case_tests h u bs nx" for nx
    using assms by (induction bs arbitrary: nx) (simp_all add: agreeing w)
  then show "gen_case_general g bs u = gen_case_general h bs u" by (simp add: gen_case_general_def)
  show "gather (gen_guarded g u) bs = gather (gen_guarded h u) bs"
    using assms(2) by (induction bs) (simp_all add: gen_guarded_def w agreeD [OF assms(1)])
qed

lemma agree_case [agreeing]:
  assumes "agree N g h" "\<And>n. c = Some n \<Longrightarrow> nsize n < N" "nsize e < N"
    "below N (concat (map (\<lambda>b. cb_when b @ [cb_body b]) bs))"
  shows "gen_case M g c bs e u = gen_case M h c bs e u"
  using assms by (cases c) (auto simp: gen_case_def agreeing split: prod.splits)

lemma agree_first [agreeing]:
  "agree N g h \<Longrightarrow> below N ns \<Longrightarrow> gen_first g k ns = gen_first h k ns"
  by (induction ns arbitrary: k) (simp_all add: agreeing)

lemma agree_mul_assign [agreeing]:
  assumes "agree N g h" "below N ls" "below N rs"
  shows "gen_mul_assign M g ls rs u = gen_mul_assign M h ls rs u"
proof -
  have a: "each (gen_assign M g) (rev ls) = each (gen_assign M h) (rev ls)"
    using assms by (intro each_agree agree_assign [OF assms(1)]) (auto simp: below_def less_imp_le)
  have r: "nsize (hd rs) < N" if "length rs = Suc 0" using that assms(3) by (cases rs) auto
  have l: "nsize (hd ls) < N" if "length ls = Suc 0" using that assms(2) by (cases ls) auto
  have "gen_single_assign M g (hd ls) (hd rs) u = gen_single_assign M h (hd ls) (hd rs) u"
    if "length ls = Suc 0" "length rs = Suc 0"
    using agree_assign2 [OF assms(1) less_imp_le [OF l [OF that(1)]] r [OF that(2)]]
    by (simp add: gen_single_assign_def cong: option.case_cong)
  then show ?thesis using assms a r by (simp add: gen_mul_assign_def Let_def agreeing)
qed

section \<open>Calls and definitions\<close>

lemma agree_block_arg [agreeing]:
  assumes "agree N g h" "\<And>n. b = Some n \<Longrightarrow> nsize n < N"
  shows "gen_block_arg g b = gen_block_arg h b"
proof (cases b)
  case (Some n)
  then have "below N (children n)" using assms(2) by (auto intro: below_children)
  with Some assms show ?thesis
    by (auto simp: gen_block_arg_def children_def agreeing split: node_kind.splits)
qed (simp add: gen_block_arg_def)

lemma below_args:
  assumes "below N (arg_children a)"
  shows "below N (al_args a)" "below N (al_kw_rest a)" "below N (map snd (al_kw_args a))"
    "\<And>n. al_block a = Some n \<Longrightarrow> nsize n < N"
  using assms by (auto simp: arg_children_def)

lemma agree_send [agreeing]:
  assumes "agree N g h" "nsize r < N" "below N (arg_children a)"
  shows "gen_send_node g l r me a sn u = gen_send_node h l r me a sn u"
proof -
  note b = below_args [OF assms(3)]
  have "gen_kw_arg g p = gen_kw_arg h p" if "p \<in> set (al_kw_args a)" for p
    using that b(3) assms(1) by (auto simp: gen_kw_arg_def below_def agreeing)
  then have k: "each (gen_kw_arg g) (al_kw_args a) = each (gen_kw_arg h) (al_kw_args a)"
    by (rule each_agree)
  have o: "gen_opt_send_node g l r me sn na blk u = gen_opt_send_node h l r me sn na blk u" for na blk
    using assms by (simp add: gen_opt_send_node_def agreeing)
  show ?thesis
    using assms(1,2) b k o by (simp add: gen_send_node_def Let_def agreeing cong: if_cong)
qed

lemma agree_yield [agreeing]:
  "agree N g h \<Longrightarrow> below N (arg_children a) \<Longrightarrow> gen_yield_node g a u = gen_yield_node h a u"
  by (simp add: gen_yield_node_def agreeing below_args)

lemma agree_defs [agreeing]:
  assumes "agree N g h" "below N (param_children ps)" "nsize b < N"
  shows "gen_method_def g i ps b lv u = gen_method_def h i ps b lv u"
    "gen_proc g ps b lv u = gen_proc h ps b lv u"
    "nsize s < N \<Longrightarrow> gen_singleton_method_def g s i ps b lv u = gen_singleton_method_def h s i ps b lv u"
  using assms by (simp_all add: gen_method_def_def gen_proc_def gen_singleton_method_def_def agreeing)

lemma agree_classes [agreeing]:
  assumes "agree N g h" "nsize b < N" "nsize s < N"
  shows "nsize c < N \<Longrightarrow> gen_class_def g l s i c b lv am u = gen_class_def h l s i c b lv am u"
    "gen_singleton_class_def M g l s b lv u = gen_singleton_class_def M h l s b lv u"
  using assms
  by (simp_all add: gen_class_def_def gen_singleton_class_def_def agreeing param_children_def)

lemma agree_leave [agreeing]:
  assumes "agree N g h" "nsize v < N"
  shows "gen_return_node g l v = gen_return_node h l v" "gen_break_node g l v = gen_break_node h l v"
    "gen_next_node g v u = gen_next_node h v u"
  using assms
  by (simp_all add: gen_return_node_def gen_break_node_def gen_next_node_def agreeing
      cong: if_cong context_kind.case_cong)

section \<open>Any node\<close>

lemma agree_kind:
  assumes "agree (nsize n) g h"
  shows "gen_kind M g n u = gen_kind M h n u"
proof -
  have c: "below (nsize n) (children n)" by (rule below_children) simp
  show ?thesis
  proof (cases "akind n")
    case (NBegin b rs el en)
    then have "\<forall>r \<in> set rs. rescue_below (nsize n) r"
      using c by (auto simp: children_def below_def rescue_below_def)
    with NBegin c assms show ?thesis
      by (auto simp: gen_kind_def children_def Let_def intro!: agree_begin)
  next
    case (NCase co bs e)
    with c assms show ?thesis
      by (auto simp: gen_kind_def children_def Let_def simp del: map_map intro!: agree_case)
  qed (use c assms in \<open>simp_all add: gen_kind_def children_def Let_def agreeing\<close>)
qed

text \<open>One level of the recursion, and what it computes from any generator for the parts.\<close>

definition gen_level :: "'m mach menv \<Rightarrow> 'm generator \<Rightarrow> 'm generator" where
  "gen_level M g n u =
     bind (set_loc (aloc n)) (\<lambda>_.
       if \<not> u \<and> is_silent (akind n) then ret () else gen_kind M g n u)"

lemma gen_levels: "gen M k = (gen_level M ^^ k) (\<lambda>n u. raise Undef)"
proof (induction k)
  case (Suc k)
  have "gen M (Suc k) = gen_level M (gen M k)" by (intro ext) (simp add: gen_level_def)
  with Suc show ?case by simp
qed (intro ext, simp)

lemma levels_agree: "agree k ((gen_level M ^^ k) g) ((gen_level M ^^ k) h)"
proof (induction k)
  case (Suc k)
  have "gen_level M ((gen_level M ^^ k) g) n u = gen_level M ((gen_level M ^^ k) h) n u"
    if "nsize n < Suc k" for n u
  proof -
    have "agree (nsize n) ((gen_level M ^^ k) g) ((gen_level M ^^ k) h)"
      using Suc that by (simp add: agree_def)
    from agree_kind [OF this] show ?thesis by (simp add: gen_level_def cong: if_cong)
  qed
  then show ?case by (simp add: agree_def)
qed (simp add: agree_def)

lemma enough_levels:
  assumes "nsize n < k"
  shows "(gen_level M ^^ k) g n u = gen M (Suc (nsize n)) n u"
proof -
  have "(gen_level M ^^ (j + i)) g = (gen_level M ^^ j) ((gen_level M ^^ i) g)" for i j
    by (simp add: funpow_add)
  moreover obtain i where "k = Suc (nsize n) + i" using assms less_eq_Suc_le le_Suc_ex by blast
  moreover have "(gen_level M ^^ Suc (nsize n)) g n u = (gen_level M ^^ Suc (nsize n)) h n u" for g h
    using levels_agree [of "Suc (nsize n)" M] unfolding agree_def by blast
  ultimately show ?thesis unfolding gen_levels [of M "Suc (nsize n)"] by metis
qed

lemma const_pairs_agree:
  "(\<And>p. p \<in> set kvs \<Longrightarrow> f (fst p) = f' (fst p) \<and> f (snd p) = f' (snd p)) \<Longrightarrow>
   const_pairs M f kvs t = const_pairs M f' kvs t"
proof (induction kvs arbitrary: t)
  case (Cons p kvs)
  then have "const_pairs M f kvs = const_pairs M f' kvs" by (intro ext) simp
  with Cons.prems [of p] show ?case by (cases p) simp
qed simp

lemma const_expr_agree:
  "nsize n < j \<Longrightarrow> nsize n < k \<Longrightarrow> const_expr M j n = const_expr M k n"
proof (induction j arbitrary: n k)
  case (Suc j)
  then obtain k' where k: "k = Suc k'" by (cases k) auto
  have c: "const_expr M j m = const_expr M k' m" if "m \<in> set (children n)" for m
    using child_smaller [OF that] Suc.prems by (intro Suc.IH) (simp_all add: k)
  show ?case
  proof (cases "akind n")
    case (NArray ns b)
    then have "gather (const_expr M j) ns = gather (const_expr M k') ns"
      using c by (intro gather_agree) (simp add: children_def)
    with NArray show ?thesis by (simp add: k const_array_def)
  next
    case (NHash kvs b)
    then have "const_pairs M (const_expr M j) kvs t = const_pairs M (const_expr M k') kvs t" for t
      using c by (intro const_pairs_agree) (force simp: children_def)
    with NHash show ?thesis by (simp add: k const_hash_def)
  qed (simp_all add: k)
qed simp

lemma check_defined_agree:
  "nsize n < j \<Longrightarrow> nsize n < k \<Longrightarrow> (check_defined j n :: ('g codegen, nat list) eff) = check_defined k n"
proof (induction j arbitrary: n k)
  case (Suc j)
  then obtain k' where k: "k = Suc k'" by (cases k) auto
  have c: "(check_defined j m :: ('g codegen, nat list) eff) = check_defined k' m" if "m \<in> set (children n)" for m
    using child_smaller [OF that] Suc.prems by (intro Suc.IH) (simp_all add: k)
  have "check_each (check_defined j) ms = (check_each (check_defined k') ms :: ('g codegen, nat list) eff)"
    if "set ms \<subseteq> set (children n)" for ms
    using that c by (auto simp: check_each_def intro!: gather_agree arg_cong2 [of _ _ _ _ bind])
  note e = this
  show ?case
  proof (cases "akind n")
    case (NSend r me a sn)
    then have "set (r # al_args a) \<subseteq> set (children n)" by (auto simp: children_def arg_children_def)
    with e NSend show ?thesis by (simp add: k)
  qed (use c e in \<open>simp_all add: k children_def\<close>)
qed simp

section \<open>Property\<close>

text \<open>C6. The recursion of the compiler ends: it is never deeper than the size of the tree, so that
  \<open>compile\<close>, which starts it with one level more, does not depend on what the exhausted recursion
  would do (\<open>g\<close>), and neither do the constants the compiler evaluates nor the operator \<open>defined?\<close>.\<close>

theorem compile_fuel:
  fixes g :: "'m generator"
  assumes "nsize n < k"
  shows "(gen_level M ^^ k) g n u = gen M (Suc (nsize n)) n u \<and>
    const_expr M k n = const_expr M (Suc (nsize n)) n \<and>
    (check_defined k n :: ('g codegen, nat list) eff) = check_defined (Suc (nsize n)) n"
  using enough_levels [OF assms] const_expr_agree [OF assms lessI] check_defined_agree [OF assms lessI]
  by blast

theorem compile_fuel_witness:
  "(gen_level demo_menv ^^ 9) (\<lambda>_ _. raise Panic) wnd_loop True = gen demo_menv 6 wnd_loop True"
proof -
  have "nsize wnd_loop < 9" by (simp add: wnd_patches)
  from compile_fuel [OF this, THEN conjunct1] have
    "(gen_level demo_menv ^^ 9) (\<lambda>_ _. raise Panic) wnd_loop True = gen demo_menv (Suc 5) wnd_loop True"
    unfolding wnd_patches .
  then show ?thesis by (simp del: gen.simps)
qed

end
