(* ===== verification/CaseTables.thy ===== *)
theory CaseTables
  imports Codegen InterpFacts
begin

text \<open>
  The table of a \<open>case\<close> over integers (\<open>gen_case_ints\<close>): which clause the instruction \<open>OPT_CASE2\<close>
  jumps to.
\<close>

definition when_ints :: "node case_branch \<Rightarrow> i64 set" where
  "when_ints b = {i. \<exists>n \<in> set (cb_when b). akind n = NInteger i}"

text \<open>The scan of the clauses bounds their integers.\<close>

lemma scan_whens_bounds:
  "scan_whens ns (b, lo, hi) = (True, True, lo', hi') \<Longrightarrow>
   b \<and> lo' \<le>s lo \<and> hi \<le>s hi' \<and> (\<forall>n \<in> set ns. \<exists>i. akind n = NInteger i \<and> lo' \<le>s i \<and> i \<le>s hi')"
proof (induction ns arbitrary: b lo hi)
  case (Cons n ns)
  then obtain i where i: "akind n = NInteger i"
    by (auto split: node_kind.splits)
  let ?lo = "if i <s lo then i else lo" and ?hi = "if hi <s i then i else hi"
  have "b \<and> lo' \<le>s ?lo \<and> ?hi \<le>s hi' \<and> (\<forall>n \<in> set ns. \<exists>i. akind n = NInteger i \<and> lo' \<le>s i \<and> i \<le>s hi')"
    using Cons.prems i by (intro Cons.IH) simp
  then show ?case
    using i by (auto simp: word_sle_eq word_sless_alt split: if_splits)
qed simp

lemma case_kind_bounds:
  assumes "case_kind bs = (True, True, lo, hi)" "b \<in> set bs" "i \<in> when_ints b"
  shows "lo \<le>s i" "i \<le>s hi"
proof -
  obtain n where n: "n \<in> set (concat (map cb_when bs))" "akind n = NInteger i"
    using assms(2,3) by (auto simp: when_ints_def)
  from scan_whens_bounds [OF assms(1)[unfolded case_kind_def]] n
  show "lo \<le>s i" "i \<le>s hi" by force+
qed

text \<open>A clause overwrites what the table has for its integers.\<close>

lemma add_ints_map:
  "add_ints d ns t = Inr t' \<Longrightarrow>
   map_of t' i = (if \<exists>n \<in> set ns. akind n = NInteger i then Some d else map_of t i)"
  by (induction ns arbitrary: t)
    (auto simp: update_conv' split: node_kind.splits if_splits)

definition pick :: "i64 \<Rightarrow> node case_branch list \<Rightarrow> i32 list \<Rightarrow> i32 \<Rightarrow> i32" where
  "pick i bs ds d = last (d # map snd (filter (\<lambda>(b, e). i \<in> when_ints b) (zip bs ds)))"

lemma pick_simps:
  "pick i [] ds d = d"
  "pick i (b # bs) (e # ds) d = pick i bs ds (if i \<in> when_ints b then e else d)"
  by (auto simp: pick_def)

text \<open>Where the bodies of the clauses start: each is emitted at the end of the code there is, and the
  jump to the end of the \<open>case\<close> after it.\<close>

fun clause_starts ::
    "'m generator \<Rightarrow> bool \<Rightarrow> node case_branch list \<Rightarrow> 'm mach codegen \<Rightarrow> nat list" where
  "clause_starts g u [] s = []"
| "clause_starts g u (b # bs) s =
     length (emitted s) #
     clause_starts g u bs (fst (bind (g (cb_body b) u) (\<lambda>_. emit_at gen_jmp) s))"

lemma clause_starts_length: "length (clause_starts g u bs s) = length bs"
  by (induction bs arbitrary: s) simp_all

lemma branches2_pick:
  "gen_branches2 g start u bs t s = (s', Inr (t', ends)) \<Longrightarrow>
   (case map_of t' i of Some e \<Rightarrow> e | None \<Rightarrow> d) =
     pick i bs (map (pos_disp start) (clause_starts g u bs s)) (case map_of t i of Some e \<Rightarrow> e | None \<Rightarrow> d)"
proof (induction bs arbitrary: t s ends)
  case (Cons b bs)
  let ?e = "pos_disp start (length (emitted s))"
    and ?s = "fst (bind (g (cb_body b) u) (\<lambda>_. emit_at gen_jmp) s)"
  from Cons.prems obtain t1 ends1 where
    a: "add_ints ?e (cb_when b) t = Inr t1" and r: "gen_branches2 g start u bs t1 ?s = (s', Inr (t', ends1))"
    by (auto simp: bind_def asks_def ret_def disp_from_def cur_pos_def split: prod.splits sum.splits)
  have "(case map_of t1 i of Some e \<Rightarrow> e | None \<Rightarrow> d) =
        (if i \<in> when_ints b then ?e else case map_of t i of Some e \<Rightarrow> e | None \<Rightarrow> d)"
    by (simp add: add_ints_map [OF a] when_ints_def)
  with Cons.IH [OF r] show ?case by (simp add: pick_simps)
qed (simp add: ret_def pick_simps)

lemma add_ints_keys:
  "add_ints d ns t = Inr t' \<Longrightarrow> distinct (map fst t) \<Longrightarrow>
   distinct (map fst t') \<and> fst ` set t' = fst ` set t \<union> {i. \<exists>n \<in> set ns. akind n = NInteger i}"
proof (induction ns arbitrary: t)
  case (Cons n ns)
  then obtain i where i: "akind n = NInteger i" by (auto split: node_kind.splits)
  have k: "fst ` set (AList.update i d t) = insert i (fst ` set t)" by (simp add: dom_update)
  from Cons.prems i have "add_ints d ns (AList.update i d t) = Inr t'" by simp
  from Cons.IH [OF this distinct_update [OF Cons.prems(2)]] i k show ?case by auto
qed simp

lemma branches2_keys:
  "gen_branches2 g start u bs t s = (s', Inr (t', ends)) \<Longrightarrow> distinct (map fst t) \<Longrightarrow>
   distinct (map fst t') \<and> fst ` set t' = fst ` set t \<union> \<Union> (when_ints ` set bs)"
proof (induction bs arbitrary: t s ends)
  case (Cons b bs)
  then obtain e t1 s1 ends1 where
    a: "add_ints e (cb_when b) t = Inr t1" and r: "gen_branches2 g start u bs t1 s1 = (s', Inr (t', ends1))"
    by (auto simp: bind_def asks_def ret_def split: prod.splits sum.splits)
  from Cons.IH [OF r] add_ints_keys [OF a Cons.prems(2)] show ?case by (auto simp: when_ints_def)
qed (auto simp: ret_def)

text \<open>The vector of the table, by position.\<close>

lemma unat_offset:
  fixes i lo hi :: i64
  assumes "lo \<le>s i" "i \<le>s hi"
  shows "unat (i - lo) = nat (sint i - sint lo)"
proof -
  have b: "0 \<le> sint i - sint lo" "sint i - sint lo < 2 ^ 64"
    using assms sint_ge [of lo] sint_lt [of i] by (auto simp: word_sle_eq)
  have "uint (i - lo) = uint (word_of_int (sint i - sint lo) :: i64)"
    by (simp add: wi_hom_sub [symmetric])
  also have "\<dots> = (sint i - sint lo) mod 2 ^ 64" by (simp only: uint_word_of_int) simp
  finally have "uint (i - lo) = (sint i - sint lo) mod 2 ^ 64" .
  then show ?thesis using b by (simp add: unat_eq_nat_uint)
qed

lemma fill_disps_nth:
  "fill_disps lo t v = Inr w \<Longrightarrow> distinct (map fst t) \<Longrightarrow>
   (\<forall>j \<in> fst ` set t \<union> {i}. lo \<le>s j \<and> j \<le>s hi) \<Longrightarrow> unat (i - lo) < length v \<Longrightarrow>
   length w = length v \<and>
   w ! unat (i - lo) = (case map_of t i of Some e \<Rightarrow> sint e | None \<Rightarrow> v ! unat (i - lo))"
proof (induction t arbitrary: v)
  case (Cons p t)
  obtain j e where p: "p = (j, e)" by (cases p)
  let ?v = "v[unat (j - lo) := sint e]"
  have r: "fill_disps lo t ?v = Inr w" using Cons.prems(1) p by (simp split: if_splits)
  have off: "unat (k - lo) = nat (sint k - sint lo)" "0 \<le> sint k - sint lo" if "k \<in> {i, j}" for k
    using that Cons.prems(3) p unat_offset [of lo k hi] by (auto simp: word_sle_eq)
  have "unat (i - lo) = unat (j - lo) \<longleftrightarrow> i = j"
    using off by (auto simp: eq_nat_nat_iff signed_word_eqI)
  moreover have "map_of t i = None" if "i = j" using Cons.prems(2) p that by (simp add: map_of_eq_None_iff)
  ultimately show ?case
    using Cons.IH [OF r] Cons.prems(2-4) p by (auto split: option.splits)
qed auto

section \<open>Property\<close>

text \<open>C7. A \<open>case\<close> over integers takes the last clause that lists the value. The vector the compiler
  fills for the clauses has, for every integer between the smallest and the largest, the displacement
  from the end of the instruction to the place where the body of the last clause with that integer was
  emitted, and the displacement of \<open>else\<close> when there is none; so of two clauses with the same integer
  the later one is taken.\<close>

theorem case_table_last:
  assumes "case_kind bs = (True, True, lo, hi)"
    "gen_branches2 g start u bs [] s = (s', Inr (t, ends))" "case_vector lo hi d t = Inr v"
    "lo \<le>s i" "i \<le>s hi"
  shows "index_at v (unat (i - lo)) =
    Inr (sint (pick i bs (map (pos_disp start) (clause_starts g u bs s)) d))"
proof -
  have ds: "(case map_of t i of Some e \<Rightarrow> e | None \<Rightarrow> d) =
      pick i bs (map (pos_disp start) (clause_starts g u bs s)) d"
    using branches2_pick [OF assms(2), where i = i and d = d] by simp
  have k: "distinct (map fst t)" "fst ` set t = \<Union> (when_ints ` set bs)"
    using branches2_keys [OF assms(2)] by auto
  have b: "\<forall>j \<in> fst ` set t \<union> {i}. lo \<le>s j \<and> j \<le>s hi"
    using k(2) case_kind_bounds [OF assms(1)] assms(4,5) by auto
  let ?n = "unat (hi - lo + 1)"
  from assms(3) have f: "fill_disps lo t (replicate ?n (sint d)) = Inr v" and n: "4 * ?n \<le> 2 ^ 63 - 1"
    by (auto simp: case_vector_def Let_def split: if_splits)
  have "hi - lo + 1 \<noteq> 0"
  proof
    assume "hi - lo + 1 = 0"
    with f have "t = []" by (cases t) auto
    with k(2) have e: "when_ints b = {}" if "b \<in> set bs" for b using that by auto
    have "\<not> n \<in> set (concat (map cb_when bs))" for n
      using scan_whens_bounds [OF assms(1)[unfolded case_kind_def]] e by (fastforce simp: when_ints_def)
    then have "concat (map cb_when bs) = []" by (metis last_in_set)
    with assms(1,4,5) show False by (simp add: case_kind_def word_sle_eq)
  qed
  then have "unat (i - lo) < ?n"
    using unat_offset [OF assms(4,5)] unat_offset [of lo hi hi] assms(4,5)
    by (simp add: unatSuc [of "hi - lo"] word_sle_eq add.commute)
  with fill_disps_nth [OF f k(1) b] ds show ?thesis
    by (auto simp: index_at_def split: option.splits)
qed

definition twice_one :: "node case_branch list" where
  "twice_one =
     [CaseBranch [Annot (NInteger 1) (0, 0)] (Annot NNil (0, 0)),
      CaseBranch [Annot (NInteger 1) (0, 0), Annot (NInteger 3) (0, 0)] (Annot NNil (0, 0))]"

lemma twice_one_run:
  "\<exists>s' ends. gen_branches2 (\<lambda>_ _. ret ()) 0 True twice_one [] (codegen_new [] demo_start) =
     (s', Inr ([(1, 5), (3, 5)], ends))"
  by (simp add: twice_one_def bind_def disp_from_def cur_pos_def asks_def ret_def emit_at_def emit_def
      modify_def gen_jmp_def codegen_new_def pos_disp_def push32_def)

lemma twice_one_table:
  "case_vector 1 3 10 [(1, 5), (3, 5)] = Inr [5, 10, 5]" "case_kind twice_one = (True, True, 1, 3)"
proof -
  have n: "unat (3 - 1 + 1 :: i64) = 3" by code_simp
  have r: "(replicate 3 10)[0 := 5, 2 := 5] = [5, 10, 5 :: int]" by code_simp
  show "case_vector 1 3 10 [(1, 5), (3, 5)] = Inr [5, 10, 5]"
    unfolding case_vector_def n by (simp add: r)
  show "case_kind twice_one = (True, True, 1, 3)"
    by (simp add: case_kind_def twice_one_def word_sless_alt)
qed

lemma twice_one_starts:
  "clause_starts (\<lambda>_ _. ret ()) True twice_one (codegen_new [] demo_start) = [0, 5]"
  by (simp add: twice_one_def bind_def emit_at_def emit_def modify_def gen_jmp_def codegen_new_def
      push32_def asks_def ret_def)

theorem case_table_last_witness:
  "sint (pick 1 twice_one [pos_disp 0 0, pos_disp 0 5] 10) = 5"
proof -
  obtain s' ends where r: "gen_branches2 (\<lambda>_ _. ret ()) 0 True twice_one [] (codegen_new [] demo_start) =
      (s', Inr ([(1, 5), (3, 5)], ends))" using twice_one_run by blast
  have "1 \<le>s (1 :: i64)" "1 \<le>s (3 :: i64)" by code_simp+
  from case_table_last [OF twice_one_table(2) r twice_one_table(1) this] show ?thesis
    by (simp add: index_at_def twice_one_starts)
qed

end
