(* ===== verification/Spec2Isabelle.thy ===== *)
theory Spec2Isabelle
  imports EqualityFacts Collection ArrayFacts InterpFacts CompileFuel CaseTables
begin

text \<open>
  ruruby, a Ruby interpreter in Rust: a verification development of its core.

  \<^bold>\<open>The program.\<close> Source text is tokenised, parsed and compiled to bytecode (src/parse), a stack
  machine executes the bytecode (src/vm), values are tagged 64-bit words or pointers to objects
  (src/value), objects live in the heap of a mark-and-sweep collector (src/alloc.rs), names are
  interned (src/id_table.rs), and the built-in classes are native functions over all of it
  (src/builtin).

  \<^bold>\<open>How the model is laid out.\<close> A theory per component; each opens with what it models.

  \<^item> \<open>Prelude\<close>: word types, the results \<open>fault + 'a\<close> (a Ruby error, a Rust panic, undefined
    behaviour), slices and indices that panic.
  \<^item> \<open>IdTable\<close>: src/id_table.rs. The interning interface is the locale \<open>interning\<close>, interpreted on
    \<open>get_ident_id\<close> and \<open>get_name\<close>.
  \<^item> \<open>F64\<close>: binary64 arithmetic on bit patterns (round to nearest even), of the standard library.
  \<^item> \<open>RValue\<close>: the objects of src/value/rvalue.rs, the structures they hold, and the enumeration of
    the values an object refers to, in the order of the code's \<open>GC::mark\<close>.
  \<^item> \<open>Values\<close>: src/value/value.rs, the tagged word: packing, unpacking, accessors. The locale
    \<open>object_heap\<close> is what packing needs of the object store.
  \<^item> \<open>Alloc\<close>: src/alloc.rs, the page allocator and the collector. \<open>Collector\<close> states the heap
    invariant, shows that allocation keeps it, and interprets \<open>object_heap\<close> on it; \<open>Marking\<close>,
    \<open>Sweeping\<close> and \<open>Collection\<close> prove the mark phase, the sweep and a whole collection.
  \<^item> \<open>Numeric\<close>: src/value/real.rs. \<open>Equality\<close>: the equality and the hash of values (src/value/value.rs)
    and of hash keys (src/value/hash.rs), tables included; \<open>EqualityFacts\<close>: symmetry, and independence
    of the depth. \<open>Arith\<close>: the operators of src/vm/executor.rs; \<open>ArithFacts\<close>: what they compute.
  \<^item> \<open>Inst\<close>: the opcodes of src/vm/vm_inst.rs. \<open>ISeq\<close>: src/vm/iseq.rs, bytecode reading, writing
    and generation, and jump threading; \<open>JumpThread\<close>: jump threading preserves the control flow.

  \<^item> \<open>Methods\<close>, \<open>MethodCache\<close>: src/vm/method.rs, the table of methods, the global and the inline
    caches of lookups and the version that invalidates them. \<open>Classes\<close>: src/value/class.rs and
    src/value/module.rs, classes, modules, inclusion, singleton classes; \<open>ClassFacts\<close> and
    \<open>ClassProps\<close>: the order of ancestors and what lookups find.
  \<^item> \<open>Arrays\<close>, \<open>ArrayFacts\<close>: src/value/array.rs, reading and writing by index, range and length,
    and \<open>retain\<close>. \<open>Hashes\<close>: src/value/hash.rs, both kinds of hash as one table, refining a map;
    the locale \<open>key_index\<close> is what a table needs of the lookup of its keys.
  \<^item> \<open>Arguments\<close>: src/vm/args.rs. \<open>Machine\<close>: the state of the virtual machine (the struct \<open>VM\<close> of
    src/vm/executor.rs and src/globals.rs), its stacks, frames, constants and global variables.
    \<open>Contexts\<close>: src/vm/context.rs, the making of a frame and the binding of arguments, the move of a
    frame to the heap; \<open>ContextFacts\<close>: what the binding computes.
  \<^item> \<open>Calls\<close>: src/vm/executor.rs, the call of methods, blocks, procs and accessors, and what
    single instructions do. \<open>Interp\<close>: src/vm/executor/opt_core.rs, one handler per instruction, the
    loop, and \<open>run_context\<close> with its exceptions.
  \<^item> \<open>Balance\<close>: the calculus \<open>settles\<close>, by which every operation of the machine leaves the program
    counter, the number of frames and of open classes. \<open>Flow\<close>: the calculus \<open>goes\<close>, by which every
    handler goes to a successor of its instruction. \<open>Runs\<close>: runs of contexts are balanced, by
    induction on their nesting. \<open>InterpFacts\<close>: the properties of the interpreter.
  \<^item> \<open>Nodes\<close>: src/parse/node.rs, the syntax tree, with the locations of src/util.rs and the collector
    of local variables of src/parse/parser.rs. \<open>Codegen\<close>: src/parse/codegen.rs, the compiler from
    the tree to bytecode: every kind of node, and the entry points \<open>parse_program\<close> and
    \<open>parse_program_eval\<close> of src/vm/executor.rs.
  \<^item> \<open>CodeShape\<close>: codes laid out in instructions, and what appending and patching keep of them.
    \<open>Generates\<close>: the judgement \<open>gens K A f R\<close>, by which a piece of the compiler appends whole
    instructions whose jumps lead to starts of instructions, or to the end until they are patched; it
    returns positions that can be jumped to (\<open>Bound\<close>) or patched (\<open>Slot\<close>). \<open>GenRules\<close>: its rules for
    contexts, loops, tables of \<open>case\<close>, the optimization and whole methods; \<open>GenSteps\<close>: the generators
    of single instructions; \<open>GenCode\<close>: every function of the compiler, up to \<open>gen\<close>. \<open>CompileFacts\<close>: what
    the compiler produces, and how it runs. \<open>CompileFuel\<close>: the recursion of the compiler is bounded by
    the tree. \<open>CaseTables\<close>: the tables of a \<open>case\<close> over integers.

  \<^bold>\<open>How the parts interact.\<close> The interpreter calls the operators, the lookups, the binding of arguments
  and the allocator, and each call may run Ruby code in a new context, which is a call of
  \<open>run_context\<close>: the definitions take it as the parameter \<open>run\<close>, and \<open>run_context\<close> passes itself. A
  built-in function is such a parameter too (\<open>m_native\<close>), and is itself given \<open>run\<close>; what the
  theorems ask of it is \<open>natives_settle\<close>, that it is balanced if the runs it starts are. The
  compiler calls the interner, the tables of methods and of \<open>case\<close>, the generators of \<open>ISeq\<close> and the
  optimizer; its output meets the interpreter in \<open>compiled_code_runs\<close>, which composes the closedness
  of what is generated, on the starts of its instructions (\<open>compile_closed\<close>), with the successors of the handlers, and the optimizer's
  output in \<open>optimized_loop_on_starts\<close>, which rests on the well-formedness of theory \<open>JumpThread\<close>.

  \<^bold>\<open>Bounds and fuel.\<close> Machine integers are words; counts of objects in memory are naturals. Integer
  arithmetic wraps, as in the release profile (a debug build panics instead). The recursions of the
  code that have no bound of their own take fuel, and running out is \<open>Undef\<close>: \<open>ctx_values\<close> (the
  chain of contexts; a fuel above the rank of the context is enough, \<open>context_mark_ends\<close>),
  \<open>value_eq\<close>, \<open>hash_key_eq\<close> and \<open>value_feed\<close> (the depth of the structure; more fuel does not change an
  answer of \<open>value_eq\<close> where tables have plain keys, \<open>value_eq_symmetric\<close>), \<open>chase\<close> (a chain of jumps; some fuel is enough without a cycle of jumps,
  \<open>optimize_terminates\<close>), the walks of classes and contexts (\<open>m_fuel\<close>), and the interpreter:
  \<open>exec_loop\<close> (instructions of one run; in code without backward jumps, fewer than its bytes are
  executed before the one that ends it, \<open>forward_code_ends\<close>), \<open>run_loop\<close> (exceptions rescued in one context) and \<open>run_context\<close>
  (nested runs). The compiler starts with one unit more than the size of the tree, which is enough
  (\<open>compile_fuel\<close>). A Ruby program may loop for ever, so no fuel is enough for all.

  \<^bold>\<open>Parameters.\<close> What the code takes from outside the repository is an argument of the definitions:
  the system allocator (\<open>os_alloc\<close>, whose promises are \<open>os_ok\<close>), and in the records \<open>env\<close> and \<open>menv\<close>
  the crates \<open>divrem\<close>, \<open>indexmap\<close>, \<open>fxhash\<close> and \<open>fancy-regex\<close> (of the last one, \<open>regexp_quiet\<close> asks that
  it does not touch the tables the compiler fills), the libm power, the display of a float, and of
  the program itself the built-in functions and the texts of errors. The lookups of hash tables (the
  record \<open>lookups\<close>) are given what the code feeds to the hasher and its equality of keys, and
  \<open>index_contract\<close> is what the crates document of them: a key that is found is equal, and one that is
  not found was hashed and differs from all keys with the same hash. They are functions of the memory
  as it is; a key that was changed after its insertion is looked for by the crates under its old
  hash, which is not modelled.

  \<^bold>\<open>What is asked of a program.\<close> \<open>placed\<close> asks of a tree that no method or class is defined inside a
  \<open>while\<close> loop of its code: the loop stack of the compiler is not restarted there, and a \<open>break\<close> in
  such a definition is patched in the wrong code. \<open>small\<close> asks that the tables of methods and of \<open>case\<close>
  have fewer than 2^32 entries and codes fewer than 2^31 bytes; the code counts them with 32 bits.

  \<^bold>\<open>Not modelled.\<close> The lexer and the parser, most built-in classes, the fast path
  of built-in iterators (\<open>eval_block_iter1\<close>), fibers and their context switch (assembly), strings
  beyond what the instructions need, input and output, the command line, and the text of error
  messages.
\<close>

end
